(* ===== verification/Rust_Prelude.thy ===== *)
theory Rust_Prelude
  imports Main "HOL-Library.Word"
begin

text \<open>
  The prelude of the development: the machine integers of the source (\<open>u8\<close> \dots \<open>u64\<close> as
  words, \<open>usize\<close> as \<open>nat\<close>), the results of Rust functions (\<open>Ok\<close>, \<open>Err\<close>, a panic, or a loop
  that has not ended within its fuel), slices and their checked and unchecked accesses,
  little-endian encodings, Rust strings (a \<open>String\<close> is its sequence of UTF-8 bytes, which is
  what a HOL \<open>string\<close> is), and the formatting of numbers in messages.  The collections
  \<open>outcome_simps\<close> and \<open>slice_simps\<close> carry the proofs of the components.
\<close>

unbundle bit_operations_syntax

named_theorems outcome_simps "evaluation of results and of the question mark operator"
named_theorems slice_simps "slices, their lengths and their parts"

section \<open>Machine integers\<close>

type_synonym u8 = "8 word"
type_synonym u16 = "16 word"
type_synonym u32 = "32 word"
type_synonym u64 = "64 word"
type_synonym i32 = "32 word"
type_synonym usize = nat
type_synonym bytes = "u8 list"

text \<open>\<open>i32::unsigned_abs\<close>: the absolute value of a signed word, as an unsigned one.\<close>

definition unsigned_abs :: "i32 \<Rightarrow> u32" where
  "unsigned_abs w = (if sint w < 0 then - w else w)"

text \<open>A cast \<open>as usize\<close> of a signed word extends its sign to 64 bits.\<close>

definition usize_of_i32 :: "i32 \<Rightarrow> usize" where
  "usize_of_i32 w = nat (sint w mod 2 ^ 64)"

section \<open>Results\<close>

text \<open>
  What a call of a Rust function gives: a value, an error that \<open>?\<close> hands on, a panic
  (an index out of range, an arithmetic overflow, a failed \<open>expect\<close>), or \<open>Diverge\<close>,
  which stands for a loop or recursion of the source that has used up the fuel of its model.
  A function that returns no \<open>Result\<close> but can panic has an outcome whose error is never built.
\<close>

datatype ('e, 'a) outcome = Ok 'a | Err 'e | Panic | Diverge

primrec bindO :: "('e, 'a) outcome \<Rightarrow> ('a \<Rightarrow> ('e, 'b) outcome) \<Rightarrow> ('e, 'b) outcome" where
  "bindO (Ok a) f = f a"
| "bindO (Err e) f = Err e"
| "bindO Panic f = Panic"
| "bindO Diverge f = Diverge"

primrec map_err :: "('e \<Rightarrow> 'f) \<Rightarrow> ('e, 'a) outcome \<Rightarrow> ('f, 'a) outcome" where
  "map_err g (Ok a) = Ok a"
| "map_err g (Err e) = Err (g e)"
| "map_err g Panic = Panic"
| "map_err g Diverge = Diverge"

primrec is_ok :: "('e, 'a) outcome \<Rightarrow> bool" where
  "is_ok (Ok a) = True"
| "is_ok (Err e) = False"
| "is_ok Panic = False"
| "is_ok Diverge = False"

text \<open>
  A call of a function that returns no \<open>Result\<close>, in a function with another error type: such a
  function can panic but has no error to hand on.
\<close>

primrec infallible :: "('e, 'a) outcome \<Rightarrow> ('f, 'a) outcome" where
  "infallible (Ok a) = Ok a"
| "infallible (Err e) = Panic"
| "infallible Panic = Panic"
| "infallible Diverge = Diverge"

text \<open>\<open>Option::ok_or_else\<close>.\<close>

definition ok_or :: "'e \<Rightarrow> 'a option \<Rightarrow> ('e, 'a) outcome" where
  "ok_or e x = (case x of None \<Rightarrow> Err e | Some a \<Rightarrow> Ok a)"

text \<open>A step that panics unless its condition holds.\<close>

definition guardP :: "bool \<Rightarrow> ('e, unit) outcome" where
  "guardP b = (if b then Ok () else Panic)"

lemma bindO_eq_Ok [outcome_simps]:
  "bindO x f = Ok b \<longleftrightarrow> (\<exists>a. x = Ok a \<and> f a = Ok b)"
  by (cases x) auto

lemma bindO_eq_Panic [outcome_simps]:
  "bindO x f = Panic \<longleftrightarrow> x = Panic \<or> (\<exists>a. x = Ok a \<and> f a = Panic)"
  by (cases x) auto

lemma bindO_eq_Diverge [outcome_simps]:
  "bindO x f = Diverge \<longleftrightarrow> x = Diverge \<or> (\<exists>a. x = Ok a \<and> f a = Diverge)"
  by (cases x) auto

lemma bindO_eq_Err [outcome_simps]:
  "bindO x f = Err e \<longleftrightarrow> x = Err e \<or> (\<exists>a. x = Ok a \<and> f a = Err e)"
  by (cases x) auto

lemma bindO_assoc: "bindO (bindO x f) g = bindO x (\<lambda>a. bindO (f a) g)"
  by (cases x) auto

lemma bindO_cong [fundef_cong]:
  "x = y \<Longrightarrow> (\<And>a. y = Ok a \<Longrightarrow> f a = g a) \<Longrightarrow> bindO x f = bindO y g"
  by (cases y) auto

text \<open>Keeps the simplifier out of the rest of a chain until its head has a value.\<close>

lemma bindO_weak_cong: "x = y \<Longrightarrow> bindO x f = bindO y f"
  by simp

lemma map_err_eq_Ok [outcome_simps]: "map_err g x = Ok a \<longleftrightarrow> x = Ok a"
  by (cases x) auto

lemma map_err_eq_Panic [outcome_simps]: "map_err g x = Panic \<longleftrightarrow> x = Panic"
  by (cases x) auto

lemma map_err_eq_Diverge [outcome_simps]: "map_err g x = Diverge \<longleftrightarrow> x = Diverge"
  by (cases x) auto

lemma infallible_eq_Ok [outcome_simps]: "infallible x = Ok a \<longleftrightarrow> x = Ok a"
  by (cases x) auto

lemma ok_or_simps [simp]: "ok_or e None = Err e" "ok_or e (Some a) = Ok a"
  by (simp_all add: ok_or_def)

lemma ok_or_eq_Ok [outcome_simps]: "ok_or e x = Ok a \<longleftrightarrow> x = Some a"
  by (cases x) auto

lemma ok_or_neq [simp]: "ok_or e x \<noteq> Panic" "ok_or e x \<noteq> Diverge"
  by (cases x; simp)+

text \<open>A \<open>map\<close> over a list whose function may fail: the first failure is the result.\<close>

primrec mapO :: "('a \<Rightarrow> ('e, 'b) outcome) \<Rightarrow> 'a list \<Rightarrow> ('e, 'b list) outcome" where
  "mapO f [] = Ok []"
| "mapO f (x # xs) = bindO (f x) (\<lambda>y. bindO (mapO f xs) (\<lambda>ys. Ok (y # ys)))"

lemma mapO_all_Ok: "(\<And>x. x \<in> set xs \<Longrightarrow> f x = Ok (g x)) \<Longrightarrow> mapO f xs = Ok (map g xs)"
  by (induction xs) auto

lemma mapO_eq_Ok: "mapO f xs = Ok ys \<longleftrightarrow> list_all2 (\<lambda>x y. f x = Ok y) xs ys"
proof (induction xs arbitrary: ys)
  case Nil
  then show ?case by auto
next
  case (Cons x xs)
  then show ?case by (cases ys) (auto simp: bindO_eq_Ok)
qed

lemma guardP_simps [simp]: "guardP True = Ok ()" "guardP False = Panic"
  by (simp_all add: guardP_def)

text \<open>A result that is a value or an error: no panic, and no loop that did not end.\<close>

named_theorems safe_intros "results that are neither a panic nor an endless loop"

definition safe :: "('e, 'a) outcome \<Rightarrow> bool" where
  "safe x \<longleftrightarrow> x \<noteq> Panic \<and> x \<noteq> Diverge"

lemma safe_Ok [simp, safe_intros]: "safe (Ok a)" by (simp add: safe_def)

lemma safe_Err [simp, safe_intros]: "safe (Err e)" by (simp add: safe_def)

lemma not_safe [simp]: "\<not> safe Panic" "\<not> safe Diverge" by (simp_all add: safe_def)

lemma safe_bind: "safe x \<Longrightarrow> (\<And>a. x = Ok a \<Longrightarrow> safe (f a)) \<Longrightarrow> safe (bindO x f)"
  by (cases x) auto

lemma safe_bind_prod:
  "safe x \<Longrightarrow> (\<And>a b. x = Ok (a, b) \<Longrightarrow> safe (f a b)) \<Longrightarrow> safe (bindO x (\<lambda>(a, b). f a b))"
  by (cases x) auto

lemma safe_if: "(b \<Longrightarrow> safe x) \<Longrightarrow> (\<not> b \<Longrightarrow> safe y) \<Longrightarrow> safe (if b then x else y)"
  by simp

lemma safe_ok_or [simp, safe_intros]: "safe (ok_or e x)"
  by (simp add: safe_def)

lemma safe_map_err [simp]: "safe (map_err g x) = safe x"
  by (cases x) auto

lemma safe_cases:
  assumes "safe x"
  obtains (Ok) a where "x = Ok a" | (Err) e where "x = Err e"
  using assms by (cases x) auto

text \<open>What holds of the value of a result, if it has one.\<close>

definition ensures :: "('a \<Rightarrow> bool) \<Rightarrow> ('e, 'a) outcome \<Rightarrow> bool" where
  "ensures P x \<longleftrightarrow> (\<forall>a. x = Ok a \<longrightarrow> P a)"

lemma ensures_simps [simp]: "ensures P (Ok a) = P a" "ensures P (Err e)" "ensures P Panic" "ensures P Diverge"
  by (simp_all add: ensures_def)

lemma ensuresD: "ensures P x \<Longrightarrow> x = Ok a \<Longrightarrow> P a"
  by (simp add: ensures_def)

lemma ensuresI: "(\<And>a. x = Ok a \<Longrightarrow> P a) \<Longrightarrow> ensures P x"
  by (simp add: ensures_def)

lemma ensures_bind: "(\<And>a. x = Ok a \<Longrightarrow> ensures P (f a)) \<Longrightarrow> ensures P (bindO x f)"
  by (cases x) auto

lemma ensures_bind_prod:
  "(\<And>a b. x = Ok (a, b) \<Longrightarrow> ensures P (f a b)) \<Longrightarrow> ensures P (bindO x (\<lambda>(a, b). f a b))"
  by (cases x) auto

lemma ensures_if: "(b \<Longrightarrow> ensures P x) \<Longrightarrow> (\<not> b \<Longrightarrow> ensures P y) \<Longrightarrow> ensures P (if b then x else y)"
  by simp

section \<open>Arithmetic of the build\<close>

text \<open>
  A plain \<open>+\<close> or \<open>-\<close> of the source panics on overflow when the build has overflow checks
  (the dev profile) and wraps around when it has not (the release profile).  The model takes the
  profile as a parameter.
\<close>

definition add_w :: "bool \<Rightarrow> 'a::len word \<Rightarrow> 'a word \<Rightarrow> ('e, 'a word) outcome" where
  "add_w checks a b =
     (if unat a + unat b < 2 ^ LENGTH('a) then Ok (a + b)
      else if checks then Panic else Ok (a + b))"

definition checked_add :: "'a::len word \<Rightarrow> 'a word \<Rightarrow> 'a word option" where
  "checked_add a b = (if unat a + unat b < 2 ^ LENGTH('a) then Some (a + b) else None)"

definition usize_add :: "bool \<Rightarrow> usize \<Rightarrow> usize \<Rightarrow> ('e, usize) outcome" where
  "usize_add checks a b =
     (if a + b < 2 ^ 64 then Ok (a + b)
      else if checks then Panic else Ok ((a + b) mod 2 ^ 64))"

lemma add_w_no_overflow [simp]:
  "unat a + unat b < 2 ^ LENGTH('a::len) \<Longrightarrow> add_w c (a :: 'a word) b = Ok (a + b)"
  by (simp add: add_w_def)

lemma usize_add_no_overflow [simp]: "a + b < 2 ^ 64 \<Longrightarrow> usize_add c a b = Ok (a + b)"
  by (simp add: usize_add_def)

section \<open>Slices\<close>

text \<open>\<open>buffer.get(a..)\<close> and \<open>buffer.get(a..b)\<close>.\<close>

definition get_from :: "'a list \<Rightarrow> usize \<Rightarrow> 'a list option" where
  "get_from xs a = (if a \<le> length xs then Some (drop a xs) else None)"

definition get_range :: "'a list \<Rightarrow> usize \<Rightarrow> usize \<Rightarrow> 'a list option" where
  "get_range xs a b = (if a \<le> b \<and> b \<le> length xs then Some (take (b - a) (drop a xs)) else None)"

text \<open>\<open>buffer[a..]\<close>, \<open>buffer[a..b]\<close> and \<open>buffer[i]\<close>, which panic where \<open>get\<close> gives \<open>None\<close>.\<close>

definition index_from :: "'a list \<Rightarrow> usize \<Rightarrow> ('e, 'a list) outcome" where
  "index_from xs a = (if a \<le> length xs then Ok (drop a xs) else Panic)"

definition index_range :: "'a list \<Rightarrow> usize \<Rightarrow> usize \<Rightarrow> ('e, 'a list) outcome" where
  "index_range xs a b = (if a \<le> b \<and> b \<le> length xs then Ok (take (b - a) (drop a xs)) else Panic)"

definition index_at :: "'a list \<Rightarrow> usize \<Rightarrow> ('e, 'a) outcome" where
  "index_at xs i = (if i < length xs then Ok (xs ! i) else Panic)"

text \<open>\<open>buffer[a..a + src.len()].copy_from_slice(src)\<close>.\<close>

definition copy_at :: "'a list \<Rightarrow> usize \<Rightarrow> 'a list \<Rightarrow> ('e, 'a list) outcome" where
  "copy_at xs a src =
     (if a + length src \<le> length xs then Ok (take a xs @ src @ drop (a + length src) xs)
      else Panic)"

text \<open>
  The difference of two pointers into one buffer.  Every \<open>input\<close> that a parser hands on is a
  suffix of the slice it started from, so the distance between them is the difference of their
  lengths.
\<close>

definition ptr_diff :: "'a list \<Rightarrow> 'a list \<Rightarrow> usize" where
  "ptr_diff start input = length start - length input"

lemma get_from_eq_Some [slice_simps]:
  "get_from xs a = Some ys \<longleftrightarrow> a \<le> length xs \<and> ys = drop a xs"
  by (auto simp: get_from_def)

lemma get_range_eq_Some [slice_simps]:
  "get_range xs a b = Some ys \<longleftrightarrow> a \<le> b \<and> b \<le> length xs \<and> ys = take (b - a) (drop a xs)"
  by (auto simp: get_range_def)

lemma index_at_eq_Ok [slice_simps]:
  "index_at xs i = Ok x \<longleftrightarrow> i < length xs \<and> x = xs ! i"
  by (auto simp: index_at_def)

lemma index_at_eq_Panic [slice_simps]: "index_at xs i = Panic \<longleftrightarrow> length xs \<le> i"
  by (auto simp: index_at_def)

lemma index_range_eq_Ok [slice_simps]:
  "index_range xs a b = Ok ys \<longleftrightarrow> a \<le> b \<and> b \<le> length xs \<and> ys = take (b - a) (drop a xs)"
  by (auto simp: index_range_def)

lemma copy_at_eq_Ok [slice_simps]:
  "copy_at xs a src = Ok ys \<longleftrightarrow>
     a + length src \<le> length xs \<and> ys = take a xs @ src @ drop (a + length src) xs"
  by (auto simp: copy_at_def)

lemma length_copy_at: "copy_at xs a src = Ok ys \<Longrightarrow> length ys = length xs"
  by (auto simp: copy_at_eq_Ok)

lemma copy_at_reads_back:
  "copy_at xs a src = Ok ys \<Longrightarrow> take (length src) (drop a ys) = src"
  by (auto simp: copy_at_eq_Ok min_def)

lemma copy_at_frame_before:
  "copy_at xs a src = Ok ys \<Longrightarrow> i < a \<Longrightarrow> ys ! i = xs ! i"
  by (auto simp: copy_at_eq_Ok nth_append)

lemma copy_at_frame_after:
  "copy_at xs a src = Ok ys \<Longrightarrow> a + length src \<le> i \<Longrightarrow> i < length xs \<Longrightarrow> ys ! i = xs ! i"
  by (auto simp: copy_at_eq_Ok nth_append)

text \<open>Turns the length of a literal back into a numeral.\<close>

lemmas lit_len = numeral_2_eq_2 [symmetric]

section \<open>Little-endian encodings\<close>

primrec le_nat :: "bytes \<Rightarrow> nat" where
  "le_nat [] = 0"
| "le_nat (b # bs) = unat b + 256 * le_nat bs"

primrec nat_le :: "nat \<Rightarrow> nat \<Rightarrow> bytes" where
  "nat_le 0 n = []"
| "nat_le (Suc k) n = of_nat (n mod 256) # nat_le k (n div 256)"

definition from_le_bytes :: "bytes \<Rightarrow> 'a::len word" where
  "from_le_bytes bs = of_nat (le_nat bs)"

definition from_be_bytes :: "bytes \<Rightarrow> 'a::len word" where
  "from_be_bytes bs = of_nat (le_nat (rev bs))"

definition to_le_bytes :: "'a::len word \<Rightarrow> bytes" where
  "to_le_bytes w = nat_le (LENGTH('a) div 8) (unat w)"

lemma nat_le_numeral [simp]:
  "nat_le (numeral k) n = of_nat (n mod 256) # nat_le (pred_numeral k) (n div 256)"
  by (simp only: numeral_eq_Suc [of k] nat_le.simps)

lemma length_nat_le [simp]: "length (nat_le k n) = k"
  by (induction k arbitrary: n) auto

lemma length_to_le_bytes [simp]: "length (to_le_bytes (w :: 'a::len word)) = LENGTH('a) div 8"
  by (simp add: to_le_bytes_def)

lemma unat_less: "unat (w :: 'a::len word) < 2 ^ LENGTH('a)"
  by (rule unsigned_less)

lemma unat_of_nat_less: "n < 2 ^ LENGTH('a) \<Longrightarrow> unat (of_nat n :: 'a::len word) = n"
  by (simp add: unat_of_nat)

lemma unat_u8_less: "unat (b :: u8) < 256"
  using unat_less [of b] by simp

lemma power_256_eq: "(256 :: nat) ^ k = 2 ^ (8 * k)"
  by (simp add: power_mult)

lemma le_nat_bound: "le_nat bs < 256 ^ length bs"
proof (induction bs)
  case Nil
  then show ?case by simp
next
  case (Cons b bs)
  have "unat b < 256" by (rule unat_u8_less)
  with Cons.IH show ?case by simp
qed

lemma unat_of_nat_mod_256 [simp]: "unat (of_nat (n mod 256) :: u8) = n mod 256"
  by (simp add: unat_of_nat)

lemma le_nat_nat_le: "le_nat (nat_le k n) = n mod 256 ^ k"
proof (induction k arbitrary: n)
  case 0
  then show ?case by simp
next
  case (Suc k)
  have "n mod 256 + 256 * (n div 256 mod 256 ^ k) = n mod (256 * 256 ^ k)"
    by (simp add: mod_mult2_eq)
  with Suc.IH show ?case by simp
qed

lemma nat_le_le_nat: "nat_le (length bs) (le_nat bs) = bs"
proof (induction bs)
  case Nil
  then show ?case by simp
next
  case (Cons b bs)
  have "unat b < 256" by (rule unat_u8_less)
  then have "(unat b + 256 * le_nat bs) mod 256 = unat b"
    and "(unat b + 256 * le_nat bs) div 256 = le_nat bs"
    by simp_all
  with Cons.IH show ?case by simp
qed

lemma unat_from_le_bytes:
  assumes "8 * length bs \<le> LENGTH('a::len)"
  shows "unat (from_le_bytes bs :: 'a word) = le_nat bs"
proof -
  have "(256 :: nat) ^ length bs = 2 ^ (8 * length bs)"
    by (rule power_256_eq)
  also have "\<dots> \<le> 2 ^ LENGTH('a)"
    using assms by (rule power_increasing) simp
  finally have "le_nat bs < 2 ^ LENGTH('a)"
    using le_nat_bound [of bs] by linarith
  then show ?thesis
    by (simp add: from_le_bytes_def unat_of_nat)
qed

lemma to_le_bytes_from_le_bytes:
  assumes "8 * length bs = LENGTH('a::len)"
  shows "to_le_bytes (from_le_bytes bs :: 'a word) = bs"
proof -
  have "LENGTH('a) div 8 = length bs" using assms by simp
  then show ?thesis
    using assms unat_from_le_bytes [where ?'a = 'a, of bs] nat_le_le_nat [of bs]
    by (simp add: to_le_bytes_def)
qed

lemma from_le_bytes_to_le_bytes:
  assumes "8 dvd LENGTH('a::len)"
  shows "from_le_bytes (to_le_bytes w) = (w :: 'a word)"
proof -
  have "8 * (LENGTH('a) div 8) = LENGTH('a)" using assms by simp
  then have "(256 :: nat) ^ (LENGTH('a) div 8) = 2 ^ LENGTH('a)"
    by (simp add: power_256_eq)
  then have "le_nat (nat_le (LENGTH('a) div 8) (unat w)) = unat w"
    by (simp add: le_nat_nat_le unat_less)
  then show ?thesis
    by (simp add: from_le_bytes_def to_le_bytes_def)
qed

lemma le_bytes_id [simp]:
  "from_le_bytes (to_le_bytes w) = (w :: u32)" "from_le_bytes (to_le_bytes x) = (x :: u64)"
  "from_le_bytes (to_le_bytes v) = (v :: u16)"
  by (rule from_le_bytes_to_le_bytes; simp)+

section \<open>Numbers in messages\<close>

text \<open>The \<open>Display\<close> of an unsigned integer, and \<open>LowerHex\<close> / \<open>UpperHex\<close> of a word.\<close>

definition digit_char :: "nat \<Rightarrow> char" where
  "digit_char d = char_of (48 + d)"

definition hex_digit :: "bool \<Rightarrow> nat \<Rightarrow> char" where
  "hex_digit upper d = (if d < 10 then char_of (48 + d)
     else if upper then char_of (55 + d) else char_of (87 + d))"

fun show_nat :: "nat \<Rightarrow> string" where
  "show_nat n = (if n < 10 then [digit_char n] else show_nat (n div 10) @ [digit_char (n mod 10)])"

fun show_hex :: "bool \<Rightarrow> nat \<Rightarrow> string" where
  "show_hex upper n = (if n < 16 then [hex_digit upper n]
     else show_hex upper (n div 16) @ [hex_digit upper (n mod 16)])"

declare show_nat.simps [simp del] show_hex.simps [simp del]

definition pad_zeros :: "nat \<Rightarrow> string \<Rightarrow> string" where
  "pad_zeros k s = replicate (k - length s) (CHR ''0'') @ s"

section \<open>Strings\<close>

text \<open>
  A byte of a Rust \<open>String\<close> is a HOL \<open>char\<close>.  The functions below are those of \<open>str\<close> that the
  source calls with ASCII patterns, for which byte offsets and character boundaries agree.
\<close>

definition backslash :: char where "backslash = CHR 0x5C"

definition byte_of_char :: "char \<Rightarrow> u8" where "byte_of_char c = of_nat (of_char c)"

definition char_of_byte :: "u8 \<Rightarrow> char" where "char_of_byte b = char_of (unat b)"

definition bytes_of :: "string \<Rightarrow> bytes" where "bytes_of s = map byte_of_char s"

definition ascii_lower :: "char \<Rightarrow> char" where
  "ascii_lower c = (let n = of_char c :: nat in if 65 \<le> n \<and> n \<le> 90 then char_of (n + 32) else c)"

definition to_ascii_lowercase :: "string \<Rightarrow> string" where
  "to_ascii_lowercase s = map ascii_lower s"

text \<open>\<open>str::find\<close> of a character, as a byte offset, and \<open>str::rfind\<close>.\<close>

primrec find_char :: "char \<Rightarrow> string \<Rightarrow> nat option" where
  "find_char c [] = None"
| "find_char c (x # xs) = (if x = c then Some 0 else map_option Suc (find_char c xs))"

definition rfind_char :: "char \<Rightarrow> string \<Rightarrow> nat option" where
  "rfind_char c s = map_option (\<lambda>i. length s - 1 - i) (find_char c (rev s))"

text \<open>\<open>str::split\<close> on a character: one segment more than separators, the empty string included.\<close>

fun split_char :: "char \<Rightarrow> string \<Rightarrow> string list" where
  "split_char c [] = [[]]"
| "split_char c (x # xs) =
     (if x = c then [] # split_char c xs
      else (case split_char c xs of [] \<Rightarrow> [[x]] | s # ss \<Rightarrow> (x # s) # ss))"

definition trim_start_char :: "char \<Rightarrow> string \<Rightarrow> string" where
  "trim_start_char c s = dropWhile (\<lambda>x. x = c) s"

definition trim_end_char :: "char \<Rightarrow> string \<Rightarrow> string" where
  "trim_end_char c s = rev (dropWhile (\<lambda>x. x = c) (rev s))"

lemma to_ascii_lowercase_length [simp]: "length (to_ascii_lowercase s) = length s"
  by (simp add: to_ascii_lowercase_def)

lemma ascii_lower_idem [simp]: "ascii_lower (ascii_lower c) = ascii_lower c"
  by (simp add: ascii_lower_def Let_def)

lemma to_ascii_lowercase_idem [simp]:
  "to_ascii_lowercase (to_ascii_lowercase s) = to_ascii_lowercase s"
  by (simp add: to_ascii_lowercase_def)

lemma find_char_less: "find_char c s = Some i \<Longrightarrow> i < length s \<and> s ! i = c"
  by (induction s arbitrary: i) (auto split: if_splits)

lemma split_char_nonempty [simp]: "split_char c s \<noteq> []"
  by (induction s) (auto split: list.splits)

lemma split_char_no_sep: "c \<notin> set s \<Longrightarrow> split_char c s = [s]"
  by (induction s) auto

lemma split_char_append:
  "c \<notin> set s \<Longrightarrow> split_char c (s @ c # t) = s # split_char c t"
  by (induction s) (auto split: list.splits)

end
