(* ===== verification/Externals.thy ===== *)
theory Externals
  imports Rust_Prelude
begin

text \<open>
  The crates that the source calls and whose code is not part of the repository: \<open>nom\<close> (the
  byte-level parsers), \<open>blake3\<close>, \<open>regex\<close> and \<open>winstructs\<close>, and the overflow checks of the
  build profile.  They are the fields of the record \<open>env\<close>, an argument \<open>N\<close> of every definition
  that uses one of them.  The locale \<open>nom_spec\<close> states what the documentation of \<open>nom\<close> promises of
  the parsers the source calls; the functions whose names end in \<open>_doc\<close> write that documentation
  down, and the record \<open>env_ref\<close> built from them shows that it can be met.  Combinators of
  \<open>nom\<close> that take a parser of one of the model's own types (\<open>count\<close>, \<open>alt\<close>, \<open>many0\<close>) are added
  by the components that call them, each extending the record and the locale.
\<close>

named_theorems nom_simps "what the parsers of nom do"

section \<open>Parsers and their results\<close>

datatype ErrorKind = KTag | KEof | KCount | KAlt | KMany0

datatype nom_err = NomIncomplete | NomError bytes ErrorKind | NomFailure bytes ErrorKind

type_synonym 'a iresult = "(nom_err, bytes \<times> 'a) outcome"
type_synonym 'a parser = "bytes \<Rightarrow> 'a iresult"

text \<open>
  A hash is compared by its bytes, a \<open>Guid\<close> is its sixteen bytes, a compiled \<open>Regex\<close> is its
  pattern and a \<open>SecurityDescriptor\<close> is what the bytes it is read from say.
\<close>

type_synonym Hash = bytes
type_synonym Guid = bytes
type_synonym Regex = string
type_synonym SecurityDescriptor = bytes

record env =
  overflow_checks :: bool
  nom_tag :: "string \<Rightarrow> bytes parser"
  nom_take :: "nat \<Rightarrow> bytes parser"
  nom_take_streaming :: "nat \<Rightarrow> bytes parser"
  nom_le_u16 :: "u16 parser"
  nom_le_u32 :: "u32 parser"
  nom_le_i32 :: "i32 parser"
  nom_le_u64 :: "u64 parser"
  nom_count_u32 :: "u32 parser \<Rightarrow> nat \<Rightarrow> u32 list parser"
  blake3 :: "bytes list \<Rightarrow> Hash"
  guid_from_buffer :: "bytes \<Rightarrow> string + Guid"
  regex_new :: "string \<Rightarrow> string + Regex"
  regex_is_match :: "Regex \<Rightarrow> string \<Rightarrow> bool"
  security_descriptor_from_stream :: "bytes \<Rightarrow> string + SecurityDescriptor"

section \<open>The documented behaviour of nom\<close>

definition tag_doc :: "string \<Rightarrow> bytes parser" where
  "tag_doc t i = (if take (length t) i = bytes_of t
     then Ok (drop (length t) i, bytes_of t) else Err (NomError i KTag))"

definition take_doc :: "nat \<Rightarrow> bytes parser" where
  "take_doc n i = (if n \<le> length i then Ok (drop n i, take n i) else Err (NomError i KEof))"

definition take_streaming_doc :: "nat \<Rightarrow> bytes parser" where
  "take_streaming_doc n i = (if n \<le> length i then Ok (drop n i, take n i) else Err NomIncomplete)"

definition le_doc :: "nat \<Rightarrow> 'a::len word parser" where
  "le_doc k i = (if k \<le> length i then Ok (drop k i, from_le_bytes (take k i))
     else Err (NomError i KEof))"

primrec count_doc :: "'a parser \<Rightarrow> nat \<Rightarrow> 'a list parser" where
  "count_doc p 0 i = Ok (i, [])"
| "count_doc p (Suc n) i =
     bindO (p i) (\<lambda>(i', x). bindO (count_doc p n i') (\<lambda>(i'', xs). Ok (i'', x # xs)))"

primrec alt_doc :: "'a parser list \<Rightarrow> 'a parser" where
  "alt_doc [] i = Err (NomError i KAlt)"
| "alt_doc (p # ps) i =
     (case p i of
        Err (NomError j k) \<Rightarrow> if ps = [] then Err (NomError j k) else alt_doc ps i
      | r \<Rightarrow> r)"

function many0_doc :: "'a parser \<Rightarrow> 'a list parser" where
  "many0_doc p i =
     (case p i of
        Ok (i', x) \<Rightarrow>
          if length i' < length i
          then bindO (many0_doc p i') (\<lambda>(i'', xs). Ok (i'', x # xs))
          else Err (NomError i KMany0)
      | Err (NomError j k) \<Rightarrow> Ok (i, [])
      | Err e \<Rightarrow> Err e
      | Panic \<Rightarrow> Panic
      | Diverge \<Rightarrow> Diverge)"
  by pat_completeness auto
termination
  by (relation "measure (\<lambda>(p, i). length i)") auto

declare many0_doc.simps [simp del]

locale nom_spec =
  fixes N :: "'z env_scheme"
  assumes tag [nom_simps]: "nom_tag N t i = tag_doc t i"
    and take [nom_simps]: "nom_take N n i = take_doc n i"
    and take_streaming [nom_simps]: "nom_take_streaming N n i = take_streaming_doc n i"
    and le_u16 [nom_simps]: "nom_le_u16 N i = le_doc 2 i"
    and le_u32 [nom_simps]: "nom_le_u32 N i = le_doc 4 i"
    and le_i32 [nom_simps]: "nom_le_i32 N i = le_doc 4 i"
    and le_u64 [nom_simps]: "nom_le_u64 N i = le_doc 8 i"
    and count_u32 [nom_simps]: "nom_count_u32 N p n i = count_doc p n i"

text \<open>An environment whose \<open>nom\<close> is the documented one; its hash is not a hash of cryptographic
  strength, its regular expressions match literally.\<close>

definition env_ref :: env where
  "env_ref = \<lparr>overflow_checks = True,
     nom_tag = tag_doc, nom_take = take_doc, nom_take_streaming = take_streaming_doc,
     nom_le_u16 = le_doc 2, nom_le_u32 = le_doc 4, nom_le_i32 = le_doc 4, nom_le_u64 = le_doc 8,
     nom_count_u32 = count_doc,
     blake3 = concat,
     guid_from_buffer = (\<lambda>b. if length b < 16 then Inl ''An I/O error has occurred''
                              else Inr (take 16 b)),
     regex_new = Inr,
     regex_is_match = (\<lambda>r s. r = s),
     security_descriptor_from_stream = Inr\<rparr>"

section \<open>What the parsers consume\<close>

lemma tag_doc_eq_Ok [outcome_simps]:
  "tag_doc t i = Ok (i', x) \<longleftrightarrow>
     take (length t) i = bytes_of t \<and> i' = drop (length t) i \<and> x = bytes_of t"
  by (auto simp: tag_doc_def)

lemma take_doc_eq_Ok [outcome_simps]:
  "take_doc n i = Ok (i', x) \<longleftrightarrow> n \<le> length i \<and> i' = drop n i \<and> x = take n i"
  by (auto simp: take_doc_def)

lemma take_streaming_doc_eq_Ok [outcome_simps]:
  "take_streaming_doc n i = Ok (i', x) \<longleftrightarrow> n \<le> length i \<and> i' = drop n i \<and> x = take n i"
  by (auto simp: take_streaming_doc_def)

lemma le_doc_eq_Ok [outcome_simps]:
  "le_doc n i = Ok (i', x) \<longleftrightarrow> n \<le> length i \<and> i' = drop n i \<and> x = from_le_bytes (take n i)"
  by (auto simp: le_doc_def)

text \<open>The parsers on an input that is long enough: the forward rules of a chain.\<close>

lemma doc_Ok:
  "take (length t) i = bytes_of t \<Longrightarrow> tag_doc t i = Ok (drop (length t) i, bytes_of t)"
  "n \<le> length i \<Longrightarrow> take_doc n i = Ok (drop n i, take n i)"
  "n \<le> length i \<Longrightarrow> take_streaming_doc n i = Ok (drop n i, take n i)"
  "n \<le> length i \<Longrightarrow> le_doc n i = Ok (drop n i, from_le_bytes (take n i))"
  by (simp_all add: tag_doc_def take_doc_def take_streaming_doc_def le_doc_def)

lemma doc_never_panics [simp]:
  "tag_doc t i \<noteq> Panic" "take_doc n i \<noteq> Panic" "take_streaming_doc n i \<noteq> Panic"
  "le_doc n i \<noteq> Panic"
  "tag_doc t i \<noteq> Diverge" "take_doc n i \<noteq> Diverge" "take_streaming_doc n i \<noteq> Diverge"
  "le_doc n i \<noteq> Diverge"
  by (simp_all add: tag_doc_def take_doc_def take_streaming_doc_def le_doc_def)

lemma length_bytes_of [simp]: "length (bytes_of s) = length s"
  by (simp add: bytes_of_def)

lemma take_bytes_of_length: "take n i = bytes_of t \<Longrightarrow> length t = n \<Longrightarrow> n \<le> length i"
  by (metis length_bytes_of length_take min.cobounded1)

lemma tag_doc_length: "tag_doc t i = Ok (i', x) \<Longrightarrow> length i = length t + length i'"
proof -
  assume "tag_doc t i = Ok (i', x)"
  then have p: "take (length t) i = bytes_of t" and i': "i' = drop (length t) i"
    by (auto simp: tag_doc_eq_Ok)
  from p have "min (length i) (length t) = length t"
    by (metis length_take length_bytes_of)
  with i' show ?thesis by simp
qed

text \<open>A parser that always takes \<open>w\<close> bytes, and what \<open>count\<close> makes of it.\<close>

definition fixed_width :: "nat \<Rightarrow> 'a parser \<Rightarrow> (bytes \<Rightarrow> 'a) \<Rightarrow> bool" where
  "fixed_width w p dec \<longleftrightarrow>
     (\<forall>i. if w \<le> length i then p i = Ok (drop w i, dec (take w i))
          else (\<exists>j k. p i = Err (NomError j k)))"

lemma fixed_width_le_doc: "fixed_width k (le_doc k) from_le_bytes"
  by (simp add: fixed_width_def le_doc_def)

lemma count_doc_fixed_Ok:
  assumes "fixed_width w p dec" and "w * n \<le> length i"
  shows "count_doc p n i =
    Ok (drop (w * n) i, map (\<lambda>k. dec (take w (drop (w * k) i))) [0..<n])"
  using assms(2)
proof (induction n arbitrary: i)
  case 0
  then show ?case by simp
next
  case (Suc n)
  have p: "p i = Ok (drop w i, dec (take w i))"
    using assms(1) Suc.prems by (simp add: fixed_width_def)
  have "count_doc p n (drop w i) =
    Ok (drop (w * n) (drop w i), map (\<lambda>k. dec (take w (drop (w * k) (drop w i)))) [0..<n])"
    using Suc.prems by (intro Suc.IH) simp
  then show ?case
    by (simp add: p upt_conv_Cons map_Suc_upt [symmetric] add.commute comp_def del: upt_Suc)
qed

lemma count_doc_fixed_Err:
  assumes "fixed_width w p dec" and "length i < w * n"
  shows "\<exists>j k. count_doc p n i = Err (NomError j k)"
  using assms(2)
proof (induction n arbitrary: i)
  case 0
  then show ?case by simp
next
  case (Suc n)
  show ?case
  proof (cases "w \<le> length i")
    case True
    then have p: "p i = Ok (drop w i, dec (take w i))"
      using assms(1) by (simp add: fixed_width_def)
    have "length (drop w i) < w * n" using Suc.prems True by simp
    then obtain j k where "count_doc p n (drop w i) = Err (NomError j k)" using Suc.IH by blast
    then show ?thesis by (simp add: p)
  next
    case False
    then obtain j k where "p i = Err (NomError j k)" using assms(1) by (metis fixed_width_def)
    then show ?thesis by simp
  qed
qed

lemma count_doc_fixed_eq_Ok:
  assumes "fixed_width w p dec"
  shows "count_doc p n i = Ok (i', xs) \<longleftrightarrow>
    w * n \<le> length i \<and> i' = drop (w * n) i \<and>
    xs = map (\<lambda>k. dec (take w (drop (w * k) i))) [0..<n]"
proof (cases "w * n \<le> length i")
  case True
  then show ?thesis using count_doc_fixed_Ok [OF assms True] by auto
next
  case False
  then obtain j k where "count_doc p n i = Err (NomError j k)"
    using count_doc_fixed_Err [OF assms, of i n] by auto
  then show ?thesis using False by simp
qed

lemma count_doc_fixed_total:
  assumes "fixed_width w p dec"
  shows "count_doc p n i \<noteq> Panic \<and> count_doc p n i \<noteq> Diverge"
  using count_doc_fixed_Ok [OF assms, of n i] count_doc_fixed_Err [OF assms, of i n]
  by (cases "w * n \<le> length i") auto

text \<open>\<open>count\<close> reads back what was written item by item.\<close>

lemma count_doc_roundtrip:
  assumes "\<And>x rest. x \<in> set xs \<Longrightarrow> p (enc x @ rest) = Ok (rest, dec x)"
  shows "count_doc p (length xs) (concat (map enc xs) @ rest) = Ok (rest, map dec xs)"
  using assms by (induction xs) auto

lemma count_doc_length:
  assumes "\<And>i i' x. p i = Ok (i', x) \<Longrightarrow> length i' \<le> length i"
  shows "count_doc p n i = Ok (i', xs) \<Longrightarrow> length i' \<le> length i \<and> length xs = n"
proof (induction n arbitrary: i xs)
  case 0
  then show ?case by simp
next
  case (Suc n)
  then obtain j x ys where p: "p i = Ok (j, x)" and c: "count_doc p n j = Ok (i', ys)"
    and xs: "xs = x # ys"
    by (auto simp: bindO_eq_Ok)
  from Suc.IH [OF c] assms [OF p] xs show ?case by auto
qed

text \<open>A parser that takes exactly \<open>k\<close> bytes whenever it succeeds; chains of such parsers add up.\<close>

definition consumes :: "nat \<Rightarrow> 'a parser \<Rightarrow> bool" where
  "consumes k p \<longleftrightarrow> (\<forall>i i' x. p i = Ok (i', x) \<longrightarrow> k \<le> length i \<and> i' = drop k i)"

lemma consumesD: "consumes k p \<Longrightarrow> p i = Ok (i', x) \<Longrightarrow> k \<le> length i \<and> i' = drop k i"
  by (simp add: consumes_def)

lemma consumes_bind:
  assumes "consumes a p" and "a \<le> n" and "\<And>x. consumes (n - a) (q x)"
  shows "consumes n (\<lambda>i. bindO (p i) (\<lambda>(i, x). q x i))"
  unfolding consumes_def
proof (intro allI impI)
  fix i i' x
  assume "bindO (p i) (\<lambda>(i, x). q x i) = Ok (i', x)"
  then obtain j y where p: "p i = Ok (j, y)" and q: "q y j = Ok (i', x)"
    by (auto simp: bindO_eq_Ok)
  from consumesD [OF assms(1) p] consumesD [OF assms(3) q] assms(2)
  show "n \<le> length i \<and> i' = drop n i"
    by auto
qed

lemma consumes_pure: "(\<And>y. consumes b (q y)) \<Longrightarrow> consumes b (\<lambda>i. bindO r (\<lambda>y. q y i))"
  by (auto simp: consumes_def bindO_eq_Ok)

lemma consumes_pure_pair:
  "(\<And>y z. consumes b (q y z)) \<Longrightarrow> consumes b (\<lambda>i. bindO r (\<lambda>(y, z). q y z i))"
  unfolding consumes_def by (clarsimp simp: bindO_eq_Ok) blast

lemma consumes_return: "n = 0 \<Longrightarrow> consumes n (\<lambda>i. Ok (i, f i))"
  by (simp add: consumes_def)

lemma consumes_docs:
  "consumes (length t) (tag_doc t)" "consumes n (take_doc n)" "consumes n (take_streaming_doc n)"
  "consumes n (le_doc n)"
  using tag_doc_length
  by (fastforce simp: consumes_def tag_doc_eq_Ok take_doc_eq_Ok take_streaming_doc_eq_Ok le_doc_eq_Ok)+

context nom_spec
begin

lemma safe_nom [safe_intros]:
  "safe (nom_tag N t i)" "safe (nom_take N n i)" "safe (nom_take_streaming N n i)"
  "safe (nom_le_u16 N i)" "safe (nom_le_u32 N i)" "safe (nom_le_i32 N i)" "safe (nom_le_u64 N i)"
  by (simp_all add: safe_def tag take take_streaming le_u16 le_u32 le_i32 le_u64)

lemma consumes_nom:
  "consumes 2 (nom_le_u16 N)" "consumes 4 (nom_le_u32 N)" "consumes 4 (nom_le_i32 N)"
  "consumes 8 (nom_le_u64 N)" "consumes k (nom_take N k)" "consumes k (nom_take_streaming N k)"
  "consumes (length t) (nom_tag N t)"
  using consumes_docs unfolding consumes_def tag take take_streaming le_u16 le_u32 le_i32 le_u64
  by blast+

end

interpretation ref_nom: nom_spec env_ref
  by unfold_locales (simp_all add: env_ref_def)

end
