(* ===== verification/Diagnostics.thy ===== *)
theory Diagnostics
  imports Externals
begin

text \<open>
  The errors of \<open>src/src/err.rs\<close> with their messages and conversions, and the warning lists of
  \<open>src/src/log.rs\<close>.  \<open>Logs\<close> keeps an optional vector; the locale \<open>append_log\<close> states what its
  clients rely on (entries are only ever appended, in order), and the interpretation shows that
  \<open>Logs\<close> does it.
\<close>

section \<open>Errors\<close>

datatype Error =
    Nom string
  | Winstructs string
  | Conversion string
  | StripPrefix string
  | Io string
  | XlsxWriter string
  | TryFromInt string
  | Buffer string
  | AnyErr string

type_synonym 'a result = "(Error, 'a) outcome"

definition Error_buffer :: "string \<Rightarrow> Error" where
  "Error_buffer s = Buffer s"

definition Error_from_nom :: "nom_err \<Rightarrow> Error" where
  "Error_from_nom e = Nom ''Nom parsing error''"

text \<open>
  \<open>From<winstructs::err::Error>\<close> and its kin take the message of the error they convert and
  format it with \<open>{:#?}\<close>, the debug form of a string: between double quotes.
\<close>

definition escape_debug :: "char \<Rightarrow> string" where
  "escape_debug c =
     (let n = of_char c :: nat in
      if n = 0x22 \<or> n = 0x5C then [backslash, c]
      else if n = 0 then [backslash, CHR ''0'']
      else if n = 9 then [backslash, CHR ''t'']
      else if n = 10 then [backslash, CHR ''n'']
      else if n = 13 then [backslash, CHR ''r'']
      else if n < 32 \<or> n = 127 then [backslash, CHR ''u'', CHR 0x7B] @ show_hex False n @ [CHR 0x7D]
      else [c])"

definition debug_str :: "string \<Rightarrow> string" where
  "debug_str s = CHR 0x22 # concat (map escape_debug s) @ [CHR 0x22]"

definition Error_from_winstructs :: "string \<Rightarrow> Error" where
  "Error_from_winstructs msg = Winstructs (debug_str msg)"

definition Error_from_slice :: "string \<Rightarrow> Error" where
  "Error_from_slice msg = Conversion (debug_str msg)"

definition Error_from_strip_prefix :: "string \<Rightarrow> Error" where
  "Error_from_strip_prefix msg = StripPrefix (debug_str msg)"

definition Error_from_io :: "string \<Rightarrow> Error" where
  "Error_from_io msg = Io (debug_str msg)"

definition Error_from_try_from_int :: "string \<Rightarrow> Error" where
  "Error_from_try_from_int msg = TryFromInt (debug_str msg)"

fun Error_to_string :: "Error \<Rightarrow> string" where
  "Error_to_string (Nom d) = ''An error has occurred in the Nom library: '' @ d"
| "Error_to_string (Winstructs d) = ''An error has occurred in the Winstructs library: '' @ d"
| "Error_to_string (Conversion d) = ''An error has occurred while converting: '' @ d"
| "Error_to_string (StripPrefix d) = ''An error has occurred in StripPrefix: '' @ d"
| "Error_to_string (Io d) = ''An IO error has occurred: '' @ d"
| "Error_to_string (XlsxWriter d) = ''An error has occurred in the Xlsxwriter library: '' @ d"
| "Error_to_string (TryFromInt d) = ''An error has occurred: '' @ d"
| "Error_to_string (Buffer d) = ''Invalid buffer access: '' @ d"
| "Error_to_string (AnyErr d) = ''An error has occurred when converting: '' @ d"

text \<open>The question mark operator on an \<open>IResult\<close> in a function that returns \<open>Result<_, Error>\<close>.\<close>

definition from_nom :: "'a iresult \<Rightarrow> (bytes \<times> 'a) result" where
  "from_nom r = map_err Error_from_nom r"

lemma from_nom_simps [simp]:
  "from_nom (Ok x) = Ok x" "from_nom (Err e) = Err (Error_from_nom e)"
  "from_nom Panic = Panic" "from_nom Diverge = Diverge"
  by (simp_all add: from_nom_def)

lemma safe_from_nom [simp]: "safe (from_nom r) = safe r"
  by (simp add: from_nom_def)

lemma from_nom_eq [outcome_simps]:
  "from_nom r = Ok x \<longleftrightarrow> r = Ok x"
  "from_nom r = Panic \<longleftrightarrow> r = Panic"
  "from_nom r = Diverge \<longleftrightarrow> r = Diverge"
  by (simp_all add: from_nom_def map_err_eq_Ok map_err_eq_Panic map_err_eq_Diverge)

section \<open>Warnings\<close>

datatype LogCode =
    WarningOther
  | WarningNom
  | WarningConversion
  | WarningContent
  | WarningBigDataContent
  | WarningUnrecognizedBitflag
  | WarningTransactionLog
  | WarningIterator
  | WarningBaseBlock
  | WarningParse
  | WarningRecovery
  | Info

record Log =
  log_code :: LogCode
  log_text :: string

record Logs =
  logs_opt :: "Log list option"

definition Logs_default :: Logs where
  "Logs_default = \<lparr>logs_opt = None\<rparr>"

definition Logs_add_internal :: "Logs \<Rightarrow> Log \<Rightarrow> Logs" where
  "Logs_add_internal l w =
     (case logs_opt l of
        Some logs \<Rightarrow> l\<lparr>logs_opt := Some (logs @ [w])\<rparr>
      | None \<Rightarrow> l\<lparr>logs_opt := Some [w]\<rparr>)"

definition Logs_add :: "Logs \<Rightarrow> LogCode \<Rightarrow> string \<Rightarrow> Logs" where
  "Logs_add l code text = Logs_add_internal l \<lparr>log_code = code, log_text = text\<rparr>"

definition Logs_has_logs :: "Logs \<Rightarrow> bool" where
  "Logs_has_logs l =
     (case logs_opt l of None \<Rightarrow> False | Some logs \<Rightarrow> logs \<noteq> [])"

definition Logs_get :: "Logs \<Rightarrow> Log list option" where
  "Logs_get l = logs_opt l"

definition Logs_get_option :: "Logs \<Rightarrow> Logs option" where
  "Logs_get_option l = (if logs_opt l = None then None else Some l)"

definition Logs_prepend_all :: "Logs \<Rightarrow> string \<Rightarrow> Logs" where
  "Logs_prepend_all l prefix =
     (case logs_opt l of
        Some logs \<Rightarrow>
          l\<lparr>logs_opt := Some (map (\<lambda>log. log\<lparr>log_text := prefix @ log_text log\<rparr>) logs)\<rparr>
      | None \<Rightarrow> l)"

text \<open>\<open>unwrap_or_default\<close>: a missing vector counts as an empty one.\<close>

definition vec_or_default :: "'a list option \<Rightarrow> 'a list" where
  "vec_or_default v = (case v of None \<Rightarrow> [] | Some xs \<Rightarrow> xs)"

definition Logs_extend :: "Logs \<Rightarrow> Logs \<Rightarrow> Logs" where
  "Logs_extend l additional =
     (case logs_opt l of
        Some logs \<Rightarrow> l\<lparr>logs_opt := Some (logs @ vec_or_default (logs_opt additional))\<rparr>
      | None \<Rightarrow> l\<lparr>logs_opt := Some (vec_or_default (logs_opt additional))\<rparr>)"

fun LogCode_debug :: "LogCode \<Rightarrow> string" where
  "LogCode_debug WarningOther = ''WarningOther''"
| "LogCode_debug WarningNom = ''WarningNom''"
| "LogCode_debug WarningConversion = ''WarningConversion''"
| "LogCode_debug WarningContent = ''WarningContent''"
| "LogCode_debug WarningBigDataContent = ''WarningBigDataContent''"
| "LogCode_debug WarningUnrecognizedBitflag = ''WarningUnrecognizedBitflag''"
| "LogCode_debug WarningTransactionLog = ''WarningTransactionLog''"
| "LogCode_debug WarningIterator = ''WarningIterator''"
| "LogCode_debug WarningBaseBlock = ''WarningBaseBlock''"
| "LogCode_debug WarningParse = ''WarningParse''"
| "LogCode_debug WarningRecovery = ''WarningRecovery''"
| "LogCode_debug Info = ''Info''"

definition Logs_get_string :: "Logs \<Rightarrow> string" where
  "Logs_get_string l =
     (case logs_opt l of
        None \<Rightarrow> []
      | Some logs \<Rightarrow>
          foldl (\<lambda>ret log. ret @ LogCode_debug (log_code log) @ '' '' @ log_text log @ '';'') [] logs)"

text \<open>What \<open>Logs::write\<close> sends to its writer, one line per entry.\<close>

definition Logs_write :: "Logs \<Rightarrow> string list" where
  "Logs_write l =
     (case logs_opt l of
        None \<Rightarrow> []
      | Some logs \<Rightarrow> map (\<lambda>log. LogCode_debug (log_code log) @ '' '' @ log_text log) logs)"

section \<open>The contract of a warning list\<close>

definition log_entries :: "Logs \<Rightarrow> Log list" where
  "log_entries l = vec_or_default (logs_opt l)"

locale append_log =
  fixes empty :: 'l
    and add :: "'l \<Rightarrow> 'c \<Rightarrow> 't \<Rightarrow> 'l"
    and extend :: "'l \<Rightarrow> 'l \<Rightarrow> 'l"
    and has :: "'l \<Rightarrow> bool"
    and entries :: "'l \<Rightarrow> 'e list"
    and entry :: "'c \<Rightarrow> 't \<Rightarrow> 'e"
  assumes entries_empty: "entries empty = []"
    and entries_add: "entries (add l c t) = entries l @ [entry c t]"
    and entries_extend: "entries (extend l m) = entries l @ entries m"
    and has_iff: "has l \<longleftrightarrow> entries l \<noteq> []"
begin

text \<open>Warnings are never lost: whatever is added later, the earlier ones stay, in order.\<close>

lemma add_keeps: "\<exists>more. entries (add l c t) = entries l @ more"
  by (simp add: entries_add)

lemma fold_add:
  "entries (foldl (\<lambda>l (c, t). add l c t) l xs) = entries l @ map (\<lambda>(c, t). entry c t) xs"
  by (induction xs arbitrary: l) (auto simp: entries_add)

lemma fold_extend: "entries (foldl extend l ms) = entries l @ concat (map entries ms)"
  by (induction ms arbitrary: l) (auto simp: entries_extend)

lemma has_after_add: "has (add l c t)"
  by (simp add: has_iff entries_add)

lemma has_extend: "has (extend l m) \<longleftrightarrow> has l \<or> has m"
  by (auto simp: has_iff entries_extend)

end

lemma log_entries_add_internal: "log_entries (Logs_add_internal l w) = log_entries l @ [w]"
  by (simp add: log_entries_def Logs_add_internal_def vec_or_default_def split: option.splits)

interpretation logs: append_log Logs_default Logs_add Logs_extend Logs_has_logs log_entries
  "\<lambda>c t. \<lparr>log_code = c, log_text = t\<rparr>"
proof unfold_locales
  show "log_entries Logs_default = []"
    by (simp add: log_entries_def Logs_default_def vec_or_default_def)
next
  fix l c t
  show "log_entries (Logs_add l c t) = log_entries l @ [\<lparr>log_code = c, log_text = t\<rparr>]"
    by (simp add: Logs_add_def log_entries_add_internal)
next
  fix l m
  show "log_entries (Logs_extend l m) = log_entries l @ log_entries m"
    by (simp add: log_entries_def Logs_extend_def vec_or_default_def split: option.splits)
next
  fix l
  show "Logs_has_logs l \<longleftrightarrow> log_entries l \<noteq> []"
    by (simp add: Logs_has_logs_def log_entries_def vec_or_default_def split: option.splits)
qed

text \<open>
  \<open>get_option\<close> tells whether a vector was made, which differs from having entries: after
  \<open>extend\<close> with an empty list there is a vector, and it is empty.
\<close>

lemma Logs_get_option_add: "Logs_get_option (Logs_add l c t) = Some (Logs_add l c t)"
  by (simp add: Logs_get_option_def Logs_add_def Logs_add_internal_def split: option.splits)

lemma Logs_get_option_default [simp]: "Logs_get_option Logs_default = None"
  by (simp add: Logs_get_option_def Logs_default_def)

lemma log_entries_prepend_all:
  "log_entries (Logs_prepend_all l p) =
     map (\<lambda>log. log\<lparr>log_text := p @ log_text log\<rparr>) (log_entries l)"
  by (simp add: log_entries_def Logs_prepend_all_def vec_or_default_def split: option.splits)

lemma foldl_append_concat:
  "foldl (\<lambda>r x. r @ f x) a xs = a @ concat (map f xs)"
  by (induction xs arbitrary: a) auto

text \<open>
  The list of warnings is append-only.  A run of \<open>add\<close> and a final \<open>extend\<close> keeps every
  earlier entry, in order, and the text form prints exactly the entries, in order.
\<close>

theorem logs_append_only:
  "log_entries (Logs_extend (foldl (\<lambda>l (c, t). Logs_add l c t) l xs) m) =
     log_entries l @ map (\<lambda>(c, t). \<lparr>log_code = c, log_text = t\<rparr>) xs @ log_entries m
   \<and> Logs_get_string l =
     concat (map (\<lambda>log. LogCode_debug (log_code log) @ '' '' @ log_text log @ '';'') (log_entries l))"
proof
  show "log_entries (Logs_extend (foldl (\<lambda>l (c, t). Logs_add l c t) l xs) m) =
     log_entries l @ map (\<lambda>(c, t). \<lparr>log_code = c, log_text = t\<rparr>) xs @ log_entries m"
    by (simp only: logs.entries_extend logs.fold_add append_assoc)
  show "Logs_get_string l =
     concat (map (\<lambda>log. LogCode_debug (log_code log) @ '' '' @ log_text log @ '';'') (log_entries l))"
    by (simp add: Logs_get_string_def log_entries_def vec_or_default_def foldl_append_concat
        split: option.splits)
qed

end
