(* ===== verification/Util.thy ===== *)
theory Util
  imports Diagnostics
begin

text \<open>
  The conversions of \<open>src/src/util.rs\<close>: UTF-16LE and extended-ASCII strings, the slack of a cell,
  FILETIME values, GUIDs, hex and escaped strings, ROT13, LZNT1 and the offset of a path behind its
  root.  UTF-16 is decoded by index, lazily and with the source's unchecked accesses; the lemmas
  relate this to the decoding of the whole list of code units.
\<close>

section \<open>UTF-16 strings\<close>

definition is_surrogate :: "u16 \<Rightarrow> bool" where
  "is_surrogate u \<longleftrightarrow> 0xD800 \<le> u \<and> u \<le> 0xDFFF"

definition is_low_surrogate :: "u16 \<Rightarrow> bool" where
  "is_low_surrogate u \<longleftrightarrow> 0xDC00 \<le> u \<and> u \<le> 0xDFFF"

definition join_surrogates :: "u16 \<Rightarrow> u16 \<Rightarrow> nat" where
  "join_surrogates u v = 0x10000 + (unat u - 0xD800) * 0x400 + (unat v - 0xDC00)"

definition REPLACEMENT_CHARACTER :: nat where
  "REPLACEMENT_CHARACTER = 0xFFFD"

text \<open>The iterator over the code units of a slice; the accesses \<open>slice[2 * i]\<close> are not checked.\<close>

definition utf16_unit :: "bytes \<Rightarrow> usize \<Rightarrow> usize \<Rightarrow> ('e, u16 option) outcome" where
  "utf16_unit sl count i =
     (if i < count div 2 then
        bindO (index_at sl (2 * i)) (\<lambda>a.
        bindO (index_at sl (2 * i + 1)) (\<lambda>b. Ok (Some (from_le_bytes [a, b]))))
      else Ok None)"

text \<open>
  \<open>DecodeUtf16::next\<close> of the standard library over that iterator: the next character or the
  unpaired surrogate found, with the index after it.
\<close>

definition decode_utf16_next ::
  "(usize \<Rightarrow> ('e, u16 option) outcome) \<Rightarrow> usize \<Rightarrow> ('e, ((u16 + nat) \<times> usize) option) outcome" where
  "decode_utf16_next unit i =
     bindO (unit i) (\<lambda>u. case u of
       None \<Rightarrow> Ok None
     | Some u \<Rightarrow>
         if \<not> is_surrogate u then Ok (Some (Inr (unat u), i + 1))
         else if 0xDC00 \<le> u then Ok (Some (Inl u, i + 1))
         else bindO (unit (i + 1)) (\<lambda>v. case v of
           None \<Rightarrow> Ok (Some (Inl u, i + 1))
         | Some v \<Rightarrow>
             if is_low_surrogate v then Ok (Some (Inr (join_surrogates u v), i + 2))
             else Ok (Some (Inl u, i + 1))))"

definition utf16_warning :: "string \<Rightarrow> u16 \<Rightarrow> string" where
  "utf16_warning err_detail u =
     err_detail @ '': '' @ ''unpaired surrogate found: '' @ show_hex False (unat u)"

lemma utf16_unit_Some: "utf16_unit sl count i = Ok (Some u) \<Longrightarrow> i < count div 2"
  by (simp add: utf16_unit_def split: if_splits)

lemma decode_utf16_next_SomeE:
  assumes "decode_utf16_next unit i = Ok (Some (r, j))"
  obtains u where "unit i = Ok (Some u)" and "i < j"
proof -
  from assms obtain u where u: "unit i = Ok u" by (auto simp: decode_utf16_next_def bindO_eq_Ok)
  with assms obtain v where v: "u = Some v" by (cases u) (auto simp: decode_utf16_next_def)
  have "i < j"
  proof (cases "\<not> is_surrogate v \<or> 0xDC00 \<le> v")
    case True
    with assms u v show ?thesis
      by (simp add: decode_utf16_next_def split: if_splits)
  next
    case False
    with assms u v show ?thesis
      by (cases "unit (Suc i)")
         (simp_all add: decode_utf16_next_def split: option.splits if_splits)
  qed
  with u v that show thesis by simp
qed

lemma decode_utf16_next_advances:
  "decode_utf16_next (utf16_unit sl count) i = Ok (Some (r, j)) \<Longrightarrow> i < j \<and> i < count div 2"
  by (erule decode_utf16_next_SomeE) (auto dest: utf16_unit_Some)

text \<open>The chain \<open>decode_utf16(iter).map(..).take_while(..).collect()\<close>, with the counter and the
  warnings that its closures update.\<close>

function utf16_collect ::
  "bytes \<Rightarrow> usize \<Rightarrow> string \<Rightarrow> usize \<Rightarrow> nat list \<Rightarrow> Logs \<Rightarrow> usize \<Rightarrow> (nat list \<times> Logs \<times> usize) result" where
  "utf16_collect sl count err_detail i s logs char_count =
     bindO (decode_utf16_next (utf16_unit sl count) i) (\<lambda>r. case r of
       None \<Rightarrow> Ok (s, logs, char_count)
     | Some (Inl u, j) \<Rightarrow>
         utf16_collect sl count err_detail j (s @ [REPLACEMENT_CHARACTER])
           (Logs_add logs WarningConversion (utf16_warning err_detail u)) (char_count + 1)
     | Some (Inr c, j) \<Rightarrow>
         if c = 0 then Ok (s, logs, char_count + 1)
         else utf16_collect sl count err_detail j (s @ [c]) logs (char_count + 1))"
  by pat_completeness auto
termination
  by (relation "measure (\<lambda>(sl, count, d, i, s, logs, cc). count div 2 - i)")
     (auto dest!: decode_utf16_next_advances)

declare utf16_collect.simps [simp del]

definition from_utf16_le_string_single ::
  "bytes \<Rightarrow> usize \<Rightarrow> Logs \<Rightarrow> string \<Rightarrow> ((nat list \<times> usize) \<times> Logs) result" where
  "from_utf16_le_string_single sl count logs err_detail =
     bindO (utf16_collect sl count err_detail 0 [] logs 0) (\<lambda>(s, logs, char_count).
       Ok ((s, if char_count > 0 then char_count - 1 else char_count), logs))"

text \<open>The UTF-8 bytes of a list of characters, which is what a \<open>String\<close> holds.\<close>

definition utf8_char :: "nat \<Rightarrow> string" where
  "utf8_char c =
     (if c < 0x80 then [char_of c]
      else if c < 0x800 then [char_of (0xC0 + c div 64), char_of (0x80 + c mod 64)]
      else if c < 0x10000 then
        [char_of (0xE0 + c div 4096), char_of (0x80 + c div 64 mod 64), char_of (0x80 + c mod 64)]
      else
        [char_of (0xF0 + c div 262144), char_of (0x80 + c div 4096 mod 64),
         char_of (0x80 + c div 64 mod 64), char_of (0x80 + c mod 64)])"

definition utf8 :: "nat list \<Rightarrow> string" where
  "utf8 cs = concat (map utf8_char cs)"

definition from_utf16_le_string :: "bytes \<Rightarrow> usize \<Rightarrow> Logs \<Rightarrow> string \<Rightarrow> (string \<times> Logs) result" where
  "from_utf16_le_string sl count logs err_detail =
     bindO (guardP (count \<le> length sl)) (\<lambda>_.
     bindO (from_utf16_le_string_single sl count logs err_detail) (\<lambda>((s, _), logs).
       Ok (utf8 s, logs)))"

text \<open>\<open>char::is_whitespace\<close>, the Unicode property \<open>White_Space\<close>.\<close>

definition is_whitespace :: "nat \<Rightarrow> bool" where
  "is_whitespace c \<longleftrightarrow> (9 \<le> c \<and> c \<le> 13) \<or> c = 32 \<or> c = 0x85 \<or> c = 0xA0 \<or> c = 0x1680 \<or>
     (0x2000 \<le> c \<and> c \<le> 0x200A) \<or> c = 0x2028 \<or> c = 0x2029 \<or> c = 0x202F \<or> c = 0x205F \<or> c = 0x3000"

text \<open>\<open>decoded.trim().is_empty()\<close>.\<close>

definition trims_to_empty :: "nat list \<Rightarrow> bool" where
  "trims_to_empty s \<longleftrightarrow> list_all is_whitespace s"

function utf16_strings_loop ::
  "bytes \<Rightarrow> usize \<Rightarrow> string \<Rightarrow> usize \<Rightarrow> string list \<Rightarrow> Logs \<Rightarrow> (string list \<times> Logs) result" where
  "utf16_strings_loop sl count err_detail offset strings logs =
     (if offset < count then
        bindO (index_from sl offset) (\<lambda>rest.
        bindO (from_utf16_le_string_single rest (count - offset) logs err_detail)
          (\<lambda>((decoded, size), logs).
             if trims_to_empty decoded then Ok (strings, logs)
             else utf16_strings_loop sl count err_detail (offset + (size * 2 + 2))
                    (strings @ [utf8 decoded]) logs))
      else Ok (strings, logs))"
  by pat_completeness auto
termination
  by (relation "measure (\<lambda>(sl, count, d, offset, strings, logs). count - offset)") auto

declare utf16_strings_loop.simps [simp del]

definition from_utf16_le_strings :: "bytes \<Rightarrow> usize \<Rightarrow> Logs \<Rightarrow> string \<Rightarrow> (string list \<times> Logs) result" where
  "from_utf16_le_strings sl count logs err_detail =
     utf16_strings_loop sl count err_detail 0 [] logs"

section \<open>Extended ASCII\<close>

text \<open>
  A byte that is not ASCII is decoded as one UTF-16 code unit.  The unit is never a surrogate, so
  the closure that logs a warning is never called.
\<close>

primrec from_ascii :: "bytes \<Rightarrow> Logs \<Rightarrow> string \<Rightarrow> string \<times> Logs" where
  "from_ascii [] logs err_detail = ([], logs)"
| "from_ascii (b # bs) logs err_detail =
     (let (c, logs) =
        (if unat b < 0x80 then ([char_of_byte b], logs)
         else let u = from_le_bytes [b, 0] :: u16 in
           if is_surrogate u
           then (utf8_char REPLACEMENT_CHARACTER,
                 Logs_add logs WarningConversion (utf16_warning err_detail u))
           else (utf8_char (unat u), logs));
        (rest, logs) = from_ascii bs logs err_detail
      in (c @ rest, logs))"

definition string_from_bytes :: "bool \<Rightarrow> bytes \<Rightarrow> u16 \<Rightarrow> Logs \<Rightarrow> string \<Rightarrow> (string \<times> Logs) result" where
  "string_from_bytes is_ascii sl count logs err_detail =
     (if is_ascii then Ok (from_ascii sl logs err_detail)
      else from_utf16_le_string sl (unat count) logs err_detail)"

section \<open>Slack, dates, GUIDs and printed forms\<close>

definition parser_eat_remaining :: "'z env_scheme \<Rightarrow> bytes \<Rightarrow> u32 \<Rightarrow> usize \<Rightarrow> bytes iresult" where
  "parser_eat_remaining N input cell_size bytes_consumed =
     (let cell_size_usize = unat cell_size in
      if bytes_consumed < cell_size_usize
      then nom_take N (cell_size_usize - bytes_consumed) input
      else Ok (input, []))"

text \<open>A \<open>DateTime<Utc>\<close> is the number of nanoseconds since 1970-01-01T00:00:00Z.  The cast to
  \<open>i64\<close> keeps the low 64 bits.\<close>

type_synonym DateTime = int

definition UNIX_EPOCH_NANOS :: int where
  "UNIX_EPOCH_NANOS = 11644473600 * 1000000000"

definition get_date_time_from_filetime :: "u64 \<Rightarrow> DateTime" where
  "get_date_time_from_filetime filetime =
     (let filetime_nanos = uint filetime * 100
      in sint (of_int (filetime_nanos - UNIX_EPOCH_NANOS) :: u64))"

definition get_guid_from_buffer :: "'z env_scheme \<Rightarrow> bytes \<Rightarrow> Logs \<Rightarrow> (Guid \<times> Logs) result" where
  "get_guid_from_buffer N buffer logs =
     (case guid_from_buffer N buffer of
        Inr g \<Rightarrow> Ok (g, logs)
      | Inl err \<Rightarrow>
          (case guid_from_buffer N (replicate 16 0) of
             Inr g \<Rightarrow> Ok (g, Logs_add logs WarningConversion err)
           | Inl _ \<Rightarrow> Panic))"

definition get_pretty_name :: "string \<Rightarrow> string" where
  "get_pretty_name name = (if name = [] then ''(default)'' else name)"

definition hex_byte :: "u8 \<Rightarrow> string" where
  "hex_byte b = pad_zeros 2 (show_hex True (unat b))"

definition to_hex_string :: "bytes \<Rightarrow> string" where
  "to_hex_string bs =
     trim_end_char (CHR '' '') (foldl (\<lambda>s b. s @ hex_byte b @ '' '') [] bs)"

definition escape_string :: "string \<Rightarrow> string" where
  "escape_string orig =
     (if list_ex (\<lambda>c. c \<in> {CHR 9, CHR 13, CHR 10, CHR 0x2C, CHR 0x22}) orig
      then CHR 0x22 # concat (map (\<lambda>c. if c = CHR 0x22 then [CHR 0x22, CHR 0x22] else [c]) orig)
             @ [CHR 0x22]
      else orig)"

definition get_root_path_offset :: "string \<Rightarrow> usize" where
  "get_root_path_offset path =
     (case path of
        [] \<Rightarrow> 0
      | c # rest \<Rightarrow>
          if c = backslash
          then (case find_char backslash rest of Some second \<Rightarrow> second + 2 | None \<Rightarrow> 0)
          else 0)"

section \<open>ROT13\<close>

definition rot13_char :: "char \<Rightarrow> char" where
  "rot13_char c =
     (let n = of_char c :: nat in
      if (65 \<le> n \<and> n \<le> 77) \<or> (97 \<le> n \<and> n \<le> 109) then char_of (n + 13)
      else if (78 \<le> n \<and> n \<le> 90) \<or> (110 \<le> n \<and> n \<le> 122) then char_of (n - 13)
      else c)"

definition decode_rot13 :: "string \<Rightarrow> string" where
  "decode_rot13 text = map rot13_char text"

section \<open>LZNT1\<close>

text \<open>The loop of \<open>calc_compression_bits\<close> from index \<open>x\<close> on.\<close>

function compression_bits_loop :: "nat \<Rightarrow> nat \<Rightarrow> u8 \<Rightarrow> u8 list" where
  "compression_bits_loop x y offset_bits =
     (if x < 4096 then
        (4 + offset_bits) #
        (if x = y then compression_bits_loop (x + 1) (y * 2) (offset_bits + 1)
         else compression_bits_loop (x + 1) y offset_bits)
      else [])"
  by pat_completeness auto
termination
  by (relation "measure (\<lambda>(x, y, b). 4096 - x)") auto

declare compression_bits_loop.simps [simp del]

definition calc_compression_bits :: "u8 list" where
  "calc_compression_bits = compression_bits_loop 0 0x10 0"

text \<open>\<open>u16::from_le_bytes(source[p..p + 2])\<close>.\<close>

definition read_u16_at :: "bytes \<Rightarrow> usize \<Rightarrow> u16 result" where
  "read_u16_at source p = bindO (index_range source p (p + 2)) (\<lambda>s. Ok (from_le_bytes s))"

primrec copy_phrase :: "nat \<Rightarrow> bytes \<Rightarrow> usize \<Rightarrow> bytes result" where
  "copy_phrase 0 decompressed dest_back_addr = Ok decompressed"
| "copy_phrase (Suc n) decompressed dest_back_addr =
     bindO (index_at decompressed dest_back_addr) (\<lambda>b.
       copy_phrase n (decompressed @ [b]) (dest_back_addr + 1))"

text \<open>
  One phrase token.  \<open>dest_index\<close> counts the bytes written, and equals the length of
  \<open>decompressed\<close> throughout.  A back reference before the start of the output underflows: that
  panics, in a build without overflow checks at the access that follows.
\<close>

definition lznt1_phrase :: "bytes \<Rightarrow> usize \<Rightarrow> usize \<Rightarrow> bytes \<Rightarrow> usize \<Rightarrow> usize \<Rightarrow> (bytes \<times> usize) result" where
  "lznt1_phrase source source_offset dest_sub_block_start decompressed source_index dest_index =
     bindO (index_at calc_compression_bits (dest_index - dest_sub_block_start)) (\<lambda>bits.
     let length_bits = 16 - unat bits; length_mask = 2 ^ length_bits - 1 in
     bindO (read_u16_at source (source_index + source_offset)) (\<lambda>phrase_token.
     let back = unat (drop_bit length_bits phrase_token) + 1;
         len = unat (phrase_token AND of_nat length_mask) + 3 in
     bindO (guardP (back \<le> dest_index)) (\<lambda>_.
     bindO (copy_phrase len decompressed (dest_index - back)) (\<lambda>decompressed.
       Ok (decompressed, dest_index + len)))))"

fun lznt1_tokens ::
  "nat \<Rightarrow> bytes \<Rightarrow> usize \<Rightarrow> usize \<Rightarrow> usize \<Rightarrow> u8 \<Rightarrow> bytes \<Rightarrow> usize \<Rightarrow> usize \<Rightarrow> (bytes \<times> usize \<times> usize) result" where
  "lznt1_tokens 0 source source_offset start sub_end tag decompressed source_index dest_index =
     Ok (decompressed, source_index, dest_index)"
| "lznt1_tokens (Suc n) source source_offset start sub_end tag decompressed source_index dest_index =
     (if source_index \<ge> sub_end then Ok (decompressed, source_index, dest_index)
      else if tag AND 1 = 0 then
        bindO (index_at source (source_offset + source_index)) (\<lambda>b.
          lznt1_tokens n source source_offset start sub_end (drop_bit 1 tag)
            (decompressed @ [b]) (source_index + 1) (dest_index + 1))
      else
        bindO (lznt1_phrase source source_offset start decompressed source_index dest_index)
          (\<lambda>(decompressed, dest_index).
          lznt1_tokens n source source_offset start sub_end (drop_bit 1 tag)
            decompressed (source_index + 2) dest_index))"

lemma lznt1_tokens_source_mono:
  "lznt1_tokens n source so start sub_end tag d si di = Ok (d', si', di') \<Longrightarrow> si \<le> si'"
  by (induction n arbitrary: tag d si di)
     (fastforce simp: bindO_eq_Ok split: if_splits prod.splits)+

function lznt1_sub_block ::
  "bytes \<Rightarrow> usize \<Rightarrow> usize \<Rightarrow> usize \<Rightarrow> bytes \<Rightarrow> usize \<Rightarrow> usize \<Rightarrow> (bytes \<times> usize \<times> usize) result" where
  "lznt1_sub_block source source_offset start sub_end decompressed source_index dest_index =
     (if source_index < sub_end then
        bindO (index_at source (source_offset + source_index)) (\<lambda>tag.
        bindO (lznt1_tokens 8 source source_offset start sub_end tag decompressed
                 (source_index + 1) dest_index) (\<lambda>(decompressed, source_index, dest_index).
          lznt1_sub_block source source_offset start sub_end decompressed source_index dest_index))
      else Ok (decompressed, source_index, dest_index))"
  by pat_completeness auto
termination
  by (relation "measure (\<lambda>(source, so, start, sub_end, d, si, di). sub_end - si)")
     (auto dest!: lznt1_tokens_source_mono)

declare lznt1_sub_block.simps [simp del]

lemma lznt1_sub_block_source_mono:
  "lznt1_sub_block source so start sub_end d si di = Ok (d', si', di') \<Longrightarrow> si \<le> si'"
proof (induction source so start sub_end d si di rule: lznt1_sub_block.induct)
  case (1 source so start sub_end d si di)
  then show ?case
    by (subst (asm) (2) lznt1_sub_block.simps)
       (fastforce simp: bindO_eq_Ok dest: lznt1_tokens_source_mono split: if_splits)
qed

function lznt1_blocks :: "bytes \<Rightarrow> usize \<Rightarrow> usize \<Rightarrow> bytes \<Rightarrow> usize \<Rightarrow> usize \<Rightarrow> bytes result" where
  "lznt1_blocks source source_offset source_length decompressed source_index dest_index =
     (if source_index + source_offset < source_length then
        bindO (read_u16_at source (source_index + source_offset)) (\<lambda>header.
        let source_index = source_index + 2 in
        if header = 0 then Ok decompressed
        else
          let block_size = unat (header AND 0x0fff) + 1 in
          if header AND 0x8000 = 0 then
            bindO (index_range source (source_offset + source_index)
                     (source_offset + source_index + block_size)) (\<lambda>block.
              lznt1_blocks source source_offset source_length (decompressed @ block)
                (source_index + block_size) (dest_index + block_size))
          else
            bindO (lznt1_sub_block source source_offset dest_index (source_index + block_size)
                     decompressed source_index dest_index)
              (\<lambda>(decompressed, source_index, dest_index).
              lznt1_blocks source source_offset source_length decompressed source_index dest_index))
      else Ok decompressed)"
  by pat_completeness auto
termination
  by (relation "measure (\<lambda>(source, so, sl, d, si, di). sl - si)")
     (auto dest!: lznt1_sub_block_source_mono)

declare lznt1_blocks.simps [simp del]

definition decode_lznt1 :: "bytes \<Rightarrow> usize \<Rightarrow> usize \<Rightarrow> bytes result" where
  "decode_lznt1 source source_offset source_length =
     lznt1_blocks source source_offset source_length [] 0 0"

section \<open>UTF-16: the decoded characters\<close>

fun decode_utf16 :: "u16 list \<Rightarrow> (u16 + nat) list" where
  "decode_utf16 [] = []"
| "decode_utf16 (u # us) =
     (if \<not> is_surrogate u then Inr (unat u) # decode_utf16 us
      else if 0xDC00 \<le> u then Inl u # decode_utf16 us
      else (case us of
              [] \<Rightarrow> [Inl u]
            | v # vs \<Rightarrow> if is_low_surrogate v then Inr (join_surrogates u v) # decode_utf16 vs
                        else Inl u # decode_utf16 us))"

definition utf16_units :: "bytes \<Rightarrow> usize \<Rightarrow> u16 list" where
  "utf16_units sl count =
     map (\<lambda>i. from_le_bytes [sl ! (2 * i), sl ! (2 * i + 1)]) [0..<count div 2]"

definition item_char :: "u16 + nat \<Rightarrow> nat" where
  "item_char r = (case r of Inl u \<Rightarrow> REPLACEMENT_CHARACTER | Inr c \<Rightarrow> c)"

text \<open>The items before the first NUL, and the warnings they cause.\<close>

definition before_nul :: "(u16 + nat) list \<Rightarrow> (u16 + nat) list" where
  "before_nul rs = takeWhile (\<lambda>r. item_char r \<noteq> 0) rs"

definition utf16_warnings :: "string \<Rightarrow> (u16 + nat) list \<Rightarrow> (LogCode \<times> string) list" where
  "utf16_warnings d rs =
     concat (map (\<lambda>r. case r of Inl u \<Rightarrow> [(WarningConversion, utf16_warning d u)] | Inr c \<Rightarrow> []) rs)"

definition add_all :: "Logs \<Rightarrow> (LogCode \<times> string) list \<Rightarrow> Logs" where
  "add_all l ws = foldl (\<lambda>l (c, t). Logs_add l c t) l ws"

lemma add_all_simps [simp]:
  "add_all l [] = l" "add_all l ((c, t) # ws) = add_all (Logs_add l c t) ws"
  by (simp_all add: add_all_def)

lemma item_char_simps [simp]:
  "item_char (Inl u) = REPLACEMENT_CHARACTER" "item_char (Inr c) = c" "REPLACEMENT_CHARACTER \<noteq> 0"
  by (simp_all add: item_char_def REPLACEMENT_CHARACTER_def)

lemma before_nul_simps [simp]:
  "before_nul [] = []" "before_nul (Inl u # rs) = Inl u # before_nul rs"
  "before_nul (Inr c # rs) = (if c = 0 then [] else Inr c # before_nul rs)"
  by (simp_all add: before_nul_def)

lemma utf16_warnings_simps [simp]:
  "utf16_warnings d [] = []"
  "utf16_warnings d (Inl u # rs) = (WarningConversion, utf16_warning d u) # utf16_warnings d rs"
  "utf16_warnings d (Inr c # rs) = utf16_warnings d rs"
  by (simp_all add: utf16_warnings_def)

lemma length_utf16_units [simp]: "length (utf16_units sl count) = count div 2"
  by (simp add: utf16_units_def)

lemma utf16_unit_in_range:
  assumes "count \<le> length sl"
  shows "utf16_unit sl count i =
    Ok (if i < count div 2 then Some (utf16_units sl count ! i) else None)"
proof (cases "i < count div 2")
  case True
  then have "2 * i + 1 < length sl" using assms by linarith
  with True show ?thesis
    by (simp add: utf16_unit_def utf16_units_def index_at_def)
qed (simp add: utf16_unit_def)

lemma decode_utf16_next_nil:
  assumes "\<And>i. unit i = Ok (if i < length us then Some (us ! i) else None)" and "length us \<le> i"
  shows "decode_utf16_next unit i = Ok None"
  using assms by (simp add: decode_utf16_next_def)

lemma decode_utf16_next_cons:
  assumes u: "\<And>i. unit i = Ok (if i < length us then Some (us ! i) else None)" and i: "i < length us"
  obtains r j where "decode_utf16_next unit i = Ok (Some (r, j))"
    and "decode_utf16 (drop i us) = r # decode_utf16 (drop j us)"
proof -
  have d: "drop i us = us ! i # drop (Suc i) us" using i by (rule Cons_nth_drop_Suc [symmetric])
  show thesis
  proof (cases "\<not> is_surrogate (us ! i) \<or> 0xDC00 \<le> us ! i")
    case True
    then show thesis
      using that [of "if is_surrogate (us ! i) then Inl (us ! i) else Inr (unat (us ! i))" "Suc i"] i
      by (auto simp: decode_utf16_next_def u d)
  next
    case False
    show thesis
    proof (cases "Suc i < length us")
      case True
      then have d2: "drop (Suc i) us = us ! Suc i # drop (Suc (Suc i)) us"
        by (rule Cons_nth_drop_Suc [symmetric])
      show thesis
      proof (cases "is_low_surrogate (us ! Suc i)")
        case l: True
        show thesis
          by (rule that [of "Inr (join_surrogates (us ! i) (us ! Suc i))" "Suc (Suc i)"])
             (use False True l i in \<open>simp_all add: decode_utf16_next_def u d d2\<close>)
      next
        case l: False
        show thesis
          by (rule that [of "Inl (us ! i)" "Suc i"])
             (use False True l i in \<open>simp_all add: decode_utf16_next_def u d d2\<close>)
      qed
    next
      case last: False
      then show thesis
        using that [of "Inl (us ! i)" "Suc i"] False i
        by (simp add: decode_utf16_next_def u d)
    qed
  qed
qed

lemma utf16_collect_eq:
  assumes "count \<le> length sl"
  shows "utf16_collect sl count d i s logs cc =
    (let rs = decode_utf16 (drop i (utf16_units sl count)); pre = before_nul rs
     in Ok (s @ map item_char pre, add_all logs (utf16_warnings d pre),
            cc + length pre + (if 0 \<in> item_char ` set rs then 1 else 0)))"
  using assms
proof (induction sl count d i s logs cc rule: utf16_collect.induct)
  case (1 sl count d i s logs cc)
  let ?us = "utf16_units sl count"
  have u: "\<And>i. (utf16_unit sl count i :: (Error, u16 option) outcome) =
      Ok (if i < length ?us then Some (?us ! i) else None)"
    by (simp add: utf16_unit_in_range [OF "1.prems"])
  show ?case
  proof (cases "i < length ?us")
    case False
    then have "decode_utf16_next (utf16_unit sl count) i =
        (Ok None :: (Error, ((u16 + nat) \<times> nat) option) outcome)"
      by (intro decode_utf16_next_nil [OF u]) simp
    with False show ?thesis
      by (subst utf16_collect.simps) (simp add: Let_def)
  next
    case True
    obtain r j where n: "decode_utf16_next (utf16_unit sl count) i =
        (Ok (Some (r, j)) :: (Error, ((u16 + nat) \<times> nat) option) outcome)"
      and d: "decode_utf16 (drop i ?us) = r # decode_utf16 (drop j ?us)"
      by (rule decode_utf16_next_cons [OF u True])
    show ?thesis
    proof (cases r)
      case (Inl v)
      show ?thesis
        using "1.IH"(1) [OF n, of "(Inl v, j)" "Inl v" j v] n d Inl "1.prems"
        by (subst utf16_collect.simps)
           (simp add: Let_def)
    next
      case (Inr c)
      show ?thesis
        using "1.IH"(2) [OF n, of "(Inr c, j)" "Inr c" j c] n d Inr "1.prems"
        by (subst utf16_collect.simps)
           (simp add: Let_def)
    qed
  qed
qed

lemma from_utf16_le_string_single_eq:
  assumes "count \<le> length sl"
  shows "from_utf16_le_string_single sl count logs d =
    (let rs = decode_utf16 (utf16_units sl count); pre = before_nul rs
     in Ok ((map item_char pre,
             if 0 \<in> item_char ` set rs then length pre else length rs - 1),
            add_all logs (utf16_warnings d pre)))"
proof -
  have "before_nul rs = rs" if "0 \<notin> item_char ` set rs" for rs
    using that by (auto simp: before_nul_def takeWhile_eq_all_conv)
  then show ?thesis
    by (auto simp: from_utf16_le_string_single_def utf16_collect_eq [OF assms] Let_def)
qed

section \<open>UTF-16: round trips\<close>

definition is_scalar :: "nat \<Rightarrow> bool" where
  "is_scalar c \<longleftrightarrow> c < 0xD800 \<or> (0xE000 \<le> c \<and> c < 0x110000)"

definition encode_utf16_char :: "nat \<Rightarrow> u16 list" where
  "encode_utf16_char c =
     (if c < 0x10000 then [of_nat c]
      else [of_nat (0xD800 + (c - 0x10000) div 0x400), of_nat (0xDC00 + (c - 0x10000) mod 0x400)])"

definition encode_utf16 :: "nat list \<Rightarrow> u16 list" where
  "encode_utf16 cs = concat (map encode_utf16_char cs)"

definition utf16_bytes :: "u16 list \<Rightarrow> bytes" where
  "utf16_bytes us = concat (map to_le_bytes us)"

lemma unat_of_nat_u16 [simp]: "n < 0x10000 \<Longrightarrow> unat (of_nat n :: u16) = n"
  by (simp add: unat_of_nat)

lemma surrogate_of_nat:
  "n < 0x10000 \<Longrightarrow> is_surrogate (of_nat n) \<longleftrightarrow> 0xD800 \<le> n \<and> n \<le> 0xDFFF"
  "n < 0x10000 \<Longrightarrow> is_low_surrogate (of_nat n) \<longleftrightarrow> 0xDC00 \<le> n \<and> n \<le> 0xDFFF"
  "n < 0x10000 \<Longrightarrow> (0xDC00 :: u16) \<le> of_nat n \<longleftrightarrow> 0xDC00 \<le> n"
  by (simp_all add: is_surrogate_def is_low_surrogate_def word_le_nat_alt)

lemma decode_encode_char:
  assumes "is_scalar c"
  shows "decode_utf16 (encode_utf16_char c @ us) = Inr c # decode_utf16 us"
proof (cases "c < 0x10000")
  case True
  with assms have "\<not> is_surrogate (of_nat c)"
    by (auto simp: surrogate_of_nat is_scalar_def)
  with True show ?thesis by (simp add: encode_utf16_char_def)
next
  case False
  define d where "d = c - 0x10000"
  have d: "c = 0x10000 + d" "d < 0x100000"
    using False assms by (auto simp: d_def is_scalar_def)
  have hi: "0xD800 + d div 0x400 < 0xDC00" using d(2) by simp
  have lo: "0xDC00 + d mod 0x400 \<le> 0xDFFF" using mod_less_divisor [of "0x400" d] by simp
  have "join_surrogates (of_nat (0xD800 + d div 0x400)) (of_nat (0xDC00 + d mod 0x400)) = c"
    using hi lo d by (simp add: join_surrogates_def del: of_nat_add)
  then show ?thesis
    using hi lo False
    by (simp add: encode_utf16_char_def surrogate_of_nat d_def [symmetric] del: of_nat_add)
qed

lemma decode_encode_utf16:
  "list_all is_scalar cs \<Longrightarrow> decode_utf16 (encode_utf16 cs @ us) = map Inr cs @ decode_utf16 us"
  by (induction cs) (simp_all add: encode_utf16_def decode_encode_char)

lemma length_utf16_bytes [simp]: "length (utf16_bytes us) = 2 * length us"
  by (induction us) (simp_all add: utf16_bytes_def)

lemma utf16_bytes_append [simp]: "utf16_bytes (us @ vs) = utf16_bytes us @ utf16_bytes vs"
  by (simp add: utf16_bytes_def)

lemma utf16_units_bytes:
  assumes "2 * length us = count"
  shows "utf16_units (utf16_bytes us @ rest) count = us"
  using assms
proof (induction us arbitrary: count)
  case Nil
  then show ?case by (simp add: utf16_units_def)
next
  case (Cons u us)
  have "length (to_le_bytes u) = Suc (Suc 0)" by simp
  then obtain a b where ab: "to_le_bytes u = [a, b]"
    by (auto simp only: length_Suc_conv length_0_conv)
  then have u: "from_le_bytes [a, b] = u"
    using from_le_bytes_to_le_bytes [of u] by simp
  have c: "count div 2 = Suc (length us)" using Cons.prems by simp
  have "utf16_units (utf16_bytes us @ rest) (2 * length us) = us"
    by (rule Cons.IH) simp
  then have "map (\<lambda>i. from_le_bytes [(utf16_bytes us @ rest) ! (2 * i),
       (utf16_bytes us @ rest) ! (2 * i + 1)]) [0..<length us] = us"
    by (simp add: utf16_units_def)
  then show ?case
    by (simp add: utf16_units_def c utf16_bytes_def ab u upt_conv_Cons map_Suc_upt [symmetric]
        comp_def del: upt_Suc)
qed

lemma before_nul_Inr:
  "0 \<notin> set cs \<Longrightarrow> before_nul (map Inr cs @ Inr 0 # rs) = map Inr cs"
  by (induction cs) auto

lemma utf16_warnings_Inr [simp]: "utf16_warnings d (map Inr cs) = []"
  by (induction cs) auto

lemma map_item_char_Inr [simp]: "map item_char (map Inr cs) = cs"
  by (induction cs) auto

lemma single_terminated:
  assumes "list_all is_scalar cs" and "0 \<notin> set cs"
  shows "from_utf16_le_string_single (utf16_bytes (encode_utf16 cs @ 0 # us) @ rest)
           (2 * length (encode_utf16 cs @ 0 # us)) logs d = Ok ((cs, length cs), logs)"
proof -
  have z: "decode_utf16 (0 # us) = Inr 0 # decode_utf16 us"
    by (simp add: is_surrogate_def)
  have "decode_utf16 (encode_utf16 cs @ 0 # us) = map Inr cs @ Inr 0 # decode_utf16 us"
    using assms(1) by (simp only: decode_encode_utf16 z)
  then show ?thesis
    by (subst from_utf16_le_string_single_eq)
       (simp_all add: utf16_units_bytes before_nul_Inr [OF assms(2)] Let_def
          del: utf16_bytes_append map_map)
qed

lemma from_utf16_string_roundtrip:
  assumes "list_all is_scalar cs" and "0 \<notin> set cs"
  shows "from_utf16_le_string (utf16_bytes (encode_utf16 cs @ 0 # us))
           (2 * length (encode_utf16 cs @ 0 # us)) logs d = Ok (utf8 cs, logs)"
  using single_terminated [OF assms, of us "[]" logs d]
  by (simp add: from_utf16_le_string_def)

definition multi_sz :: "nat list list \<Rightarrow> u16 list" where
  "multi_sz ss = concat (map (\<lambda>s. encode_utf16 s @ [0]) ss) @ [0]"

definition is_bmp :: "nat \<Rightarrow> bool" where
  "is_bmp c \<longleftrightarrow> is_scalar c \<and> c \<noteq> 0 \<and> c < 0x10000"

lemma length_encode_bmp: "list_all is_bmp cs \<Longrightarrow> length (encode_utf16 cs) = length cs"
  by (induction cs) (simp_all add: encode_utf16_def encode_utf16_char_def is_bmp_def)

lemma strings_loop_blank:
  assumes "list_all (list_all is_bmp) ss"
    and "sl = pre @ utf16_bytes (multi_sz ss)"
  shows "utf16_strings_loop sl (length sl) d (length pre) acc logs =
    Ok (acc @ map utf8 (takeWhile (\<lambda>s. \<not> trims_to_empty s) ss), logs)"
  using assms
proof (induction ss arbitrary: pre acc)
  case Nil
  have "from_utf16_le_string_single (utf16_bytes [0]) 2 logs d = Ok (([], 0), logs)"
    using single_terminated [of "[]" "[]" "[]" logs d] by (simp add: encode_utf16_def)
  then show ?case
    using Nil by (subst utf16_strings_loop.simps)
      (simp add: multi_sz_def index_from_def trims_to_empty_def)
next
  case (Cons s ss)
  let ?n = "length s"
  have s: "list_all is_bmp s" using Cons.prems(1) by simp
  have sc: "list_all is_scalar s" "0 \<notin> set s"
    using s by (auto simp: list_all_iff is_bmp_def)
  have m: "multi_sz (s # ss) = encode_utf16 s @ 0 # multi_sz ss" by (simp add: multi_sz_def)
  have single: "from_utf16_le_string_single (utf16_bytes (multi_sz (s # ss)))
      (2 * length (multi_sz (s # ss))) logs d = Ok ((s, ?n), logs)"
    using single_terminated [OF sc, of "multi_sz ss" "[]" logs d] by (simp add: m)
  let ?pre = "pre @ utf16_bytes (encode_utf16 s @ [0])"
  have sl: "sl = ?pre @ utf16_bytes (multi_sz ss)"
    using Cons.prems(2) m by (simp add: utf16_bytes_def)
  have lp: "length ?pre = length pre + (2 * ?n + 2)"
    using length_encode_bmp [OF s] by simp
  have "utf16_strings_loop sl (length sl) d (length ?pre) (acc @ [utf8 s]) logs =
      Ok ((acc @ [utf8 s]) @ map utf8 (takeWhile (\<lambda>s. \<not> trims_to_empty s) ss), logs)"
    using Cons.prems(1) sl by (intro Cons.IH) auto
  then have IH: "utf16_strings_loop sl (length sl) d (length pre + (?n * 2 + 2)) (acc @ [utf8 s]) logs =
      Ok (acc @ utf8 s # map utf8 (takeWhile (\<lambda>s. \<not> trims_to_empty s) ss), logs)"
    by (simp only: lp) (simp add: mult.commute)
  have len: "length sl - length pre = 2 * length (multi_sz (s # ss))"
    "length pre < length sl" "drop (length pre) sl = utf16_bytes (multi_sz (s # ss))"
    using Cons.prems(2) by (simp_all add: multi_sz_def)
  show ?case
    using single IH len
    by (subst utf16_strings_loop.simps) (simp add: index_from_def)
qed

section \<open>Extended ASCII\<close>

lemma from_le_bytes_low_byte: "from_le_bytes [b, 0] = (of_nat (unat b) :: u16)"
  by (simp add: from_le_bytes_def)

lemma from_ascii_eq: "from_ascii bs logs d = (utf8 (map unat bs), logs)"
proof (induction bs)
  case Nil
  then show ?case by (simp add: utf8_def)
next
  case (Cons b bs)
  have b: "unat b < 0x10000" using unat_u8_less [of b] by simp
  have "\<not> is_surrogate (of_nat (unat b))"
    using surrogate_of_nat(1) [OF b] unat_u8_less [of b] by simp
  moreover have "unat (of_nat (unat b) :: u16) = unat b" using b by (rule unat_of_nat_u16)
  ultimately show ?case
    using Cons.IH by (simp add: from_le_bytes_low_byte utf8_def utf8_char_def char_of_byte_def Let_def)
qed

section \<open>Names of keys and values\<close>

text \<open>
  The two forms a name is stored in: a compressed name has one byte for each character below 256, any
  other name is UTF-16 and has no NUL.
\<close>

definition name_ok :: "bool \<Rightarrow> nat list \<Rightarrow> bool" where
  "name_ok compressed cs \<longleftrightarrow> (if compressed then \<forall>c\<in>set cs. c < 256 else list_all is_scalar cs \<and> 0 \<notin> set cs)"

definition name_bytes :: "bool \<Rightarrow> nat list \<Rightarrow> bytes" where
  "name_bytes compressed cs = (if compressed then map of_nat cs else utf16_bytes (encode_utf16 cs))"

lemma string_from_name_bytes:
  assumes "name_ok compressed cs" and "length (name_bytes compressed cs) < 2 ^ 16"
  shows "string_from_bytes compressed (name_bytes compressed cs) (of_nat (length (name_bytes compressed cs))) logs d = Ok (utf8 cs, logs)"
proof (cases compressed)
  case True
  have "map (\<lambda>c. unat (of_nat c :: u8)) cs = cs"
    using assms(1) True by (intro map_idI) (simp add: name_ok_def unat_of_nat)
  with True show ?thesis by (simp add: string_from_bytes_def name_bytes_def from_ascii_eq o_def)
next
  case False
  define us where "us = encode_utf16 cs"
  have c: "list_all is_scalar cs" "0 \<notin> set cs" using assms(1) False by (simp_all add: name_ok_def)
  have b: "name_bytes compressed cs = utf16_bytes us" using False by (simp add: name_bytes_def us_def)
  have n: "unat (of_nat (2 * length us) :: u16) = 2 * length us"
    using assms(2) unfolding b length_utf16_bytes by (intro unat_of_nat_less) simp
  have "decode_utf16 us = map Inr cs" using decode_encode_utf16 [OF c(1), of "[]"] by (simp add: us_def)
  moreover have "before_nul (map Inr cs) = map Inr cs"
    using c(2) by (induction cs) (auto simp: before_nul_def)
  ultimately have "\<exists>k. from_utf16_le_string_single (utf16_bytes us) (2 * length us) logs d = Ok ((cs, k), logs)"
    using utf16_units_bytes [of us "2 * length us" "[]"]
    by (subst from_utf16_le_string_single_eq) (simp_all add: Let_def o_def)
  with False show ?thesis unfolding b length_utf16_bytes string_from_bytes_def n from_utf16_le_string_def by auto
qed

lemma name_ok_compressed: "name_ok True (map unat (b :: bytes))" "name_bytes True (map unat b) = b"
  by (auto simp: name_ok_def name_bytes_def o_def unat_u8_less)

lemma name_bytes_empty: "name_bytes c cs = [] \<longleftrightarrow> cs = []"
proof -
  have "utf16_bytes us = [] \<longleftrightarrow> us = []" for us by (metis length_utf16_bytes length_0_conv mult_eq_0_iff zero_neq_numeral)
  moreover have "encode_utf16 cs = [] \<longleftrightarrow> cs = []" by (cases cs) (auto simp: encode_utf16_def encode_utf16_char_def)
  ultimately show ?thesis by (simp add: name_bytes_def)
qed

section \<open>Dates\<close>

lemma date_time_exact_iff:
  "get_date_time_from_filetime f = uint f * 100 - UNIX_EPOCH_NANOS \<longleftrightarrow>
     24211015631452242 \<le> uint f \<and> uint f \<le> 208678456368547758"
proof -
  let ?n = "uint f * 100 - UNIX_EPOCH_NANOS"
  have s: "get_date_time_from_filetime f = signed_take_bit 63 ?n"
    by (simp only: get_date_time_from_filetime_def Let_def sint_sbintrunc') simp
  have "signed_take_bit 63 ?n = ?n \<longleftrightarrow> - (2 ^ 63) \<le> ?n \<and> ?n < 2 ^ 63"
    by (rule signed_take_bit_int_eq_self_iff)
  also have "\<dots> \<longleftrightarrow> 24211015631452242 \<le> uint f \<and> uint f \<le> 208678456368547758"
    by (simp add: UNIX_EPOCH_NANOS_def) presburger
  finally show ?thesis by (simp add: s)
qed

section \<open>Printed forms\<close>

lemma of_char_less_256 [simp]: "of_char c < (256 :: nat)"
  by (metis of_char_mod_256 mod_less_divisor zero_less_numeral)

lemma char_zero: "CHR ''0'' = char_of (48 :: nat)"
  by (rule sym) (simp add: char_of_eq_iff take_bit_eq_mod)

lemma hex_byte_eq:
  "hex_byte b = [hex_digit True (unat b div 16), hex_digit True (unat b mod 16)]"
proof (cases "unat b < 16")
  case True
  then show ?thesis
    by (simp add: hex_byte_def show_hex.simps [of True "unat b"] pad_zeros_def hex_digit_def
        char_zero)
next
  case False
  have "unat b div 16 < 16" using unat_u8_less [of b] by simp
  then show ?thesis
    using False
    by (simp add: hex_byte_def show_hex.simps [of True "unat b"]
        show_hex.simps [of True "unat b div 16"] pad_zeros_def)
qed

fun join_with :: "string \<Rightarrow> string list \<Rightarrow> string" where
  "join_with sep [] = []"
| "join_with sep [s] = s"
| "join_with sep (s # t # ss) = s @ sep @ join_with sep (t # ss)"

definition unhex_digit :: "char \<Rightarrow> nat" where
  "unhex_digit c = (let n = of_char c in if n < 65 then n - 48 else n - 55)"

fun unhex :: "string \<Rightarrow> bytes" where
  "unhex (a # b # c # s) = of_nat (16 * unhex_digit a + unhex_digit b) # unhex s"
| "unhex [a, b] = [of_nat (16 * unhex_digit a + unhex_digit b)]"
| "unhex s = []"

lemma hex_digit_not_space: "d < 16 \<Longrightarrow> hex_digit True d \<noteq> CHR '' ''"
  by (auto simp: hex_digit_def char_of_eq_iff take_bit_eq_mod)

lemma unhex_hex_digit: "d < 16 \<Longrightarrow> unhex_digit (hex_digit True d) = d"
  by (auto simp: hex_digit_def unhex_digit_def Let_def)

lemma trim_end_join:
  "trim_end_char (CHR '' '') (concat (map (\<lambda>b. hex_byte b @ '' '') bs)) =
     join_with '' '' (map hex_byte bs)"
proof (induction bs rule: rev_induct)
  case Nil
  then show ?case by (simp add: trim_end_char_def)
next
  case (snoc b bs)
  have j: "concat (map (\<lambda>b. hex_byte b @ '' '') bs) @ hex_byte b =
     join_with '' '' (map hex_byte (bs @ [b]))"
  proof (induction bs)
    case (Cons c cs)
    then show ?case by (cases cs) auto
  qed simp
  have "unat b mod 16 < 16" by simp
  then have "trim_end_char (CHR '' '') (xs @ hex_byte b @ '' '') = xs @ hex_byte b" for xs
    by (simp add: trim_end_char_def hex_byte_eq hex_digit_not_space)
  then show ?case using j by simp
qed

lemma to_hex_string_eq: "to_hex_string bs = join_with '' '' (map hex_byte bs)"
  by (simp add: to_hex_string_def foldl_append_concat trim_end_join)

lemma unhex_to_hex_string: "unhex (to_hex_string bs) = bs"
proof -
  have "unhex (join_with '' '' (map hex_byte bs)) = bs"
  proof (induction bs)
    case Nil
    then show ?case by simp
  next
    case (Cons b bs)
    have d: "unat b div 16 < 16" "unat b mod 16 < 16" using unat_u8_less [of b] by simp_all
    have b: "(of_nat (16 * (unat b div 16) + unat b mod 16) :: u8) = b"
      by (simp only: mult_div_mod_eq) simp
    show ?case
      using Cons.IH b
      by (cases bs) (simp_all only: list.map join_with.simps hex_byte_eq append_Cons append_Nil
          unhex.simps unhex_hex_digit [OF d(1)] unhex_hex_digit [OF d(2)])
  qed
  then show ?thesis by (simp add: to_hex_string_eq)
qed

fun csv_collapse :: "string \<Rightarrow> string" where
  "csv_collapse (c # d # s) = (if c = CHR 0x22 then c # csv_collapse s else c # csv_collapse (d # s))"
| "csv_collapse s = []"

text \<open>A reader of the escaped form: between quotes, a doubled quote is one quote.\<close>

definition csv_unescape :: "string \<Rightarrow> string" where
  "csv_unescape s = (case s of [] \<Rightarrow> [] | c # cs \<Rightarrow> if c = CHR 0x22 then csv_collapse cs else s)"

lemma csv_collapse_doubled:
  "csv_collapse (concat (map (\<lambda>c. if c = CHR 0x22 then [CHR 0x22, CHR 0x22] else [c]) s) @ [CHR 0x22]) = s"
proof (induction s)
  case Nil
  then show ?case by simp
next
  case (Cons c s)
  obtain x xs where x: "concat (map (\<lambda>c. if c = CHR 0x22 then [CHR 0x22, CHR 0x22] else [c]) s)
      @ [CHR 0x22] = x # xs"
    by (cases "concat (map (\<lambda>c. if c = CHR 0x22 then [CHR 0x22, CHR 0x22] else [c]) s) @ [CHR 0x22]") auto
  show ?case using Cons.IH by (cases "c = CHR 0x22") (simp_all add: x)
qed

lemma csv_unescape_escape: "csv_unescape (escape_string s) = s"
proof (cases "list_ex (\<lambda>c. c \<in> {CHR 9, CHR 13, CHR 10, CHR 0x2C, CHR 0x22}) s")
  case True
  then show ?thesis
    by (simp add: escape_string_def csv_unescape_def csv_collapse_doubled)
next
  case False
  then have "CHR 0x22 \<notin> set s" by (auto simp: list_ex_iff)
  with False show ?thesis
    by (auto simp: escape_string_def csv_unescape_def split: list.splits)
qed

lemma find_char_append: "c \<notin> set r \<Longrightarrow> find_char c (r @ c # p) = Some (length r)"
  by (induction r) auto

lemma find_char_None: "find_char c s = None \<longleftrightarrow> c \<notin> set s"
  by (induction s) auto

lemma get_root_path_offset_split:
  "backslash \<notin> set root \<Longrightarrow>
     drop (get_root_path_offset (backslash # root @ backslash # p)) (backslash # root @ backslash # p) = p"
  by (simp add: get_root_path_offset_def find_char_append)

lemma get_root_path_offset_root:
  "backslash \<notin> set root \<Longrightarrow> get_root_path_offset (backslash # root) = 0"
  by (simp add: get_root_path_offset_def find_char_None [THEN iffD2])

section \<open>ROT13\<close>

lemma rot13_char_involutive: "rot13_char (rot13_char c) = c"
proof -
  have "of_char c < (256 :: nat)" by (rule of_char_less_256)
  then show ?thesis
    by (auto simp: rot13_char_def Let_def char_of_eq_iff take_bit_eq_mod)
qed

section \<open>LZNT1: the table of displacement widths\<close>

text \<open>The width of a displacement at position \<open>x\<close> of a block: the least, from 4 on, that reaches
  back to the start of the block.\<close>

definition displacement_width :: "nat \<Rightarrow> nat \<Rightarrow> bool" where
  "displacement_width x b \<longleftrightarrow> 4 \<le> b \<and> b \<le> 12 \<and> x \<le> 2 ^ b \<and> (b = 4 \<or> 2 ^ (b - 1) < x)"

lemma compression_bits_loop_spec:
  assumes "unat ob \<le> 8" and "y = 2 ^ (4 + unat ob)" and "x \<le> y" and "x \<le> 4096"
    and "unat ob = 0 \<or> 2 ^ (3 + unat ob) < x"
  shows "length (compression_bits_loop x y ob) = 4096 - x \<and>
    (\<forall>k < 4096 - x. displacement_width (x + k) (unat (compression_bits_loop x y ob ! k)))"
  using assms
proof (induction x y ob rule: compression_bits_loop.induct)
  case (1 x y ob)
  show ?case
  proof (cases "x < 4096")
    case False
    then show ?thesis by (simp add: compression_bits_loop.simps [of x y ob])
  next
    case True
    have u: "unat (4 + ob) = 4 + unat ob"
      using "1.prems"(1) by (simp add: unat_word_ariths)
    have head: "displacement_width x (unat (4 + ob))"
      using "1.prems" by (auto simp: displacement_width_def u)
    define rest where "rest = (if x = y then compression_bits_loop (x + 1) (y * 2) (ob + 1)
        else compression_bits_loop (x + 1) y ob)"
    have unfold: "compression_bits_loop x y ob = (4 + ob) # rest"
      using True by (simp add: compression_bits_loop.simps [of x y ob] rest_def)
    have rest: "length rest = 4096 - (x + 1) \<and>
        (\<forall>k < 4096 - (x + 1). displacement_width (x + 1 + k) (unat (rest ! k)))"
    proof (cases "x = y")
      case eq: True
      have "(2 :: nat) ^ (4 + unat ob) < 2 ^ 12" using True eq "1.prems"(2) by simp
      then have "4 + unat ob < 12" by (rule power_less_imp_less_exp [rotated]) simp
      then have ob: "unat (ob + 1) = unat ob + 1" "unat ob + 1 \<le> 8"
        by (simp_all add: unat_word_ariths)
      have "length (compression_bits_loop (x + 1) (y * 2) (ob + 1)) = 4096 - (x + 1) \<and>
        (\<forall>k < 4096 - (x + 1).
          displacement_width (x + 1 + k) (unat (compression_bits_loop (x + 1) (y * 2) (ob + 1) ! k)))"
        using "1.prems" True ob eq by (intro "1.IH"(1)) (simp_all add: power_add)
      with eq show ?thesis by (simp add: rest_def)
    next
      case neq: False
      then have "length (compression_bits_loop (x + 1) y ob) = 4096 - (x + 1) \<and>
        (\<forall>k < 4096 - (x + 1).
          displacement_width (x + 1 + k) (unat (compression_bits_loop (x + 1) y ob ! k)))"
        using "1.prems" True by (intro "1.IH"(2)) auto
      with neq show ?thesis by (simp add: rest_def)
    qed
    have "displacement_width (x + k) (unat (compression_bits_loop x y ob ! k))" if "k < 4096 - x" for k
      using head rest that by (cases k) (simp_all add: unfold)
    with rest True show ?thesis by (simp add: unfold)
  qed
qed

lemma calc_compression_bits_spec:
  "length calc_compression_bits = 4096 \<and>
   (\<forall>x < 4096. displacement_width x (unat (calc_compression_bits ! x)))"
  using compression_bits_loop_spec [of 0 16 0] by (simp add: calc_compression_bits_def)

section \<open>LZNT1: back references\<close>

text \<open>What a phrase of length \<open>n\<close> at distance \<open>back\<close> does to the output: every byte added is the
  byte \<open>back\<close> positions before it, be it old or added by the same phrase.\<close>

definition extends_by_phrase :: "nat \<Rightarrow> nat \<Rightarrow> bytes \<Rightarrow> bytes \<Rightarrow> bool" where
  "extends_by_phrase n back d r \<longleftrightarrow>
     length r = length d + n \<and> take (length d) r = d \<and>
     (\<forall>i. length d \<le> i \<and> i < length r \<longrightarrow> r ! i = r ! (i - back))"

lemma copy_phrase_Ok:
  assumes "a < length d"
  shows "\<exists>r. copy_phrase n d a = Ok r \<and> extends_by_phrase n (length d - a) d r"
  using assms
proof (induction n arbitrary: d a)
  case 0
  then show ?case by (auto simp: extends_by_phrase_def)
next
  case (Suc n)
  let ?d = "d @ [d ! a]"
  obtain r where r: "copy_phrase n ?d (a + 1) = Ok r"
    and e: "extends_by_phrase n (length ?d - (a + 1)) ?d r"
    using Suc.IH [of "a + 1" ?d] Suc.prems by auto
  have pre: "take (length d + 1) r = d @ [d ! a]" and len: "length r = length d + Suc n"
    using e by (auto simp: extends_by_phrase_def)
  have tk: "take (length d) r = d"
    using pre by (metis append_eq_conv_conj le_add1 min.absorb1 take_take)
  have at: "r ! length d = d ! a"
    using pre len by (metis lessI nth_append_length nth_take Suc_eq_plus1)
  have ra: "r ! a = d ! a" using tk Suc.prems by (metis nth_take)
  have "r ! i = r ! (i - (length d - a))" if "length d \<le> i" "i < length r" for i
  proof (cases "i = length d")
    case True
    then show ?thesis using at ra Suc.prems by simp
  next
    case False
    then show ?thesis using e that by (simp add: extends_by_phrase_def)
  qed
  then show ?case
    using r Suc.prems tk len by (auto simp: index_at_def extends_by_phrase_def)
qed

lemma lznt1_phrase_Ok:
  assumes "lznt1_phrase source so start d si di = Ok (d', di')" and "di = length d"
  shows "\<exists>n back. 1 \<le> back \<and> back \<le> length d \<and> 3 \<le> n \<and> di' = length d' \<and>
    extends_by_phrase n back d d'"
proof -
  from assms(1) obtain len dist where b: "dist \<le> di" "1 \<le> dist" "3 \<le> len"
    and c: "copy_phrase len d (di - dist) = Ok d'" and di': "di' = di + len"
    by (auto simp: lznt1_phrase_def bindO_eq_Ok Let_def guardP_def split: if_splits)
  have "di - dist < length d" using b assms(2) by simp
  then have "extends_by_phrase len dist d d'"
    using copy_phrase_Ok [of "di - dist" d len] c b assms(2) by auto
  then show ?thesis
    using b assms(2) di' by (auto simp: extends_by_phrase_def)
qed

section \<open>LZNT1: stored blocks\<close>

definition stored_block :: "bytes \<Rightarrow> bytes" where
  "stored_block c = to_le_bytes (of_nat (0x3000 + (length c - 1)) :: u16) @ c"

lemma word_and_exp_eq_0: "\<not> bit w k \<Longrightarrow> w AND 2 ^ k = (0 :: 'a::len word)"
  by (rule bit_word_eqI) (auto simp: bit_and_iff bit_exp_iff)

lemma stored_header:
  assumes "n < 4096"
  shows "(of_nat (0x3000 + n) :: u16) \<noteq> 0"
    and "(of_nat (0x3000 + n) :: u16) AND 0x8000 = 0"
    and "unat ((of_nat (0x3000 + n) :: u16) AND 0x0fff) = n"
proof -
  let ?h = "of_nat (0x3000 + n) :: u16"
  have u: "unat ?h = 0x3000 + n" using assms by (intro unat_of_nat_u16) simp
  then show "?h \<noteq> 0" by (metis add_is_0 unsigned_0 zero_neq_numeral)
  have "(0x3000 + n) mod 4096 = (0x3000 mod 4096 + n mod 4096) mod 4096"
    by (rule mod_add_eq [symmetric])
  then have r: "(0x3000 + n) mod 4096 = n" using assms by simp
  have m: "(0x0fff :: u16) = mask 12" by (simp add: mask_eq_exp_minus_1)
  show "unat (?h AND 0x0fff) = n"
    using r by (simp only: m take_bit_eq_mask [symmetric] unsigned_take_bit_eq u)
      (simp add: take_bit_eq_mod)
  have "\<not> bit (unat ?h) 15" using assms by (simp only: u) (simp add: bit_iff_odd)
  then have nb: "\<not> bit ?h 15" by (simp add: bit_unsigned_iff)
  show "?h AND 0x8000 = 0" using word_and_exp_eq_0 [OF nb] by simp
qed

lemma read_u16_at_append:
  "length pre = p \<Longrightarrow> read_u16_at (pre @ to_le_bytes (h :: u16) @ rest) p = Ok h"
  using from_le_bytes_to_le_bytes [of h] by (simp add: read_u16_at_def index_range_def)

lemma lznt1_blocks_stored:
  assumes "list_all (\<lambda>c. 1 \<le> length c \<and> length c \<le> 4096) cs"
    and "source = pre @ concat (map stored_block cs)"
  shows "lznt1_blocks source 0 (length source) d (length pre) di = Ok (d @ concat cs)"
  using assms
proof (induction cs arbitrary: pre d di)
  case Nil
  then show ?case by (subst lznt1_blocks.simps) simp
next
  case (Cons c cs)
  define n where "n = length c - 1"
  have n: "n < 4096" "length c = n + 1" using Cons.prems(1) by (auto simp: n_def)
  define h where "h = (of_nat (0x3000 + n) :: u16)"
  have h: "h \<noteq> 0" "h AND 0x8000 = 0" "unat (h AND 0x0fff) = n"
    unfolding h_def by (rule stored_header [OF n(1)])+
  have hb: "length (to_le_bytes h) = 2" by simp
  have src: "source = pre @ to_le_bytes h @ c @ concat (map stored_block cs)"
    using Cons.prems(2) by (simp add: stored_block_def [of c] h_def n_def)
  have rd: "read_u16_at source (length pre) = Ok h"
    unfolding src by (rule read_u16_at_append) simp
  have blk: "(index_range source (length pre + 2) (length pre + 2 + (n + 1)) :: bytes result) = Ok c"
    using hb n(2) by (simp add: index_range_def src)
  let ?pre = "pre @ to_le_bytes h @ c"
  have lp: "length ?pre = length pre + 2 + (n + 1)" using hb n(2) by simp
  have "lznt1_blocks source 0 (length source) (d @ c) (length ?pre) (di + (n + 1)) =
      Ok ((d @ c) @ concat cs)"
    using Cons.prems(1) src by (intro Cons.IH) auto
  then have IH: "lznt1_blocks source 0 (length source) (d @ c) (length pre + 2 + (n + 1)) (di + (n + 1)) =
      Ok (d @ c @ concat cs)"
    by (simp only: lp append_assoc)
  have "length pre < length source" using hb by (simp add: src)
  then show ?case
    using rd blk h IH by (subst lznt1_blocks.simps) (simp add: Let_def)
qed

section \<open>Properties\<close>

text \<open>
  C32: within a slice, \<open>from_utf16_le_string_single\<close> never panics, decodes exactly what the decoder of
  the whole list of code units gives before the first NUL, warns once per unpaired surrogate there,
  and counts the characters before the NUL, or one less than all of them when there is no NUL.
\<close>

theorem utf16_single_correct:
  assumes "count \<le> length sl"
  shows "from_utf16_le_string_single sl count logs d =
    (let rs = decode_utf16 (utf16_units sl count); pre = before_nul rs
     in Ok ((map item_char pre, if 0 \<in> item_char ` set rs then length pre else length rs - 1),
            add_all logs (utf16_warnings d pre)))"
  using assms by (rule from_utf16_le_string_single_eq)

theorem utf16_single_correct_witness:
  "from_utf16_le_string_single [0x41, 0, 0x00, 0xD8, 0x42, 0, 0, 0, 0x43, 0] 10 Logs_default ''n'' =
     Ok (([0x41, 0xFFFD, 0x42], 3), Logs_add Logs_default WarningConversion (utf16_warning ''n'' 0xD800))"
proof -
  have u: "utf16_units [0x41, 0, 0x00, 0xD8, 0x42, 0, 0, 0, 0x43, 0] 10 = [0x41, 0xD800, 0x42, 0, 0x43]"
    by (simp add: utf16_units_def upt_rec from_le_bytes_def)
  show ?thesis
    using utf16_single_correct [of 10 "[0x41, 0, 0x00, 0xD8, 0x42, 0, 0, 0, 0x43, 0]" Logs_default "''n''"]
    by (simp add: u is_surrogate_def is_low_surrogate_def Let_def REPLACEMENT_CHARACTER_def)
qed

text \<open>
  C33: a REG_SZ value is read back: the UTF-16LE encoding of any string of Unicode scalar values
  without NUL, followed by its terminator and by anything at all, decodes to that string, with no
  warning.
\<close>

theorem reg_sz_roundtrip:
  assumes "list_all is_scalar cs" and "0 \<notin> set cs"
  shows "from_utf16_le_string (utf16_bytes (encode_utf16 cs @ 0 # us))
           (2 * length (encode_utf16 cs @ 0 # us)) logs d = Ok (utf8 cs, logs)"
  using assms by (rule from_utf16_string_roundtrip)

theorem reg_sz_roundtrip_witness:
  "from_utf16_le_string [0x28, 0, 0x01, 0xD8, 0x37, 0xDC, 0, 0, 0x58, 0] 10 Logs_default ''n'' =
     Ok (utf8 [0x28, 0x10437], Logs_default)"
proof -
  have e: "utf16_bytes (encode_utf16 [0x28, 0x10437] @ 0 # [0x58]) =
      [0x28, 0, 0x01, 0xD8, 0x37, 0xDC, 0, 0, 0x58, 0]"
    "length (encode_utf16 [0x28, 0x10437] @ 0 # [0x58]) = 5"
    by (simp_all add: encode_utf16_def encode_utf16_char_def utf16_bytes_def to_le_bytes_def)
  show ?thesis
    using reg_sz_roundtrip [of "[0x28, 0x10437]" "[0x58]" Logs_default "''n''"]
    unfolding e by (simp add: is_scalar_def)
qed



text \<open>
  A string of white space ends the list too, where the comment on the function names an empty string
  only: the strings behind a string that is one space are lost.
\<close>

lemma multi_sz_blank_ends_list:
  "from_utf16_le_strings (utf16_bytes (multi_sz [[0x20], [0x61]]))
     (length (utf16_bytes (multi_sz [[0x20], [0x61]]))) logs d = Ok ([], logs)"
  using strings_loop_blank [of "[[0x20], [0x61]]" "utf16_bytes (multi_sz [[0x20], [0x61]])" "[]" d "[]" logs]
  by (simp add: from_utf16_le_strings_def trims_to_empty_def is_bmp_def is_scalar_def is_whitespace_def)

text \<open>
  The restriction to the Basic Multilingual Plane is needed.  The offset of the next string is
  computed from the number of characters, and a character outside the plane takes two code units:
  after such a string the reader lands on its terminator, takes it for the end of the list and drops
  the strings that follow.
\<close>

lemma multi_sz_supplementary_loses_strings:
  "from_utf16_le_strings (utf16_bytes (multi_sz [[0x10437], [0x61]]))
     (length (utf16_bytes (multi_sz [[0x10437], [0x61]]))) logs d = Ok ([utf8 [0x10437]], logs)"
proof -
  have m: "multi_sz [[0x10437], [0x61]] = [0xD801, 0xDC37, 0, 0x61, 0, 0]"
    by (simp add: multi_sz_def encode_utf16_def encode_utf16_char_def)
  have s1: "from_utf16_le_string_single (utf16_bytes [0xD801, 0xDC37, 0, 0x61, 0, 0]) 12 logs d =
      Ok (([0x10437], 1), logs)"
    using single_terminated [of "[0x10437]" "[0x61, 0, 0]" "[]" logs d]
    by (simp add: is_scalar_def encode_utf16_def encode_utf16_char_def)
  have s2: "from_utf16_le_string_single (utf16_bytes [0, 0x61, 0, 0]) 8 logs d = Ok (([], 0), logs)"
    using single_terminated [of "[]" "[0x61, 0, 0]" "[]" logs d]
    by (simp add: encode_utf16_def)
  have d4: "drop 4 (utf16_bytes [0xD801, 0xDC37, 0, 0x61, 0, 0]) = utf16_bytes [0, 0x61, 0, 0]"
    by (simp add: utf16_bytes_def to_le_bytes_def)
  show ?thesis
    using s1 s2 d4
    by (simp add: m from_utf16_le_strings_def utf16_strings_loop.simps index_from_def
        trims_to_empty_def is_whitespace_def)
qed

text \<open>the date of a FILETIME is exact, in nanoseconds from the Unix epoch, exactly for the values
  from 24211015631452242 (in 1677) to 208678456368547758 (in 2262); outside it the cast to 64 bits
  wraps around.
\<close>

theorem filetime_exact_iff:
  "get_date_time_from_filetime f = uint f * 100 - UNIX_EPOCH_NANOS \<longleftrightarrow>
     24211015631452242 \<le> uint f \<and> uint f \<le> 208678456368547758"
  by (rule date_time_exact_iff)

text \<open>The FILETIME 0 (1601), which a transaction log and unused headers carry, becomes a date in 2185.\<close>

lemma filetime_zero_wraps: "get_date_time_from_filetime 0 = 6802270473709551616"
  by (simp add: get_date_time_from_filetime_def UNIX_EPOCH_NANOS_def)

text \<open>the hex form of a byte string loses nothing: it has one two-digit group per byte, and reading
  the groups gives the bytes back.
\<close>

theorem to_hex_string_roundtrip: "unhex (to_hex_string bs) = bs"
  by (rule unhex_to_hex_string)

text \<open>a field escaped for a separated-values file is read back by a reader of such files, whatever
  quotes, separators and line ends it has.
\<close>

theorem escape_string_roundtrip: "csv_unescape (escape_string s) = s"
  by (rule csv_unescape_escape)

text \<open>ROT13 decoding is its own inverse and changes only ASCII letters, so it keeps the length and
  every byte of a multi-byte character.
\<close>

theorem decode_rot13_involutive:
  "decode_rot13 (decode_rot13 s) = s \<and> length (decode_rot13 s) = length s \<and>
   (\<forall>c. 128 \<le> (of_char c :: nat) \<longrightarrow> rot13_char c = c)"
proof (intro conjI)
  show "decode_rot13 (decode_rot13 s) = s"
    by (simp add: decode_rot13_def rot13_char_involutive map_idI)
  show "length (decode_rot13 s) = length s" by (simp add: decode_rot13_def)
  show "\<forall>c. 128 \<le> (of_char c :: nat) \<longrightarrow> rot13_char c = c"
    by (simp add: rot13_char_def Let_def)
qed

theorem decode_rot13_involutive_witness:
  "decode_rot13 (decode_rot13 ''Uryyb'') = ''Uryyb'' \<and> rot13_char (char_of (200 :: nat)) = char_of (200 :: nat)"
  using decode_rot13_involutive [of "''Uryyb''"] by simp

text \<open>
  The table of displacement widths has 4096 entries, and entry \<open>x\<close> is the least width from 4 to 12
  whose displacements reach from position \<open>x\<close> to the start of its block.
\<close>

theorem compression_bits_correct:
  "length calc_compression_bits = 4096 \<and>
   (\<forall>x < 4096. displacement_width x (unat (calc_compression_bits ! x)))"
  by (rule calc_compression_bits_spec)

theorem compression_bits_correct_witness:
  "displacement_width 17 (unat (calc_compression_bits ! 17)) \<and> unat (calc_compression_bits ! 17) = 5"
proof -
  have d: "displacement_width 17 (unat (calc_compression_bits ! 17))"
    using compression_bits_correct by simp
  define b where "b = unat (calc_compression_bits ! 17)"
  have b: "4 \<le> b" "b \<le> 12" "17 \<le> (2 :: nat) ^ b" "b = 4 \<or> 2 ^ (b - 1) < (17 :: nat)"
    using d by (simp_all add: displacement_width_def b_def)
  have "b \<noteq> 4" using b(3) by auto
  then have "(2 :: nat) ^ (b - 1) < 2 ^ 5" using b(4) by simp
  then have "b - 1 < 5" by (rule power_less_imp_less_exp [rotated]) simp
  then have "b = 5" using b(1) b(4) \<open>b \<noteq> 4\<close>
    by (cases "b = 5") (auto simp: numeral_eq_Suc le_Suc_eq)
  then show ?thesis using d by (simp add: b_def)
qed

text \<open>
  An LZNT1 phrase that is accepted refers to bytes already written and appends a copy of them,
  byte by byte, so that a phrase longer than its distance repeats its own output; the count of bytes
  written stays the length of the output.
\<close>

theorem lznt1_phrase_correct:
  assumes "lznt1_phrase source so start d si (length d) = Ok (d', di')"
  shows "\<exists>n bk. 1 \<le> bk \<and> bk \<le> length d \<and> 3 \<le> n \<and> di' = length d' \<and> extends_by_phrase n bk d d'"
  using lznt1_phrase_Ok [OF assms refl] by blast

theorem lznt1_phrase_correct_witness:
  "\<exists>n bk. 1 \<le> bk \<and> bk \<le> length [0x61 :: u8] \<and> 3 \<le> n \<and>
     extends_by_phrase n bk [0x61] [0x61, 0x61, 0x61, 0x61]"
proof -
  have "displacement_width 1 (unat (calc_compression_bits ! 1))"
    using calc_compression_bits_spec by simp
  then have b4: "unat (calc_compression_bits ! 1) = 4"
    by (auto simp: displacement_width_def numeral_eq_Suc le_Suc_eq)
  have l: "1 < length calc_compression_bits" using calc_compression_bits_spec by simp
  have "lznt1_phrase [0, 0] 0 0 [0x61] 0 1 = Ok ([0x61, 0x61, 0x61, 0x61], 4)"
    using l b4 by (simp add: lznt1_phrase_def index_at_def [of calc_compression_bits] Let_def
        read_u16_at_def index_range_def from_le_bytes_def index_at_def numeral_eq_Suc)
  then show ?thesis
    using lznt1_phrase_correct [of "[0, 0]" 0 0 "[0x61]" 0 "[0x61, 0x61, 0x61, 0x61]" 4] by simp
qed

text \<open>data stored in uncompressed LZNT1 blocks of at most 4096 bytes each is read back in full.
\<close>

theorem lznt1_stored_roundtrip:
  assumes "list_all (\<lambda>c. 1 \<le> length c \<and> length c \<le> 4096) cs"
  shows "decode_lznt1 (concat (map stored_block cs)) 0 (length (concat (map stored_block cs))) =
    Ok (concat cs)"
  using lznt1_blocks_stored [OF assms, of "concat (map stored_block cs)" "[]" "[]" 0]
  by (simp add: decode_lznt1_def)

theorem lznt1_stored_roundtrip_witness:
  "decode_lznt1 (stored_block [1, 2, 3] @ stored_block [4]) 0 8 = Ok [1, 2, 3, 4]"
  using lznt1_stored_roundtrip [of "[[1, 2, 3], [4]]"] by (simp add: stored_block_def)

end
