(* ===== verification/Hive_File.thy ===== *)
theory Hive_File
  imports Util
begin

text \<open>
  The registry file in memory (\<open>src/src/file_info.rs\<close>), the header of a hive bin
  (\<open>src/src/hive_bin_header.rs\<close>) and the kinds and states of cells (\<open>src/src/cell.rs\<close>).  The
  combinators \<open>alt\<close> and \<open>map\<close> of \<open>nom\<close>, which \<open>CellType::read_cell_type\<close> uses, extend the record of
  external functions here.
\<close>

section \<open>The file\<close>

record FileInfo =
  hbin_offset_absolute :: usize
  buffer :: bytes

text \<open>The reading of the whole source is given by its bytes.\<close>

definition FileInfo_from_read_seek :: "bytes \<Rightarrow> FileInfo" where
  "FileInfo_from_read_seek content = \<lparr>hbin_offset_absolute = 0, buffer = content\<rparr>"

definition get_file_offset :: "FileInfo \<Rightarrow> bytes \<Rightarrow> usize" where
  "get_file_offset fi input = ptr_diff (buffer fi) input"

section \<open>Hive bins\<close>

record HiveBinHeader =
  hbh_file_offset_absolute :: usize
  hbh_offset_from_first_hbin :: u32
  hbh_size :: u32
  hbh_unknown1 :: u32
  hbh_unknown2 :: u32
  hbh_timestamp :: DateTime
  hbh_spare :: u32

definition HiveBinHeader_from_bytes :: "'z env_scheme \<Rightarrow> FileInfo \<Rightarrow> HiveBinHeader parser" where
  "HiveBinHeader_from_bytes N fi input =
     (let file_offset_absolute = get_file_offset fi input in
      bindO (nom_tag N ''hbin'' input) (\<lambda>(input, _).
      bindO (nom_le_u32 N input) (\<lambda>(input, offset_from_first_hbin).
      bindO (nom_le_u32 N input) (\<lambda>(input, size).
      bindO (nom_le_u32 N input) (\<lambda>(input, unknown1).
      bindO (nom_le_u32 N input) (\<lambda>(input, unknown2).
      bindO (nom_le_u64 N input) (\<lambda>(input, timestamp).
      bindO (nom_le_u32 N input) (\<lambda>(input, spare).
      Ok (input,
          \<lparr>hbh_file_offset_absolute = file_offset_absolute,
           hbh_offset_from_first_hbin = offset_from_first_hbin,
           hbh_size = size,
           hbh_unknown1 = unknown1,
           hbh_unknown2 = unknown2,
           hbh_timestamp = get_date_time_from_filetime timestamp,
           hbh_spare = spare\<rparr>)))))))))"

section \<open>Cells\<close>

datatype CellState =
    DeletedTransactionLog
  | DeletedPrimaryFile
  | DeletedPrimaryFileSlack
  | Allocated
  | ModifiedTransactionLog

text \<open>The discriminants, which \<open>is_deleted\<close> compares with zero.\<close>

fun CellState_i8 :: "CellState \<Rightarrow> int" where
  "CellState_i8 DeletedTransactionLog = -3"
| "CellState_i8 DeletedPrimaryFile = -2"
| "CellState_i8 DeletedPrimaryFileSlack = -1"
| "CellState_i8 Allocated = 0"
| "CellState_i8 ModifiedTransactionLog = 1"

definition is_deleted :: "CellState \<Rightarrow> bool" where
  "is_deleted s \<longleftrightarrow> CellState_i8 s < 0"

definition is_deleted_primary_file :: "CellState \<Rightarrow> bool" where
  "is_deleted_primary_file s \<longleftrightarrow> s = DeletedPrimaryFile \<or> s = DeletedPrimaryFileSlack"

datatype CellType =
    CellOther
  | CellKey
  | CellVal
  | CellSecurity
  | CellBigDataType
  | CellIndexRoot
  | CellHashLeaf
  | CellFastLeaf
  | CellIndexLeaf

record env_cell = env +
  nom_alt_cell :: "CellType parser list \<Rightarrow> CellType parser"
  nom_map_cell :: "bytes parser \<Rightarrow> (bytes \<Rightarrow> CellType) \<Rightarrow> CellType parser"

definition read_cell_type :: "'z env_cell_scheme \<Rightarrow> bytes \<Rightarrow> CellType" where
  "read_cell_type N input =
     (case nom_alt_cell N
        [nom_map_cell N (nom_tag N ''nk'') (\<lambda>_. CellKey),
         nom_map_cell N (nom_tag N ''vk'') (\<lambda>_. CellVal),
         nom_map_cell N (nom_tag N ''sk'') (\<lambda>_. CellSecurity),
         nom_map_cell N (nom_tag N ''lf'') (\<lambda>_. CellFastLeaf),
         nom_map_cell N (nom_tag N ''li'') (\<lambda>_. CellIndexLeaf),
         nom_map_cell N (nom_tag N ''lh'') (\<lambda>_. CellHashLeaf),
         nom_map_cell N (nom_tag N ''ri'') (\<lambda>_. CellIndexRoot),
         nom_map_cell N (nom_tag N ''db'') (\<lambda>_. CellBigDataType)] input of
        Ok (_, cell_type) \<Rightarrow> cell_type
      | _ \<Rightarrow> CellOther)"

section \<open>What nom promises of the combinators used here\<close>

definition map_doc :: "'a parser \<Rightarrow> ('a \<Rightarrow> 'b) \<Rightarrow> 'b parser" where
  "map_doc p f i = bindO (p i) (\<lambda>(i', x). Ok (i', f x))"

locale nom_cell_spec = nom_spec N for N :: "'z env_cell_scheme" +
  assumes alt_cell [nom_simps]: "nom_alt_cell N ps i = alt_doc ps i"
    and map_cell [nom_simps]: "nom_map_cell N p f i = map_doc p f i"
begin

text \<open>The kind of a cell is decided by the two bytes of its signature alone.\<close>

lemma read_cell_type_signature:
  "read_cell_type N input =
     (if take 2 input = bytes_of ''nk'' then CellKey
      else if take 2 input = bytes_of ''vk'' then CellVal
      else if take 2 input = bytes_of ''sk'' then CellSecurity
      else if take 2 input = bytes_of ''lf'' then CellFastLeaf
      else if take 2 input = bytes_of ''li'' then CellIndexLeaf
      else if take 2 input = bytes_of ''lh'' then CellHashLeaf
      else if take 2 input = bytes_of ''ri'' then CellIndexRoot
      else if take 2 input = bytes_of ''db'' then CellBigDataType
      else CellOther)"
  by (simp add: read_cell_type_def alt_cell map_cell tag map_doc_def tag_doc_def lit_len)

end

definition env_cell_ref :: env_cell where
  "env_cell_ref = env.extend env_ref \<lparr>nom_alt_cell = alt_doc, nom_map_cell = map_doc\<rparr>"

interpretation ref_nom_cell: nom_cell_spec env_cell_ref
  by unfold_locales (simp_all add: env_cell_ref_def env_ref_def env.defs)

context nom_spec
begin

lemma hive_bin_header_eq_Ok:
  "HiveBinHeader_from_bytes N fi input = Ok (rest, h) \<longleftrightarrow>
     32 \<le> length input \<and> take 4 input = bytes_of ''hbin'' \<and> rest = drop 32 input \<and>
     h = \<lparr>hbh_file_offset_absolute = get_file_offset fi input,
          hbh_offset_from_first_hbin = from_le_bytes (take 4 (drop 4 input)),
          hbh_size = from_le_bytes (take 4 (drop 8 input)),
          hbh_unknown1 = from_le_bytes (take 4 (drop 12 input)),
          hbh_unknown2 = from_le_bytes (take 4 (drop 16 input)),
          hbh_timestamp = get_date_time_from_filetime (from_le_bytes (take 8 (drop 20 input))),
          hbh_spare = from_le_bytes (take 4 (drop 28 input))\<rparr>"
  by (auto simp: HiveBinHeader_from_bytes_def Let_def bindO_eq_Ok tag le_u32 le_u64
      tag_doc_eq_Ok le_doc_eq_Ok lit_len)

lemma hive_bin_header_total:
  "HiveBinHeader_from_bytes N fi input \<noteq> Panic \<and> HiveBinHeader_from_bytes N fi input \<noteq> Diverge"
  by (auto simp: HiveBinHeader_from_bytes_def Let_def bindO_eq_Panic bindO_eq_Diverge
      tag le_u32 le_u64)

end

text \<open>The bytes of a header, to state that parsing gives back what was written.\<close>

definition hbin_bytes :: "u32 \<Rightarrow> u32 \<Rightarrow> u32 \<Rightarrow> u32 \<Rightarrow> u64 \<Rightarrow> u32 \<Rightarrow> bytes" where
  "hbin_bytes offset sz u1 u2 timestamp spare =
     bytes_of ''hbin'' @ to_le_bytes offset @ to_le_bytes sz @ to_le_bytes u1 @ to_le_bytes u2 @
     to_le_bytes timestamp @ to_le_bytes spare"

section \<open>Properties\<close>

text \<open>a hive bin header is read back: parsing 32 header bytes followed by anything gives exactly
  the fields written, the offset of the header in the file, and the bytes behind it.
\<close>

theorem hbin_header_roundtrip:
  assumes "nom_spec N" and "buffer fi = pre @ hbin_bytes off sz u1 u2 ts sp @ rest"
  shows "HiveBinHeader_from_bytes N fi (hbin_bytes off sz u1 u2 ts sp @ rest) =
    Ok (rest, \<lparr>hbh_file_offset_absolute = length pre, hbh_offset_from_first_hbin = off,
      hbh_size = sz, hbh_unknown1 = u1, hbh_unknown2 = u2,
      hbh_timestamp = get_date_time_from_filetime ts, hbh_spare = sp\<rparr>)"
  unfolding nom_spec.hive_bin_header_eq_Ok [OF assms(1)]
  using from_le_bytes_to_le_bytes [of off] from_le_bytes_to_le_bytes [of sz]
    from_le_bytes_to_le_bytes [of u1] from_le_bytes_to_le_bytes [of u2]
    from_le_bytes_to_le_bytes [of ts] from_le_bytes_to_le_bytes [of sp]
  by (simp add: hbin_bytes_def get_file_offset_def ptr_diff_def assms(2))

theorem hbin_header_roundtrip_witness:
  "HiveBinHeader_from_bytes env_ref \<lparr>hbin_offset_absolute = 0, buffer = hbin_bytes 0 4096 0 0 0 0\<rparr>
     (hbin_bytes 0 4096 0 0 0 0) =
   Ok ([], \<lparr>hbh_file_offset_absolute = 0, hbh_offset_from_first_hbin = 0, hbh_size = 4096,
      hbh_unknown1 = 0, hbh_unknown2 = 0,
      hbh_timestamp = get_date_time_from_filetime 0, hbh_spare = 0\<rparr>)"
  using hbin_header_roundtrip [OF ref_nom.nom_spec_axioms,
      of "\<lparr>hbin_offset_absolute = 0, buffer = hbin_bytes 0 4096 0 0 0 0\<rparr>" "[]" 0 4096 0 0 0 0 "[]"]
  by simp

text \<open>
  The kind of a cell depends on the two signature bytes only, each of the eight signatures has
  its own kind, and everything else, a short input included, is \<open>CellOther\<close>.
\<close>

theorem cell_type_by_signature:
  assumes "nom_cell_spec N"
  shows "read_cell_type N input =
    (case map_of [(bytes_of ''nk'', CellKey), (bytes_of ''vk'', CellVal),
        (bytes_of ''sk'', CellSecurity), (bytes_of ''lf'', CellFastLeaf),
        (bytes_of ''li'', CellIndexLeaf), (bytes_of ''lh'', CellHashLeaf),
        (bytes_of ''ri'', CellIndexRoot), (bytes_of ''db'', CellBigDataType)] (take 2 input) of
       Some t \<Rightarrow> t | None \<Rightarrow> CellOther)"
  by (simp add: nom_cell_spec.read_cell_type_signature [OF assms])

theorem cell_type_by_signature_witness:
  "read_cell_type env_cell_ref [0x76, 0x6B, 1, 2, 3] = CellVal \<and>
   read_cell_type env_cell_ref [0x76] = CellOther"
  using cell_type_by_signature [OF ref_nom_cell.nom_cell_spec_axioms, of "[0x76, 0x6B, 1, 2, 3]"]
    cell_type_by_signature [OF ref_nom_cell.nom_cell_spec_axioms, of "[0x76]"]
  by (simp add: bytes_of_def byte_of_char_def of_char_def)

end
