(* ===== verification/Cell_Fields.thy ===== *)
theory Cell_Fields
  imports Hive_File
begin

text \<open>
  The fields of cells (\<open>src/src/field_offset_len.rs\<close>): a field is light (a value) or full (a value with
  its offset and its length), and a cell's detail has one variant for all its fields.  In the model a
  detail is a record of \<open>Field\<close>s, all of the variant the detail was made with; a setter keeps the
  variant of the field it replaces, as the generated setters of the enum do.
\<close>

record 'a FieldFull =
  ff_value :: 'a
  ff_offset :: usize
  ff_len :: u32

record 'a FieldLight =
  fl_value :: 'a

definition FieldFull_new_with_len :: "'a \<Rightarrow> usize \<Rightarrow> u32 \<Rightarrow> 'a FieldFull" where
  "FieldFull_new_with_len v off len = \<lparr>ff_value = v, ff_offset = off, ff_len = len\<rparr>"

text \<open>\<open>std::mem::size_of::<T>()\<close> is given by the caller.\<close>

definition FieldFull_new :: "nat \<Rightarrow> 'a \<Rightarrow> usize \<Rightarrow> 'a FieldFull" where
  "FieldFull_new size_of v off = FieldFull_new_with_len v off (of_nat size_of)"

definition FieldFull_default :: "'a \<Rightarrow> 'a FieldFull" where
  "FieldFull_default d = \<lparr>ff_value = d, ff_offset = 0, ff_len = 0\<rparr>"

definition FieldLight_new :: "'a \<Rightarrow> 'a FieldLight" where
  "FieldLight_new v = \<lparr>fl_value = v\<rparr>"

section \<open>The trait FieldTrait\<close>

definition FieldFull_set :: "'a FieldFull \<Rightarrow> 'a \<Rightarrow> 'a FieldFull" where
  "FieldFull_set f v = f\<lparr>ff_value := v\<rparr>"

definition FieldLight_set :: "'a FieldLight \<Rightarrow> 'a \<Rightarrow> 'a FieldLight" where
  "FieldLight_set f v = f\<lparr>fl_value := v\<rparr>"

definition FieldLight_offset :: "'a FieldLight \<Rightarrow> usize" where "FieldLight_offset f = 0"

definition FieldLight_len :: "'a FieldLight \<Rightarrow> u32" where "FieldLight_len f = 0"

definition FieldFull_get_field_light :: "'a FieldFull \<Rightarrow> 'a FieldLight option" where
  "FieldFull_get_field_light f = None"

definition FieldFull_get_field_full :: "'a FieldFull \<Rightarrow> 'a FieldFull option" where
  "FieldFull_get_field_full f = Some f"

definition FieldLight_get_field_light :: "'a FieldLight \<Rightarrow> 'a FieldLight option" where
  "FieldLight_get_field_light f = Some f"

definition FieldLight_get_field_full :: "'a FieldLight \<Rightarrow> 'a FieldFull option" where
  "FieldLight_get_field_full f = None"

locale field_trait =
  fixes val :: "'f \<Rightarrow> 'a"
    and set_val :: "'f \<Rightarrow> 'a \<Rightarrow> 'f"
    and off :: "'f \<Rightarrow> usize"
    and len :: "'f \<Rightarrow> u32"
    and as_light :: "'f \<Rightarrow> 'a FieldLight option"
    and as_full :: "'f \<Rightarrow> 'a FieldFull option"
  assumes val_set: "val (set_val f v) = v"
    and off_set: "off (set_val f v) = off f"
    and len_set: "len (set_val f v) = len f"
    and as_light_val: "as_light f = Some l \<Longrightarrow> fl_value l = val f \<and> off f = 0 \<and> len f = 0"
    and as_full_val: "as_full f = Some g \<Longrightarrow> ff_value g = val f \<and> ff_offset g = off f \<and> ff_len g = len f"
    and one_variant: "(as_light f = None) \<noteq> (as_full f = None)"
begin

text \<open>A field whose position is known is a full one.\<close>

lemma positioned_is_full: "off f \<noteq> 0 \<Longrightarrow> as_full f \<noteq> None"
  using as_light_val one_variant [of f] by (cases "as_light f") auto

lemma set_set: "val (set_val (set_val f v) w) = w \<and> off (set_val (set_val f v) w) = off f"
  by (simp add: val_set off_set)

end

interpretation full_field: field_trait ff_value FieldFull_set ff_offset ff_len
  FieldFull_get_field_light FieldFull_get_field_full
  by unfold_locales
    (auto simp: FieldFull_set_def FieldFull_get_field_light_def FieldFull_get_field_full_def)

interpretation light_field: field_trait fl_value FieldLight_set FieldLight_offset FieldLight_len
  FieldLight_get_field_light FieldLight_get_field_full
  by unfold_locales
    (auto simp: FieldLight_set_def FieldLight_get_field_light_def FieldLight_get_field_full_def
      FieldLight_offset_def FieldLight_len_def)

section \<open>Fields of either variant\<close>

datatype 'a Field = Light "'a FieldLight" | Full "'a FieldFull"

fun field_value :: "'a Field \<Rightarrow> 'a" where
  "field_value (Light f) = fl_value f"
| "field_value (Full f) = ff_value f"

text \<open>\<open>init_value_enum\<close>: the default value in the variant asked for.\<close>

definition Field_init :: "bool \<Rightarrow> 'a \<Rightarrow> 'a Field" where
  "Field_init get_full_field_info d =
     (if get_full_field_info then Full (FieldFull_default d) else Light (FieldLight_new d))"

text \<open>The generated setters \<open>set_<field>\<close> and \<open>set_<field>_full\<close>.\<close>

fun Field_set :: "nat \<Rightarrow> 'a Field \<Rightarrow> 'a \<Rightarrow> usize \<Rightarrow> 'a Field" where
  "Field_set size_of (Light _) v off = Light (FieldLight_new v)"
| "Field_set size_of (Full _) v off = Full (FieldFull_new size_of v off)"

fun Field_set_full :: "'a Field \<Rightarrow> 'a \<Rightarrow> usize \<Rightarrow> u32 \<Rightarrow> 'a Field" where
  "Field_set_full (Light _) v off len = Light (FieldLight_new v)"
| "Field_set_full (Full _) v off len = Full (FieldFull_new_with_len v off len)"

text \<open>The offset that \<open>read_value_offset_length\<close> records.\<close>

definition cur_offset :: "bool \<Rightarrow> bytes \<Rightarrow> bytes \<Rightarrow> usize" where
  "cur_offset get_full_field_info start_pos input =
     (if get_full_field_info then ptr_diff start_pos input else 0)"

text \<open>A field read by the macro \<open>read_value_offset_length\<close>, in a detail just made.\<close>

definition read_field :: "bool \<Rightarrow> nat \<Rightarrow> 'a \<Rightarrow> bytes \<Rightarrow> bytes \<Rightarrow> 'a Field" where
  "read_field get_full_field_info size_of v start_pos input =
     Field_set size_of (Field_init get_full_field_info v) v (cur_offset get_full_field_info start_pos input)"

definition field_full :: "bool \<Rightarrow> 'a \<Rightarrow> usize \<Rightarrow> u32 \<Rightarrow> 'a Field" where
  "field_full get_full_field_info v off len = Field_set_full (Field_init get_full_field_info v) v off len"

definition is_full :: "'a Field \<Rightarrow> bool" where
  "is_full f \<longleftrightarrow> (case f of Light _ \<Rightarrow> False | Full _ \<Rightarrow> True)"

lemma field_value_set [simp]:
  "field_value (Field_set n f v off) = v" "field_value (Field_set_full f v off len) = v"
  by (cases f; simp add: FieldLight_new_def FieldFull_new_def FieldFull_new_with_len_def)+

lemma field_value_read [simp]:
  "field_value (read_field b n v s i) = v" "field_value (field_full b v off len) = v"
  "field_value (Field_init b v) = v"
  by (simp_all add: read_field_def field_full_def Field_init_def FieldLight_new_def FieldFull_default_def)

lemma is_full_set [simp]:
  "is_full (Field_set n f v off) = is_full f" "is_full (Field_set_full f v off len) = is_full f"
  "is_full (read_field b n v s i) = b" "is_full (field_full b v off len) = b" "is_full (Field_init b v) = b"
  by (cases f; simp add: is_full_def read_field_def field_full_def Field_init_def)+

end
