(* ===== verification/Cell_Values.thy ===== *)
theory Cell_Values
  imports Cell_Fields
begin

text \<open>
  The content of a value: the interpreted content (\<open>src/src/cell_value.rs\<close>), the further decoding that a
  user may ask for, and the data types of values with their interpretation of the stored bytes
  (the first part of \<open>src/src/cell_key_value.rs\<close>).
\<close>

section \<open>Contents and their decoding\<close>

datatype CellValue =
    CV_None
  | CV_Binary bytes
  | CV_String string
  | CV_MultiString "string list"
  | CV_U32 u32
  | CV_I32 i32
  | CV_U64 u64
  | CV_I64 u64
  | CV_Error

fun CellValue_get_type :: "CellValue \<Rightarrow> string" where
  "CellValue_get_type CV_None = ''None''"
| "CellValue_get_type (CV_Binary _) = ''Binary''"
| "CellValue_get_type (CV_String _) = ''String''"
| "CellValue_get_type (CV_MultiString _) = ''MultiString''"
| "CellValue_get_type (CV_U32 _) = ''U32''"
| "CellValue_get_type (CV_I32 _) = ''I32''"
| "CellValue_get_type (CV_U64 _) = ''U64''"
| "CellValue_get_type (CV_I64 _) = ''I64''"
| "CellValue_get_type CV_Error = ''Error''"

datatype DecodeFormat = DF_Lznt1 | DF_Rot13 | DF_Utf16 | DF_Utf16Multiple

definition conversion_warning :: "string \<Rightarrow> Logs" where
  "conversion_warning t = Logs_add Logs_default WarningConversion t"

fun decode_bytes :: "DecodeFormat \<Rightarrow> bytes \<Rightarrow> usize \<Rightarrow> (CellValue \<times> Logs option) result" where
  "decode_bytes DF_Lznt1 value_bytes offset =
     (case decode_lznt1 value_bytes offset (length value_bytes) of
        Ok decompressed \<Rightarrow> Ok (CV_Binary decompressed, None)
      | Err _ \<Rightarrow> Ok (CV_Error, Some (conversion_warning ''Error decompressing lznt1''))
      | Panic \<Rightarrow> Panic
      | Diverge \<Rightarrow> Diverge)"
| "decode_bytes DF_Utf16 value_bytes offset =
     (case get_from value_bytes offset of
        Some sl \<Rightarrow>
          bindO (from_utf16_le_string sl (length value_bytes - offset) Logs_default ''decode_content'')
            (\<lambda>(s, warnings). Ok (CV_String s, Logs_get_option warnings))
      | None \<Rightarrow> Ok (CV_Error, Some (conversion_warning ''Buffer too small'')))"
| "decode_bytes DF_Utf16Multiple value_bytes offset =
     (case get_from value_bytes offset of
        Some sl \<Rightarrow>
          bindO (from_utf16_le_strings sl (length value_bytes) Logs_default ''decode_content'')
            (\<lambda>(m, warnings). Ok (CV_MultiString m, Logs_get_option warnings))
      | None \<Rightarrow> Ok (CV_Error, Some (conversion_warning ''Buffer too small'')))"
| "decode_bytes DF_Rot13 value_bytes offset = Ok (CV_None, Logs_get_option Logs_default)"

fun decode_string :: "CellValue \<Rightarrow> CellValue \<times> Logs option" where
  "decode_string (CV_String s) = (CV_String (decode_rot13 s), None)"
| "decode_string (CV_MultiString m) = (CV_MultiString (map decode_rot13 m), None)"
| "decode_string _ = (CV_Error, Some (conversion_warning ''Unsupported CellValue/format pair''))"

definition DecodeFormat_decode :: "DecodeFormat \<Rightarrow> CellValue \<Rightarrow> usize \<Rightarrow> (CellValue \<times> Logs option) result" where
  "DecodeFormat_decode fmt cell_value offset =
     (if fmt = DF_Rot13 then Ok (decode_string cell_value)
      else case cell_value of
        CV_Binary b \<Rightarrow> decode_bytes fmt b offset
      | _ \<Rightarrow> Ok (CV_Error, Some (conversion_warning ''Unsupported CellValue/format pair'')))"

section \<open>Data types\<close>

datatype CellKeyValueDataTypes =
    REG_NONE | REG_SZ | REG_EXPAND_SZ | REG_BIN | REG_DWORD | REG_DWORD_BIG_ENDIAN | REG_LINK
  | REG_MULTI_SZ | REG_RESOURCE_LIST | REG_FULL_RESOURCE_DESCRIPTOR | REG_RESOURCE_REQUIREMENTS_LIST
  | REG_QWORD | REG_FILETIME
  | REG_COMPOSITE_UINT8 | REG_COMPOSITE_INT16 | REG_COMPOSITE_UINT16 | REG_COMPOSITE_INT32
  | REG_COMPOSITE_UINT32 | REG_COMPOSITE_INT64 | REG_COMPOSITE_UINT64 | REG_COMPOSITE_FLOAT
  | REG_COMPOSITE_DOUBLE | REG_COMPOSITE_UNICODE_CHAR | REG_COMPOSITE_BOOLEAN
  | REG_COMPOSITE_UNICODE_STRING | REG_COMPOSITE_COMPOSITE_VALUE | REG_COMPOSITE_DATE_TIME_OFFSET
  | REG_COMPOSITE_TIME_SPAN | REG_COMPOSITE_GUID | REG_COMPOSITE_UNK_111 | REG_COMPOSITE_UNK_112
  | REG_COMPOSITE_UNK_113 | REG_COMPOSITE_BYTES_ARRAY | REG_COMPOSITE_INT16_ARRAY
  | REG_COMPOSITE_UINT16_ARRAY | REG_COMPOSITE_INT32_ARRAY | REG_COMPOSITE_UINT32_ARRAY
  | REG_COMPOSITE_INT64_ARRAY | REG_COMPOSITE_UINT64_ARRAY | REG_COMPOSITE_FLOAT_ARRAY
  | REG_COMPOSITE_DOUBLE_ARRAY | REG_COMPOSITE_UNICODE_CHAR_ARRAY | REG_COMPOSITE_BOOLEAN_ARRAY
  | REG_COMPOSITE_UNICODE_STRING_ARRAY | REG_UNKNOWN

text \<open>The discriminants, in the order of the enum, and the derived \<open>from_u32\<close>.\<close>

definition DataTypes_table :: "(u32 \<times> CellKeyValueDataTypes) list" where
  "DataTypes_table =
    [(0x0000, REG_NONE), (0x0001, REG_SZ), (0x0002, REG_EXPAND_SZ), (0x0003, REG_BIN),
     (0x0004, REG_DWORD), (0x0005, REG_DWORD_BIG_ENDIAN), (0x0006, REG_LINK), (0x0007, REG_MULTI_SZ),
     (0x0008, REG_RESOURCE_LIST), (0x0009, REG_FULL_RESOURCE_DESCRIPTOR),
     (0x000A, REG_RESOURCE_REQUIREMENTS_LIST), (0x000B, REG_QWORD), (0x0010, REG_FILETIME),
     (0x0101, REG_COMPOSITE_UINT8), (0x0102, REG_COMPOSITE_INT16), (0x0103, REG_COMPOSITE_UINT16),
     (0x0104, REG_COMPOSITE_INT32), (0x0105, REG_COMPOSITE_UINT32), (0x0106, REG_COMPOSITE_INT64),
     (0x0107, REG_COMPOSITE_UINT64), (0x0108, REG_COMPOSITE_FLOAT), (0x0109, REG_COMPOSITE_DOUBLE),
     (0x010A, REG_COMPOSITE_UNICODE_CHAR), (0x010B, REG_COMPOSITE_BOOLEAN),
     (0x010C, REG_COMPOSITE_UNICODE_STRING), (0x010D, REG_COMPOSITE_COMPOSITE_VALUE),
     (0x010E, REG_COMPOSITE_DATE_TIME_OFFSET), (0x010F, REG_COMPOSITE_TIME_SPAN),
     (0x0110, REG_COMPOSITE_GUID), (0x0111, REG_COMPOSITE_UNK_111), (0x0112, REG_COMPOSITE_UNK_112),
     (0x0113, REG_COMPOSITE_UNK_113), (0x0114, REG_COMPOSITE_BYTES_ARRAY),
     (0x0115, REG_COMPOSITE_INT16_ARRAY), (0x0116, REG_COMPOSITE_UINT16_ARRAY),
     (0x0117, REG_COMPOSITE_INT32_ARRAY), (0x0118, REG_COMPOSITE_UINT32_ARRAY),
     (0x0119, REG_COMPOSITE_INT64_ARRAY), (0x011A, REG_COMPOSITE_UINT64_ARRAY),
     (0x011B, REG_COMPOSITE_FLOAT_ARRAY), (0x011C, REG_COMPOSITE_DOUBLE_ARRAY),
     (0x011D, REG_COMPOSITE_UNICODE_CHAR_ARRAY), (0x011E, REG_COMPOSITE_BOOLEAN_ARRAY),
     (0x011F, REG_COMPOSITE_UNICODE_STRING_ARRAY), (999, REG_UNKNOWN)]"

definition DataTypes_from_u32 :: "u32 \<Rightarrow> CellKeyValueDataTypes option" where
  "DataTypes_from_u32 n = map_of DataTypes_table n"

definition handle_invalid_input :: "bytes \<Rightarrow> Logs \<Rightarrow> CellValue \<times> Logs" where
  "handle_invalid_input input_vec logs =
     (CV_Binary input_vec, Logs_add logs WarningConversion ''Too few input bytes for data type'')"

text \<open>The arms that read a number: the first \<open>n\<close> bytes, or the warning when there are fewer.\<close>

definition number_content :: "nat \<Rightarrow> (bytes \<Rightarrow> CellValue) \<Rightarrow> bytes \<Rightarrow> Logs \<Rightarrow> (CellValue \<times> Logs) result" where
  "number_content n conv input logs =
     (case get_range input 0 n of
        Some v \<Rightarrow> Ok (conv v, logs)
      | None \<Rightarrow> Ok (handle_invalid_input input logs))"

definition get_value_content ::
  "CellKeyValueDataTypes \<Rightarrow> bytes option \<Rightarrow> Logs \<Rightarrow> (CellValue \<times> Logs) result" where
  "get_value_content ty input_vec logs =
     (case input_vec of
        None \<Rightarrow> Ok (CV_None, logs)
      | Some input \<Rightarrow>
          if ty \<in> {REG_SZ, REG_EXPAND_SZ, REG_LINK} then
            bindO (from_utf16_le_string input (length input) logs ''Get value content'')
              (\<lambda>(s, logs). Ok (CV_String s, logs))
          else if ty \<in> {REG_COMPOSITE_UINT8, REG_COMPOSITE_BOOLEAN} then
            number_content 1 (\<lambda>v. CV_U32 (ucast (from_le_bytes v :: u8))) input logs
          else if ty = REG_COMPOSITE_INT16 then
            number_content 2 (\<lambda>v. CV_I32 (scast (from_le_bytes v :: u16))) input logs
          else if ty = REG_COMPOSITE_UINT16 then
            number_content 2 (\<lambda>v. CV_U32 (ucast (from_le_bytes v :: u16))) input logs
          else if ty \<in> {REG_DWORD, REG_COMPOSITE_UINT32} then
            number_content 4 (\<lambda>v. CV_U32 (from_le_bytes v)) input logs
          else if ty = REG_DWORD_BIG_ENDIAN then
            number_content 4 (\<lambda>v. CV_U32 (from_be_bytes v)) input logs
          else if ty = REG_COMPOSITE_INT32 then
            number_content 4 (\<lambda>v. CV_I32 (from_le_bytes v)) input logs
          else if ty = REG_COMPOSITE_INT64 then
            number_content 8 (\<lambda>v. CV_I64 (from_le_bytes v)) input logs
          else if ty \<in> {REG_QWORD, REG_COMPOSITE_UINT64, REG_FILETIME} then
            number_content 8 (\<lambda>v. CV_U64 (from_le_bytes v)) input logs
          else if ty = REG_MULTI_SZ then
            bindO (from_utf16_le_strings input (length input) logs ''Get value content'')
              (\<lambda>(m, logs). Ok (CV_MultiString m, logs))
          else Ok (CV_Binary input, logs))"

definition get_data_type_len :: "CellKeyValueDataTypes \<Rightarrow> usize option" where
  "get_data_type_len ty =
     (if ty = REG_COMPOSITE_UINT8 then Some 1
      else if ty \<in> {REG_COMPOSITE_INT16, REG_COMPOSITE_UINT16} then Some 2
      else if ty \<in> {REG_DWORD, REG_COMPOSITE_UINT32, REG_DWORD_BIG_ENDIAN, REG_COMPOSITE_INT32} then Some 4
      else if ty \<in> {REG_COMPOSITE_INT64, REG_QWORD, REG_COMPOSITE_UINT64, REG_FILETIME} then Some 8
      else None)"

definition get_value_bytes :: "CellKeyValueDataTypes \<Rightarrow> bytes \<Rightarrow> bytes" where
  "get_value_bytes ty input =
     (case get_data_type_len ty of
        Some n \<Rightarrow> take (min n (length input)) input
      | None \<Rightarrow> input)"

section \<open>Reading a value never fails\<close>

lemma utf16_strings_total:
  assumes "count \<le> length sl"
  shows "\<exists>m l. utf16_strings_loop sl count d offset acc logs = Ok (m, l)"
  using assms
proof (induction sl count d offset acc logs rule: utf16_strings_loop.induct)
  case (1 sl count d offset acc logs)
  show ?case
  proof (cases "offset < count")
    case True
    then have i: "index_from sl offset = (Ok (drop offset sl) :: bytes result)"
      using "1.prems" by (simp add: index_from_def)
    obtain dec sz l where s:
      "from_utf16_le_string_single (drop offset sl) (count - offset) logs d = Ok ((dec, sz), l)"
      using from_utf16_le_string_single_eq [of "count - offset" "drop offset sl" logs d] "1.prems"
      by (simp add: Let_def diff_le_mono)
    show ?thesis
      using "1.IH" [OF True i s refl refl] "1.prems" True i s
      by (subst utf16_strings_loop.simps) simp
  next
    case False
    then show ?thesis by (simp add: utf16_strings_loop.simps)
  qed
qed

lemma utf16_string_total:
  assumes "count \<le> length sl"
  shows "\<exists>s l. from_utf16_le_string sl count logs d = Ok (s, l)"
  using assms by (simp add: from_utf16_le_string_def from_utf16_le_string_single_eq Let_def)

lemma number_content_Ok: "\<exists>v l. number_content n conv input logs = Ok (v, l)"
  by (auto simp: number_content_def handle_invalid_input_def split: option.splits)

lemma get_value_content_total: "\<exists>v l. get_value_content ty input logs = Ok (v, l)"
proof (cases input)
  case None
  then show ?thesis by (simp add: get_value_content_def)
next
  case (Some b)
  obtain s l1 where "from_utf16_le_string b (length b) logs ''Get value content'' = Ok (s, l1)"
    using utf16_string_total by blast
  moreover obtain m l2 where "from_utf16_le_strings b (length b) logs ''Get value content'' = Ok (m, l2)"
    using utf16_strings_total [of "length b" b] by (metis from_utf16_le_strings_def order_refl)
  ultimately show ?thesis
    using Some number_content_Ok
    by (simp add: get_value_content_def)
qed

section \<open>Properties\<close>

text \<open>
  Interpreting the bytes of a value never fails, whatever its type and its bytes; and a number
  written in the form of its type is read back, with anything behind it: little-endian and
  big-endian double words, 64-bit words and times, and 16-bit words with and without sign.
\<close>

theorem value_content_numbers:
  "(\<exists>v l. get_value_content ty input logs = Ok (v, l)) \<and>
   get_value_content REG_DWORD (Some (to_le_bytes (w :: u32) @ rest)) logs = Ok (CV_U32 w, logs) \<and>
   get_value_content REG_DWORD_BIG_ENDIAN (Some (rev (to_le_bytes w) @ rest)) logs = Ok (CV_U32 w, logs) \<and>
   get_value_content REG_QWORD (Some (to_le_bytes (q :: u64) @ rest)) logs = Ok (CV_U64 q, logs) \<and>
   get_value_content REG_FILETIME (Some (to_le_bytes q @ rest)) logs = Ok (CV_U64 q, logs) \<and>
   get_value_content REG_COMPOSITE_INT16 (Some (to_le_bytes (h :: u16) @ rest)) logs = Ok (CV_I32 (scast h), logs) \<and>
   get_value_content REG_COMPOSITE_UINT16 (Some (to_le_bytes h @ rest)) logs = Ok (CV_U32 (ucast h), logs)"
proof -
  have w: "from_le_bytes (to_le_bytes w) = w" "from_be_bytes (rev (to_le_bytes w)) = w"
    using from_le_bytes_to_le_bytes [of w] by (simp_all add: from_le_bytes_def from_be_bytes_def)
  have q: "from_le_bytes (to_le_bytes q) = q" and h: "from_le_bytes (to_le_bytes h) = h"
    by (rule from_le_bytes_to_le_bytes; simp)+
  show ?thesis
    using get_value_content_total
    by (simp add: get_value_content_def number_content_def get_range_def w q h)
qed

text \<open>
  Decoding a binary value as a list of strings from an offset on goes wrong: the whole length is
  passed on as the number of bytes of a slice that is shorter by the offset, and without a
  terminator the reader leaves the slice.
\<close>

lemma decode_multiple_at_offset_panics:
  "DecodeFormat_decode DF_Utf16Multiple (CV_Binary [0x41, 0, 0x42, 0]) 2 = Panic"
proof -
  have "index_at [0x42, 0 :: u8] 2 = (Panic :: u8 result)" by (simp add: index_at_def)
  then show ?thesis
    by (simp add: DecodeFormat_decode_def get_from_def from_utf16_le_strings_def
        utf16_strings_loop.simps index_from_def from_utf16_le_string_single_def
        utf16_collect.simps decode_utf16_next_def utf16_unit_def index_at_def Let_def
        from_le_bytes_def is_surrogate_def)
qed

end
