(* ===== verification/Key_Values.thy ===== *)
theory Key_Values
  imports Cell_Values
begin

text \<open>
  The value cells \<open>vk\<close> (\<open>src/src/cell_key_value.rs\<close>) and the big data cells \<open>db\<close>
  (\<open>src/src/cell_big_data.rs\<close>): parsing a value cell, finding its data (in the cell itself, in a data
  cell, or spread over the segments of a big data block), its hash and its content.
\<close>

section \<open>Big data\<close>

record CellBigData =
  bd_size :: u32
  bd_count :: u16
  segment_list_offset_relative :: u32
  bd_logs :: Logs

definition BIG_DATA_SIZE_THRESHOLD :: u32 where "BIG_DATA_SIZE_THRESHOLD = 16344"

definition is_big_data_block :: "'z env_scheme \<Rightarrow> bytes \<Rightarrow> bool" where
  "is_big_data_block N input =
     (case get_from input 4 of
        Some sl \<Rightarrow> is_ok (nom_tag N ''db'' sl)
      | None \<Rightarrow> False)"

text \<open>The pointer that \<open>from_bytes\<close> returns beside the cell is not used by its caller.\<close>

definition CellBigData_from_bytes :: "'z env_scheme \<Rightarrow> CellBigData parser" where
  "CellBigData_from_bytes N input =
     bindO (nom_le_i32 N input) (\<lambda>(input, sz).
     bindO (nom_tag N ''db'' input) (\<lambda>(input, _).
     bindO (nom_le_u16 N input) (\<lambda>(input, cnt).
     bindO (nom_le_u32 N input) (\<lambda>(input, list_offset).
     Ok (input, \<lparr>bd_size = unsigned_abs sz, bd_count = cnt,
                 segment_list_offset_relative = list_offset, bd_logs = Logs_default\<rparr>)))))"

definition buffer_from :: "FileInfo \<Rightarrow> u32 \<Rightarrow> bytes iresult" where
  "buffer_from fi offset =
     (case get_from (buffer fi) (hbin_offset_absolute fi + unat offset) of
        Some sl \<Rightarrow> Ok (sl, sl)
      | None \<Rightarrow> Err (NomError (buffer fi) KEof))"

definition parse_big_data_size :: "'z env_scheme \<Rightarrow> FileInfo \<Rightarrow> u32 \<Rightarrow> i32 iresult" where
  "parse_big_data_size N fi offset =
     bindO (buffer_from fi offset) (\<lambda>(sl, _). nom_le_i32 N sl)"

definition parse_big_data_offsets :: "'z env_scheme \<Rightarrow> CellBigData \<Rightarrow> FileInfo \<Rightarrow> u32 list iresult" where
  "parse_big_data_offsets N bd fi =
     bindO (buffer_from fi (segment_list_offset_relative bd)) (\<lambda>(sl, _).
     bindO (nom_le_u32 N sl) (\<lambda>(input, _).
     bindO (nom_count_u32 N (nom_le_u32 N) (unat (bd_count bd)) input) (\<lambda>(_, lst).
     Ok (input, lst))))"

primrec big_data_loop ::
  "'z env_scheme \<Rightarrow> FileInfo \<Rightarrow> u32 list \<Rightarrow> u32 \<Rightarrow> bytes \<Rightarrow> bytes result" where
  "big_data_loop N fi [] data_size_remaining big_data_buffer = Ok big_data_buffer"
| "big_data_loop N fi (offset # offsets) data_size_remaining big_data_buffer =
     (if data_size_remaining > 0 then
        bindO (from_nom (parse_big_data_size N fi offset)) (\<lambda>(input, sz).
        let size_to_read =
              min (unsigned_abs sz) (min data_size_remaining BIG_DATA_SIZE_THRESHOLD) in
        bindO (ok_or (Error_buffer ''get_big_data_bytes'') (get_range input 0 (unat size_to_read)))
          (\<lambda>sl. big_data_loop N fi offsets (data_size_remaining - size_to_read) (big_data_buffer @ sl)))
      else big_data_loop N fi offsets data_size_remaining big_data_buffer)"

definition get_big_data_bytes ::
  "'z env_scheme \<Rightarrow> FileInfo \<Rightarrow> usize \<Rightarrow> CellKeyValueDataTypes \<Rightarrow> u32 \<Rightarrow> (bytes \<times> usize list) result" where
  "get_big_data_bytes N fi offset data_type data_size =
     bindO (ok_or (Error_buffer ''get_big_data_bytes'') (get_from (buffer fi) offset)) (\<lambda>sl.
     bindO (from_nom (CellBigData_from_bytes N sl)) (\<lambda>(_, bd).
     bindO (from_nom (parse_big_data_offsets N bd fi)) (\<lambda>(_, data_offsets_absolute).
     bindO (big_data_loop N fi data_offsets_absolute data_size []) (\<lambda>big_data_buffer.
     Ok (get_value_bytes data_type big_data_buffer, map unat data_offsets_absolute)))))"

section \<open>The value cell\<close>

text \<open>\<open>from_bits\<close> of the flags gives nothing when an unknown bit is set.\<close>

definition VALUE_COMP_NAME_ASCII :: u16 where "VALUE_COMP_NAME_ASCII = 1"
definition IS_TOMBSTONE :: u16 where "IS_TOMBSTONE = 2"

definition from_bits :: "'a::len word \<Rightarrow> 'a word \<Rightarrow> 'a word option" where
  "from_bits all_bits raw = (if raw AND NOT all_bits = 0 then Some raw else None)"

definition CellKeyValueFlags_from_bits_or_default :: "u16 \<Rightarrow> u16" where
  "CellKeyValueFlags_from_bits_or_default raw =
     (case from_bits (VALUE_COMP_NAME_ASCII OR IS_TOMBSTONE) raw of Some f \<Rightarrow> f | None \<Rightarrow> 0)"

record CellKeyValueDetail =
  kvd_size :: "i32 Field"
  kvd_signature :: "string Field"
  kvd_value_name_size :: "u16 Field"
  kvd_data_size_raw :: "u32 Field"
  kvd_data_offset_relative :: "u32 Field"
  kvd_data_type_raw :: "u32 Field"
  kvd_flags_raw :: "u16 Field"
  kvd_padding :: "u16 Field"
  kvd_value_name :: "string Field"
  kvd_slack :: "bytes Field"
  kvd_value_bytes :: "bytes option Field"

text \<open>The struct \<open>CellKeyValue\<close>: its plain fields, and the versions, which are values again.\<close>

record CellKeyValueCore =
  kv_file_offset_absolute :: usize
  kv_detail :: CellKeyValueDetail
  kv_data_type :: CellKeyValueDataTypes
  kv_flags :: u16
  kv_data_offsets_absolute :: "usize list"
  kv_cell_state :: CellState
  kv_logs :: Logs
  kv_hash :: "Hash option"
  kv_sequence_num :: "u32 option"
  kv_updated_by_sequence_num :: "u32 option"

datatype CellKeyValue = CellKeyValue (kv: CellKeyValueCore) (kv_versions: "CellKeyValue list")

definition MIN_CELL_VALUE_SIZE :: usize where "MIN_CELL_VALUE_SIZE = 24"

definition kv_check_size :: "i32 \<Rightarrow> bytes \<Rightarrow> bool" where
  "kv_check_size sz input =
     (let size_abs = unat (unsigned_abs sz) in MIN_CELL_VALUE_SIZE \<le> size_abs \<and> size_abs \<le> length input)"

definition CellKeyValue_from_bytes ::
  "'z env_scheme \<Rightarrow> bytes \<Rightarrow> usize \<Rightarrow> u32 option \<Rightarrow> bool \<Rightarrow> CellKeyValue iresult" where
  "CellKeyValue_from_bytes N input_orig file_offset_absolute sequence_num full =
     (let input0 = input_orig in
      bindO (nom_le_i32 N input0) (\<lambda>(input1, sz).
      if \<not> kv_check_size sz input_orig then Err (NomError input1 KEof)
      else
        bindO (nom_tag N ''vk'' input1) (\<lambda>(input2, _).
        bindO (nom_le_u16 N input2) (\<lambda>(input3, name_size).
        bindO (nom_le_u32 N input3) (\<lambda>(input4, data_size).
        bindO (nom_le_u32 N input4) (\<lambda>(input5, data_offset).
        bindO (nom_le_u32 N input5) (\<lambda>(input6, type_raw).
        bindO (nom_le_u16 N input6) (\<lambda>(input7, flags_raw).
        bindO (nom_le_u16 N input7) (\<lambda>(input8, pad).
        bindO (nom_take N (unat name_size) input8) (\<lambda>(input9, value_name_bytes).
        let flags = CellKeyValueFlags_from_bits_or_default flags_raw;
            data_type_bytes = type_raw AND 0x00000FFF;
            data_type = (case DataTypes_from_u32 data_type_bytes of None \<Rightarrow> REG_UNKNOWN | Some t \<Rightarrow> t) in
        bindO (infallible
            (if name_size = 0 then Ok ([], Logs_default)
             else string_from_bytes (flags AND VALUE_COMP_NAME_ASCII = VALUE_COMP_NAME_ASCII)
                    value_name_bytes name_size Logs_default ''value_name'')) (\<lambda>(value_name, logs).
        let slack_offset = ptr_diff input_orig input9; size_abs = unsigned_abs sz in
        bindO (parser_eat_remaining N input9 size_abs slack_offset) (\<lambda>(input10, slack_bytes).
        Ok (input10,
          CellKeyValue
            \<lparr>kv_file_offset_absolute = file_offset_absolute,
             kv_detail =
               \<lparr>kvd_size = read_field full 4 sz input_orig input0,
                kvd_signature = field_full full ''vk'' (ptr_diff input_orig input1) 2,
                kvd_value_name_size = read_field full 2 name_size input_orig input2,
                kvd_data_size_raw = read_field full 4 data_size input_orig input3,
                kvd_data_offset_relative = read_field full 4 data_offset input_orig input4,
                kvd_data_type_raw = read_field full 4 type_raw input_orig input5,
                kvd_flags_raw = read_field full 2 flags_raw input_orig input6,
                kvd_padding = read_field full 2 pad input_orig input7,
                kvd_value_name = field_full full value_name (ptr_diff input_orig input8) (ucast name_size),
                kvd_slack = field_full full slack_bytes slack_offset (of_nat (length slack_bytes)),
                kvd_value_bytes = Field_init full None\<rparr>,
             kv_data_type = data_type,
             kv_flags = flags,
             kv_data_offsets_absolute = [],
             kv_cell_state = Allocated,
             kv_logs = logs,
             kv_hash = None,
             kv_sequence_num = sequence_num,
             kv_updated_by_sequence_num = None\<rparr> [])))))))))))))"

section \<open>The data of a value\<close>

definition DATA_IS_RESIDENT_MASK :: u32 where "DATA_IS_RESIDENT_MASK = 0x80000000"

definition read_value_bytes_direct ::
  "'z env_scheme \<Rightarrow> usize \<Rightarrow> u32 \<Rightarrow> u32 \<Rightarrow> CellKeyValueDataTypes \<Rightarrow> FileInfo \<Rightarrow> Logs \<Rightarrow>
     ((bytes \<times> usize list) \<times> Logs) result" where
  "read_value_bytes_direct N file_offset_absolute data_size_raw data_offset_relative data_type fi logs =
     (if data_size_raw AND DATA_IS_RESIDENT_MASK = 0 then
        let offset = unat data_offset_relative + hbin_offset_absolute fi in
        case get_from (buffer fi) offset of
          Some sl \<Rightarrow>
            if BIG_DATA_SIZE_THRESHOLD < data_size_raw \<and> is_big_data_block N sl then
              (case get_big_data_bytes N fi offset data_type data_size_raw of
                 Ok (vb, offsets) \<Rightarrow> Ok ((vb, offsets), logs)
               | Err err \<Rightarrow> Ok (([], []), Logs_add logs WarningBigDataContent (Error_to_string err))
               | Panic \<Rightarrow> Panic
               | Diverge \<Rightarrow> Diverge)
            else
              let offset = offset + 4 in
              (case get_range (buffer fi) offset (offset + unat data_size_raw) of
                 Some sl \<Rightarrow> Ok ((get_value_bytes data_type sl, [offset]), logs)
               | None \<Rightarrow> Ok (([], [offset]), Logs_add logs WarningParse
                   (Error_to_string (Error_buffer ''read_value_bytes_direct: file_offset and length''))))
        | None \<Rightarrow> Ok (([], []), Logs_add logs WarningParse
            (Error_to_string (Error_buffer ''read_value_bytes_direct: file_offset'')))
      else
        let data_size = data_size_raw XOR DATA_IS_RESIDENT_MASK;
            resident_value = to_le_bytes data_offset_relative;
            offsets = [file_offset_absolute + 12] in
        case get_range resident_value 0 (unat data_size) of
          Some sl \<Rightarrow> Ok ((get_value_bytes data_type sl, offsets), logs)
        | None \<Rightarrow> Ok (([], offsets), Logs_add logs WarningBigDataContent
            (Error_to_string (Error_buffer ''read_value_bytes_direct: resident_value''))))"

definition CellKeyValue_hash :: "'z env_scheme \<Rightarrow> u32 \<Rightarrow> u16 \<Rightarrow> bytes \<Rightarrow> Hash" where
  "CellKeyValue_hash N data_type_raw flags_raw value_bytes =
     blake3 N [to_le_bytes data_type_raw, to_le_bytes flags_raw, value_bytes]"

definition CellKeyValue_read_value_bytes :: "'z env_scheme \<Rightarrow> FileInfo \<Rightarrow> CellKeyValue \<Rightarrow> CellKeyValue result" where
  "CellKeyValue_read_value_bytes N fi v =
     (let c = kv v; d = kv_detail c in
      bindO (read_value_bytes_direct N (kv_file_offset_absolute c) (field_value (kvd_data_size_raw d))
               (field_value (kvd_data_offset_relative d)) (kv_data_type c) fi (kv_logs c))
        (\<lambda>((value_bytes, offsets), logs).
      Ok (CellKeyValue
        (c\<lparr>kv_data_offsets_absolute := kv_data_offsets_absolute c @ offsets,
           kv_logs := logs,
           kv_hash := Some (CellKeyValue_hash N (field_value (kvd_data_type_raw d))
                              (field_value (kvd_flags_raw d)) value_bytes),
           kv_detail := d\<lparr>kvd_value_bytes :=
             Field_set_full (kvd_value_bytes d) (Some value_bytes) (kv_file_offset_absolute c)
               (of_nat (length value_bytes))\<rparr>\<rparr>)
        (kv_versions v))))"

definition CellKeyValue_get_content :: "CellKeyValue \<Rightarrow> (CellValue \<times> Logs option) result" where
  "CellKeyValue_get_content v =
     (case get_value_content (kv_data_type (kv v)) (field_value (kvd_value_bytes (kv_detail (kv v)))) Logs_default of
        Ok (cell_value, warnings) \<Rightarrow>
          Ok (cell_value, case Logs_get warnings of Some _ \<Rightarrow> Some warnings | None \<Rightarrow> None)
      | Err err \<Rightarrow> Ok (CV_Error, Some (Logs_add Logs_default WarningContent (Error_to_string err)))
      | Panic \<Rightarrow> Panic
      | Diverge \<Rightarrow> Diverge)"

definition CellKeyValue_get_pretty_name :: "CellKeyValue \<Rightarrow> string" where
  "CellKeyValue_get_pretty_name v = get_pretty_name (field_value (kvd_value_name (kv_detail (kv v))))"

definition kv_get_cell_size :: "CellKeyValue \<Rightarrow> usize" where
  "kv_get_cell_size v = unat (unsigned_abs (field_value (kvd_size (kv_detail (kv v)))))"

definition kv_is_free :: "CellKeyValue \<Rightarrow> bool" where
  "kv_is_free v \<longleftrightarrow> sint (field_value (kvd_size (kv_detail (kv v)))) > 0"

definition kv_slack_offset_absolute :: "CellKeyValue \<Rightarrow> usize" where
  "kv_slack_offset_absolute v =
     kv_file_offset_absolute (kv v) + kv_get_cell_size v - length (field_value (kvd_slack (kv_detail (kv v))))"

definition CellKeyValue_decode_content ::
  "CellKeyValue \<Rightarrow> DecodeFormat \<Rightarrow> usize \<Rightarrow> (CellValue \<times> Logs option) result" where
  "CellKeyValue_decode_content v fmt offset =
     bindO (CellKeyValue_get_content v) (\<lambda>(content, _). DecodeFormat_decode fmt content offset)"

definition kv_has_or_is_recovered :: "CellKeyValue \<Rightarrow> bool" where
  "kv_has_or_is_recovered v \<longleftrightarrow>
     is_deleted (kv_cell_state (kv v)) \<or> kv_cell_state (kv v) = ModifiedTransactionLog \<or> kv_versions v \<noteq> []"

section \<open>Big data is put together again\<close>

text \<open>A value is split into segments of 16344 bytes, the last one shorter; a segment's cell is at least
  as long as its part of the data.\<close>

fun well_chunked :: "bytes list \<Rightarrow> bool" where
  "well_chunked [] \<longleftrightarrow> True"
| "well_chunked [c] \<longleftrightarrow> 0 < length c \<and> length c \<le> 16344"
| "well_chunked (c # cs) \<longleftrightarrow> length c = 16344 \<and> well_chunked cs"

definition segment_at :: "FileInfo \<Rightarrow> u32 \<Rightarrow> bytes \<Rightarrow> bool" where
  "segment_at fi offset chunk \<longleftrightarrow>
     (\<exists>sz junk. get_from (buffer fi) (hbin_offset_absolute fi + unat offset) =
        Some (to_le_bytes (sz :: i32) @ chunk @ junk) \<and> length chunk \<le> unat (unsigned_abs sz))"

lemma well_chunked_Cons:
  assumes "well_chunked (c # cs)"
  shows "well_chunked cs" and "0 < length c" and "length c \<le> 16344" and "cs = [] \<or> length c = 16344"
  using assms by (cases cs; simp)+

context nom_spec
begin

lemma big_data_step:
  assumes "segment_at fi offset c" and "well_chunked (c # cs)"
    and "length (concat (c # cs)) < 2 ^ 32"
  shows "big_data_loop N fi (offset # offsets) (of_nat (length (concat (c # cs)))) acc =
    big_data_loop N fi offsets (of_nat (length (concat cs))) (acc @ c)"
proof -
  obtain sz :: i32 and junk where g: "get_from (buffer fi) (hbin_offset_absolute fi + unat offset) =
      Some (to_le_bytes sz @ c @ junk)" and c: "length c \<le> unat (unsigned_abs sz)"
    using assms(1) by (auto simp: segment_at_def)
  define n where "n = length (concat (c # cs))"
  have nn: "n = length c + length (concat cs)" by (simp add: n_def)
  let ?r = "of_nat n :: u32"
  have r: "unat ?r = n" by (rule unat_of_nat_less) (use assms(3) in \<open>simp add: n_def\<close>)
  have u: "unat (min a b) = min (unat a) (unat b)" for a b :: u32
    by (simp add: min_def word_le_nat_alt)
  have m: "unat (min (unsigned_abs sz) (min ?r BIG_DATA_SIZE_THRESHOLD)) = length c"
    unfolding u r using c well_chunked_Cons [OF assms(2)] nn
    by (auto simp: BIG_DATA_SIZE_THRESHOLD_def)
  then have "min (unsigned_abs sz) (min ?r BIG_DATA_SIZE_THRESHOLD) = of_nat (length c)"
    by (metis of_nat_unat ucast_id)
  then have rest: "?r - min (unsigned_abs sz) (min ?r BIG_DATA_SIZE_THRESHOLD) =
      (of_nat (length (concat cs)) :: u32)"
    by (simp add: n_def)
  have pos: "0 < ?r"
    using r well_chunked_Cons(2) [OF assms(2)] by (simp add: word_less_nat_alt n_def)
  have "parse_big_data_size N fi offset = Ok (c @ junk, sz)"
    by (simp add: parse_big_data_size_def buffer_from_def g le_i32 doc_Ok)
  then show ?thesis
    unfolding n_def [symmetric] using pos m rest by (simp add: Let_def get_range_def)
qed

lemma big_data_loop_chunks:
  assumes "list_all2 (segment_at fi) offs chunks" and "well_chunked chunks"
    and "length (concat chunks) < 2 ^ 32"
  shows "big_data_loop N fi offs (of_nat (length (concat chunks))) acc = Ok (acc @ concat chunks)"
  using assms
proof (induction offs chunks arbitrary: acc rule: list_all2_induct)
  case Nil
  then show ?case by simp
next
  case (Cons offset offs c cs)
  have "big_data_loop N fi offs (of_nat (length (concat cs))) (acc @ c) = Ok ((acc @ c) @ concat cs)"
    using Cons.prems well_chunked_Cons(1) by (intro Cons.IH) auto
  then show ?case
    using big_data_step [OF Cons.hyps(1) Cons.prems] by simp
qed

lemma count_u32_roundtrip:
  "count_doc (nom_le_u32 N) (length ws) (concat (map to_le_bytes ws) @ rest) = Ok (rest, ws)"
  using count_doc_roundtrip [of ws "nom_le_u32 N" to_le_bytes "\<lambda>w. w" rest]
  by (simp add: le_u32 doc_Ok)

end

section \<open>Properties\<close>




text \<open>The codes of the data types, from the registry format.\<close>

primrec type_code :: "CellKeyValueDataTypes \<Rightarrow> u32" where
  "type_code REG_NONE = 0"
| "type_code REG_SZ = 1"
| "type_code REG_EXPAND_SZ = 2"
| "type_code REG_BIN = 3"
| "type_code REG_DWORD = 4"
| "type_code REG_DWORD_BIG_ENDIAN = 5"
| "type_code REG_LINK = 6"
| "type_code REG_MULTI_SZ = 7"
| "type_code REG_RESOURCE_LIST = 8"
| "type_code REG_FULL_RESOURCE_DESCRIPTOR = 9"
| "type_code REG_RESOURCE_REQUIREMENTS_LIST = 10"
| "type_code REG_QWORD = 11"
| "type_code REG_FILETIME = 16"
| "type_code REG_COMPOSITE_UINT8 = 257"
| "type_code REG_COMPOSITE_INT16 = 258"
| "type_code REG_COMPOSITE_UINT16 = 259"
| "type_code REG_COMPOSITE_INT32 = 260"
| "type_code REG_COMPOSITE_UINT32 = 261"
| "type_code REG_COMPOSITE_INT64 = 262"
| "type_code REG_COMPOSITE_UINT64 = 263"
| "type_code REG_COMPOSITE_FLOAT = 264"
| "type_code REG_COMPOSITE_DOUBLE = 265"
| "type_code REG_COMPOSITE_UNICODE_CHAR = 266"
| "type_code REG_COMPOSITE_BOOLEAN = 267"
| "type_code REG_COMPOSITE_UNICODE_STRING = 268"
| "type_code REG_COMPOSITE_COMPOSITE_VALUE = 269"
| "type_code REG_COMPOSITE_DATE_TIME_OFFSET = 270"
| "type_code REG_COMPOSITE_TIME_SPAN = 271"
| "type_code REG_COMPOSITE_GUID = 272"
| "type_code REG_COMPOSITE_UNK_111 = 273"
| "type_code REG_COMPOSITE_UNK_112 = 274"
| "type_code REG_COMPOSITE_UNK_113 = 275"
| "type_code REG_COMPOSITE_BYTES_ARRAY = 276"
| "type_code REG_COMPOSITE_INT16_ARRAY = 277"
| "type_code REG_COMPOSITE_UINT16_ARRAY = 278"
| "type_code REG_COMPOSITE_INT32_ARRAY = 279"
| "type_code REG_COMPOSITE_UINT32_ARRAY = 280"
| "type_code REG_COMPOSITE_INT64_ARRAY = 281"
| "type_code REG_COMPOSITE_UINT64_ARRAY = 282"
| "type_code REG_COMPOSITE_FLOAT_ARRAY = 283"
| "type_code REG_COMPOSITE_DOUBLE_ARRAY = 284"
| "type_code REG_COMPOSITE_UNICODE_CHAR_ARRAY = 285"
| "type_code REG_COMPOSITE_BOOLEAN_ARRAY = 286"
| "type_code REG_COMPOSITE_UNICODE_STRING_ARRAY = 287"
| "type_code REG_UNKNOWN = 999"

lemma type_from_code: "DataTypes_from_u32 (type_code ty) = Some ty"
  by (cases ty) (simp_all add: DataTypes_from_u32_def DataTypes_table_def)

lemma type_table_codes: "list_all (\<lambda>(n, ty). type_code ty = n) DataTypes_table"
  by (simp add: DataTypes_table_def)

lemma type_code_read:
  "type_code (case DataTypes_from_u32 n of None \<Rightarrow> REG_UNKNOWN | Some t \<Rightarrow> t) =
     (if n \<in> range type_code then n else type_code REG_UNKNOWN)"
proof (cases "n \<in> range type_code")
  case True
  then show ?thesis by (auto simp: type_from_code)
next
  case False
  have "DataTypes_from_u32 n = None"
    using False type_table_codes by (auto simp: DataTypes_from_u32_def list_all_iff map_of_eq_None_iff)
  with False show ?thesis by simp
qed

lemma value_flags_read:
  "CellKeyValueFlags_from_bits_or_default f = (if f \<le> 3 then f else 0)"
proof -
  have "f AND NOT 3 = 0 \<longleftrightarrow> f AND mask 2 = f"
    by (auto simp: bit_eq_iff bit_simps mask_eq_exp_minus_1)
  also have "\<dots> \<longleftrightarrow> f \<le> 3"
    by (simp flip: take_bit_eq_mask add: word_le_nat_alt word_unat_eq_iff unsigned_take_bit_eq take_bit_nat_eq_self_iff) linarith
  finally show ?thesis
    by (simp add: CellKeyValueFlags_from_bits_or_default_def from_bits_def VALUE_COMP_NAME_ASCII_def IS_TOMBSTONE_def)
qed

lemma value_name_flag: "(if f \<le> 3 then f else 0) AND VALUE_COMP_NAME_ASCII = VALUE_COMP_NAME_ASCII \<longleftrightarrow> f \<in> {1, 3}" for f :: u16
proof -
  have "f \<le> 3 \<Longrightarrow> f = 0 \<or> f = 1 \<or> f = 2 \<or> f = 3"
    by (simp add: word_le_nat_alt word_unat_eq_iff) linarith
  then show ?thesis by (auto simp: VALUE_COMP_NAME_ASCII_def)
qed

text \<open>The bytes of a value cell.\<close>

definition vk_cell :: "i32 \<Rightarrow> bytes \<Rightarrow> u32 \<Rightarrow> u32 \<Rightarrow> u32 \<Rightarrow> u16 \<Rightarrow> u16 \<Rightarrow> bytes \<Rightarrow> bytes" where
  "vk_cell sz name data_size data_offset type_raw flags pad slack =
     to_le_bytes sz @ bytes_of ''vk'' @ to_le_bytes (of_nat (length name) :: u16) @
     to_le_bytes data_size @ to_le_bytes data_offset @ to_le_bytes type_raw @
     to_le_bytes flags @ to_le_bytes pad @ name @ slack"

lemma field_value_init:
  "field_value (Field_init full x) = x"
  "Field_set 4 (Field_init True x) y off = Full \<lparr>ff_value = y, ff_offset = off, ff_len = 4\<rparr>"
  by (simp_all add: Field_init_def FieldFull_default_def FieldLight_new_def FieldFull_new_def FieldFull_new_with_len_def)

lemma vk_cell_parse:
  assumes "nom_spec N" and "length name < 2 ^ 16"
    and "unat (unsigned_abs sz) = 24 + length name + length slack"
    and "name_ok (flags \<in> {1, 3}) cs" and "name = name_bytes (flags \<in> {1, 3}) cs"
  shows "\<exists>v. CellKeyValue_from_bytes N (vk_cell sz name data_size data_offset type_raw flags pad slack @ rest)
        off seq full = Ok (rest, v) \<and>
    field_value (kvd_size (kv_detail (kv v))) = sz \<and>
    field_value (kvd_signature (kv_detail (kv v))) = ''vk'' \<and>
    unat (field_value (kvd_value_name_size (kv_detail (kv v)))) = length name \<and>
    field_value (kvd_value_name (kv_detail (kv v))) = utf8 cs \<and>
    field_value (kvd_data_size_raw (kv_detail (kv v))) = data_size \<and>
    field_value (kvd_data_offset_relative (kv_detail (kv v))) = data_offset \<and>
    (full \<longrightarrow> kvd_data_offset_relative (kv_detail (kv v)) =
       Full \<lparr>ff_value = data_offset, ff_offset = 12, ff_len = 4\<rparr>) \<and>
    field_value (kvd_data_type_raw (kv_detail (kv v))) = type_raw \<and>
    type_code (kv_data_type (kv v)) =
      (if type_raw AND 0xFFF \<in> range type_code then type_raw AND 0xFFF else type_code REG_UNKNOWN) \<and>
    field_value (kvd_flags_raw (kv_detail (kv v))) = flags \<and>
    kv_flags (kv v) = (if flags \<le> 3 then flags else 0) \<and>
    field_value (kvd_padding (kv_detail (kv v))) = pad \<and>
    field_value (kvd_slack (kv_detail (kv v))) = slack \<and>
    field_value (kvd_value_bytes (kv_detail (kv v))) = None \<and>
    kv_file_offset_absolute (kv v) = off \<and>
    kv_slack_offset_absolute v = off + 24 + length name \<and>
    kv_data_offsets_absolute (kv v) = [] \<and> kv_hash (kv v) = None \<and> kv_versions v = [] \<and>
    kv_logs (kv v) = Logs_default \<and> kv_sequence_num (kv v) = seq \<and>
    kv_updated_by_sequence_num (kv v) = None \<and> kv_cell_state (kv v) = Allocated"
proof -
  define a where a: "a \<longleftrightarrow> flags \<in> {1, 3}"
  obtain fl where fl: "CellKeyValueFlags_from_bits_or_default flags = fl" "(if flags \<le> 3 then flags else 0) = fl"
    "fl AND VALUE_COMP_NAME_ASCII = VALUE_COMP_NAME_ASCII \<longleftrightarrow> a"
    using value_flags_read [of flags] value_name_flag [of flags] a by simp
  let ?i = "vk_cell sz name data_size data_offset type_raw flags pad slack @ rest"
  have n: "unat (of_nat (length name) :: u16) = length name"
    using assms(2) by (intro unat_of_nat_less) simp
  have cs: "kv_check_size sz ?i"
    by (simp add: kv_check_size_def Let_def assms(3) MIN_CELL_VALUE_SIZE_def vk_cell_def)
  have nm: "infallible (if (of_nat (length name) :: u16) = 0 then Ok ([], Logs_default)
      else string_from_bytes (fl AND VALUE_COMP_NAME_ASCII = VALUE_COMP_NAME_ASCII) name (of_nat (length name)) Logs_default ''value_name'') =
    (Ok (utf8 cs, Logs_default) :: (nom_err, string \<times> Logs) outcome)"
  proof (cases "name = []")
    case True
    then show ?thesis using assms(5) name_bytes_empty [of a cs] by (auto simp: utf8_def a)
  next
    case False
    then have "(of_nat (length name) :: u16) \<noteq> 0" using n by (metis length_0_conv unat_0)
    then show ?thesis using string_from_name_bytes [OF assms(4)] assms(2) by (simp only: fl(3) assms(5) a if_False infallible.simps)
  qed
  have eat: "parser_eat_remaining N (slack @ rest) (unsigned_abs sz) (24 + length name) = Ok (rest, slack)"
    using assms(1,3) by (cases "slack = []") (simp_all add: parser_eat_remaining_def nom_spec.take doc_Ok)
  show ?thesis
    using cs nm eat
    unfolding fl(2) CellKeyValue_from_bytes_def vk_cell_def
    by (simp add: Let_def nom_spec.le_i32 [OF assms(1)] nom_spec.tag [OF assms(1)]
        nom_spec.le_u16 [OF assms(1)] nom_spec.le_u32 [OF assms(1)] nom_spec.take [OF assms(1)]
        doc_Ok lit_len n fl(1) type_code_read ptr_diff_def read_field_def cur_offset_def field_value_init
        FieldFull_new_def FieldFull_new_with_len_def kv_slack_offset_absolute_def kv_get_cell_size_def
        assms(3) cong: bindO_weak_cong split del: if_split)
qed

text \<open>The case of an ASCII name, its bytes the characters.\<close>

definition vk_bytes :: "i32 \<Rightarrow> bytes \<Rightarrow> u32 \<Rightarrow> u32 \<Rightarrow> u32 \<Rightarrow> u16 \<Rightarrow> bytes \<Rightarrow> bytes" where
  "vk_bytes sz name data_size data_offset type_raw pad slack =
     vk_cell sz name data_size data_offset type_raw 1 pad slack"

lemma vk_parse:
  assumes "nom_spec N" and "length name < 2 ^ 16"
    and "unat (unsigned_abs sz) = 24 + length name + length slack"
  shows "\<exists>v. CellKeyValue_from_bytes N (vk_bytes sz name data_size data_offset type_raw pad slack @ rest)
        off seq full = Ok (rest, v) \<and>
    field_value (kvd_value_name (kv_detail (kv v))) = utf8 (map unat name) \<and>
    field_value (kvd_data_size_raw (kv_detail (kv v))) = data_size \<and>
    field_value (kvd_data_offset_relative (kv_detail (kv v))) = data_offset \<and>
    (full \<longrightarrow> kvd_data_offset_relative (kv_detail (kv v)) =
       Full \<lparr>ff_value = data_offset, ff_offset = 12, ff_len = 4\<rparr>) \<and>
    field_value (kvd_data_type_raw (kv_detail (kv v))) = type_raw \<and>
    field_value (kvd_slack (kv_detail (kv v))) = slack \<and>
    kv_slack_offset_absolute v = off + 24 + length name \<and>
    kv_logs (kv v) = Logs_default \<and> kv_sequence_num (kv v) = seq \<and> kv_cell_state (kv v) = Allocated"
  using vk_cell_parse [OF assms, of 1 "map unat name" data_size data_offset type_raw pad rest off seq full]
    name_ok_compressed [of name]
  by (auto simp: vk_bytes_def)

text \<open>
  C36: a value cell is read back, with an ASCII name or a UTF-16 name: the size, signature, name, the
  size, offset and type of the data, the flags, the padding and the slack are those written; the
  data type is the one whose code is in the low twelve bits of the type, or the unknown type when
  no type has that code; flags with an unknown bit count as none, and a name is ASCII exactly
  when the flags are known and have the ASCII bit; with full field information the offset of the
  data offset is 12, where the resident data of a value is looked for; the slack starts behind the
  name.
\<close>

theorem value_cell_roundtrip:
  assumes "nom_spec N" and "length name < 2 ^ 16"
    and "unat (unsigned_abs sz) = 24 + length name + length slack"
    and "name_ok (flags \<in> {1, 3}) cs" and "name = name_bytes (flags \<in> {1, 3}) cs"
  shows "\<exists>v. CellKeyValue_from_bytes N (vk_cell sz name data_size data_offset type_raw flags pad slack @ rest)
        off seq full = Ok (rest, v) \<and>
    field_value (kvd_size (kv_detail (kv v))) = sz \<and>
    field_value (kvd_signature (kv_detail (kv v))) = ''vk'' \<and>
    unat (field_value (kvd_value_name_size (kv_detail (kv v)))) = length name \<and>
    field_value (kvd_value_name (kv_detail (kv v))) = utf8 cs \<and>
    field_value (kvd_data_size_raw (kv_detail (kv v))) = data_size \<and>
    field_value (kvd_data_offset_relative (kv_detail (kv v))) = data_offset \<and>
    (full \<longrightarrow> kvd_data_offset_relative (kv_detail (kv v)) =
       Full \<lparr>ff_value = data_offset, ff_offset = 12, ff_len = 4\<rparr>) \<and>
    field_value (kvd_data_type_raw (kv_detail (kv v))) = type_raw \<and>
    type_code (kv_data_type (kv v)) =
      (if type_raw AND 0xFFF \<in> range type_code then type_raw AND 0xFFF else type_code REG_UNKNOWN) \<and>
    field_value (kvd_flags_raw (kv_detail (kv v))) = flags \<and>
    kv_flags (kv v) = (if flags \<le> 3 then flags else 0) \<and>
    field_value (kvd_padding (kv_detail (kv v))) = pad \<and>
    field_value (kvd_slack (kv_detail (kv v))) = slack \<and>
    field_value (kvd_value_bytes (kv_detail (kv v))) = None \<and>
    kv_file_offset_absolute (kv v) = off \<and>
    kv_slack_offset_absolute v = off + 24 + length name \<and>
    kv_data_offsets_absolute (kv v) = [] \<and> kv_hash (kv v) = None \<and> kv_versions v = [] \<and>
    kv_logs (kv v) = Logs_default \<and> kv_sequence_num (kv v) = seq \<and>
    kv_updated_by_sequence_num (kv v) = None \<and> kv_cell_state (kv v) = Allocated"
  by (rule vk_cell_parse [OF assms])

context nom_spec
begin

lemma big_data_loop_total:
  "big_data_loop N fi offs r acc \<noteq> Panic \<and> big_data_loop N fi offs r acc \<noteq> Diverge"
proof (induction offs arbitrary: r acc)
  case Nil
  then show ?case by simp
next
  case (Cons off offs)
  have "parse_big_data_size N fi off \<noteq> Panic \<and> parse_big_data_size N fi off \<noteq> Diverge"
    by (simp add: parse_big_data_size_def buffer_from_def le_i32 split: option.splits)
  with Cons show ?case
    by (auto simp: bindO_eq_Panic bindO_eq_Diverge from_nom_eq Let_def)
qed

lemma get_big_data_bytes_total:
  "get_big_data_bytes N fi off ty sz \<noteq> Panic \<and> get_big_data_bytes N fi off ty sz \<noteq> Diverge"
proof -
  have "fixed_width 4 (nom_le_u32 N) from_le_bytes"
    by (simp add: fixed_width_def le_u32 le_doc_def)
  then have c: "count_doc (nom_le_u32 N) n i \<noteq> Panic \<and> count_doc (nom_le_u32 N) n i \<noteq> Diverge" for n i
    by (rule count_doc_fixed_total)
  have "CellBigData_from_bytes N i \<noteq> Panic \<and> CellBigData_from_bytes N i \<noteq> Diverge" for i
    by (auto simp: CellBigData_from_bytes_def bindO_eq_Panic bindO_eq_Diverge le_i32 tag le_u16 le_u32)
  moreover have "parse_big_data_offsets N bd fi \<noteq> Panic \<and> parse_big_data_offsets N bd fi \<noteq> Diverge" for bd
    using c by (auto simp: parse_big_data_offsets_def buffer_from_def bindO_eq_Panic bindO_eq_Diverge
        le_u32 count_u32 split: option.splits)
  ultimately show ?thesis
    using big_data_loop_total
    by (auto simp: get_big_data_bytes_def bindO_eq_Panic bindO_eq_Diverge from_nom_eq)
qed

lemma read_value_bytes_direct_total:
  "\<exists>r l. read_value_bytes_direct N off data_size data_offset ty fi logs = Ok (r, l)"
  using get_big_data_bytes_total [of fi "unat data_offset + hbin_offset_absolute fi" ty data_size]
  by (auto simp: read_value_bytes_direct_def Let_def split: option.splits outcome.splits)

lemma CellKeyValue_read_value_bytes_total: "\<exists>v'. CellKeyValue_read_value_bytes N fi v = Ok v'"
proof -
  obtain r l where "read_value_bytes_direct N (kv_file_offset_absolute (kv v))
      (field_value (kvd_data_size_raw (kv_detail (kv v)))) (field_value (kvd_data_offset_relative (kv_detail (kv v))))
      (kv_data_type (kv v)) fi (kv_logs (kv v)) = Ok (r, l)"
    using read_value_bytes_direct_total by blast
  then show ?thesis
    by (cases r) (simp add: CellKeyValue_read_value_bytes_def Let_def)
qed

end

text \<open>
  Finding the data of a value never panics and never gives up on the value: what cannot be read
  leaves empty data and a warning.  Data of at most four bytes that is marked as resident is taken
  from the data offset field itself; other data that is not a big data block is the \<open>data_size\<close>
  bytes behind the size field of its cell.
\<close>

theorem value_data_located:
  assumes "nom_spec N"
  shows "(\<exists>r l. read_value_bytes_direct N off data_size data_offset ty fi logs = Ok (r, l)) \<and>
    (data_size AND DATA_IS_RESIDENT_MASK \<noteq> 0 \<and> unat (data_size XOR DATA_IS_RESIDENT_MASK) \<le> 4 \<longrightarrow>
       read_value_bytes_direct N off data_size data_offset ty fi logs =
       Ok ((get_value_bytes ty (take (unat (data_size XOR DATA_IS_RESIDENT_MASK)) (to_le_bytes data_offset)),
            [off + 12]), logs)) \<and>
    (data_size AND DATA_IS_RESIDENT_MASK = 0 \<and> data_size \<le> BIG_DATA_SIZE_THRESHOLD \<and>
     unat data_offset + hbin_offset_absolute fi + 4 + unat data_size \<le> length (buffer fi) \<longrightarrow>
       read_value_bytes_direct N off data_size data_offset ty fi logs =
       Ok ((get_value_bytes ty (take (unat data_size)
              (drop (unat data_offset + hbin_offset_absolute fi + 4) (buffer fi))),
            [unat data_offset + hbin_offset_absolute fi + 4]), logs))"
proof (intro conjI impI)
  show "\<exists>r l. read_value_bytes_direct N off data_size data_offset ty fi logs = Ok (r, l)"
    by (rule nom_spec.read_value_bytes_direct_total [OF assms])
next
  assume "data_size AND DATA_IS_RESIDENT_MASK \<noteq> 0 \<and> unat (data_size XOR DATA_IS_RESIDENT_MASK) \<le> 4"
  then show "read_value_bytes_direct N off data_size data_offset ty fi logs =
       Ok ((get_value_bytes ty (take (unat (data_size XOR DATA_IS_RESIDENT_MASK)) (to_le_bytes data_offset)),
            [off + 12]), logs)"
    by (simp add: read_value_bytes_direct_def get_range_def Let_def)
next
  assume "data_size AND DATA_IS_RESIDENT_MASK = 0 \<and> data_size \<le> BIG_DATA_SIZE_THRESHOLD \<and>
     unat data_offset + hbin_offset_absolute fi + 4 + unat data_size \<le> length (buffer fi)"
  then show "read_value_bytes_direct N off data_size data_offset ty fi logs =
       Ok ((get_value_bytes ty (take (unat data_size)
              (drop (unat data_offset + hbin_offset_absolute fi + 4) (buffer fi))),
            [unat data_offset + hbin_offset_absolute fi + 4]), logs)"
    by (auto simp: read_value_bytes_direct_def get_from_def get_range_def Let_def)
qed

section \<open>Witnesses\<close>

text \<open>A \<open>db\<close> cell at 0, its list of one segment at 12 and the segment at 20.\<close>

definition db_file :: FileInfo where
  "db_file = \<lparr>hbin_offset_absolute = 0,
     buffer = to_le_bytes (0 :: i32) @ bytes_of ''db'' @ to_le_bytes (1 :: u16) @ to_le_bytes (12 :: u32) @
       to_le_bytes (8 :: u32) @ to_le_bytes (20 :: u32) @ to_le_bytes (8 :: i32) @ [1, 2, 3]\<rparr>"


theorem value_cell_roundtrip_witness:
  "\<exists>v. CellKeyValue_from_bytes env_ref (vk_cell (- 32) (utf16_bytes [0x61, 0x263A]) 4 0 0x1004 2 7 [0, 0, 0, 0]) 100 None True =
       Ok ([], v) \<and>
     field_value (kvd_value_name (kv_detail (kv v))) = utf8 [0x61, 0x263A] \<and> type_code (kv_data_type (kv v)) = 4 \<and>
     kv_flags (kv v) = 2 \<and> field_value (kvd_padding (kv_detail (kv v))) = 7 \<and> kv_slack_offset_absolute v = 128"
proof -
  let ?name = "utf16_bytes [0x61, 0x263A]"
  have n: "?name = name_bytes ((2 :: u16) \<in> {1, 3}) [0x61, 0x263A]" "name_ok ((2 :: u16) \<in> {1, 3}) [0x61, 0x263A]"
    by (simp_all add: name_bytes_def name_ok_def is_scalar_def encode_utf16_def encode_utf16_char_def)
  have t: "(4 :: u32) \<in> range type_code" by (rule range_eqI [of _ _ REG_DWORD]) simp
  show ?thesis
    using value_cell_roundtrip [OF ref_nom.nom_spec_axioms _ _ n(2,1), of "- 32" "[0, 0, 0, 0]" 4 0 "0x1004" 7 "[]" 100 None True] t
    by (auto simp: unsigned_abs_def)
qed

theorem value_data_located_witness:
  "read_value_bytes_direct env_ref 100 0x80000002 0x0201 REG_BIN db_file Logs_default = Ok (([1, 2], [112]), Logs_default) \<and>
   read_value_bytes_direct env_ref 100 3 20 REG_BIN db_file Logs_default = Ok (([1, 2, 3], [24]), Logs_default)"
proof
  have b: "to_le_bytes (0x0201 :: u32) = [1, 2, 0, 0]" by (simp add: to_le_bytes_def)
  show "read_value_bytes_direct env_ref 100 0x80000002 0x0201 REG_BIN db_file Logs_default = Ok (([1, 2], [112]), Logs_default)"
    using value_data_located [OF ref_nom.nom_spec_axioms, of 100 "0x80000002" "0x0201" REG_BIN db_file Logs_default]
    by (simp add: DATA_IS_RESIDENT_MASK_def b get_value_bytes_def get_data_type_len_def)
  show "read_value_bytes_direct env_ref 100 3 20 REG_BIN db_file Logs_default = Ok (([1, 2, 3], [24]), Logs_default)"
    using value_data_located [OF ref_nom.nom_spec_axioms, of 100 3 20 REG_BIN db_file Logs_default]
    by (simp add: DATA_IS_RESIDENT_MASK_def BIG_DATA_SIZE_THRESHOLD_def db_file_def get_value_bytes_def
        get_data_type_len_def)
qed

end
