(* ===== verification/Parser_State.thy ===== *)
theory Parser_State
  imports Key_Values
begin

text \<open>
  The data of key nodes (the structs of \<open>src/src/cell_key_node.rs\<close>), the parser's state with its maps of
  deleted and modified items (\<open>src/src/state.rs\<close>) and the map of known items that the analysis of
  transaction logs keeps (\<open>src/src/reg_item_map.rs\<close>).
\<close>

section \<open>Key nodes\<close>

record CellKeyNodeDetail =
  knd_size :: "i32 Field"
  knd_signature :: "string Field"
  knd_key_node_flag_bits :: "u16 Field"
  knd_last_key_written_date_and_time :: "u64 Field"
  knd_access_flag_bits :: "u32 Field"
  knd_parent_key_offset_relative :: "i32 Field"
  knd_number_of_sub_keys :: "u32 Field"
  knd_number_of_volatile_sub_keys :: "u32 Field"
  knd_sub_keys_list_offset_relative :: "u32 Field"
  knd_volatile_sub_keys_list_offset_relative :: "i32 Field"
  knd_number_of_key_values :: "u32 Field"
  knd_key_values_list_offset_relative :: "i32 Field"
  knd_security_key_offset_relative :: "u32 Field"
  knd_class_name_offset_relative :: "i32 Field"
  knd_largest_sub_key_name_size :: "u32 Field"
  knd_largest_sub_key_class_name_size :: "u32 Field"
  knd_largest_value_name_size :: "u32 Field"
  knd_largest_value_data_size :: "u32 Field"
  knd_work_var :: "u32 Field"
  knd_key_name_size :: "u16 Field"
  knd_class_name_size :: "u16 Field"
  knd_slack :: "bytes Field"

datatype FilterMatchState = FMS_None | FMS_Descendent | FMS_Exact

record CellKeyNodeIteration =
  to_return :: u32
  track_returned :: u32
  filter_state :: "FilterMatchState option"
  sub_keys_iter_index :: usize

definition CellKeyNodeIteration_default :: CellKeyNodeIteration where
  "CellKeyNodeIteration_default =
     \<lparr>to_return = 0, track_returned = 0, filter_state = None, sub_keys_iter_index = 0\<rparr>"

text \<open>The struct \<open>CellKeyNode\<close>: its plain fields, its versions and its deleted keys.\<close>

record CellKeyNodeCore =
  kn_file_offset_absolute :: usize
  kn_detail :: CellKeyNodeDetail
  kn_key_name :: string
  kn_path :: string
  kn_cell_state :: CellState
  kn_sequence_num :: "u32 option"
  kn_updated_by_sequence_num :: "u32 option"
  kn_sub_values :: "CellKeyValue list"
  kn_logs :: Logs
  cell_sub_key_offsets_absolute :: "u32 list"
  kn_hash :: "Hash option"
  iteration_state :: CellKeyNodeIteration

datatype CellKeyNode =
  CellKeyNode (kn: CellKeyNodeCore) (kn_versions: "CellKeyNode list") (kn_deleted_keys: "CellKeyNode list")

text \<open>The derived \<open>Default\<close> of a key: fields without offsets, all empty.\<close>

definition CellKeyNodeDetail_default :: CellKeyNodeDetail where
  "CellKeyNodeDetail_default =
     \<lparr>knd_size = Field_init False 0, knd_signature = Field_init False [],
      knd_key_node_flag_bits = Field_init False 0, knd_last_key_written_date_and_time = Field_init False 0,
      knd_access_flag_bits = Field_init False 0, knd_parent_key_offset_relative = Field_init False 0,
      knd_number_of_sub_keys = Field_init False 0, knd_number_of_volatile_sub_keys = Field_init False 0,
      knd_sub_keys_list_offset_relative = Field_init False 0,
      knd_volatile_sub_keys_list_offset_relative = Field_init False 0,
      knd_number_of_key_values = Field_init False 0, knd_key_values_list_offset_relative = Field_init False 0,
      knd_security_key_offset_relative = Field_init False 0, knd_class_name_offset_relative = Field_init False 0,
      knd_largest_sub_key_name_size = Field_init False 0,
      knd_largest_sub_key_class_name_size = Field_init False 0,
      knd_largest_value_name_size = Field_init False 0, knd_largest_value_data_size = Field_init False 0,
      knd_work_var = Field_init False 0, knd_key_name_size = Field_init False 0,
      knd_class_name_size = Field_init False 0, knd_slack = Field_init False []\<rparr>"

definition CellKeyNode_default :: CellKeyNode where
  "CellKeyNode_default = CellKeyNode
     \<lparr>kn_file_offset_absolute = 0, kn_detail = CellKeyNodeDetail_default, kn_key_name = [], kn_path = [],
      kn_cell_state = Allocated, kn_sequence_num = None, kn_updated_by_sequence_num = None,
      kn_sub_values = [], kn_logs = Logs_default, cell_sub_key_offsets_absolute = [], kn_hash = None,
      iteration_state = CellKeyNodeIteration_default\<rparr> [] []"

definition kn_update :: "(CellKeyNodeCore \<Rightarrow> CellKeyNodeCore) \<Rightarrow> CellKeyNode \<Rightarrow> CellKeyNode" where
  "kn_update f k = CellKeyNode (f (kn k)) (kn_versions k) (kn_deleted_keys k)"

definition kn_add_log :: "LogCode \<Rightarrow> string \<Rightarrow> CellKeyNode \<Rightarrow> CellKeyNode" where
  "kn_add_log c t = kn_update (\<lambda>k. k\<lparr>kn_logs := Logs_add (kn_logs k) c t\<rparr>)"

definition kn_has_or_is_recovered :: "CellKeyNode \<Rightarrow> bool" where
  "kn_has_or_is_recovered k \<longleftrightarrow>
     is_deleted (kn_cell_state (kn k)) \<or> kn_cell_state (kn k) = ModifiedTransactionLog \<or> kn_versions k \<noteq> []"

section \<open>The maps of the state\<close>

definition vec_push :: "('k \<rightharpoonup> 'v list) \<Rightarrow> 'k \<Rightarrow> 'v \<Rightarrow> ('k \<rightharpoonup> 'v list)" where
  "vec_push m k v =
     (case m k of
        Some vec \<Rightarrow> m(k \<mapsto> vec @ [v])
      | None \<Rightarrow> m(k \<mapsto> [v]))"

type_synonym ModifiedValueMap = "string \<times> string \<rightharpoonup> CellKeyValue list"
type_synonym DeletedValueMap = "string \<rightharpoonup> CellKeyValue list"
type_synonym ModifiedDeletedKeyMap = "string \<rightharpoonup> CellKeyNode list"

definition ModifiedValueMap_add :: "ModifiedValueMap \<Rightarrow> string \<Rightarrow> string \<Rightarrow> CellKeyValue \<Rightarrow> ModifiedValueMap" where
  "ModifiedValueMap_add m key_path value_name v = vec_push m (key_path, value_name) v"

definition ModifiedValueMap_get :: "ModifiedValueMap \<Rightarrow> string \<Rightarrow> string \<Rightarrow> CellKeyValue list option" where
  "ModifiedValueMap_get m key_path value_name = m (key_path, value_name)"

definition DeletedValueMap_add :: "DeletedValueMap \<Rightarrow> string \<Rightarrow> CellKeyValue \<Rightarrow> DeletedValueMap" where
  "DeletedValueMap_add m key_path v = vec_push m key_path v"

definition DeletedValueMap_get :: "DeletedValueMap \<Rightarrow> string \<Rightarrow> CellKeyValue list option" where
  "DeletedValueMap_get m key_path = m key_path"

text \<open>The loops that look for an item and remove it by its index.\<close>

fun remove_first :: "('a \<Rightarrow> bool) \<Rightarrow> 'a list \<Rightarrow> 'a list option" where
  "remove_first P [] = None"
| "remove_first P (x # xs) = (if P x then Some xs else map_option (Cons x) (remove_first P xs))"

definition value_matches :: "string \<Rightarrow> Hash \<Rightarrow> CellKeyValue \<Rightarrow> bool" where
  "value_matches value_name h v \<longleftrightarrow>
     field_value (kvd_value_name (kv_detail (kv v))) = value_name \<and> kv_hash (kv v) = Some h"

definition DeletedValueMap_remove :: "DeletedValueMap \<Rightarrow> string \<Rightarrow> string \<Rightarrow> Hash \<Rightarrow> DeletedValueMap" where
  "DeletedValueMap_remove m key_path value_name h =
     (case m key_path of
        None \<Rightarrow> m
      | Some values \<Rightarrow>
          (case remove_first (value_matches value_name h) values of
             None \<Rightarrow> m
           | Some rest \<Rightarrow> if rest = [] then m(key_path := None) else m(key_path \<mapsto> rest)))"

definition ModifiedDeletedKeyMap_add :: "ModifiedDeletedKeyMap \<Rightarrow> string \<Rightarrow> CellKeyNode \<Rightarrow> ModifiedDeletedKeyMap" where
  "ModifiedDeletedKeyMap_add m path k = vec_push m path k"

definition ModifiedDeletedKeyMap_get :: "ModifiedDeletedKeyMap \<Rightarrow> string \<Rightarrow> CellKeyNode list option" where
  "ModifiedDeletedKeyMap_get m path = m path"

definition key_matches :: "string \<Rightarrow> Hash \<Rightarrow> CellKeyNode \<Rightarrow> bool" where
  "key_matches path h k \<longleftrightarrow> kn_hash (kn k) = Some h \<and> path = kn_path (kn k)"

text \<open>When the vector of the parent path becomes empty, the entry that is removed from the map is the
  one under \<open>path\<close>.\<close>

definition parent_path :: "string \<Rightarrow> string" where
  "parent_path path = take (case rfind_char backslash path of Some i \<Rightarrow> i | None \<Rightarrow> 0) path"

definition ModifiedDeletedKeyMap_remove :: "ModifiedDeletedKeyMap \<Rightarrow> string \<Rightarrow> Hash \<Rightarrow> ModifiedDeletedKeyMap" where
  "ModifiedDeletedKeyMap_remove m path h =
     (case m (parent_path path) of
        None \<Rightarrow> m
      | Some keys \<Rightarrow>
          (case remove_first (key_matches path h) keys of
             None \<Rightarrow> m
           | Some rest \<Rightarrow>
               let m' = m(parent_path path \<mapsto> rest)
               in if rest = [] then m'(path := None) else m'))"

text \<open>The hasher of the state is reset before each use, so that it carries nothing between them; a
  hash is \<open>blake3\<close> of the pieces it is fed.\<close>

record State =
  root_key_path_offset :: usize
  get_full_field_info :: bool
  info :: Logs
  deleted_keys :: ModifiedDeletedKeyMap
  modified_keys :: ModifiedDeletedKeyMap
  deleted_values :: DeletedValueMap
  modified_values :: ModifiedValueMap

definition State_default :: State where
  "State_default =
     \<lparr>root_key_path_offset = 0, get_full_field_info = False, info = Logs_default,
      deleted_keys = Map.empty, modified_keys = Map.empty, deleted_values = Map.empty,
      modified_values = Map.empty\<rparr>"

definition State_get_root_path_offset :: "State \<Rightarrow> string \<Rightarrow> usize \<times> State" where
  "State_get_root_path_offset st key_path =
     (let st = (if root_key_path_offset st = 0
                then st\<lparr>root_key_path_offset := get_root_path_offset key_path\<rparr> else st)
      in (root_key_path_offset st, st))"

section \<open>The map of known items\<close>

type_synonym RegItemMapKey = "string \<times> string option"

record RegItemMapValue =
  rim_hash :: Hash
  rim_file_offset_absolute :: usize
  rim_sequence_num :: u32

text \<open>A \<open>HashMap\<close> with the entries in some order; no two entries have the same key.\<close>

type_synonym RegItemMap = "(RegItemMapKey \<times> RegItemMapValue) list"

definition RegItemMapKey_new :: "string \<Rightarrow> string option \<Rightarrow> RegItemMapKey" where
  "RegItemMapKey_new key_path value_name = (key_path, value_name)"

definition RegItemMapValue_new :: "Hash \<Rightarrow> usize \<Rightarrow> u32 \<Rightarrow> RegItemMapValue" where
  "RegItemMapValue_new h off seq =
     \<lparr>rim_hash = h, rim_file_offset_absolute = off, rim_sequence_num = seq\<rparr>"

section \<open>The contract of the maps\<close>

locale multimap =
  fixes empty :: 'm
    and add :: "'m \<Rightarrow> 'k \<Rightarrow> 'v \<Rightarrow> 'm"
    and get :: "'m \<Rightarrow> 'k \<Rightarrow> 'v list option"
  assumes get_empty: "get empty k = None"
    and get_add: "get (add m k v) k' = (if k' = k then Some (vec_or_default (get m k) @ [v]) else get m k')"
begin

text \<open>After any sequence of additions a key has exactly the items added under it, in order.\<close>

lemma get_fold:
  "vec_or_default (get (foldl (\<lambda>m (k, v). add m k v) m xs) k) =
     vec_or_default (get m k) @ map snd (filter (\<lambda>(k', v). k' = k) xs)"
proof (induction xs arbitrary: m)
  case Nil
  then show ?case by simp
next
  case (Cons x xs)
  obtain k' v where x: "x = (k', v)" by fastforce
  show ?case
    using Cons.IH [of "add m k' v"] by (auto simp: x get_add vec_or_default_def)
qed

lemma get_fold_empty:
  "vec_or_default (get (foldl (\<lambda>m (k, v). add m k v) empty xs) k) = map snd (filter (\<lambda>(k', v). k' = k) xs)"
  by (subst get_fold) (simp add: get_empty vec_or_default_def)

end

lemma vec_push_get: "vec_push m k v k' = (if k' = k then Some (vec_or_default (m k) @ [v]) else m k')"
  by (simp add: vec_push_def vec_or_default_def split: option.splits)

interpretation deleted_value_map: multimap Map.empty DeletedValueMap_add DeletedValueMap_get
  by unfold_locales (auto simp: DeletedValueMap_add_def DeletedValueMap_get_def vec_push_get)

interpretation key_map: multimap Map.empty ModifiedDeletedKeyMap_add ModifiedDeletedKeyMap_get
  by unfold_locales (auto simp: ModifiedDeletedKeyMap_add_def ModifiedDeletedKeyMap_get_def vec_push_get)

interpretation modified_value_map: multimap Map.empty "\<lambda>m (p, n). ModifiedValueMap_add m p n"
  "\<lambda>m (p, n). ModifiedValueMap_get m p n"
  by unfold_locales
    (auto simp: ModifiedValueMap_add_def ModifiedValueMap_get_def vec_push_get split: if_splits)

lemma remove_first_hit:
  "P x \<Longrightarrow> \<forall>a \<in> set as. \<not> P a \<Longrightarrow> remove_first P (as @ x # bs) = Some (as @ bs)"
  by (induction as) auto

lemma remove_first_None: "remove_first P xs = None \<longleftrightarrow> (\<forall>x \<in> set xs. \<not> P x)"
  by (induction xs) auto

section \<open>Properties\<close>

text \<open>the maps of deleted and modified items lose nothing and mix nothing up: after any sequence of
  additions to an empty map, the items under a path (and, for values, a name) are those added under
  it, in the order of the additions.
\<close>

theorem state_maps_keep_order:
  "vec_or_default (DeletedValueMap_get (foldl (\<lambda>m (k, v). DeletedValueMap_add m k v) Map.empty dvs) p) =
     map snd (filter (\<lambda>(k, v). k = p) dvs) \<and>
   vec_or_default (ModifiedDeletedKeyMap_get (foldl (\<lambda>m (k, v). ModifiedDeletedKeyMap_add m k v) Map.empty dks) p) =
     map snd (filter (\<lambda>(k, v). k = p) dks) \<and>
   vec_or_default (ModifiedValueMap_get
       (foldl (\<lambda>m (k, v). (case k of (a, b) \<Rightarrow> ModifiedValueMap_add m a b) v) Map.empty mvs) p n) =
     map snd (filter (\<lambda>(k, v). k = (p, n)) mvs)"
  using deleted_value_map.get_fold_empty [of dvs p] key_map.get_fold_empty [of dks p]
    modified_value_map.get_fold_empty [of mvs "(p, n)"]
  by simp

text \<open>removing a deleted value takes out exactly the first one with that name and hash, keeps the
  others and their order, and touches no other key; an entry that becomes empty is dropped.
\<close>

theorem deleted_value_removed:
  assumes "m p = Some (as @ v # bs)" and "value_matches n h v" and "\<And>a. a \<in> set as \<Longrightarrow> \<not> value_matches n h a"
  shows "DeletedValueMap_get (DeletedValueMap_remove m p n h) q =
    (if q = p then (if as @ bs = [] then None else Some (as @ bs)) else m q)"
proof -
  have "remove_first (value_matches n h) (as @ v # bs) = Some (as @ bs)"
    using assms(2,3) by (simp add: remove_first_hit)
  then show ?thesis
    by (auto simp: DeletedValueMap_remove_def DeletedValueMap_get_def assms(1))
qed

text \<open>
  The map of keys does not clean up after itself: when the last key under a parent path is removed,
  the entry of the parent path stays, with an empty vector.
\<close>

lemma emptied_key_entry_stays:
  assumes "m (parent_path p) = Some [k]" and "key_matches p h k" and "parent_path p \<noteq> p"
  shows "ModifiedDeletedKeyMap_get (ModifiedDeletedKeyMap_remove m p h) (parent_path p) = Some []"
  using assms by (simp add: ModifiedDeletedKeyMap_remove_def ModifiedDeletedKeyMap_get_def Let_def)

section \<open>Witnesses\<close>

definition value_named :: "string \<Rightarrow> Hash \<Rightarrow> CellKeyValue" where
  "value_named n h = CellKeyValue
     \<lparr>kv_file_offset_absolute = 0,
      kv_detail =
        \<lparr>kvd_size = Field_init False 0, kvd_signature = Field_init False [], kvd_value_name_size = Field_init False 0,
         kvd_data_size_raw = Field_init False 0, kvd_data_offset_relative = Field_init False 0,
         kvd_data_type_raw = Field_init False 0, kvd_flags_raw = Field_init False 0,
         kvd_padding = Field_init False 0, kvd_value_name = Field_init False n,
         kvd_slack = Field_init False [], kvd_value_bytes = Field_init False None\<rparr>,
      kv_data_type = REG_NONE, kv_flags = 0, kv_data_offsets_absolute = [], kv_cell_state = DeletedPrimaryFile,
      kv_logs = Logs_default, kv_hash = Some h, kv_sequence_num = None, kv_updated_by_sequence_num = None\<rparr> []"

lemma value_matches_named: "value_matches n h (value_named n' h') \<longleftrightarrow> n' = n \<and> h' = h"
  by (auto simp: value_matches_def value_named_def Field_init_def FieldLight_new_def)

theorem deleted_value_removed_witness:
  "DeletedValueMap_get
     (DeletedValueMap_remove [''a'' \<mapsto> [value_named ''x'' [1], value_named ''x'' [2], value_named ''y'' [2]]] ''a'' ''x'' [2]) ''a'' =
   Some [value_named ''x'' [1], value_named ''y'' [2]]"
  using deleted_value_removed [of "[''a'' \<mapsto> [value_named ''x'' [1], value_named ''x'' [2], value_named ''y'' [2]]]" "''a''"
    "[value_named ''x'' [1]]" "value_named ''x'' [2]" "[value_named ''y'' [2]]" "''x''" "[2]" "''a''"]
  by (simp add: value_matches_named)

end
