(* ===== verification/Reg_Filter.thy ===== *)
theory Reg_Filter
  imports Diagnostics "HOL-Library.Sublist"
begin

text \<open>
  The filters of \<open>src/src/filter.rs\<close>: a query is a path of literal and regular-expression components that
  is compared, segment by segment, with the path of a key.  The comparison decides whether the
  key matches, whether keys below it may still match, or whether the traversal can be cut.
  The functions that take a key and the parser's state are with the key nodes.
\<close>

section \<open>Data\<close>

datatype RegQueryComponent = ComponentString string | ComponentRegex Regex

record RegQuery =
  rq_key_path :: "RegQueryComponent list"
  rq_key_path_has_root :: bool
  rq_children :: bool

record Filter =
  reg_query :: "RegQuery option"

record FilterBuilder =
  fb_key_path :: "RegQueryComponent list"
  fb_key_path_has_root :: bool
  fb_children :: bool
  regex_errors :: "string list"

type_synonym FilterFlags = u16

definition FILTER_NO_MATCH :: FilterFlags where "FILTER_NO_MATCH = 0x0001"
definition FILTER_ITERATE_KEYS :: FilterFlags where "FILTER_ITERATE_KEYS = 0x0002"
definition FILTER_KEY_MATCH :: FilterFlags where "FILTER_KEY_MATCH = 0x0004"

definition flags_contain :: "'a::len word \<Rightarrow> 'a word \<Rightarrow> bool" where
  "flags_contain flags f \<longleftrightarrow> flags AND f = f"

section \<open>Building a filter\<close>

definition Filter_new :: Filter where "Filter_new = \<lparr>reg_query = None\<rparr>"

definition Filter_is_valid :: "Filter \<Rightarrow> bool" where
  "Filter_is_valid f \<longleftrightarrow> reg_query f \<noteq> None"

definition return_sub_keys :: "Filter \<Rightarrow> bool" where
  "return_sub_keys f = (case reg_query f of Some fp \<Rightarrow> rq_children fp | None \<Rightarrow> False)"

definition FilterBuilder_new :: FilterBuilder where
  "FilterBuilder_new =
     \<lparr>fb_key_path = [], fb_key_path_has_root = False, fb_children = False, regex_errors = []\<rparr>"

definition add_literal_segment_internal :: "RegQueryComponent list \<Rightarrow> string \<Rightarrow> RegQueryComponent list" where
  "add_literal_segment_internal key_path segment =
     key_path @ [ComponentString (to_ascii_lowercase segment)]"

definition add_key_path :: "FilterBuilder \<Rightarrow> string \<Rightarrow> FilterBuilder" where
  "add_key_path fb key_path =
     fb\<lparr>fb_key_path := foldl add_literal_segment_internal (fb_key_path fb)
          (split_char backslash (trim_end_char backslash key_path))\<rparr>"

definition add_literal_segment :: "FilterBuilder \<Rightarrow> string \<Rightarrow> FilterBuilder" where
  "add_literal_segment fb segment =
     fb\<lparr>fb_key_path := add_literal_segment_internal (fb_key_path fb)
          (trim_end_char backslash (trim_start_char backslash segment))\<rparr>"

definition add_regex_segment :: "'z env_scheme \<Rightarrow> FilterBuilder \<Rightarrow> string \<Rightarrow> FilterBuilder" where
  "add_regex_segment N fb regex =
     (case regex_new N (to_ascii_lowercase regex) of
        Inr r \<Rightarrow> fb\<lparr>fb_key_path := fb_key_path fb @ [ComponentRegex r]\<rparr>
      | Inl e \<Rightarrow> fb\<lparr>regex_errors := regex_errors fb @ [e]\<rparr>)"

definition fb_set_key_path_has_root :: "FilterBuilder \<Rightarrow> bool \<Rightarrow> FilterBuilder" where
  "fb_set_key_path_has_root fb b = fb\<lparr>fb_key_path_has_root := b\<rparr>"

definition return_child_keys :: "FilterBuilder \<Rightarrow> bool \<Rightarrow> FilterBuilder" where
  "return_child_keys fb b = fb\<lparr>fb_children := b\<rparr>"

primrec join_strings :: "string \<Rightarrow> string list \<Rightarrow> string" where
  "join_strings sep [] = []"
| "join_strings sep (x # xs) = (if xs = [] then x else x @ sep @ join_strings sep xs)"

definition FilterBuilder_build :: "FilterBuilder \<Rightarrow> Filter result" where
  "FilterBuilder_build fb =
     (if regex_errors fb = [] then
        Ok \<lparr>reg_query = Some \<lparr>rq_key_path = fb_key_path fb,
             rq_key_path_has_root = fb_key_path_has_root fb, rq_children = fb_children fb\<rparr>\<rparr>
      else Err (AnyErr (''Regex errors encountered: '' @ join_strings '', '' (regex_errors fb))))"

section \<open>Matching a key\<close>

text \<open>\<open>&s[a..]\<close> of a string panics behind its end and inside a multi-byte character.\<close>

definition is_char_boundary :: "string \<Rightarrow> usize \<Rightarrow> bool" where
  "is_char_boundary s a \<longleftrightarrow>
     a = 0 \<or> a = length s \<or> (a < length s \<and> \<not> (0x80 \<le> (of_char (s ! a) :: nat) \<and> (of_char (s ! a) :: nat) < 0xC0))"

definition str_from :: "string \<Rightarrow> usize \<Rightarrow> ('e, string) outcome" where
  "str_from s a = (if is_char_boundary s a then Ok (drop a s) else Panic)"

fun component_matches :: "'z env_scheme \<Rightarrow> RegQueryComponent \<Rightarrow> string \<Rightarrow> bool" where
  "component_matches N (ComponentString s) segment \<longleftrightarrow> s = to_ascii_lowercase segment"
| "component_matches N (ComponentRegex r) segment \<longleftrightarrow> regex_is_match N r (to_ascii_lowercase segment)"

text \<open>The loop over the segments of the key's path, with what is left of the query.\<close>

fun match_segments :: "'z env_scheme \<Rightarrow> string list \<Rightarrow> RegQueryComponent list \<Rightarrow> FilterFlags" where
  "match_segments N [] [] = FILTER_ITERATE_KEYS OR FILTER_KEY_MATCH"
| "match_segments N [] (c # cs) = FILTER_ITERATE_KEYS"
| "match_segments N (s # ss) [] = FILTER_NO_MATCH"
| "match_segments N (s # ss) (c # cs) =
     (if component_matches N c s then match_segments N ss cs else FILTER_NO_MATCH)"

definition check_key_match ::
  "'z env_scheme \<Rightarrow> RegQuery \<Rightarrow> string \<Rightarrow> usize \<Rightarrow> FilterFlags result" where
  "check_key_match N rq key_path root_key_name_offset =
     (let root_key_name_offset = (if rq_key_path_has_root rq then 0 else root_key_name_offset) in
      bindO (str_from key_path root_key_name_offset) (\<lambda>s.
        Ok (match_segments N (split_char backslash s) (rq_key_path rq))))"

section \<open>What a match means\<close>

lemma match_segments_spec:
  "match_segments N segs comps =
     (if list_all2 (component_matches N) comps segs then FILTER_ITERATE_KEYS OR FILTER_KEY_MATCH
      else if length segs < length comps \<and> list_all2 (component_matches N) (take (length segs) comps) segs
      then FILTER_ITERATE_KEYS
      else FILTER_NO_MATCH)"
  by (induction N segs comps rule: match_segments.induct) auto

lemma flags_distinct [simp]:
  "flags_contain (FILTER_ITERATE_KEYS OR FILTER_KEY_MATCH) FILTER_KEY_MATCH"
  "\<not> flags_contain (FILTER_ITERATE_KEYS OR FILTER_KEY_MATCH) FILTER_NO_MATCH"
  "\<not> flags_contain FILTER_ITERATE_KEYS FILTER_KEY_MATCH"
  "\<not> flags_contain FILTER_ITERATE_KEYS FILTER_NO_MATCH"
  "\<not> flags_contain FILTER_NO_MATCH FILTER_KEY_MATCH"
  "flags_contain FILTER_NO_MATCH FILTER_NO_MATCH"
  by (simp_all add: flags_contain_def FILTER_ITERATE_KEYS_def FILTER_KEY_MATCH_def FILTER_NO_MATCH_def)

lemma foldl_add_literal:
  "foldl add_literal_segment_internal acc segs =
     acc @ map (\<lambda>s. ComponentString (to_ascii_lowercase s)) segs"
  by (induction segs arbitrary: acc) (auto simp: add_literal_segment_internal_def)

lemma literal_components:
  "list_all2 (component_matches N) (map (\<lambda>s. ComponentString (to_ascii_lowercase s)) ps) segs \<longleftrightarrow>
     map to_ascii_lowercase ps = map to_ascii_lowercase segs"
proof (induction ps arbitrary: segs)
  case Nil
  then show ?case by auto
next
  case (Cons p ps)
  then show ?case by (cases segs) auto
qed

lemma literal_prefix:
  "length segs < length ps \<and>
     list_all2 (component_matches N)
       (take (length segs) (map (\<lambda>s. ComponentString (to_ascii_lowercase s)) ps)) segs \<longleftrightarrow>
   strict_prefix (map to_ascii_lowercase segs) (map to_ascii_lowercase ps)"
proof -
  have "strict_prefix xs ys \<longleftrightarrow> length xs < length ys \<and> take (length xs) ys = xs" for xs ys :: "string list"
    by (metis append_eq_conv_conj length_append_singleton less_SucI not_less prefix_def prefix_length_less
        strict_prefix_def take_all_iff take_is_prefix)
  then show ?thesis
    unfolding take_map literal_components by (auto simp: take_map)
qed

lemma match_segments_prefix_closed:
  assumes "\<not> flags_contain (match_segments N (ss @ ts) comps) FILTER_NO_MATCH"
  shows "\<not> flags_contain (match_segments N ss comps) FILTER_NO_MATCH"
  using assms by (induction N ss comps rule: match_segments.induct) (auto split: if_splits)

lemma split_char_snoc:
  "c \<notin> set t \<Longrightarrow> split_char c (s @ c # t) = split_char c s @ [t]"
proof (induction s)
  case Nil
  then show ?case by (simp add: split_char_no_sep)
next
  case (Cons x s)
  then show ?case by (cases "split_char c s") auto
qed

section \<open>Properties\<close>

text \<open>
  C28: a filter built from a path matches without regard to the case of ASCII letters: a key matches
  when its segments are those of the path, the traversal goes on below a key whose segments are
  a proper beginning of the path, and every other key is cut off.
\<close>

theorem literal_filter_correct:
  assumes "is_char_boundary key_path off"
  shows "check_key_match N
      \<lparr>rq_key_path = fb_key_path (add_key_path FilterBuilder_new p), rq_key_path_has_root = False,
       rq_children = ch\<rparr> key_path off =
    (let segs = map to_ascii_lowercase (split_char backslash (drop off key_path));
         pat = map to_ascii_lowercase (split_char backslash (trim_end_char backslash p))
     in Ok (if segs = pat then FILTER_ITERATE_KEYS OR FILTER_KEY_MATCH
            else if strict_prefix segs pat then FILTER_ITERATE_KEYS else FILTER_NO_MATCH))"
  using assms
  by (auto simp: check_key_match_def str_from_def add_key_path_def FilterBuilder_new_def foldl_add_literal
      match_segments_spec literal_components literal_prefix Let_def)

text \<open>
  C29: cutting off is safe: when a key below matches, or may still have matches below it, the key above
  it is never cut off, whatever literal and regular-expression components the filter has.
\<close>

theorem filter_never_cuts_an_ancestor:
  assumes "backslash \<notin> set name" and "is_char_boundary parent off"
    and "check_key_match N rq (parent @ backslash # name) off = Ok f" and "\<not> flags_contain f FILTER_NO_MATCH"
    and "off \<le> length parent"
  shows "\<exists>g. check_key_match N rq parent off = Ok g \<and> \<not> flags_contain g FILTER_NO_MATCH"
proof -
  define o' where "o' = (if rq_key_path_has_root rq then 0 else off)"
  have b: "is_char_boundary parent o'" and o': "o' \<le> length parent"
    using assms(2,5) by (auto simp: o'_def is_char_boundary_def)
  have "split_char backslash (drop o' (parent @ backslash # name)) =
      split_char backslash (drop o' parent) @ [name]"
    using o' assms(1) by (simp add: split_char_snoc)
  then have "f = match_segments N (split_char backslash (drop o' parent) @ [name]) (rq_key_path rq)"
    using assms(3) by (auto simp: check_key_match_def Let_def str_from_def o'_def split: if_splits)
  then show ?thesis
    using match_segments_prefix_closed [of N _ "[name]"] assms(4) b
    by (auto simp: check_key_match_def Let_def str_from_def o'_def)
qed

section \<open>Witnesses\<close>

definition bs_path :: "string list \<Rightarrow> string" where
  "bs_path segs = concat (map (\<lambda>s. backslash # s) segs)"

theorem literal_filter_correct_witness:
  "check_key_match env_ref
      \<lparr>rq_key_path = fb_key_path (add_key_path FilterBuilder_new (''Soft'' @ bs_path [''Run''])),
       rq_key_path_has_root = False, rq_children = True\<rparr> (bs_path [''root'', ''SOFT'', ''run'']) 6 =
    Ok (FILTER_ITERATE_KEYS OR FILTER_KEY_MATCH)"
proof -
  have "is_char_boundary (bs_path [''root'', ''SOFT'', ''run'']) 6"
    by (simp add: is_char_boundary_def bs_path_def backslash_def of_char_def)
  from literal_filter_correct [OF this, of env_ref "''Soft'' @ bs_path [''Run'']" True] show ?thesis
    by (simp add: bs_path_def backslash_def trim_end_char_def to_ascii_lowercase_def ascii_lower_def
        of_char_def char_of_def bit_Suc_0_iff Let_def)
qed

theorem filter_never_cuts_an_ancestor_witness:
  "\<exists>g. check_key_match env_ref
      \<lparr>rq_key_path = [ComponentRegex ''soft'', ComponentString ''run''],
       rq_key_path_has_root = False, rq_children = True\<rparr> ''SOFT'' 0 = Ok g \<and>
     \<not> flags_contain g FILTER_NO_MATCH"
proof (rule filter_never_cuts_an_ancestor [where name = "''run''"])
  show "check_key_match env_ref
      \<lparr>rq_key_path = [ComponentRegex ''soft'', ComponentString ''run''],
       rq_key_path_has_root = False, rq_children = True\<rparr> (''SOFT'' @ backslash # ''run'') 0 =
    Ok (FILTER_ITERATE_KEYS OR FILTER_KEY_MATCH)"
    by (simp add: check_key_match_def str_from_def is_char_boundary_def backslash_def env_ref_def
        to_ascii_lowercase_def ascii_lower_def of_char_def char_of_def bit_Suc_0_iff)
qed (simp_all add: backslash_def is_char_boundary_def)

end
