(* ===== verification/Sub_Key_Lists.thy ===== *)
theory Sub_Key_Lists
  imports Hive_File
begin

text \<open>
  The lists of sub keys: the leaves \<open>li\<close>, \<open>lf\<close> and \<open>lh\<close> (\<open>src/src/sub_key_list_li.rs\<close>,
  \<open>sub_key_list_lf.rs\<close>, \<open>sub_key_list_lh.rs\<close>), the index root \<open>ri\<close> (\<open>sub_key_list_ri.rs\<close>), the trait
  they implement (\<open>hive_bin_cell.rs\<close>) and \<open>CellKeyNode::parse_sub_key_list\<close>, which follows them.
  The relation \<open>sub_keys\<close> says what a list in a file denotes; the recursive reader is shown to
  compute it, and to have no result on an index root that leads back to itself.
\<close>

section \<open>Data\<close>

record SubKeyListLiItem =
  li_named_key_offset_relative :: u32

record SubKeyListLi =
  li_size :: u32
  li_count :: u16
  li_items :: "SubKeyListLiItem list"

record SubKeyListLfItem =
  lf_named_key_offset_relative :: u32
  lf_name_hint :: string
  lf_logs :: Logs

record SubKeyListLf =
  lf_size :: u32
  lf_count :: u16
  lf_items :: "SubKeyListLfItem list"

record SubKeyListLhItem =
  lh_named_key_offset_relative :: u32
  lh_name_hash :: u32

record SubKeyListLh =
  lh_size :: u32
  lh_count :: u16
  lh_items :: "SubKeyListLhItem list"

record SubKeyListRiItem =
  ri_sub_key_list_offset_relative :: u32

record SubKeyListRi =
  ri_size :: u32
  ri_count :: u16
  ri_items :: "SubKeyListRiItem list"

text \<open>The values of \<open>Box<dyn CellSubKeyList>\<close> that the parsers build.\<close>

datatype CellSubKeyList = DynLi SubKeyListLi | DynLf SubKeyListLf | DynLh SubKeyListLh

record env_list = env_cell +
  nom_count_li :: "SubKeyListLiItem parser \<Rightarrow> nat \<Rightarrow> SubKeyListLiItem list parser"
  nom_count_lf :: "SubKeyListLfItem parser \<Rightarrow> nat \<Rightarrow> SubKeyListLfItem list parser"
  nom_count_lh :: "SubKeyListLhItem parser \<Rightarrow> nat \<Rightarrow> SubKeyListLhItem list parser"
  nom_count_ri :: "SubKeyListRiItem parser \<Rightarrow> nat \<Rightarrow> SubKeyListRiItem list parser"
  nom_alt_list :: "CellSubKeyList parser list \<Rightarrow> CellSubKeyList parser"

section \<open>The parsers\<close>

definition SubKeyListLiItem_from_bytes :: "'z env_list_scheme \<Rightarrow> SubKeyListLiItem parser" where
  "SubKeyListLiItem_from_bytes N input =
     bindO (nom_le_u32 N input) (\<lambda>(input, offset).
     Ok (input, \<lparr>li_named_key_offset_relative = offset\<rparr>))"

definition SubKeyListLi_from_bytes_internal :: "'z env_list_scheme \<Rightarrow> SubKeyListLi parser" where
  "SubKeyListLi_from_bytes_internal N input =
     bindO (nom_le_i32 N input) (\<lambda>(input, sz).
     bindO (nom_tag N ''li'' input) (\<lambda>(input, _).
     bindO (nom_le_u16 N input) (\<lambda>(input, cnt).
     bindO (nom_count_li N (SubKeyListLiItem_from_bytes N) (unat cnt) input) (\<lambda>(input, items).
     Ok (input, \<lparr>li_size = unsigned_abs sz, li_count = cnt, li_items = items\<rparr>)))))"

definition SubKeyListLi_from_bytes :: "'z env_list_scheme \<Rightarrow> CellSubKeyList parser" where
  "SubKeyListLi_from_bytes N input =
     bindO (SubKeyListLi_from_bytes_internal N input) (\<lambda>(input, ret). Ok (input, DynLi ret))"

definition SubKeyListLfItem_from_bytes :: "'z env_list_scheme \<Rightarrow> SubKeyListLfItem parser" where
  "SubKeyListLfItem_from_bytes N input =
     bindO (nom_le_u32 N input) (\<lambda>(input, offset).
     bindO (nom_take N 4 input) (\<lambda>(input, name_hint).
     let (hint, logs) = from_ascii name_hint Logs_default ''SubKeyListLfItem::key_name'' in
     Ok (input, \<lparr>lf_named_key_offset_relative = offset, lf_name_hint = hint, lf_logs = logs\<rparr>)))"

definition SubKeyListLf_from_bytes_internal :: "'z env_list_scheme \<Rightarrow> SubKeyListLf parser" where
  "SubKeyListLf_from_bytes_internal N input =
     bindO (nom_le_i32 N input) (\<lambda>(input, sz).
     bindO (nom_tag N ''lf'' input) (\<lambda>(input, _).
     bindO (nom_le_u16 N input) (\<lambda>(input, cnt).
     bindO (nom_count_lf N (SubKeyListLfItem_from_bytes N) (unat cnt) input) (\<lambda>(input, items).
     Ok (input, \<lparr>lf_size = unsigned_abs sz, lf_count = cnt, lf_items = items\<rparr>)))))"

definition SubKeyListLf_from_bytes :: "'z env_list_scheme \<Rightarrow> CellSubKeyList parser" where
  "SubKeyListLf_from_bytes N input =
     bindO (SubKeyListLf_from_bytes_internal N input) (\<lambda>(input, ret). Ok (input, DynLf ret))"

definition SubKeyListLhItem_from_bytes :: "'z env_list_scheme \<Rightarrow> SubKeyListLhItem parser" where
  "SubKeyListLhItem_from_bytes N input =
     bindO (nom_le_u32 N input) (\<lambda>(input, offset).
     bindO (nom_le_u32 N input) (\<lambda>(input, name_hash).
     Ok (input, \<lparr>lh_named_key_offset_relative = offset, lh_name_hash = name_hash\<rparr>)))"

definition SubKeyListLh_from_bytes_internal :: "'z env_list_scheme \<Rightarrow> SubKeyListLh parser" where
  "SubKeyListLh_from_bytes_internal N input =
     bindO (nom_le_i32 N input) (\<lambda>(input, sz).
     bindO (nom_tag N ''lh'' input) (\<lambda>(input, _).
     bindO (nom_le_u16 N input) (\<lambda>(input, cnt).
     bindO (nom_count_lh N (SubKeyListLhItem_from_bytes N) (unat cnt) input) (\<lambda>(input, items).
     Ok (input, \<lparr>lh_size = unsigned_abs sz, lh_count = cnt, lh_items = items\<rparr>)))))"

definition SubKeyListLh_from_bytes :: "'z env_list_scheme \<Rightarrow> CellSubKeyList parser" where
  "SubKeyListLh_from_bytes N input =
     bindO (SubKeyListLh_from_bytes_internal N input) (\<lambda>(input, ret). Ok (input, DynLh ret))"

definition parse_sub_key_list_ri_item :: "'z env_list_scheme \<Rightarrow> SubKeyListRiItem parser" where
  "parse_sub_key_list_ri_item N input =
     bindO (nom_le_u32 N input) (\<lambda>(input, offset).
     Ok (input, \<lparr>ri_sub_key_list_offset_relative = offset\<rparr>))"

definition SubKeyListRi_from_bytes :: "'z env_list_scheme \<Rightarrow> SubKeyListRi parser" where
  "SubKeyListRi_from_bytes N input =
     bindO (nom_le_i32 N input) (\<lambda>(input, sz).
     bindO (nom_tag N ''ri'' input) (\<lambda>(input, _).
     bindO (nom_le_u16 N input) (\<lambda>(input, cnt).
     bindO (nom_count_ri N (parse_sub_key_list_ri_item N) (unat cnt) input) (\<lambda>(input, list_offsets).
     Ok (input, \<lparr>ri_size = unsigned_abs sz, ri_count = cnt, ri_items = list_offsets\<rparr>)))))"

section \<open>The trait CellSubKeyList\<close>

text \<open>
  \<open>get_offset_list\<close> of \<open>li\<close>, \<open>lf\<close> and \<open>ri\<close> adds with \<open>+\<close>, that of \<open>lh\<close> with \<open>checked_add\<close>, dropping
  the items that overflow.
\<close>

definition SubKeyListLi_get_offset_list :: "bool \<Rightarrow> SubKeyListLi \<Rightarrow> u32 \<Rightarrow> u32 list result" where
  "SubKeyListLi_get_offset_list checks l hbin =
     mapO (\<lambda>x. add_w checks (li_named_key_offset_relative x) hbin) (li_items l)"

definition SubKeyListLf_get_offset_list :: "bool \<Rightarrow> SubKeyListLf \<Rightarrow> u32 \<Rightarrow> u32 list result" where
  "SubKeyListLf_get_offset_list checks l hbin =
     mapO (\<lambda>x. add_w checks (lf_named_key_offset_relative x) hbin) (lf_items l)"

definition SubKeyListLh_get_offset_list :: "bool \<Rightarrow> SubKeyListLh \<Rightarrow> u32 \<Rightarrow> u32 list result" where
  "SubKeyListLh_get_offset_list checks l hbin =
     Ok (List.map_filter (\<lambda>x. checked_add (lh_named_key_offset_relative x) hbin) (lh_items l))"

definition SubKeyListRi_get_offset_list :: "bool \<Rightarrow> SubKeyListRi \<Rightarrow> u32 \<Rightarrow> u32 list result" where
  "SubKeyListRi_get_offset_list checks l hbin =
     mapO (\<lambda>x. add_w checks (ri_sub_key_list_offset_relative x) hbin) (ri_items l)"

fun dyn_size :: "CellSubKeyList \<Rightarrow> u32" where
  "dyn_size (DynLi l) = li_size l"
| "dyn_size (DynLf l) = lf_size l"
| "dyn_size (DynLh l) = lh_size l"

fun dyn_get_offset_list :: "bool \<Rightarrow> CellSubKeyList \<Rightarrow> u32 \<Rightarrow> u32 list result" where
  "dyn_get_offset_list checks (DynLi l) hbin = SubKeyListLi_get_offset_list checks l hbin"
| "dyn_get_offset_list checks (DynLf l) hbin = SubKeyListLf_get_offset_list checks l hbin"
| "dyn_get_offset_list checks (DynLh l) hbin = SubKeyListLh_get_offset_list checks l hbin"

section \<open>Following the lists\<close>

text \<open>
  \<open>parse_offsets\<close> of an index root calls \<open>CellKeyNode::parse_sub_key_list\<close> for each of its items, and
  that calls \<open>parse_offsets\<close> again when it meets another index root.  The fuel bounds the depth of
  this recursion.  (The source hands a \<open>State\<close> through both, which neither reads nor changes.)
\<close>

primrec SubKeyListRi_parse_offsets_loop ::
  "(u32 \<Rightarrow> u32 list result) \<Rightarrow> SubKeyListRiItem list \<Rightarrow> u32 list \<Rightarrow> u32 list result" where
  "SubKeyListRi_parse_offsets_loop parse [] lst = Ok lst"
| "SubKeyListRi_parse_offsets_loop parse (item # items) lst =
     bindO (parse (ri_sub_key_list_offset_relative item)) (\<lambda>sub_list.
       SubKeyListRi_parse_offsets_loop parse items (lst @ sub_list))"

definition SubKeyListRi_parse_offsets ::
  "(u32 \<Rightarrow> u32 list result) \<Rightarrow> SubKeyListRi \<Rightarrow> u32 list result" where
  "SubKeyListRi_parse_offsets parse l = SubKeyListRi_parse_offsets_loop parse (ri_items l) []"

fun parse_sub_key_list :: "'z env_list_scheme \<Rightarrow> nat \<Rightarrow> FileInfo \<Rightarrow> u32 \<Rightarrow> u32 list result" where
  "parse_sub_key_list N 0 fi list_offset_relative = Diverge"
| "parse_sub_key_list N (Suc fuel) fi list_offset_relative =
     (let file_offset_absolute = unat list_offset_relative + hbin_offset_absolute fi in
      bindO (ok_or (Error_buffer ''parse_sub_key_list'') (get_from (buffer fi) file_offset_absolute))
        (\<lambda>sl.
        case SubKeyListRi_from_bytes N sl of
          Ok (_, sub_key_list_ri) \<Rightarrow>
            SubKeyListRi_parse_offsets (parse_sub_key_list N fuel fi) sub_key_list_ri
        | Err _ \<Rightarrow>
            bindO (from_nom (nom_alt_list N
                [SubKeyListLf_from_bytes N, SubKeyListLh_from_bytes N, SubKeyListLi_from_bytes N] sl))
              (\<lambda>(_, cell_sub_key_list).
                dyn_get_offset_list (overflow_checks N) cell_sub_key_list
                  (of_nat (hbin_offset_absolute fi)))
        | Panic \<Rightarrow> Panic
        | Diverge \<Rightarrow> Diverge))"

text \<open>The equality that the source defines on \<open>dyn CellSubKeyList\<close>.\<close>

definition dyn_eq :: "bool \<Rightarrow> CellSubKeyList \<Rightarrow> CellSubKeyList \<Rightarrow> bool result" where
  "dyn_eq checks a b =
     (if dyn_size a = dyn_size b then
        bindO (dyn_get_offset_list checks a 0) (\<lambda>x.
        bindO (dyn_get_offset_list checks b 0) (\<lambda>y. Ok (x = y)))
      else Ok False)"

section \<open>The contract of the trait\<close>

locale cell_sub_key_list =
  fixes rel_offsets :: "'l \<Rightarrow> u32 list"
    and get_offset_list :: "bool \<Rightarrow> 'l \<Rightarrow> u32 \<Rightarrow> u32 list result"
  assumes offsets_in_range:
    "(\<And>r. r \<in> set (rel_offsets l) \<Longrightarrow> unat r + unat h < 2 ^ 32) \<Longrightarrow>
       get_offset_list c l h = Ok (map (\<lambda>r. r + h) (rel_offsets l))"
    and offsets_no_error: "get_offset_list c l h \<noteq> Err e" "get_offset_list c l h \<noteq> Diverge"
begin

lemma offsets_at_zero: "get_offset_list c l 0 = Ok (rel_offsets l)"
proof -
  have "unat r + unat (0 :: u32) < 2 ^ 32" for r :: u32 using unat_less [of r] by simp
  then show ?thesis using offsets_in_range [of l 0 c] by simp
qed

end

lemma mapO_add_w_in_range:
  assumes "\<And>x. x \<in> set xs \<Longrightarrow> unat (f x) + unat h < 2 ^ 32"
  shows "mapO (\<lambda>x. add_w c (f x :: u32) h) xs = Ok (map (\<lambda>r. r + h) (map f xs))"
  using mapO_all_Ok [of xs "\<lambda>x. add_w c (f x) h" "\<lambda>x. f x + h"] assms by (simp add: comp_def)

lemma mapO_add_w_total:
  "mapO (\<lambda>x. add_w c (f x :: 'a::len word) h) xs \<noteq> Err e"
  "mapO (\<lambda>x. add_w c (f x :: 'a::len word) h) xs \<noteq> Diverge"
  by (induction xs) (auto simp: add_w_def bindO_eq_Diverge bindO_eq_Err split: if_splits)

lemma map_filter_checked_add:
  "(\<And>x. x \<in> set xs \<Longrightarrow> unat (f x) + unat h < 2 ^ LENGTH('a)) \<Longrightarrow>
    List.map_filter (\<lambda>x. checked_add (f x :: 'a::len word) h) xs = map (\<lambda>x. f x + h) xs"
  by (induction xs) (auto simp: checked_add_def)

interpretation li: cell_sub_key_list
  "\<lambda>l. map li_named_key_offset_relative (li_items l)" SubKeyListLi_get_offset_list
  by unfold_locales (simp_all add: SubKeyListLi_get_offset_list_def mapO_add_w_in_range mapO_add_w_total)

interpretation lf: cell_sub_key_list
  "\<lambda>l. map lf_named_key_offset_relative (lf_items l)" SubKeyListLf_get_offset_list
  by unfold_locales (simp_all add: SubKeyListLf_get_offset_list_def mapO_add_w_in_range mapO_add_w_total)

interpretation lh: cell_sub_key_list
  "\<lambda>l. map lh_named_key_offset_relative (lh_items l)" SubKeyListLh_get_offset_list
  by unfold_locales (simp_all add: SubKeyListLh_get_offset_list_def map_filter_checked_add)

interpretation ri: cell_sub_key_list
  "\<lambda>l. map ri_sub_key_list_offset_relative (ri_items l)" SubKeyListRi_get_offset_list
  by unfold_locales (simp_all add: SubKeyListRi_get_offset_list_def mapO_add_w_in_range mapO_add_w_total)

fun dyn_rel_offsets :: "CellSubKeyList \<Rightarrow> u32 list" where
  "dyn_rel_offsets (DynLi l) = map li_named_key_offset_relative (li_items l)"
| "dyn_rel_offsets (DynLf l) = map lf_named_key_offset_relative (lf_items l)"
| "dyn_rel_offsets (DynLh l) = map lh_named_key_offset_relative (lh_items l)"

interpretation dyn: cell_sub_key_list dyn_rel_offsets dyn_get_offset_list
proof unfold_locales
  fix l and h :: u32 and c
  assume "\<And>r. r \<in> set (dyn_rel_offsets l) \<Longrightarrow> unat r + unat h < 2 ^ 32"
  then show "dyn_get_offset_list c l h = Ok (map (\<lambda>r. r + h) (dyn_rel_offsets l))"
    by (cases l) (auto simp only: dyn_rel_offsets.simps dyn_get_offset_list.simps
        intro!: li.offsets_in_range lf.offsets_in_range lh.offsets_in_range)
next
  fix c l and h :: u32 and e
  show "dyn_get_offset_list c l h \<noteq> Err e" and "dyn_get_offset_list c l h \<noteq> Diverge"
    by (cases l; simp add: li.offsets_no_error lf.offsets_no_error lh.offsets_no_error)+
qed

lemma dyn_eq_correct:
  "dyn_eq c a b = Ok (dyn_size a = dyn_size b \<and> dyn_rel_offsets a = dyn_rel_offsets b)"
  by (simp add: dyn_eq_def dyn.offsets_at_zero)

section \<open>What a list in a file denotes\<close>

text \<open>
  A list cell: its size, the signature, the number of items and the items, each of \<open>w\<close> bytes and
  starting with an offset.
\<close>

definition list_count :: "bytes \<Rightarrow> nat" where
  "list_count s = unat (from_le_bytes (take 2 (drop 6 s)) :: u16)"

definition list_cell :: "string \<Rightarrow> nat \<Rightarrow> bytes \<Rightarrow> u32 list option" where
  "list_cell sig w s =
     (if 8 + w * list_count s \<le> length s \<and> take 2 (drop 4 s) = bytes_of sig
      then Some (map (\<lambda>k. from_le_bytes (take 4 (drop (8 + w * k) s))) [0..<list_count s])
      else None)"

definition leaf_cell :: "bytes \<Rightarrow> u32 list option" where
  "leaf_cell s =
     (case list_cell ''lf'' 8 s of Some r \<Rightarrow> Some r
      | None \<Rightarrow> case list_cell ''lh'' 8 s of Some r \<Rightarrow> Some r
      | None \<Rightarrow> list_cell ''li'' 4 s)"

definition cell_at :: "FileInfo \<Rightarrow> u32 \<Rightarrow> bytes option" where
  "cell_at fi rel = get_from (buffer fi) (unat rel + hbin_offset_absolute fi)"

inductive sub_keys :: "FileInfo \<Rightarrow> u32 \<Rightarrow> u32 list \<Rightarrow> bool" for fi where
  leaf: "cell_at fi rel = Some s \<Longrightarrow> list_cell ''ri'' 4 s = None \<Longrightarrow> leaf_cell s = Some rels \<Longrightarrow>
    sub_keys fi rel rels"
| root: "cell_at fi rel = Some s \<Longrightarrow> list_cell ''ri'' 4 s = Some subs \<Longrightarrow>
    list_all2 (sub_keys fi) subs rss \<Longrightarrow> sub_keys fi rel (concat rss)"

inductive_cases sub_keysE: "sub_keys fi rel rels"

definition list_chain ::
  "'z env_list_scheme \<Rightarrow> string \<Rightarrow> (nat \<Rightarrow> 'i list parser) \<Rightarrow> (i32 \<Rightarrow> u16 \<Rightarrow> 'i list \<Rightarrow> 'l) \<Rightarrow> 'l parser" where
  "list_chain N sig cnt_p mk input =
     bindO (nom_le_i32 N input) (\<lambda>(input, sz).
     bindO (nom_tag N sig input) (\<lambda>(input, _).
     bindO (nom_le_u16 N input) (\<lambda>(input, cnt).
     bindO (cnt_p (unat cnt) input) (\<lambda>(input, items). Ok (input, mk sz cnt items)))))"

locale nom_list_spec = nom_cell_spec N for N :: "'z env_list_scheme" +
  assumes count_li [nom_simps]: "nom_count_li N p1 n i = count_doc p1 n i"
    and count_lf [nom_simps]: "nom_count_lf N p2 n i = count_doc p2 n i"
    and count_lh [nom_simps]: "nom_count_lh N p3 n i = count_doc p3 n i"
    and count_ri [nom_simps]: "nom_count_ri N p4 n i = count_doc p4 n i"
    and alt_list [nom_simps]: "nom_alt_list N ps i = alt_doc ps i"
begin

lemma list_chain_spec:
  assumes "length sig = 2" and "fixed_width w p dec" and "\<And>n i. cnt_p n i = count_doc p n i"
  shows "case list_cell sig w i of
      Some rels \<Rightarrow> \<exists>sz cnt. list_chain N sig cnt_p mk i =
        Ok (drop (8 + w * list_count i) i,
            mk sz cnt (map (\<lambda>k. dec (take w (drop (8 + w * k) i))) [0..<list_count i]))
    | None \<Rightarrow> \<exists>j k. list_chain N sig cnt_p mk i = Err (NomError j k)"
proof (cases "8 \<le> length i \<and> take 2 (drop 4 i) = bytes_of sig")
  case True
  then have "8 \<le> length i" and "take 2 (drop 4 i) = bytes_of sig" by simp_all
  then have c: "list_chain N sig cnt_p mk i =
      bindO (count_doc p (list_count i) (drop 8 i))
        (\<lambda>(i', items). Ok (i', mk (from_le_bytes (take 4 i)) (from_le_bytes (take 2 (drop 6 i))) items))"
    using assms(1,3)
    by (simp add: list_chain_def nom_simps doc_Ok list_count_def cong: bindO_weak_cong)
  show ?thesis
  proof (cases "8 + w * list_count i \<le> length i")
    case enough: True
    then have "w * list_count i \<le> length (drop 8 i)" by simp
    from count_doc_fixed_Ok [OF assms(2) this] enough True show ?thesis
      by (simp add: c list_cell_def add.commute) blast
  next
    case False
    then have "length (drop 8 i) < w * list_count i" using \<open>8 \<le> length i\<close> by simp
    from count_doc_fixed_Err [OF assms(2) this] False show ?thesis
      by (auto simp: c list_cell_def)
  qed
next
  case False
  then have "list_cell sig w i = None" by (auto simp: list_cell_def)
  moreover have "\<exists>j k. list_chain N sig cnt_p mk i = Err (NomError j k)"
    using False assms(1)
    by (auto simp: list_chain_def nom_simps le_doc_def tag_doc_def)
  ultimately show ?thesis by simp
qed

lemma list_chain_offsets:
  assumes "length sig = 2" and "fixed_width w p dec" and "\<And>n i. cnt_p n i = count_doc p n i"
    and "4 \<le> w" and "\<And>b. off (dec b) = from_le_bytes (take 4 b)"
    and "\<And>sz cnt items. rels_of (mk sz cnt items) = map off items"
  shows "case list_cell sig w i of
      Some rels \<Rightarrow> \<exists>rest l. list_chain N sig cnt_p mk i = Ok (rest, l) \<and> rels_of l = rels
    | None \<Rightarrow> \<exists>j k. list_chain N sig cnt_p mk i = Err (NomError j k)"
  using list_chain_spec [where mk = mk and i = i, OF assms(1-3)] assms(4-6)
  by (auto simp: list_cell_def min_def split: option.splits if_splits)

lemma fixed_width_items:
  "fixed_width 4 (SubKeyListLiItem_from_bytes N) (\<lambda>b. \<lparr>li_named_key_offset_relative = from_le_bytes (take 4 b)\<rparr>)"
  "fixed_width 4 (parse_sub_key_list_ri_item N) (\<lambda>b. \<lparr>ri_sub_key_list_offset_relative = from_le_bytes (take 4 b)\<rparr>)"
  "fixed_width 8 (SubKeyListLhItem_from_bytes N)
     (\<lambda>b. \<lparr>lh_named_key_offset_relative = from_le_bytes (take 4 b), lh_name_hash = from_le_bytes (take 4 (drop 4 b))\<rparr>)"
  "fixed_width 8 (SubKeyListLfItem_from_bytes N)
     (\<lambda>b. let (hint, logs) = from_ascii (take 4 (drop 4 b)) Logs_default ''SubKeyListLfItem::key_name''
          in \<lparr>lf_named_key_offset_relative = from_le_bytes (take 4 b), lf_name_hint = hint, lf_logs = logs\<rparr>)"
  by (auto simp: fixed_width_def SubKeyListLiItem_from_bytes_def parse_sub_key_list_ri_item_def
      SubKeyListLhItem_from_bytes_def SubKeyListLfItem_from_bytes_def nom_simps le_doc_def take_doc_def
      Let_def take_drop min_def split: prod.splits)

lemma parsers_as_chains:
  "SubKeyListRi_from_bytes N = list_chain N ''ri'' (nom_count_ri N (parse_sub_key_list_ri_item N))
     (\<lambda>sz cnt items. \<lparr>ri_size = unsigned_abs sz, ri_count = cnt, ri_items = items\<rparr>)"
  "SubKeyListLi_from_bytes N = list_chain N ''li'' (nom_count_li N (SubKeyListLiItem_from_bytes N))
     (\<lambda>sz cnt items. DynLi \<lparr>li_size = unsigned_abs sz, li_count = cnt, li_items = items\<rparr>)"
  "SubKeyListLf_from_bytes N = list_chain N ''lf'' (nom_count_lf N (SubKeyListLfItem_from_bytes N))
     (\<lambda>sz cnt items. DynLf \<lparr>lf_size = unsigned_abs sz, lf_count = cnt, lf_items = items\<rparr>)"
  "SubKeyListLh_from_bytes N = list_chain N ''lh'' (nom_count_lh N (SubKeyListLhItem_from_bytes N))
     (\<lambda>sz cnt items. DynLh \<lparr>lh_size = unsigned_abs sz, lh_count = cnt, lh_items = items\<rparr>)"
  by (auto simp: fun_eq_iff list_chain_def SubKeyListRi_from_bytes_def SubKeyListLi_from_bytes_def
      SubKeyListLi_from_bytes_internal_def SubKeyListLf_from_bytes_def SubKeyListLf_from_bytes_internal_def
      SubKeyListLh_from_bytes_def SubKeyListLh_from_bytes_internal_def bindO_assoc case_prod_unfold)

lemma ri_parse:
  "case list_cell ''ri'' 4 i of
     Some rels \<Rightarrow> \<exists>rest l. SubKeyListRi_from_bytes N i = Ok (rest, l) \<and>
       map ri_sub_key_list_offset_relative (ri_items l) = rels
   | None \<Rightarrow> \<exists>j k. SubKeyListRi_from_bytes N i = Err (NomError j k)"
  unfolding parsers_as_chains
  by (rule list_chain_offsets [where off = ri_sub_key_list_offset_relative and rels_of = "\<lambda>l. map ri_sub_key_list_offset_relative (ri_items l)",
        OF _ fixed_width_items(2) count_ri]) (simp_all)

lemma li_parse:
  "case list_cell ''li'' 4 i of
     Some rels \<Rightarrow> \<exists>rest l. SubKeyListLi_from_bytes N i = Ok (rest, l) \<and> dyn_rel_offsets l = rels
   | None \<Rightarrow> \<exists>j k. SubKeyListLi_from_bytes N i = Err (NomError j k)"
  unfolding parsers_as_chains
  by (rule list_chain_offsets [where off = li_named_key_offset_relative and rels_of = "dyn_rel_offsets",
        OF _ fixed_width_items(1) count_li]) (simp_all)

lemma lh_parse:
  "case list_cell ''lh'' 8 i of
     Some rels \<Rightarrow> \<exists>rest l. SubKeyListLh_from_bytes N i = Ok (rest, l) \<and> dyn_rel_offsets l = rels
   | None \<Rightarrow> \<exists>j k. SubKeyListLh_from_bytes N i = Err (NomError j k)"
  unfolding parsers_as_chains
  by (rule list_chain_offsets [where off = lh_named_key_offset_relative and rels_of = "dyn_rel_offsets",
        OF _ fixed_width_items(3) count_lh]) (simp_all)

lemma lf_parse:
  "case list_cell ''lf'' 8 i of
     Some rels \<Rightarrow> \<exists>rest l. SubKeyListLf_from_bytes N i = Ok (rest, l) \<and> dyn_rel_offsets l = rels
   | None \<Rightarrow> \<exists>j k. SubKeyListLf_from_bytes N i = Err (NomError j k)"
  unfolding parsers_as_chains
  by (rule list_chain_offsets [where off = lf_named_key_offset_relative and rels_of = "dyn_rel_offsets",
        OF _ fixed_width_items(4) count_lf]) (simp_all add: Let_def split: prod.splits)

lemma leaf_parse:
  "case leaf_cell i of
     Some rels \<Rightarrow> \<exists>rest l. nom_alt_list N
        [SubKeyListLf_from_bytes N, SubKeyListLh_from_bytes N, SubKeyListLi_from_bytes N] i = Ok (rest, l)
        \<and> dyn_rel_offsets l = rels
   | None \<Rightarrow> \<exists>e. nom_alt_list N
        [SubKeyListLf_from_bytes N, SubKeyListLh_from_bytes N, SubKeyListLi_from_bytes N] i = Err e"
  using lf_parse [of i] lh_parse [of i] li_parse [of i]
  by (auto simp: leaf_cell_def alt_list split: option.splits)

lemma parse_list_root:
  assumes "cell_at fi rel = Some s" and "list_cell ''ri'' 4 s = Some subs"
  shows "\<exists>l. parse_sub_key_list N (Suc f) fi rel =
      SubKeyListRi_parse_offsets (parse_sub_key_list N f fi) l \<and>
    map ri_sub_key_list_offset_relative (ri_items l) = subs"
  using assms ri_parse [of s] by (auto simp: cell_at_def)

lemma parse_list_leaf:
  assumes "cell_at fi rel = Some s" and "list_cell ''ri'' 4 s = None" and "leaf_cell s = Some rels"
  shows "\<exists>l. parse_sub_key_list N (Suc f) fi rel =
      dyn_get_offset_list (overflow_checks N) l (of_nat (hbin_offset_absolute fi)) \<and>
    dyn_rel_offsets l = rels"
  using assms ri_parse [of s] leaf_parse [of s] by (auto simp: cell_at_def)

lemma parse_list_none:
  assumes "cell_at fi rel = None \<or>
    (\<exists>s. cell_at fi rel = Some s \<and> list_cell ''ri'' 4 s = None \<and> leaf_cell s = None)"
  shows "\<exists>e. parse_sub_key_list N (Suc f) fi rel = Err e"
proof (cases "cell_at fi rel")
  case None
  then show ?thesis by (simp add: cell_at_def)
next
  case (Some s)
  with assms show ?thesis
    using ri_parse [of s] leaf_parse [of s] by (auto simp: cell_at_def)
qed

end

text \<open>The loop over the items of an index root appends the lists it gets.\<close>

lemma parse_offsets_loop_eq_Ok:
  "SubKeyListRi_parse_offsets_loop P items lst = Ok r \<longleftrightarrow>
     (\<exists>subs. list_all2 (\<lambda>x y. P x = Ok y) (map ri_sub_key_list_offset_relative items) subs \<and>
       r = lst @ concat subs)"
proof (induction items arbitrary: lst)
  case Nil
  then show ?case by auto
next
  case (Cons item items)
  show ?case
    by (auto simp: bindO_eq_Ok Cons.IH list_all2_Cons1) force
qed

lemma parse_offsets_eq_Ok:
  "SubKeyListRi_parse_offsets P l = Ok r \<longleftrightarrow>
     (\<exists>subs. list_all2 (\<lambda>x y. P x = Ok y) (map ri_sub_key_list_offset_relative (ri_items l)) subs \<and>
       r = concat subs)"
  by (simp add: SubKeyListRi_parse_offsets_def parse_offsets_loop_eq_Ok)

lemma parse_sub_key_list_mono:
  "parse_sub_key_list N f fi rel = Ok r \<Longrightarrow> f \<le> g \<Longrightarrow> parse_sub_key_list N g fi rel = Ok r"
proof (induction f arbitrary: g rel r)
  case 0
  then show ?case by simp
next
  case (Suc f)
  from Suc.prems(2) obtain h where g: "g = Suc h" and h: "f \<le> h" by (cases g) auto
  have "list_all2 (\<lambda>x y. parse_sub_key_list N h fi x = Ok y) xs ys"
    if "list_all2 (\<lambda>x y. parse_sub_key_list N f fi x = Ok y) xs ys" for xs ys
    using that by (rule list_all2_mono) (rule Suc.IH [OF _ h])
  then have mono: "SubKeyListRi_parse_offsets (parse_sub_key_list N h fi) l = Ok r"
    if "SubKeyListRi_parse_offsets (parse_sub_key_list N f fi) l = Ok r" for l
    using that by (auto simp: parse_offsets_eq_Ok)
  show ?case
  proof (cases "get_from (buffer fi) (unat rel + hbin_offset_absolute fi)")
    case None
    with Suc.prems(1) show ?thesis by simp
  next
    case (Some sl)
    with Suc.prems(1) show ?thesis
      by (cases "SubKeyListRi_from_bytes N sl") (auto simp: g mono)
  qed
qed

lemma common_fuel:
  assumes "list_all2 (\<lambda>x y. \<exists>f. parse_sub_key_list N f fi x = Ok y) xs ys"
  shows "\<exists>f. list_all2 (\<lambda>x y. parse_sub_key_list N f fi x = Ok y) xs ys"
  using assms
proof (induction rule: list_all2_induct)
  case Nil
  then show ?case by simp
next
  case (Cons x xs y ys)
  then obtain f g where f: "parse_sub_key_list N f fi x = Ok y"
    and g: "list_all2 (\<lambda>x y. parse_sub_key_list N g fi x = Ok y) xs ys" by blast
  have "list_all2 (\<lambda>x y. parse_sub_key_list N (max f g) fi x = Ok y) xs ys"
    using g by (rule list_all2_mono) (rule parse_sub_key_list_mono, assumption, simp)
  with parse_sub_key_list_mono [OF f, of "max f g"] show ?case by auto
qed

definition offsets_fit :: "FileInfo \<Rightarrow> u32 list \<Rightarrow> bool" where
  "offsets_fit fi rels \<longleftrightarrow> (\<forall>r \<in> set rels. unat r + hbin_offset_absolute fi < 2 ^ 32)"

definition absolute :: "FileInfo \<Rightarrow> u32 list \<Rightarrow> u32 list" where
  "absolute fi rels = map (\<lambda>r. r + of_nat (hbin_offset_absolute fi)) rels"

context nom_list_spec
begin

lemma parse_complete:
  assumes "hbin_offset_absolute fi < 2 ^ 32" and "sub_keys fi rel rels" and "offsets_fit fi rels"
  shows "\<exists>f. parse_sub_key_list N f fi rel = Ok (absolute fi rels)"
  using assms(2,3)
proof (induction rule: sub_keys.induct)
  case (leaf rel s rels)
  obtain l where p: "parse_sub_key_list N (Suc 0) fi rel =
      dyn_get_offset_list (overflow_checks N) l (of_nat (hbin_offset_absolute fi))"
    and l: "dyn_rel_offsets l = rels"
    using parse_list_leaf [OF leaf.hyps, of 0] by blast
  have "unat r + unat (of_nat (hbin_offset_absolute fi) :: u32) < 2 ^ 32" if "r \<in> set rels" for r
    using leaf.prems assms(1) that by (simp add: offsets_fit_def unat_of_nat)
  then show ?case
    using p dyn.offsets_in_range [of l] l by (metis absolute_def)
next
  case (root rel s subs rss)
  have "offsets_fit fi rs" if "rs \<in> set rss" for rs
    using root.prems that by (auto simp: offsets_fit_def)
  then have "list_all2 (\<lambda>x y. \<exists>f. parse_sub_key_list N f fi x = Ok y) subs (map (absolute fi) rss)"
    using root.IH by (auto simp: list_all2_conv_all_nth)
  then obtain f where "list_all2 (\<lambda>x y. parse_sub_key_list N f fi x = Ok y) subs (map (absolute fi) rss)"
    using common_fuel by blast
  moreover obtain l where "parse_sub_key_list N (Suc f) fi rel =
      SubKeyListRi_parse_offsets (parse_sub_key_list N f fi) l"
    and "map ri_sub_key_list_offset_relative (ri_items l) = subs"
    using parse_list_root [OF root.hyps(1,2)] by blast
  moreover have "concat (map (absolute fi) rss) = absolute fi (concat rss)"
    by (simp add: absolute_def [abs_def] map_concat)
  ultimately show ?case
    by (metis parse_offsets_eq_Ok)
qed

lemma parse_sound:
  "parse_sub_key_list N f fi rel = Ok offs \<Longrightarrow> \<exists>rels. sub_keys fi rel rels"
proof (induction f arbitrary: rel offs)
  case 0
  then show ?case by simp
next
  case (Suc f)
  obtain s where s: "cell_at fi rel = Some s"
    using parse_list_none [of fi rel f] Suc.prems by (cases "cell_at fi rel") auto
  show ?case
  proof (cases "list_cell ''ri'' 4 s")
    case None
    then obtain rels where "leaf_cell s = Some rels"
      using parse_list_none [of fi rel f] Suc.prems s by (cases "leaf_cell s") auto
    with s None show ?thesis using sub_keys.leaf by blast
  next
    case (Some subs)
    then obtain ys where "list_all2 (\<lambda>x y. parse_sub_key_list N f fi x = Ok y) subs ys"
      using parse_list_root [OF s Some, of f] Suc.prems by (metis parse_offsets_eq_Ok)
    then have "list_all2 (\<lambda>x _. \<exists>rels. sub_keys fi x rels) subs ys"
      by (rule list_all2_mono) (rule Suc.IH)
    then have "\<exists>rss. list_all2 (sub_keys fi) subs rss"
      by (induction rule: list_all2_induct) (auto intro: list_all2_Cons [THEN iffD2])
    with s Some show ?thesis using sub_keys.root by blast
  qed
qed

end

section \<open>Properties\<close>

text \<open>
  C21: \<open>parse_sub_key_list\<close> computes what the lists in the file denote.  When a list denotes the
  relative offsets \<open>rels\<close> and none of them leaves the 32 bits, some depth of recursion is enough,
  and from there on the result is those offsets, made absolute, in order; and it has a result only
  where the lists denote something.
\<close>

theorem parse_sub_key_list_correct:
  assumes "nom_list_spec N" and "hbin_offset_absolute fi < 2 ^ 32"
  shows "(\<forall>rels. sub_keys fi rel rels \<and> offsets_fit fi rels \<longrightarrow>
      (\<exists>d. \<forall>fuel \<ge> d. parse_sub_key_list N fuel fi rel = Ok (absolute fi rels))) \<and>
    (\<forall>fuel offs. parse_sub_key_list N fuel fi rel = Ok offs \<longrightarrow> (\<exists>rels. sub_keys fi rel rels))"
proof (intro conjI allI impI)
  fix rels
  assume "sub_keys fi rel rels \<and> offsets_fit fi rels"
  then obtain d where "parse_sub_key_list N d fi rel = Ok (absolute fi rels)"
    using nom_list_spec.parse_complete [OF assms] by blast
  then show "\<exists>d. \<forall>fuel \<ge> d. parse_sub_key_list N fuel fi rel = Ok (absolute fi rels)"
    using parse_sub_key_list_mono by blast
next
  fix fuel offs
  assume "parse_sub_key_list N fuel fi rel = Ok offs"
  then show "\<exists>rels. sub_keys fi rel rels"
    by (rule nom_list_spec.parse_sound [OF assms(1)])
qed

text \<open>
  An index root whose first item is the offset of that same index root sends
  \<open>parse_sub_key_list\<close> into a recursion that never ends: no depth gives a result.
\<close>

theorem self_referential_ri_never_returns:
  assumes "nom_list_spec N" and "cell_at fi rel = Some s"
    and "list_cell ''ri'' 4 s = Some (rel # others)"
  shows "parse_sub_key_list N fuel fi rel = Diverge"
proof (induction fuel)
  case 0
  then show ?case by simp
next
  case (Suc fuel)
  obtain l where p: "parse_sub_key_list N (Suc fuel) fi rel =
      SubKeyListRi_parse_offsets (parse_sub_key_list N fuel fi) l"
    and l: "map ri_sub_key_list_offset_relative (ri_items l) = rel # others"
    using nom_list_spec.parse_list_root [OF assms(1-3), of fuel] by (elim exE conjE) (rule that)
  obtain x xs where "ri_items l = x # xs" and "ri_sub_key_list_offset_relative x = rel"
    using l by (cases "ri_items l") auto
  with Suc show ?case
    unfolding p by (simp add: SubKeyListRi_parse_offsets_def)
qed

section \<open>Witnesses\<close>

definition env_list_ref :: env_list where
  "env_list_ref = env_cell.extend env_cell_ref
     \<lparr>nom_count_li = count_doc, nom_count_lf = count_doc, nom_count_lh = count_doc,
      nom_count_ri = count_doc, nom_alt_list = alt_doc\<rparr>"

interpretation ref_nom_list: nom_list_spec env_list_ref
  by unfold_locales
    (simp_all add: env_list_ref_def env_cell_ref_def env_ref_def env.defs env_cell.defs)

text \<open>An index root at 0 that leads to the leaf \<open>li\<close> at 12, and one that leads to itself.\<close>

definition li_leaf :: bytes where
  "li_leaf = [0xF4, 0xFF, 0xFF, 0xFF, 0x6C, 0x69, 1, 0, 0x20, 1, 0, 0]"

definition ri_root :: "u8 \<Rightarrow> bytes" where
  "ri_root offset = [0xF4, 0xFF, 0xFF, 0xFF, 0x72, 0x69, 1, 0, offset, 0, 0, 0]"

definition ri_file :: FileInfo where
  "ri_file = \<lparr>hbin_offset_absolute = 0, buffer = ri_root 12 @ li_leaf\<rparr>"

definition ri_loop_file :: FileInfo where
  "ri_loop_file = \<lparr>hbin_offset_absolute = 0, buffer = ri_root 0\<rparr>"

lemma li_leaf_cell:
  "list_cell ''ri'' 4 li_leaf = None" "leaf_cell li_leaf = Some [0x120]"
proof -
  have c: "list_count li_leaf = 1" "take 2 (drop 4 li_leaf) = [0x6C, 0x69]" "length li_leaf = 12"
    "drop 8 li_leaf = [0x20, 1, 0, 0]"
    by (simp_all add: list_count_def li_leaf_def from_le_bytes_def)
  show "list_cell ''ri'' 4 li_leaf = None" "leaf_cell li_leaf = Some [0x120]"
    by (simp_all add: list_cell_def leaf_cell_def c bytes_of_def byte_of_char_def of_char_def
        from_le_bytes_def)
qed

lemma ri_root_cell:
  "list_cell ''ri'' 4 (ri_root b @ rest) = Some [ucast b]"
proof -
  define s where "s = ri_root b @ rest"
  have c: "list_count s = 1" "take 2 (drop 4 s) = [0x72, 0x69]"
    "length s = 12 + length rest" "take 4 (drop 8 s) = [b, 0, 0, 0]"
    by (simp_all add: s_def list_count_def ri_root_def from_le_bytes_def)
  have "list_cell ''ri'' 4 s = Some [ucast b]"
    by (simp add: list_cell_def c bytes_of_def byte_of_char_def of_char_def from_le_bytes_def)
  then show ?thesis by (simp add: s_def)
qed

lemma ri_file_sub_keys: "sub_keys ri_file 0 [0x120]"
proof -
  have c: "cell_at ri_file 12 = Some li_leaf" "cell_at ri_file 0 = Some (ri_root 12 @ li_leaf)"
    by (simp_all add: cell_at_def ri_file_def get_from_def ri_root_def)
  have "sub_keys ri_file 12 [0x120]"
    by (rule sub_keys.leaf [OF c(1) li_leaf_cell])
  then have "sub_keys ri_file 0 (concat [[0x120]])"
    by (intro sub_keys.root [OF c(2) ri_root_cell]) simp
  then show ?thesis by simp
qed

theorem parse_sub_key_list_correct_witness:
  "\<exists>d. \<forall>fuel \<ge> d. parse_sub_key_list env_list_ref fuel ri_file 0 = Ok [0x120]"
proof -
  have h: "hbin_offset_absolute ri_file < 2 ^ 32" and o: "offsets_fit ri_file [0x120]"
    and a: "absolute ri_file [0x120] = [0x120]"
    by (simp_all add: ri_file_def offsets_fit_def absolute_def)
  have "\<exists>d. \<forall>fuel \<ge> d. parse_sub_key_list env_list_ref fuel ri_file 0 = Ok (absolute ri_file [0x120])"
    using parse_sub_key_list_correct [OF ref_nom_list.nom_list_spec_axioms h, of 0] ri_file_sub_keys o
    by blast
  then show ?thesis unfolding a .
qed

theorem self_referential_ri_never_returns_witness:
  "parse_sub_key_list env_list_ref 1000 ri_loop_file 0 = Diverge"
proof -
  have c: "cell_at ri_loop_file 0 = Some (ri_root 0)"
    by (simp add: cell_at_def ri_loop_file_def get_from_def)
  have l: "list_cell ''ri'' 4 (ri_root 0) = Some [0]"
    using ri_root_cell [of 0 "[]"] by simp
  show ?thesis
    by (rule self_referential_ri_never_returns [OF ref_nom_list.nom_list_spec_axioms c l])
qed

end
