(* ===== verification/Key_Security.thy ===== *)
theory Key_Security
  imports Hive_File
begin

text \<open>
  The security cells \<open>sk\<close> (\<open>src/src/cell_key_security.rs\<close>).  They form a ring that is followed from the
  cell a key names until the forward link is back at its start.
\<close>

record CellKeySecurityDetail =
  sk_size :: u32
  sk_unknown1 :: u16
  sk_flink :: u32
  sk_blink :: u32
  sk_reference_count :: u32
  sk_security_descriptor_size :: u32

record CellKeySecurity =
  sk_detail :: CellKeySecurityDetail
  sk_security_descriptor :: bytes
  sk_logs :: Logs

definition CellKeySecurity_from_bytes :: "'z env_scheme \<Rightarrow> CellKeySecurity parser" where
  "CellKeySecurity_from_bytes N input =
     bindO (nom_le_i32 N input) (\<lambda>(input, sz).
     bindO (nom_tag N ''sk'' input) (\<lambda>(input, _).
     bindO (nom_le_u16 N input) (\<lambda>(input, unknown1).
     bindO (nom_le_u32 N input) (\<lambda>(input, flink).
     bindO (nom_le_u32 N input) (\<lambda>(input, blink).
     bindO (nom_le_u32 N input) (\<lambda>(input, reference_count).
     bindO (nom_le_u32 N input) (\<lambda>(input, descriptor_size).
     bindO (nom_take N (unat descriptor_size) input) (\<lambda>(input, descriptor).
     Ok (input,
         \<lparr>sk_detail = \<lparr>sk_size = unsigned_abs sz, sk_unknown1 = unknown1, sk_flink = flink,
            sk_blink = blink, sk_reference_count = reference_count,
            sk_security_descriptor_size = descriptor_size\<rparr>,
          sk_security_descriptor = descriptor,
          sk_logs = Logs_default\<rparr>)))))))))"

text \<open>One round of the loop: the forward link and the descriptor of the cell at an offset.\<close>

definition security_round ::
  "'z env_scheme \<Rightarrow> bytes \<Rightarrow> usize \<Rightarrow> u32 \<Rightarrow> (u32 \<times> SecurityDescriptor) result" where
  "security_round N buf hbin offset =
     bindO (ok_or (Error_buffer ''read_cell_key_security'') (get_from buf (unat offset + hbin))) (\<lambda>sl.
     bindO (from_nom (CellKeySecurity_from_bytes N sl)) (\<lambda>(_, cell_key_security).
     case security_descriptor_from_stream N (sk_security_descriptor cell_key_security) of
       Inl e \<Rightarrow> Err (Error_from_winstructs e)
     | Inr descriptor \<Rightarrow> Ok (sk_flink (sk_detail cell_key_security), descriptor)))"

text \<open>The loop, with fuel for its rounds.\<close>

primrec security_loop ::
  "'z env_scheme \<Rightarrow> nat \<Rightarrow> bytes \<Rightarrow> u32 \<Rightarrow> usize \<Rightarrow> u32 \<Rightarrow> SecurityDescriptor list \<Rightarrow>
     SecurityDescriptor list result" where
  "security_loop N 0 buf security_key_offset hbin offset acc = Diverge"
| "security_loop N (Suc fuel) buf security_key_offset hbin offset acc =
     bindO (security_round N buf hbin offset) (\<lambda>(flink, descriptor).
       if flink = security_key_offset then Ok (acc @ [descriptor])
       else security_loop N fuel buf security_key_offset hbin flink (acc @ [descriptor]))"

definition read_cell_key_security ::
  "'z env_scheme \<Rightarrow> nat \<Rightarrow> bytes \<Rightarrow> u32 \<Rightarrow> usize \<Rightarrow> SecurityDescriptor list result" where
  "read_cell_key_security N fuel buf security_key_offset hbin =
     security_loop N fuel buf security_key_offset hbin security_key_offset []"

section \<open>The ring\<close>

text \<open>
  The ring as the bytes give it, with no use of the reader.  A security cell has its signature at byte 4,
  its forward link at byte 8, the size of its descriptor at byte 20 and the descriptor from byte 24 on.
\<close>

definition sk_cell :: "bytes \<Rightarrow> nat \<Rightarrow> (u32 \<times> bytes) option" where
  "sk_cell buf pos =
     (let n = unat (from_le_bytes (take 4 (drop (pos + 20) buf)) :: u32) in
      if pos + 24 + n \<le> length buf \<and> take 2 (drop (pos + 4) buf) = bytes_of ''sk''
      then Some (from_le_bytes (take 4 (drop (pos + 8) buf)), take n (drop (pos + 24) buf)) else None)"

text \<open>A cell that can be read: the descriptor is one the descriptor parser accepts.\<close>

definition sk_readable :: "'z env_scheme \<Rightarrow> bytes \<Rightarrow> nat \<Rightarrow> u32 \<Rightarrow> (u32 \<times> SecurityDescriptor) option" where
  "sk_readable N buf hbin offset =
     (case sk_cell buf (unat offset + hbin) of
        Some (flink, b) \<Rightarrow> (case security_descriptor_from_stream N b of Inr d \<Rightarrow> Some (flink, d) | Inl _ \<Rightarrow> None)
      | None \<Rightarrow> None)"

text \<open>The cells on the way from \<open>a\<close> to \<open>b\<close> along the forward links, each with its descriptor.\<close>

primrec sk_path :: "(u32 \<Rightarrow> (u32 \<times> SecurityDescriptor) option) \<Rightarrow> u32 \<Rightarrow> (u32 \<times> SecurityDescriptor) list \<Rightarrow> u32 \<Rightarrow> bool" where
  "sk_path nxt a [] b \<longleftrightarrow> a = b"
| "sk_path nxt a (x # xs) b \<longleftrightarrow> fst x = a \<and> (\<exists>flink. nxt a = Some (flink, snd x) \<and> sk_path nxt flink xs b)"

section \<open>The reader on the ring\<close>

lemma sk_parse:
  assumes "nom_spec N" and "n = unat (from_le_bytes (take 4 (drop 20 sl)) :: u32)"
  shows "24 + n \<le> length sl \<and> take 2 (drop 4 sl) = bytes_of ''sk'' \<Longrightarrow>
      \<exists>rest c. CellKeySecurity_from_bytes N sl = Ok (rest, c) \<and> sk_flink (sk_detail c) = from_le_bytes (take 4 (drop 8 sl)) \<and>
        sk_security_descriptor c = take n (drop 24 sl)"
    and "\<not> (24 + n \<le> length sl \<and> take 2 (drop 4 sl) = bytes_of ''sk'') \<Longrightarrow> \<exists>e. CellKeySecurity_from_bytes N sl = Err e"
proof -
  note nom = nom_spec.le_i32 [OF assms(1)] nom_spec.tag [OF assms(1)] nom_spec.le_u16 [OF assms(1)]
    nom_spec.le_u32 [OF assms(1)] nom_spec.take [OF assms(1)]
  assume "24 + n \<le> length sl \<and> take 2 (drop 4 sl) = bytes_of ''sk''"
  then have "24 + n \<le> length sl" "24 \<le> length sl" "take 2 (drop 4 sl) = bytes_of ''sk''" by simp_all
  then show "\<exists>rest c. CellKeySecurity_from_bytes N sl = Ok (rest, c) \<and> sk_flink (sk_detail c) = from_le_bytes (take 4 (drop 8 sl)) \<and>
        sk_security_descriptor c = take n (drop 24 sl)"
    by (simp add: CellKeySecurity_from_bytes_def nom doc_Ok lit_len assms(2) cong: bindO_weak_cong)
next
  note nom = nom_spec.le_i32 [OF assms(1)] nom_spec.tag [OF assms(1)] nom_spec.le_u16 [OF assms(1)]
    nom_spec.le_u32 [OF assms(1)] nom_spec.take [OF assms(1)]
  assume bad: "\<not> (24 + n \<le> length sl \<and> take 2 (drop 4 sl) = bytes_of ''sk'')"
  have "CellKeySecurity_from_bytes N sl \<noteq> Ok x" for x
  proof
    assume "CellKeySecurity_from_bytes N sl = Ok x"
    then have "24 + n \<le> length sl \<and> take 2 (drop 4 sl) = bytes_of ''sk''"
      unfolding CellKeySecurity_from_bytes_def nom
      by (auto simp: bindO_eq_Ok le_doc_eq_Ok tag_doc_eq_Ok take_doc_eq_Ok assms(2) lit_len)
    with bad show False ..
  qed
  moreover have "CellKeySecurity_from_bytes N sl \<noteq> Panic" "CellKeySecurity_from_bytes N sl \<noteq> Diverge"
    unfolding CellKeySecurity_from_bytes_def nom by (auto simp: bindO_eq_Panic bindO_eq_Diverge)
  ultimately show "\<exists>e. CellKeySecurity_from_bytes N sl = Err e" by (cases "CellKeySecurity_from_bytes N sl") auto
qed

lemma security_round_cell:
  assumes "nom_spec N"
  shows "case sk_readable N buf hbin offset of
      Some r \<Rightarrow> security_round N buf hbin offset = Ok r
    | None \<Rightarrow> \<exists>e. security_round N buf hbin offset = Err e"
proof (cases "unat offset + hbin \<le> length buf")
  case False
  then show ?thesis by (simp add: sk_readable_def sk_cell_def Let_def security_round_def get_from_def)
next
  case True
  define sl n where s: "sl = drop (unat offset + hbin) buf" "n = unat (from_le_bytes (take 4 (drop 20 sl)) :: u32)"
  have g: "get_from buf (unat offset + hbin) = Some sl" using True by (simp add: get_from_def s)
  have c: "sk_cell buf (unat offset + hbin) = (if 24 + n \<le> length sl \<and> take 2 (drop 4 sl) = bytes_of ''sk''
      then Some (from_le_bytes (take 4 (drop 8 sl)), take n (drop 24 sl)) else None)"
    using True unfolding s(2) by (auto simp: sk_cell_def s(1) Let_def add.commute)
  show ?thesis
  proof (cases "24 + n \<le> length sl \<and> take 2 (drop 4 sl) = bytes_of ''sk''")
    case True
    from sk_parse(1) [OF assms s(2) True] obtain rest x where x: "CellKeySecurity_from_bytes N sl = Ok (rest, x)"
      "sk_flink (sk_detail x) = from_le_bytes (take 4 (drop 8 sl))" "sk_security_descriptor x = take n (drop 24 sl)"
      by blast
    show ?thesis unfolding sk_readable_def c if_P [OF True] security_round_def g
      by (simp add: x split: sum.split)
  next
    case False
    from sk_parse(2) [OF assms s(2) False] show ?thesis
      unfolding sk_readable_def c if_not_P [OF False] security_round_def g by auto
  qed
qed

lemma sk_path_snoc: "sk_path nxt a (xs @ ys) b \<longleftrightarrow> (\<exists>c. sk_path nxt a xs c \<and> sk_path nxt c ys b)"
  by (induction xs arbitrary: a) auto

text \<open>A path that comes back to its start only at its end visits no cell twice.\<close>

lemma sk_path_unique:
  "sk_path nxt a xs b \<Longrightarrow> sk_path nxt a ys b \<Longrightarrow> b \<notin> fst ` set xs \<Longrightarrow> b \<notin> fst ` set ys \<Longrightarrow> xs = ys"
proof (induction xs arbitrary: a ys)
  case Nil
  then show ?case by (cases ys) auto
next
  case (Cons x xs)
  then show ?case by (cases ys) (auto simp: prod_eq_iff)
qed

lemma sk_path_distinct:
  "sk_path nxt a xs b \<Longrightarrow> b \<notin> fst ` set xs \<Longrightarrow> distinct (map fst xs)"
proof (induction xs arbitrary: a)
  case (Cons x xs)
  then obtain flink where f: "fst x = a" "nxt a = Some (flink, snd x)" "sk_path nxt flink xs b" by auto
  have "a \<notin> fst ` set xs"
  proof
    assume "a \<in> fst ` set xs"
    then obtain y ys zs where xs: "xs = ys @ y # zs" "fst y = a" by (auto simp: in_set_conv_decomp)
    with f(3) have "sk_path nxt a (y # zs) b" by (auto simp: sk_path_snoc)
    then have "x # xs = y # zs" using Cons.prems xs by (intro sk_path_unique [of nxt a _ b]) auto
    then have "length xs = length zs" by simp
    with xs(1) show False by simp
  qed
  with Cons f show ?case by auto
qed simp

lemma security_loop_Ok:
  assumes "nom_spec N"
  shows "security_loop N fuel buf start hbin a acc = Ok r \<longleftrightarrow>
    (\<exists>x xs. sk_path (sk_readable N buf hbin) a (x # xs) start \<and> start \<notin> fst ` set xs \<and> r = acc @ map snd (x # xs) \<and> length xs < fuel)"
proof (induction fuel arbitrary: a acc)
  case (Suc fuel)
  show ?case
  proof (cases "sk_readable N buf hbin a")
    case None
    then show ?thesis using security_round_cell [OF assms, of buf hbin a] by auto
  next
    case (Some y)
    obtain flink d where y: "y = (flink, d)" by (cases y)
    have rd: "security_round N buf hbin a = Ok (flink, d)" using security_round_cell [OF assms, of buf hbin a] Some y by simp
    show ?thesis
    proof (cases "flink = start")
      case True
      have "sk_path (sk_readable N buf hbin) start xs start \<and> start \<notin> fst ` set xs \<longleftrightarrow> xs = []" for xs
        by (cases xs) auto
      then show ?thesis using rd True Some y by auto
    next
      case False
      have "(\<exists>x xs. sk_path (sk_readable N buf hbin) a (x # xs) start \<and> start \<notin> fst ` set xs \<and> r = acc @ map snd (x # xs) \<and> length xs < Suc fuel) \<longleftrightarrow>
        (\<exists>x xs. sk_path (sk_readable N buf hbin) flink (x # xs) start \<and> start \<notin> fst ` set xs \<and> r = (acc @ [d]) @ map snd (x # xs) \<and> length xs < fuel)"
        (is "?l \<longleftrightarrow> ?r")
      proof
        assume ?l
        then obtain x xs where x: "sk_path (sk_readable N buf hbin) a (x # xs) start" "start \<notin> fst ` set xs"
          "r = acc @ map snd (x # xs)" "length xs < Suc fuel" by blast
        then have "sk_path (sk_readable N buf hbin) flink xs start" "snd x = d" using Some y by auto
        with x False show ?r by (cases xs) auto
      next
        assume ?r
        then obtain x xs where x: "sk_path (sk_readable N buf hbin) flink (x # xs) start" "start \<notin> fst ` set xs"
          "r = (acc @ [d]) @ map snd (x # xs)" "length xs < fuel" by blast
        then show ?l using Some y False by (intro exI [of _ "(a, d)"] exI [of _ "x # xs"]) auto
      qed
      then show ?thesis using rd False Suc.IH [of flink "acc @ [d]"] by simp
    qed
  qed
qed simp

lemma security_loop_Err:
  assumes "nom_spec N"
  shows "(\<exists>e. security_loop N fuel buf start hbin a acc = Err e) \<longleftrightarrow>
    (\<exists>xs b. sk_path (sk_readable N buf hbin) a xs b \<and> start \<notin> fst ` set (tl xs) \<and> (xs = [] \<or> b \<noteq> start) \<and>
       sk_readable N buf hbin b = None \<and> length xs < fuel)"
proof (induction fuel arbitrary: a acc)
  case (Suc fuel)
  show ?case
  proof (cases "sk_readable N buf hbin a")
    case None
    then show ?thesis
      using security_round_cell [OF assms, of buf hbin a] by (auto intro!: exI [of _ "[]"] exI [of _ a])
  next
    case (Some y)
    obtain flink d where y: "y = (flink, d)" by (cases y)
    have rd: "security_round N buf hbin a = Ok (flink, d)" using security_round_cell [OF assms, of buf hbin a] Some y by simp
    have split: "(\<exists>xs b. sk_path (sk_readable N buf hbin) a xs b \<and> start \<notin> fst ` set (tl xs) \<and> (xs = [] \<or> b \<noteq> start) \<and>
        sk_readable N buf hbin b = None \<and> length xs < Suc fuel) \<longleftrightarrow>
      (\<exists>xs b. sk_path (sk_readable N buf hbin) flink xs b \<and> start \<notin> fst ` set xs \<and> b \<noteq> start \<and>
        sk_readable N buf hbin b = None \<and> length xs < fuel)" (is "?l \<longleftrightarrow> ?r")
    proof
      assume ?l
      then obtain xs b where x: "sk_path (sk_readable N buf hbin) a xs b" "start \<notin> fst ` set (tl xs)" "xs = [] \<or> b \<noteq> start"
        "sk_readable N buf hbin b = None" "length xs < Suc fuel" by blast
      then show ?r using Some y by (cases xs) auto
    next
      assume ?r
      then obtain xs b where "sk_path (sk_readable N buf hbin) flink xs b" "start \<notin> fst ` set xs" "b \<noteq> start"
        "sk_readable N buf hbin b = None" "length xs < fuel" by blast
      then show ?l using Some y by (intro exI [of _ "(a, d) # xs"] exI [of _ b]) auto
    qed
    have start: "(\<exists>xs b. sk_path (sk_readable N buf hbin) flink xs b \<and> start \<notin> fst ` set xs \<and> b \<noteq> start \<and> R xs b) \<longleftrightarrow>
        flink \<noteq> start \<and> (\<exists>xs b. sk_path (sk_readable N buf hbin) flink xs b \<and> start \<notin> fst ` set (tl xs) \<and> (xs = [] \<or> b \<noteq> start) \<and> R xs b)"
      (is "?l \<longleftrightarrow> ?r") for R
    proof -
      have "sk_path (sk_readable N buf hbin) flink xs b \<Longrightarrow> start \<notin> fst ` set xs \<and> b \<noteq> start \<longleftrightarrow>
        flink \<noteq> start \<and> start \<notin> fst ` set (tl xs) \<and> (xs = [] \<or> b \<noteq> start)" for xs b by (cases xs) auto
      then show ?thesis by blast
    qed
    show ?thesis unfolding split start using rd Suc.IH [of flink "acc @ [d]"] by (cases "flink = start") simp_all
  qed
qed simp

lemma security_loop_total:
  assumes "nom_spec N"
  shows "security_loop N fuel buf start hbin a acc \<noteq> Panic"
proof (induction fuel arbitrary: a acc)
  case (Suc fuel)
  then show ?case
    using security_round_cell [OF assms, of buf hbin a] by (cases "sk_readable N buf hbin a") (auto split: if_splits)
qed simp

lemma read_security_Ok:
  assumes "nom_spec N"
  shows "read_cell_key_security N fuel buf start hbin = Ok ds \<longleftrightarrow>
    (\<exists>xs. xs \<noteq> [] \<and> sk_path (sk_readable N buf hbin) start xs start \<and> distinct (map fst xs) \<and>
       ds = map snd xs \<and> length xs \<le> fuel)" (is "?l \<longleftrightarrow> ?r")
proof
  assume ?l
  then obtain x xs where x: "sk_path (sk_readable N buf hbin) start (x # xs) start" "start \<notin> fst ` set xs" "ds = map snd (x # xs)" "length xs < fuel"
    unfolding read_cell_key_security_def security_loop_Ok [OF assms] by auto
  then obtain flink where "sk_path (sk_readable N buf hbin) flink xs start" by auto
  from sk_path_distinct [OF this x(2)] x show ?r by (intro exI [of _ "x # xs"]) auto
next
  assume ?r
  then obtain x xs where "sk_path (sk_readable N buf hbin) start (x # xs) start" "distinct (map fst (x # xs))" "ds = map snd (x # xs)" "length (x # xs) \<le> fuel"
    by (metis list.exhaust)
  then show ?l unfolding read_cell_key_security_def security_loop_Ok [OF assms] by (intro exI [of _ x] exI [of _ xs]) auto
qed

lemma read_security_Err:
  assumes "nom_spec N"
  shows "(\<exists>e. read_cell_key_security N fuel buf start hbin = Err e) \<longleftrightarrow>
    (\<exists>xs b. sk_path (sk_readable N buf hbin) start xs b \<and> distinct (map fst xs) \<and>
       sk_readable N buf hbin b = None \<and> length xs < fuel)" (is "?l \<longleftrightarrow> ?r")
proof -
  have free: "b \<notin> fst ` set xs" if "sk_path (sk_readable N buf hbin) a xs c" "sk_readable N buf hbin b = None" for a b c xs
    using that by (induction xs arbitrary: a) auto
  show ?thesis
  proof
    assume ?l
    then obtain xs b where "sk_path (sk_readable N buf hbin) start xs b" "sk_readable N buf hbin b = None" "length xs < fuel"
      unfolding read_cell_key_security_def security_loop_Err [OF assms] by blast
    then show ?r using sk_path_distinct free by blast
  next
    assume ?r
    then obtain xs b where x: "sk_path (sk_readable N buf hbin) start xs b" "distinct (map fst xs)" "sk_readable N buf hbin b = None" "length xs < fuel" by blast
    moreover have "start \<notin> fst ` set (tl xs)" "xs = [] \<or> b \<noteq> start"
      using x free [OF x(1,3)] by (cases xs; auto)+
    ultimately show ?l unfolding read_cell_key_security_def security_loop_Err [OF assms] by blast
  qed
qed

text \<open>
  C37: the descriptors of a key are those of the ring of security cells as the bytes give it.  The reader
  returns a list exactly when the forward links (bytes 8 to 11 of a cell) lead from the cell the key
  names through readable, pairwise different cells back to that cell, and the list has the descriptor
  of each of these cells once, in the order of the links; it fails exactly when the links lead to a
  cell that cannot be read; it never panics.  The fuel is the number of rounds.
\<close>

theorem security_ring_followed:
  assumes "nom_spec N"
  shows "(read_cell_key_security N fuel buf start hbin = Ok ds \<longleftrightarrow>
      (\<exists>xs. xs \<noteq> [] \<and> sk_path (sk_readable N buf hbin) start xs start \<and> distinct (map fst xs) \<and>
         ds = map snd xs \<and> length xs \<le> fuel)) \<and>
    ((\<exists>e. read_cell_key_security N fuel buf start hbin = Err e) \<longleftrightarrow>
      (\<exists>xs b. sk_path (sk_readable N buf hbin) start xs b \<and> distinct (map fst xs) \<and>
         sk_readable N buf hbin b = None \<and> length xs < fuel)) \<and>
    read_cell_key_security N fuel buf start hbin \<noteq> Panic"
  using read_security_Ok [OF assms] read_security_Err [OF assms] security_loop_total [OF assms]
  by (simp add: read_cell_key_security_def)

text \<open>when the forward links run into a loop that does not pass the cell they started from, the
  reader never returns.
\<close>

theorem security_loop_off_ring_never_returns:
  assumes "start \<in> S"
    and "\<And>offset. offset \<in> S \<Longrightarrow>
      \<exists>flink d. security_round N buf hbin offset = Ok (flink, d) \<and> flink \<in> S \<and> flink \<noteq> start"
  shows "read_cell_key_security N fuel buf start hbin = Diverge"
proof -
  have "security_loop N fuel buf start hbin offset acc = Diverge" if "offset \<in> S" for offset acc
    using that
  proof (induction fuel arbitrary: offset acc)
    case 0
    then show ?case by simp
  next
    case (Suc fuel)
    obtain flink d where "security_round N buf hbin offset = Ok (flink, d)" "flink \<in> S" "flink \<noteq> start"
      using assms(2) [OF Suc.prems] by blast
    with Suc.IH [of flink] show ?case by simp
  qed
  with assms(1) show ?thesis by (simp add: read_cell_key_security_def)
qed

section \<open>Witnesses\<close>

text \<open>A cell at 0 that links to the cell at 24, which links to itself.\<close>

definition sk_bytes :: "u32 \<Rightarrow> bytes" where
  "sk_bytes flink = to_le_bytes (- 24 :: i32) @ bytes_of ''sk'' @ to_le_bytes (0 :: u16) @ to_le_bytes flink @
     to_le_bytes (0 :: u32) @ to_le_bytes (1 :: u32) @ to_le_bytes (0 :: u32)"

lemma security_round_sk:
  assumes "get_from buf (unat offset + hbin) = Some (sk_bytes flink @ rest)"
  shows "security_round env_ref buf hbin offset = Ok (flink, [])"
  using assms
  by (simp add: security_round_def CellKeySecurity_from_bytes_def sk_bytes_def ref_nom.le_i32 ref_nom.tag
      ref_nom.le_u16 ref_nom.le_u32 ref_nom.take doc_Ok lit_len cong: bindO_weak_cong)
     (simp add: env_ref_def)

theorem security_loop_off_ring_never_returns_witness:
  "read_cell_key_security env_ref 1000 (sk_bytes 24 @ sk_bytes 24) 0 0 = Diverge"
proof (rule security_loop_off_ring_never_returns [where S = "{0, 24}"])
  show "(0 :: u32) \<in> {0, 24}" by simp
  fix offset :: u32
  assume o: "offset \<in> {0, 24}"
  have "\<exists>rest. get_from (sk_bytes 24 @ sk_bytes 24) (unat offset + 0) = Some (sk_bytes 24 @ rest)"
    using o by (auto simp: get_from_def sk_bytes_def)
  then show "\<exists>flink d. security_round env_ref (sk_bytes 24 @ sk_bytes 24) 0 offset = Ok (flink, d) \<and>
      flink \<in> {0, 24} \<and> flink \<noteq> 0"
    using security_round_sk by fastforce
qed

theorem security_ring_followed_witness:
  "nom_spec env_ref \<and> read_cell_key_security env_ref 2 (sk_bytes 24 @ sk_bytes 0) 0 0 = Ok [[], []]"
proof
  let ?buf = "sk_bytes 24 @ sk_bytes 0" and ?next = "sk_readable env_ref (sk_bytes 24 @ sk_bytes 0) 0"
  show N: "nom_spec env_ref" by (rule ref_nom.nom_spec_axioms)
  have "?next 0 = Some (24, [])" "?next 24 = Some (0, [])"
    by (simp_all add: sk_readable_def sk_cell_def sk_bytes_def Let_def lit_len env_ref_def)
  then have "sk_path ?next 0 [(0, []), (24, [])] 0" by simp
  then show "read_cell_key_security env_ref 2 ?buf 0 0 = Ok [[], []]"
    unfolding security_ring_followed [OF N, THEN conjunct1] by (intro exI [of _ "[(0, []), (24, [])]"]) simp
qed

end
