(* ===== verification/Key_Nodes.thy ===== *)
theory Key_Nodes
  imports Parser_State Reg_Filter Sub_Key_Lists Key_Security "HOL-Library.List_Lexorder" "HOL-Library.Char_ord"
begin

text \<open>
  The operations on key nodes (\<open>src/src/cell_key_node.rs\<close>) and the part of \<open>src/src/filter.rs\<close> that takes a key
  node and the state.  A function that changes its key or the state returns them updated.  Where a
  function of the source fails with an error it has not changed the state yet, so a caller that
  goes on after an error goes on with the state it had.
\<close>

section \<open>Flags\<close>

text \<open>The macro \<open>impl_flags_from_bits\<close>; \<open>fn_name\<close> is the name of the generated function.\<close>

definition from_bits_checked :: "'a::len word \<Rightarrow> string \<Rightarrow> 'a word \<Rightarrow> Logs \<Rightarrow> 'a word \<times> Logs" where
  "from_bits_checked all_bits fn_name flags logs =
     (let flags_mapped = flags AND all_bits in
      (flags_mapped,
       if flags \<noteq> flags_mapped
       then Logs_add logs WarningUnrecognizedBitflag (fn_name @ '': 0x'' @ show_hex True (unat flags))
       else logs))"

definition KEY_HIVE_ENTRY :: u16 where "KEY_HIVE_ENTRY = 0x0004"
definition KEY_COMP_NAME :: u16 where "KEY_COMP_NAME = 0x0020"

definition KeyNodeFlags_all :: u16 where
  "KeyNodeFlags_all =
     0x0001 OR 0x0002 OR KEY_HIVE_ENTRY OR 0x0008 OR 0x0010 OR KEY_COMP_NAME OR 0x0040 OR 0x0080 OR
     0x0100 OR 0x0200 OR 0x1000 OR 0x4000"

definition AccessFlags_all :: u32 where "AccessFlags_all = 0x00000001 OR 0x00000002"

definition KeyNodeFlags_from_bits_checked :: "u16 \<Rightarrow> Logs \<Rightarrow> u16 \<times> Logs" where
  "KeyNodeFlags_from_bits_checked =
     from_bits_checked KeyNodeFlags_all ''notatin::cell_key_node::KeyNodeFlags::from_bits_checked''"

definition AccessFlags_from_bits_checked :: "u32 \<Rightarrow> Logs \<Rightarrow> u32 \<times> Logs" where
  "AccessFlags_from_bits_checked =
     from_bits_checked AccessFlags_all ''notatin::cell_key_node::AccessFlags::from_bits_checked''"

definition key_node_flags :: "CellKeyNode \<Rightarrow> Logs \<Rightarrow> u16 \<times> Logs" where
  "key_node_flags k logs =
     KeyNodeFlags_from_bits_checked (field_value (knd_key_node_flag_bits (kn_detail (kn k)))) logs"

definition access_flags :: "CellKeyNode \<Rightarrow> Logs \<Rightarrow> u32 \<times> Logs" where
  "access_flags k logs =
     AccessFlags_from_bits_checked (field_value (knd_access_flag_bits (kn_detail (kn k)))) logs"

definition is_key_root :: "CellKeyNode \<Rightarrow> bool" where
  "is_key_root k \<longleftrightarrow> flags_contain (fst (key_node_flags k Logs_default)) KEY_HIVE_ENTRY"

section \<open>Small accessors\<close>

definition last_key_written_date_and_time :: "CellKeyNode \<Rightarrow> DateTime" where
  "last_key_written_date_and_time k =
     get_date_time_from_filetime (field_value (knd_last_key_written_date_and_time (kn_detail (kn k))))"

definition kn_is_free :: "CellKeyNode \<Rightarrow> bool" where
  "kn_is_free k \<longleftrightarrow> sint (field_value (knd_size (kn_detail (kn k)))) > 0"

definition kn_get_cell_size :: "CellKeyNode \<Rightarrow> usize" where
  "kn_get_cell_size k = unat (unsigned_abs (field_value (knd_size (kn_detail (kn k)))))"

definition kn_slack_offset_absolute :: "CellKeyNode \<Rightarrow> usize" where
  "kn_slack_offset_absolute k =
     kn_file_offset_absolute (kn k) + kn_get_cell_size k - length (field_value (knd_slack (kn_detail (kn k))))"

definition is_filter_match_or_descendent :: "CellKeyNode \<Rightarrow> bool" where
  "is_filter_match_or_descendent k \<longleftrightarrow>
     filter_state (iteration_state (kn k)) \<in> {Some FMS_Exact, Some FMS_Descendent}"

definition get_pretty_path :: "CellKeyNode \<Rightarrow> string result" where
  "get_pretty_path k = str_from (kn_path (kn k)) (get_root_path_offset (kn_path (kn k)))"

definition kn_lowercase :: "CellKeyNode \<Rightarrow> string" where
  "kn_lowercase k = to_ascii_lowercase (kn_path (kn k))"

definition value_name_of :: "CellKeyValue \<Rightarrow> string" where
  "value_name_of v = field_value (kvd_value_name (kv_detail (kv v)))"

definition get_value :: "CellKeyNode \<Rightarrow> string \<Rightarrow> CellKeyValue option" where
  "get_value k find_value_name =
     find (\<lambda>v. to_ascii_lowercase (value_name_of v) = to_ascii_lowercase find_value_name)
       (kn_sub_values (kn k))"

definition next_value :: "CellKeyNode \<Rightarrow> usize \<Rightarrow> (CellKeyValue \<times> usize) option" where
  "next_value k i =
     (if i < length (kn_sub_values (kn k)) then Some (kn_sub_values (kn k) ! i, i + 1) else None)"

text \<open>The iterator over the values of a key: all that it returns until it returns \<open>None\<close>.\<close>

function value_iter_from :: "CellKeyNode \<Rightarrow> usize \<Rightarrow> CellKeyValue list" where
  "value_iter_from k i =
     (case next_value k i of
        Some (v, j) \<Rightarrow> v # value_iter_from k j
      | None \<Rightarrow> [])"
  by pat_completeness auto
termination
  by (relation "measure (\<lambda>(k, i). length (kn_sub_values (kn k)) - i)")
     (auto simp: next_value_def split: if_splits)

declare value_iter_from.simps [simp del]

definition get_security_descriptors ::
  "'z env_scheme \<Rightarrow> nat \<Rightarrow> FileInfo \<Rightarrow> CellKeyNode \<Rightarrow> SecurityDescriptor list result" where
  "get_security_descriptors N fuel fi k =
     read_cell_key_security N fuel (buffer fi)
       (field_value (knd_security_key_offset_relative (kn_detail (kn k)))) (hbin_offset_absolute fi)"

section \<open>Filters on keys\<close>

definition match_key :: "'z env_scheme \<Rightarrow> Filter \<Rightarrow> State \<Rightarrow> string \<Rightarrow> (FilterFlags \<times> State) result" where
  "match_key N f st key_path =
     (case reg_query f of
        Some rq \<Rightarrow>
          (let (off, st) = State_get_root_path_offset st key_path in
           bindO (check_key_match N rq key_path off) (\<lambda>flags. Ok (flags, st)))
      | None \<Rightarrow> Ok (FILTER_ITERATE_KEYS, st))"

definition match_cell :: "'z env_scheme \<Rightarrow> Filter \<Rightarrow> State \<Rightarrow> CellKeyNode \<Rightarrow> (FilterFlags \<times> State) result" where
  "match_cell N f st k =
     (if is_key_root k \<and> (case reg_query f of Some rq \<Rightarrow> \<not> rq_key_path_has_root rq | None \<Rightarrow> False)
      then Ok (FILTER_ITERATE_KEYS, st)
      else match_key N f st (kn_lowercase k))"

definition check_cell :: "'z env_scheme \<Rightarrow> Filter \<Rightarrow> State \<Rightarrow> CellKeyNode \<Rightarrow> (FilterFlags \<times> State) result" where
  "check_cell N f st k =
     (if Filter_is_valid f then match_cell N f st k else Ok (FILTER_ITERATE_KEYS, st))"

section \<open>Parsing a key\<close>

definition MIN_CELL_KEY_SIZE :: usize where "MIN_CELL_KEY_SIZE = 72"

definition kn_check_size :: "i32 \<Rightarrow> usize \<Rightarrow> bool" where
  "kn_check_size sz input_len =
     (let size_abs = unat (unsigned_abs sz) in MIN_CELL_KEY_SIZE \<le> size_abs \<and> size_abs \<le> input_len)"

definition CellKeyNode_hash :: "'z env_scheme \<Rightarrow> u16 \<Rightarrow> u64 \<Rightarrow> u32 \<Rightarrow> Hash" where
  "CellKeyNode_hash N flags_raw last_key_written_raw access_bits_raw =
     blake3 N [to_le_bytes flags_raw, to_le_bytes last_key_written_raw, to_le_bytes access_bits_raw]"

definition CellKeyNode_from_bytes ::
  "'z env_scheme \<Rightarrow> State \<Rightarrow> bytes \<Rightarrow> usize \<Rightarrow> string \<Rightarrow> u32 option \<Rightarrow> CellKeyNode iresult" where
  "CellKeyNode_from_bytes N st start file_offset_absolute cur_path sequence_num =
     (let full = get_full_field_info st in
      bindO (nom_le_i32 N start) (\<lambda>(i1, sz).
      if \<not> kn_check_size sz (length i1 + 4) then Err (NomError i1 KEof)
      else
        bindO (nom_tag N ''nk'' i1) (\<lambda>(i2, _).
        bindO (nom_le_u16 N i2) (\<lambda>(i3, flag_bits).
        bindO (nom_le_u64 N i3) (\<lambda>(i4, last_written).
        bindO (nom_le_u32 N i4) (\<lambda>(i5, access_bits).
        bindO (nom_le_i32 N i5) (\<lambda>(i6, parent).
        bindO (nom_le_u32 N i6) (\<lambda>(i7, n_sub).
        bindO (nom_le_u32 N i7) (\<lambda>(i8, n_vol).
        bindO (nom_le_u32 N i8) (\<lambda>(i9, sub_list).
        bindO (nom_le_i32 N i9) (\<lambda>(i10, vol_list).
        bindO (nom_le_u32 N i10) (\<lambda>(i11, n_values).
        bindO (nom_le_i32 N i11) (\<lambda>(i12, values_list).
        bindO (nom_le_u32 N i12) (\<lambda>(i13, security).
        bindO (nom_le_i32 N i13) (\<lambda>(i14, class_off).
        bindO (nom_le_u32 N i14) (\<lambda>(i15, l_sub).
        bindO (nom_le_u32 N i15) (\<lambda>(i16, l_class).
        bindO (nom_le_u32 N i16) (\<lambda>(i17, l_vname).
        bindO (nom_le_u32 N i17) (\<lambda>(i18, l_vdata).
        bindO (nom_le_u32 N i18) (\<lambda>(i19, work).
        bindO (nom_le_u16 N i19) (\<lambda>(i20, name_size).
        bindO (nom_le_u16 N i20) (\<lambda>(i21, class_size).
        bindO (nom_take N (unat name_size) i21) (\<lambda>(i22, key_name_bytes).
        let (flags, logs) = KeyNodeFlags_from_bits_checked flag_bits Logs_default in
        bindO (infallible (string_from_bytes (flags_contain flags KEY_COMP_NAME) key_name_bytes name_size
                             logs ''key_name_bytes'')) (\<lambda>(key_name, logs).
        let path = cur_path @ backslash # key_name; slack_offset = ptr_diff start i22 in
        bindO (parser_eat_remaining N i22 (unsigned_abs sz) slack_offset) (\<lambda>(i23, slack_bytes).
        Ok (i23,
          CellKeyNode
            \<lparr>kn_file_offset_absolute = file_offset_absolute,
             kn_detail =
               \<lparr>knd_size = read_field full 4 sz start start,
                knd_signature = field_full full ''nk'' (ptr_diff start i1) 2,
                knd_key_node_flag_bits = read_field full 2 flag_bits start i2,
                knd_last_key_written_date_and_time = read_field full 8 last_written start i3,
                knd_access_flag_bits = read_field full 4 access_bits start i4,
                knd_parent_key_offset_relative = read_field full 4 parent start i5,
                knd_number_of_sub_keys = read_field full 4 n_sub start i6,
                knd_number_of_volatile_sub_keys = read_field full 4 n_vol start i7,
                knd_sub_keys_list_offset_relative = read_field full 4 sub_list start i8,
                knd_volatile_sub_keys_list_offset_relative = read_field full 4 vol_list start i9,
                knd_number_of_key_values = read_field full 4 n_values start i10,
                knd_key_values_list_offset_relative = read_field full 4 values_list start i11,
                knd_security_key_offset_relative = read_field full 4 security start i12,
                knd_class_name_offset_relative = read_field full 4 class_off start i13,
                knd_largest_sub_key_name_size = read_field full 4 l_sub start i14,
                knd_largest_sub_key_class_name_size = read_field full 4 l_class start i15,
                knd_largest_value_name_size = read_field full 4 l_vname start i16,
                knd_largest_value_data_size = read_field full 4 l_vdata start i17,
                knd_work_var = read_field full 4 work start i18,
                knd_key_name_size = read_field full 2 name_size start i19,
                knd_class_name_size = read_field full 2 class_size start i20,
                knd_slack = field_full full slack_bytes slack_offset (of_nat (length slack_bytes))\<rparr>,
             kn_key_name = key_name,
             kn_path = path,
             kn_cell_state = Allocated,
             kn_sequence_num = sequence_num,
             kn_updated_by_sequence_num = None,
             kn_sub_values = [],
             kn_logs = logs,
             cell_sub_key_offsets_absolute = [],
             kn_hash = Some (CellKeyNode_hash N flag_bits last_written access_bits),
             iteration_state = CellKeyNodeIteration_default\<rparr> [] []))))))))))))))))))))))))))"

section \<open>The values of a key\<close>

definition parse_key_values :: "'z env_scheme \<Rightarrow> FileInfo \<Rightarrow> u32 \<Rightarrow> i32 \<Rightarrow> u32 list iresult" where
  "parse_key_values N fi key_values_count list_offset_relative =
     bindO (usize_add (overflow_checks N) (usize_of_i32 list_offset_relative) (hbin_offset_absolute fi))
       (\<lambda>offset.
     bindO (ok_or (NomError (buffer fi) KEof) (get_from (buffer fi) offset)) (\<lambda>sl.
     bindO (nom_le_u32 N sl) (\<lambda>(sl, _).
     bindO (nom_count_u32 N (nom_le_u32 N) (unat key_values_count) sl) (\<lambda>(_, lst).
     Ok (sl, lst)))))"

text \<open>
  The loop over the offsets of the values.  It can stop with an error after it has already added
  values: the key comes back with the values read so far, beside the error.
\<close>

primrec read_values_loop ::
  "'z env_scheme \<Rightarrow> FileInfo \<Rightarrow> bool \<Rightarrow> u32 option \<Rightarrow> u32 list \<Rightarrow> CellKeyNode \<Rightarrow>
     (CellKeyNode \<times> Error option) result" where
  "read_values_loop N fi full sequence_num [] k = Ok (k, None)"
| "read_values_loop N fi full sequence_num (v # vs) k =
     (let offset = unat v + hbin_offset_absolute fi in
      if length (buffer fi) \<le> offset then
        Ok (kn_add_log WarningParse
              (''read_values error: offset '' @ show_nat offset @ '' out of range'') k, None)
      else
        case CellKeyValue_from_bytes N (drop offset (buffer fi)) offset sequence_num full of
          Ok (_, cell_key_value) \<Rightarrow>
            bindO (CellKeyValue_read_value_bytes N fi cell_key_value) (\<lambda>cell_key_value.
              read_values_loop N fi full sequence_num vs
                (kn_update (\<lambda>c. c\<lparr>kn_sub_values := kn_sub_values c @ [cell_key_value]\<rparr>) k))
        | Err e \<Rightarrow> Ok (k, Some (Error_from_nom e))
        | Panic \<Rightarrow> Panic
        | Diverge \<Rightarrow> Diverge)"

definition read_values ::
  "'z env_scheme \<Rightarrow> FileInfo \<Rightarrow> State \<Rightarrow> u32 option \<Rightarrow> CellKeyNode \<Rightarrow> (CellKeyNode \<times> Error option) result" where
  "read_values N fi st sequence_num k =
     (let list_offset = field_value (knd_key_values_list_offset_relative (kn_detail (kn k)));
          n_values = field_value (knd_number_of_key_values (kn_detail (kn k))) in
      if sint list_offset > 0 \<and> usize_of_i32 list_offset < length (buffer fi) then
        if n_values > 1024 * 1024 then
          Ok (kn_add_log WarningParse (''read_values error: too many values: '' @ show_nat (unat n_values)) k, None)
        else
          let k = kn_update (\<lambda>c. c\<lparr>kn_sub_values := []\<rparr>) k in
          case parse_key_values N fi n_values list_offset of
            Ok (_, key_values) \<Rightarrow>
              read_values_loop N fi (get_full_field_info st) sequence_num key_values k
          | Err e \<Rightarrow> Ok (k, Some (Error_from_nom e))
          | Panic \<Rightarrow> Panic
          | Diverge \<Rightarrow> Diverge
      else Ok (k, None))"

section \<open>Deleted and modified items of a key\<close>

text \<open>\<open>sort_by\<close> is stable; \<open>None\<close> is below every sequence number.\<close>

definition seq_rank :: "u32 option \<Rightarrow> int" where
  "seq_rank s = (case s of None \<Rightarrow> 0 | Some n \<Rightarrow> uint n + 1)"

definition newest_first :: "('a \<Rightarrow> u32 option) \<Rightarrow> 'a list \<Rightarrow> 'a list" where
  "newest_first seq xs = sort_key (\<lambda>x. - seq_rank (seq x)) xs"

definition update_value_versions :: "State \<Rightarrow> string \<Rightarrow> CellKeyValue \<Rightarrow> CellKeyValue" where
  "update_value_versions st path v =
     (case ModifiedValueMap_get (modified_values st) path (value_name_of v) of
        Some mvs \<Rightarrow> CellKeyValue (kv v) (newest_first (\<lambda>v. kv_sequence_num (kv v)) mvs)
      | None \<Rightarrow> v)"

text \<open>The fuel bounds the depth of the recursion over deleted keys of deleted keys.\<close>

fun update_modified_lists :: "nat \<Rightarrow> State \<Rightarrow> CellKeyNode \<Rightarrow> CellKeyNode result" where
  "update_modified_lists 0 st k = Diverge"
| "update_modified_lists (Suc fuel) st k =
     (let path = (if is_key_root k then [] else kn_path (kn k)) in
      if is_deleted_primary_file (kn_cell_state (kn k)) then Ok k
      else
        bindO (case ModifiedDeletedKeyMap_get (deleted_keys st) path of
                 Some dks \<Rightarrow>
                   mapO (\<lambda>dk. if kn_file_offset_absolute (kn dk) \<noteq> kn_file_offset_absolute (kn k)
                              then update_modified_lists fuel st dk else Ok dk) dks
               | None \<Rightarrow> Ok (kn_deleted_keys k)) (\<lambda>dks.
        let versions =
              (case ModifiedDeletedKeyMap_get (modified_keys st) path of
                 Some mks \<Rightarrow> newest_first (\<lambda>k. kn_sequence_num (kn k)) mks
               | None \<Rightarrow> kn_versions k);
            sub_values = map (update_value_versions st path) (kn_sub_values (kn k));
            deleted = (case DeletedValueMap_get (deleted_values st) path of
                         Some dvs \<Rightarrow> sort_key value_name_of dvs
                       | None \<Rightarrow> [])
        in Ok (CellKeyNode ((kn k)\<lparr>kn_sub_values := sub_values @ deleted\<rparr>) versions dks)))"

section \<open>Reading a key\<close>

record CellKeyNodeReadOptions =
  ro_offset :: usize
  ro_cur_path :: string
  ro_filter :: "Filter option"
  ro_self_is_filter_match_or_descendent :: bool
  ro_sequence_num :: "u32 option"
  ro_get_deleted_and_modified :: bool

definition should_read_values :: "Filter option \<Rightarrow> FilterFlags \<Rightarrow> bool \<Rightarrow> bool" where
  "should_read_values flt filter_flags self_is_filter_match_or_descendent \<longleftrightarrow>
     self_is_filter_match_or_descendent \<or> flt = None \<or>
     (case flt of Some f \<Rightarrow> \<not> Filter_is_valid f | None \<Rightarrow> False) \<or>
     flags_contain filter_flags FILTER_KEY_MATCH"

definition read_from_slice ::
  "'z env_scheme \<Rightarrow> nat \<Rightarrow> FileInfo \<Rightarrow> State \<Rightarrow> bytes \<Rightarrow> CellKeyNodeReadOptions \<Rightarrow>
     (CellKeyNode option \<times> State) result" where
  "read_from_slice N fuel fi st sl options =
     bindO (from_nom (CellKeyNode_from_bytes N st sl (ro_offset options) (ro_cur_path options)
                        (ro_sequence_num options))) (\<lambda>(_, k).
     bindO (case ro_filter options of
              Some f \<Rightarrow> check_cell N f st k
            | None \<Rightarrow> Ok (FILTER_ITERATE_KEYS, st)) (\<lambda>(filter_flags, st).
     if flags_contain filter_flags FILTER_NO_MATCH then Ok (None, st)
     else
       bindO (if field_value (knd_number_of_key_values (kn_detail (kn k))) > 0 \<and>
                 should_read_values (ro_filter options) filter_flags
                   (ro_self_is_filter_match_or_descendent options)
              then
                bindO (read_values N fi st (ro_sequence_num options) k) (\<lambda>(k, err).
                Ok (if err = None then k
                    else kn_add_log WarningParse
                      (''Unable to parse values for cell key node '' @ kn_path (kn k) @ '' (offset: '' @
                       show_nat (kn_file_offset_absolute (kn k)) @ '')'') k))
              else Ok k) (\<lambda>k.
       let k = (if flags_contain filter_flags FILTER_KEY_MATCH
                then kn_update (\<lambda>c. c\<lparr>iteration_state := (iteration_state c)\<lparr>filter_state := Some FMS_Exact\<rparr>\<rparr>) k
                else k) in
       bindO (if ro_get_deleted_and_modified options then update_modified_lists fuel st k else Ok k) (\<lambda>k.
       Ok (Some k, st)))))"

definition CellKeyNode_read ::
  "'z env_scheme \<Rightarrow> nat \<Rightarrow> FileInfo \<Rightarrow> State \<Rightarrow> CellKeyNodeReadOptions \<Rightarrow> (CellKeyNode option \<times> State) result" where
  "CellKeyNode_read N fuel fi st options =
     bindO (ok_or (Error_buffer ''cell_key_node::read'') (get_from (buffer fi) (ro_offset options))) (\<lambda>sl.
       read_from_slice N fuel fi st sl options)"

section \<open>Sub keys\<close>

text \<open>What the loop of \<open>read_sub_keys_internal\<close> does with a sub key it has read.\<close>

definition mark_child :: "bool \<Rightarrow> Filter \<Rightarrow> CellKeyNode \<Rightarrow> CellKeyNode \<times> bool" where
  "mark_child self_is_match flt child =
     (let set_state = (\<lambda>s. kn_update (\<lambda>c. c\<lparr>iteration_state := (iteration_state c)\<lparr>filter_state := Some s\<rparr>\<rparr>) child) in
      if filter_state (iteration_state (kn child)) = None then
        (if self_is_match then set_state FMS_Descendent
         else if Filter_is_valid flt then set_state FMS_None else child, False)
      else (child, filter_state (iteration_state (kn child)) = Some FMS_Exact))"

primrec sub_keys_loop ::
  "'z env_scheme \<Rightarrow> nat \<Rightarrow> FileInfo \<Rightarrow> Filter \<Rightarrow> bool \<Rightarrow> Filter option \<Rightarrow> u32 option \<Rightarrow> bool \<Rightarrow> u32 list \<Rightarrow>
     CellKeyNode \<Rightarrow> State \<Rightarrow> CellKeyNode list \<Rightarrow> bool \<Rightarrow> (CellKeyNode list \<times> bool \<times> CellKeyNode \<times> State) result" where
  "sub_keys_loop N fuel fi flt self_is_match sub_filter sequence_num get_dm [] k st children found_key =
     Ok (children, found_key, k, st)"
| "sub_keys_loop N fuel fi flt self_is_match sub_filter sequence_num get_dm (v # vs) k st children found_key =
     (case CellKeyNode_read N fuel fi st
        \<lparr>ro_offset = unat v, ro_cur_path = kn_path (kn k), ro_filter = sub_filter,
         ro_self_is_filter_match_or_descendent = self_is_match, ro_sequence_num = sequence_num,
         ro_get_deleted_and_modified = get_dm\<rparr> of
        Err _ \<Rightarrow>
          sub_keys_loop N fuel fi flt self_is_match sub_filter sequence_num get_dm vs
            (kn_add_log WarningParse
               (kn_path (kn k) @ '': Unable to parse sub_key at offset '' @ show_nat (unat v)) k)
            st children found_key
      | Ok (None, st) \<Rightarrow>
          sub_keys_loop N fuel fi flt self_is_match sub_filter sequence_num get_dm vs k st children found_key
      | Ok (Some child, st) \<Rightarrow>
          (let (child, exact) = mark_child self_is_match flt child in
           sub_keys_loop N fuel fi flt self_is_match sub_filter sequence_num get_dm vs k st
             (children @ [child]) (found_key \<or> exact))
      | Panic \<Rightarrow> Panic
      | Diverge \<Rightarrow> Diverge)"

definition sub_list_warning :: "CellKeyNode \<Rightarrow> FileInfo \<Rightarrow> string" where
  "sub_list_warning k fi =
     kn_path (kn k) @ '': Unable to parse sub_key_list at offset '' @
     show_nat (unat (field_value (knd_sub_keys_list_offset_relative (kn_detail (kn k)))) + hbin_offset_absolute fi)"

definition read_sub_keys_internal ::
  "'z env_list_scheme \<Rightarrow> nat \<Rightarrow> FileInfo \<Rightarrow> State \<Rightarrow> Filter \<Rightarrow> u32 option \<Rightarrow> bool \<Rightarrow> CellKeyNode \<Rightarrow>
     (CellKeyNode list \<times> bool \<times> CellKeyNode \<times> State) result" where
  "read_sub_keys_internal N fuel fi st flt sequence_num get_dm k =
     (let n_sub = field_value (knd_number_of_sub_keys (kn_detail (kn k))) in
      if kn_cell_state (kn k) = Allocated then
        if n_sub > 1024 * 1024 then
          Ok ([], False,
              kn_add_log WarningParse (''read_values error: too many subkeys: '' @ show_nat (unat n_sub)) k, st)
        else if n_sub > 0 then
          case parse_sub_key_list N fuel fi (field_value (knd_sub_keys_list_offset_relative (kn_detail (kn k)))) of
            Ok offsets \<Rightarrow>
              (let self_is_match = is_filter_match_or_descendent k;
                   sub_filter = (if self_is_match \<and> return_sub_keys flt then None else Some flt) in
               bindO (sub_keys_loop N fuel fi flt self_is_match sub_filter sequence_num get_dm offsets k st [] False)
                 (\<lambda>(children, found_key, k, st).
                   Ok (children, found_key, kn_update (\<lambda>c. c\<lparr>cell_sub_key_offsets_absolute := offsets\<rparr>) k, st)))
          | Err _ \<Rightarrow> Ok ([], False, kn_add_log WarningParse (sub_list_warning k fi) k, st)
          | Panic \<Rightarrow> Panic
          | Diverge \<Rightarrow> Diverge
        else Ok ([], False, k, st)
      else Ok ([], False, k, st))"

definition read_sub_keys ::
  "'z env_list_scheme \<Rightarrow> nat \<Rightarrow> FileInfo \<Rightarrow> State \<Rightarrow> CellKeyNode \<Rightarrow> (CellKeyNode list \<times> CellKeyNode \<times> State) result" where
  "read_sub_keys N fuel fi st k =
     bindO (read_sub_keys_internal N fuel fi st Filter_new None True k) (\<lambda>(sub_keys, _, k, st).
       Ok (sub_keys, k, st))"

text \<open>The search below a key, with fuel for its depth; the children it goes through are its own copies.\<close>

fun get_sub_key_internal ::
  "'z env_list_scheme \<Rightarrow> nat \<Rightarrow> FileInfo \<Rightarrow> State \<Rightarrow> Filter \<Rightarrow> u32 option \<Rightarrow> CellKeyNode \<Rightarrow>
     (CellKeyNode option \<times> CellKeyNode \<times> State) result"
and get_sub_key_loop ::
  "'z env_list_scheme \<Rightarrow> nat \<Rightarrow> FileInfo \<Rightarrow> State \<Rightarrow> Filter \<Rightarrow> u32 option \<Rightarrow> CellKeyNode list \<Rightarrow>
     (CellKeyNode option \<times> State) result" where
  "get_sub_key_internal N 0 fi st flt sequence_num k = Diverge"
| "get_sub_key_internal N (Suc fuel) fi st flt sequence_num k =
     bindO (read_sub_keys_internal N fuel fi st flt sequence_num False k) (\<lambda>(children, found_key, k, st).
       if found_key then
         Ok (case children of child # _ \<Rightarrow> Some child | [] \<Rightarrow> None, k, st)
       else
         bindO (get_sub_key_loop N fuel fi st flt sequence_num children) (\<lambda>(r, st). Ok (r, k, st)))"
| "get_sub_key_loop N fuel fi st flt sequence_num [] = Ok (None, st)"
| "get_sub_key_loop N fuel fi st flt sequence_num (child # children) =
     bindO (get_sub_key_internal N fuel fi st flt sequence_num child) (\<lambda>(r, _, st).
       case r of
         Some key \<Rightarrow> Ok (Some key, st)
       | None \<Rightarrow> get_sub_key_loop N fuel fi st flt sequence_num children)"

definition get_sub_key_by_path ::
  "'z env_list_scheme \<Rightarrow> nat \<Rightarrow> FileInfo \<Rightarrow> State \<Rightarrow> string \<Rightarrow> CellKeyNode \<Rightarrow>
     (CellKeyNode option \<times> CellKeyNode \<times> State) result" where
  "get_sub_key_by_path N fuel fi st sub_path k =
     (if sub_path = [] then Ok (Some k, k, st)
      else
        let flt = (case FilterBuilder_build (fb_set_key_path_has_root
                     (add_key_path FilterBuilder_new (kn_path (kn k) @ backslash # sub_path)) True) of
                     Ok f \<Rightarrow> f | _ \<Rightarrow> Filter_new)
        in get_sub_key_internal N fuel fi st flt None k)"

definition get_sub_key_by_index ::
  "'z env_list_scheme \<Rightarrow> nat \<Rightarrow> FileInfo \<Rightarrow> State \<Rightarrow> usize \<Rightarrow> CellKeyNode \<Rightarrow>
     (CellKeyNode option \<times> CellKeyNode \<times> State) result" where
  "get_sub_key_by_index N fuel fi st index k =
     (if field_value (knd_number_of_sub_keys (kn_detail (kn k))) > 0 then
        case parse_sub_key_list N fuel fi (field_value (knd_sub_keys_list_offset_relative (kn_detail (kn k)))) of
          Ok offsets \<Rightarrow>
            (if index < length offsets then
               case CellKeyNode_read N fuel fi st
                 \<lparr>ro_offset = unat (offsets ! index), ro_cur_path = kn_path (kn k), ro_filter = None,
                  ro_self_is_filter_match_or_descendent = is_filter_match_or_descendent k,
                  ro_sequence_num = None, ro_get_deleted_and_modified = True\<rparr> of
                 Err _ \<Rightarrow> Ok (None, kn_add_log WarningParse
                   (kn_path (kn k) @ '': Unable to parse sub_key at offset '' @ show_nat (unat (offsets ! index))) k, st)
               | Ok (sub_key, st) \<Rightarrow> Ok (sub_key, k, st)
               | Panic \<Rightarrow> Panic
               | Diverge \<Rightarrow> Diverge
             else Ok (None, k, st))
        | Err _ \<Rightarrow> Ok (None, kn_add_log WarningParse (sub_list_warning k fi) k, st)
        | Panic \<Rightarrow> Panic
        | Diverge \<Rightarrow> Diverge
      else Ok (None, k, st))"

definition init_sub_key_iter :: "CellKeyNode \<Rightarrow> CellKeyNode" where
  "init_sub_key_iter = kn_update (\<lambda>c. c\<lparr>iteration_state := (iteration_state c)\<lparr>sub_keys_iter_index := 0\<rparr>\<rparr>)"

definition next_sub_key ::
  "'z env_list_scheme \<Rightarrow> nat \<Rightarrow> FileInfo \<Rightarrow> State \<Rightarrow> CellKeyNode \<Rightarrow>
     (CellKeyNode option \<times> CellKeyNode \<times> State) result" where
  "next_sub_key N fuel fi st k =
     bindO (get_sub_key_by_index N fuel fi st (sub_keys_iter_index (iteration_state (kn k))) k) (\<lambda>(r, k, st).
       case r of
         Some sub_key \<Rightarrow>
           Ok (Some sub_key,
               kn_update (\<lambda>c. c\<lparr>iteration_state := (iteration_state c)
                 \<lparr>sub_keys_iter_index := sub_keys_iter_index (iteration_state c) + 1\<rparr>\<rparr>) k, st)
       | None \<Rightarrow> Ok (None, k, st))"

end
