(* ===== verification/Key_Node_Facts.thy ===== *)
theory Key_Node_Facts
  imports Key_Nodes
begin

text \<open>
  What holds of the operations on key nodes: parsing a key cell reads back what was written, reading a
  key changes the state in one field only and does not panic, and the lists of deleted and
  modified items a key gets are ordered.
\<close>

section \<open>The bytes of a key cell\<close>

record nk_data =
  nk_flags :: u16
  nk_written :: u64
  nk_access :: u32
  nk_parent :: i32
  nk_n_sub :: u32
  nk_n_vol :: u32
  nk_sub_list :: u32
  nk_vol_list :: i32
  nk_n_values :: u32
  nk_values_list :: i32
  nk_security :: u32
  nk_class_off :: i32
  nk_l_sub :: u32
  nk_l_class :: u32
  nk_l_vname :: u32
  nk_l_vdata :: u32
  nk_work :: u32
  nk_class_size :: u16
  nk_name :: bytes
  nk_slack :: bytes

definition nk_bytes :: "i32 \<Rightarrow> nk_data \<Rightarrow> bytes" where
  "nk_bytes sz d =
     to_le_bytes sz @ bytes_of ''nk'' @ to_le_bytes (nk_flags d) @ to_le_bytes (nk_written d) @
     to_le_bytes (nk_access d) @ to_le_bytes (nk_parent d) @ to_le_bytes (nk_n_sub d) @
     to_le_bytes (nk_n_vol d) @ to_le_bytes (nk_sub_list d) @ to_le_bytes (nk_vol_list d) @
     to_le_bytes (nk_n_values d) @ to_le_bytes (nk_values_list d) @ to_le_bytes (nk_security d) @
     to_le_bytes (nk_class_off d) @ to_le_bytes (nk_l_sub d) @ to_le_bytes (nk_l_class d) @
     to_le_bytes (nk_l_vname d) @ to_le_bytes (nk_l_vdata d) @ to_le_bytes (nk_work d) @
     to_le_bytes (of_nat (length (nk_name d)) :: u16) @ to_le_bytes (nk_class_size d) @
     nk_name d @ nk_slack d"

lemma length_nk_bytes: "length (nk_bytes sz d) = 80 + length (nk_name d) + length (nk_slack d)"
  by (simp add: nk_bytes_def)

text \<open>The fields of a key as the reader left them, beside its name.\<close>

definition key_fields :: "CellKeyNode \<Rightarrow> nk_data" where
  "key_fields k = (let d = kn_detail (kn k) in
     \<lparr>nk_flags = field_value (knd_key_node_flag_bits d),
      nk_written = field_value (knd_last_key_written_date_and_time d),
      nk_access = field_value (knd_access_flag_bits d),
      nk_parent = field_value (knd_parent_key_offset_relative d),
      nk_n_sub = field_value (knd_number_of_sub_keys d),
      nk_n_vol = field_value (knd_number_of_volatile_sub_keys d),
      nk_sub_list = field_value (knd_sub_keys_list_offset_relative d),
      nk_vol_list = field_value (knd_volatile_sub_keys_list_offset_relative d),
      nk_n_values = field_value (knd_number_of_key_values d),
      nk_values_list = field_value (knd_key_values_list_offset_relative d),
      nk_security = field_value (knd_security_key_offset_relative d),
      nk_class_off = field_value (knd_class_name_offset_relative d),
      nk_l_sub = field_value (knd_largest_sub_key_name_size d),
      nk_l_class = field_value (knd_largest_sub_key_class_name_size d),
      nk_l_vname = field_value (knd_largest_value_name_size d),
      nk_l_vdata = field_value (knd_largest_value_data_size d),
      nk_work = field_value (knd_work_var d),
      nk_class_size = field_value (knd_class_name_size d),
      nk_name = [],
      nk_slack = field_value (knd_slack d)\<rparr>)"

lemma key_fieldsD:
  assumes "key_fields k = d\<lparr>nk_name := []\<rparr>"
  shows "field_value (knd_key_node_flag_bits (kn_detail (kn k))) = nk_flags d"
    and "field_value (knd_last_key_written_date_and_time (kn_detail (kn k))) = nk_written d"
    and "field_value (knd_parent_key_offset_relative (kn_detail (kn k))) = nk_parent d"
    and "field_value (knd_number_of_sub_keys (kn_detail (kn k))) = nk_n_sub d"
    and "field_value (knd_sub_keys_list_offset_relative (kn_detail (kn k))) = nk_sub_list d"
    and "field_value (knd_number_of_key_values (kn_detail (kn k))) = nk_n_values d"
    and "field_value (knd_key_values_list_offset_relative (kn_detail (kn k))) = nk_values_list d"
    and "field_value (knd_security_key_offset_relative (kn_detail (kn k))) = nk_security d"
    and "field_value (knd_slack (kn_detail (kn k))) = nk_slack d"
  using assms by (cases d; simp add: key_fields_def Let_def)+

lemma nk_cell_parse:
  assumes "nom_spec N" and "length (nk_name d) < 2 ^ 16"
    and "unat (unsigned_abs sz) = 80 + length (nk_name d) + length (nk_slack d)"
    and "nk_flags d AND KeyNodeFlags_all = nk_flags d"
    and "name_ok (flags_contain (nk_flags d) KEY_COMP_NAME) cs"
    and "nk_name d = name_bytes (flags_contain (nk_flags d) KEY_COMP_NAME) cs"
  shows "\<exists>k. CellKeyNode_from_bytes N st (nk_bytes sz d @ rest) off cur_path seq = Ok (rest, k) \<and>
    key_fields k = d\<lparr>nk_name := []\<rparr> \<and>
    field_value (knd_size (kn_detail (kn k))) = sz \<and>
    field_value (knd_signature (kn_detail (kn k))) = ''nk'' \<and>
    unat (field_value (knd_key_name_size (kn_detail (kn k)))) = length (nk_name d) \<and>
    kn_key_name (kn k) = utf8 cs \<and> kn_path (kn k) = cur_path @ backslash # utf8 cs \<and>
    kn_file_offset_absolute (kn k) = off \<and> kn_slack_offset_absolute k = off + 80 + length (nk_name d) \<and>
    kn_hash (kn k) = Some (CellKeyNode_hash N (nk_flags d) (nk_written d) (nk_access d)) \<and>
    kn_cell_state (kn k) = Allocated \<and> kn_sequence_num (kn k) = seq \<and> kn_updated_by_sequence_num (kn k) = None \<and>
    kn_sub_values (kn k) = [] \<and> cell_sub_key_offsets_absolute (kn k) = [] \<and> kn_logs (kn k) = Logs_default"
proof -
  have n: "unat (of_nat (length (nk_name d)) :: u16) = length (nk_name d)"
    using assms(2) by (intro unat_of_nat_less) simp
  have cs: "kn_check_size sz (length (nk_bytes sz d @ rest) - 4 + 4)"
    by (simp add: kn_check_size_def Let_def assms(3) MIN_CELL_KEY_SIZE_def length_nk_bytes)
  have fl: "KeyNodeFlags_from_bits_checked (nk_flags d) Logs_default = (nk_flags d, Logs_default)"
    by (simp add: KeyNodeFlags_from_bits_checked_def from_bits_checked_def assms(4))
  have eat: "parser_eat_remaining N (nk_slack d @ rest) (unsigned_abs sz) (80 + length (nk_name d)) =
      Ok (rest, nk_slack d)"
    using assms(1,3)
    by (cases "nk_slack d = []") (simp_all add: parser_eat_remaining_def nom_spec.take doc_Ok)
  have nm: "string_from_bytes (flags_contain (nk_flags d) KEY_COMP_NAME) (nk_name d) (of_nat (length (nk_name d))) l x = Ok (utf8 cs, l)" for l x
    using string_from_name_bytes [OF assms(5)] assms(2,6) by simp
  show ?thesis
    using cs eat assms(3)
    unfolding CellKeyNode_from_bytes_def nk_bytes_def
    by (simp add: Let_def nom_spec.le_i32 [OF assms(1)] nom_spec.tag [OF assms(1)]
        nom_spec.le_u16 [OF assms(1)] nom_spec.le_u32 [OF assms(1)] nom_spec.le_u64 [OF assms(1)]
        nom_spec.take [OF assms(1)] doc_Ok lit_len n fl nm ptr_diff_def key_fields_def
        kn_slack_offset_absolute_def kn_get_cell_size_def cong: bindO_weak_cong)
qed

text \<open>The case of a compressed name, its bytes the characters.\<close>

lemma nk_parse:
  assumes "nom_spec N" and "length (nk_name d) < 2 ^ 16"
    and "unat (unsigned_abs sz) = 80 + length (nk_name d) + length (nk_slack d)"
    and "flags_contain (nk_flags d) KEY_COMP_NAME" and "nk_flags d AND KeyNodeFlags_all = nk_flags d"
  shows "\<exists>k. CellKeyNode_from_bytes N st (nk_bytes sz d @ rest) off cur_path seq = Ok (rest, k) \<and>
    kn_key_name (kn k) = utf8 (map unat (nk_name d)) \<and>
    kn_path (kn k) = cur_path @ backslash # utf8 (map unat (nk_name d)) \<and>
    field_value (knd_key_node_flag_bits (kn_detail (kn k))) = nk_flags d \<and>
    field_value (knd_parent_key_offset_relative (kn_detail (kn k))) = nk_parent d \<and>
    field_value (knd_number_of_sub_keys (kn_detail (kn k))) = nk_n_sub d \<and>
    field_value (knd_sub_keys_list_offset_relative (kn_detail (kn k))) = nk_sub_list d \<and>
    field_value (knd_number_of_key_values (kn_detail (kn k))) = nk_n_values d \<and>
    field_value (knd_key_values_list_offset_relative (kn_detail (kn k))) = nk_values_list d \<and>
    field_value (knd_security_key_offset_relative (kn_detail (kn k))) = nk_security d \<and>
    field_value (knd_slack (kn_detail (kn k))) = nk_slack d \<and>
    kn_slack_offset_absolute k = off + 80 + length (nk_name d) \<and>
    kn_hash (kn k) = Some (CellKeyNode_hash N (nk_flags d) (nk_written d) (nk_access d)) \<and>
    kn_logs (kn k) = Logs_default"
proof -
  obtain k where k: "CellKeyNode_from_bytes N st (nk_bytes sz d @ rest) off cur_path seq = Ok (rest, k)"
    "key_fields k = d\<lparr>nk_name := []\<rparr>" "kn_key_name (kn k) = utf8 (map unat (nk_name d))"
    "kn_path (kn k) = cur_path @ backslash # utf8 (map unat (nk_name d))"
    "kn_slack_offset_absolute k = off + 80 + length (nk_name d)"
    "kn_hash (kn k) = Some (CellKeyNode_hash N (nk_flags d) (nk_written d) (nk_access d))" "kn_logs (kn k) = Logs_default"
    using nk_cell_parse [OF assms(1-3,5), of "map unat (nk_name d)" st rest off cur_path seq] assms(4)
      name_ok_compressed [of "nk_name d"] by auto
  with key_fieldsD [OF k(2)] show ?thesis by simp
qed

text \<open>
  C26: a key cell is read back, with a compressed name or a UTF-16 name: every field is the one written
  (the flags, the time of the last write, the access bits, all counts, offsets and largest sizes,
  the class name, the slack), as are the size, the signature and the length of the name; the name
  is the text written, the path is that of the parent with the name behind it, the hash covers the
  flags, the time and the access bits, and the slack starts behind the name.  The flags are ones
  the program knows and the size is that of the cell.
\<close>

theorem key_cell_roundtrip:
  assumes "nom_spec N" and "length (nk_name d) < 2 ^ 16"
    and "unat (unsigned_abs sz) = 80 + length (nk_name d) + length (nk_slack d)"
    and "nk_flags d AND KeyNodeFlags_all = nk_flags d"
    and "name_ok (flags_contain (nk_flags d) KEY_COMP_NAME) cs"
    and "nk_name d = name_bytes (flags_contain (nk_flags d) KEY_COMP_NAME) cs"
  shows "\<exists>k. CellKeyNode_from_bytes N st (nk_bytes sz d @ rest) off cur_path seq = Ok (rest, k) \<and>
    key_fields k = d\<lparr>nk_name := []\<rparr> \<and>
    field_value (knd_size (kn_detail (kn k))) = sz \<and>
    field_value (knd_signature (kn_detail (kn k))) = ''nk'' \<and>
    unat (field_value (knd_key_name_size (kn_detail (kn k)))) = length (nk_name d) \<and>
    kn_key_name (kn k) = utf8 cs \<and> kn_path (kn k) = cur_path @ backslash # utf8 cs \<and>
    kn_file_offset_absolute (kn k) = off \<and> kn_slack_offset_absolute k = off + 80 + length (nk_name d) \<and>
    kn_hash (kn k) = Some (CellKeyNode_hash N (nk_flags d) (nk_written d) (nk_access d)) \<and>
    kn_cell_state (kn k) = Allocated \<and> kn_sequence_num (kn k) = seq \<and> kn_updated_by_sequence_num (kn k) = None \<and>
    kn_sub_values (kn k) = [] \<and> cell_sub_key_offsets_absolute (kn k) = [] \<and> kn_logs (kn k) = Logs_default"
  by (rule nk_cell_parse [OF assms])

section \<open>Reading a key does not panic\<close>

lemma string_from_bytes_total:
  "unat cnt \<le> length b \<Longrightarrow> \<exists>s l. string_from_bytes ascii b cnt logs d = Ok (s, l)"
  using utf16_string_total [of "unat cnt" b logs d]
  by (cases "from_ascii b logs d") (auto simp: string_from_bytes_def)

lemma safe_string_from_bytes:
  assumes "unat cnt \<le> length b"
  shows "safe (infallible (string_from_bytes ascii b cnt logs d))"
  using string_from_bytes_total [OF assms, of ascii logs d] by (elim exE) simp

context nom_spec
begin

lemma take_Ok_length: "nom_take N n i = Ok (j, b) \<Longrightarrow> length b = n"
  by (auto simp: take take_doc_eq_Ok)

lemma safe_eat_remaining [safe_intros]: "safe (parser_eat_remaining N i sz c)"
  by (simp add: parser_eat_remaining_def Let_def safe_nom)

lemma safe_CellKeyValue_from_bytes [safe_intros]: "safe (CellKeyValue_from_bytes N i off seq full)"
proof -
  have nm: "safe (infallible (if cnt = 0 then Ok ([], Logs_default)
      else string_from_bytes b nm cnt Logs_default ''value_name'') :: (nom_err, string \<times> Logs) outcome)"
    if "nom_take N (unat cnt) j = Ok (j', nm)" for b nm cnt j j'
    using take_Ok_length [OF that] by (simp add: safe_string_from_bytes)
  show ?thesis
    unfolding CellKeyValue_from_bytes_def Let_def
    apply (rule safe_bind_prod, rule safe_nom)
    apply (rule safe_if, rule safe_Err)
    apply (rule safe_bind_prod, rule safe_nom)+
    apply (rule safe_bind_prod)
     apply (rule nm, assumption)
    apply (rule safe_bind_prod, rule safe_eat_remaining)
    apply simp
    done
qed

lemma safe_CellKeyNode_from_bytes [safe_intros]: "safe (CellKeyNode_from_bytes N st i off cur seq)"
proof -
  have nm: "safe (infallible (string_from_bytes b nm cnt logs ''key_name_bytes'') :: (nom_err, string \<times> Logs) outcome)"
    if "nom_take N (unat cnt) j = Ok (j', nm)" for b nm cnt j j' logs
    using take_Ok_length [OF that] by (simp add: safe_string_from_bytes)
  show ?thesis
    unfolding CellKeyNode_from_bytes_def Let_def
      case_prod_beta [of _ "KeyNodeFlags_from_bits_checked _ _"]
    apply (rule safe_bind_prod, rule safe_nom)
    apply (rule safe_if, rule safe_Err)
    apply (rule safe_bind_prod, rule safe_nom)+
    apply (rule safe_bind_prod)
     apply (rule nm, assumption)
    apply (rule safe_bind_prod, rule safe_eat_remaining)
    apply simp
    done
qed

lemma safe_count_u32: "safe (nom_count_u32 N (nom_le_u32 N) n i)"
proof -
  have "fixed_width 4 (nom_le_u32 N) from_le_bytes"
    by (simp add: fixed_width_def le_u32 le_doc_def)
  from count_doc_fixed_total [OF this, of n i] show ?thesis
    by (simp add: safe_def count_u32)
qed

lemma safe_parse_key_values:
  assumes "sint list_off > 0" and "hbin_offset_absolute fi < 2 ^ 63"
  shows "safe (parse_key_values N fi n list_off)"
proof -
  have "usize_of_i32 list_off < 2 ^ 31"
    using assms(1) sint_less [of list_off] by (simp add: usize_of_i32_def)
  then have u: "usize_add (overflow_checks N) (usize_of_i32 list_off) (hbin_offset_absolute fi) =
      (Ok (usize_of_i32 list_off + hbin_offset_absolute fi) :: (nom_err, usize) outcome)"
    using assms(2) by (intro usize_add_no_overflow) simp
  show ?thesis
    unfolding parse_key_values_def u bindO.simps
    by (intro safe_bind safe_bind_prod safe_ok_or safe_nom safe_count_u32) (auto intro: safe_count_u32)
qed

lemma safe_read_values_loop: "safe (read_values_loop N fi full seq vs k)"
proof (induction vs arbitrary: k)
  case Nil
  then show ?case by simp
next
  case (Cons v vs)
  let ?off = "unat v + hbin_offset_absolute fi"
  show ?case
  proof (cases "length (buffer fi) \<le> ?off")
    case True
    then show ?thesis by (simp add: Let_def)
  next
    case False
    have "safe (CellKeyValue_from_bytes N (drop ?off (buffer fi)) ?off seq full)"
      by (rule safe_CellKeyValue_from_bytes)
    then show ?thesis
    proof (cases rule: safe_cases)
      case (Ok a)
      obtain v' where "CellKeyValue_read_value_bytes N fi (snd a) = Ok v'"
        using CellKeyValue_read_value_bytes_total by blast
      with Ok False Cons show ?thesis by (cases a) (simp add: Let_def)
    next
      case (Err e)
      with False show ?thesis by (simp add: Let_def)
    qed
  qed
qed

lemma safe_read_values:
  assumes "hbin_offset_absolute fi < 2 ^ 63"
  shows "safe (read_values N fi st seq k)"
proof (cases "sint (field_value (knd_key_values_list_offset_relative (kn_detail (kn k)))) > 0")
  case True
  define r where "r = parse_key_values N fi (field_value (knd_number_of_key_values (kn_detail (kn k))))
      (field_value (knd_key_values_list_offset_relative (kn_detail (kn k))))"
  have "safe r" unfolding r_def by (rule safe_parse_key_values [OF True assms])
  then show ?thesis
    unfolding read_values_def Let_def r_def [symmetric]
    by (cases rule: safe_cases) (auto simp: safe_read_values_loop)
next
  case False
  then show ?thesis by (simp add: read_values_def Let_def)
qed

lemma safe_read_from_slice:
  assumes "hbin_offset_absolute fi < 2 ^ 63"
    and "ro_filter opts = None \<or> \<not> Filter_is_valid (the (ro_filter opts))"
    and "\<not> ro_get_deleted_and_modified opts"
  shows "safe (read_from_slice N fuel fi st sl opts)"
proof -
  have f: "(case ro_filter opts of Some f \<Rightarrow> check_cell N f st k | None \<Rightarrow> Ok (FILTER_ITERATE_KEYS, st)) =
      Ok (FILTER_ITERATE_KEYS, st)" for k
    using assms(2) by (auto simp: check_cell_def split: option.splits)
  show ?thesis
    unfolding read_from_slice_def f
    using assms(1,3)
    by (auto simp: Let_def intro!: safe_bind_prod safe_bind safe_CellKeyNode_from_bytes safe_read_values)
qed

end

text \<open>
  C27: without a filter, and without the lists of recovered items, reading the key at any offset of any
  buffer ends with a key, with none, or with an error: no field of the cell and no value below it
  can make it panic.
\<close>

theorem reading_a_key_never_panics:
  assumes "nom_spec N" and "hbin_offset_absolute fi < 2 ^ 63"
    and "ro_filter opts = None \<or> \<not> Filter_is_valid (the (ro_filter opts))"
    and "\<not> ro_get_deleted_and_modified opts"
  shows "CellKeyNode_read N fuel fi st opts \<noteq> Panic \<and> CellKeyNode_read N fuel fi st opts \<noteq> Diverge"
proof -
  have "safe (CellKeyNode_read N fuel fi st opts)"
    unfolding CellKeyNode_read_def
    by (intro safe_bind safe_ok_or nom_spec.safe_read_from_slice [OF assms])
  then show ?thesis by (simp add: safe_def)
qed

section \<open>What reading changes in the state\<close>

definition same_but_root :: "State \<Rightarrow> State \<Rightarrow> bool" where
  "same_but_root st st' \<longleftrightarrow> st' = st\<lparr>root_key_path_offset := root_key_path_offset st'\<rparr>"

lemma same_but_root_refl [simp]: "same_but_root st st"
  by (simp add: same_but_root_def)

lemma same_but_root_trans: "same_but_root a b \<Longrightarrow> same_but_root b c \<Longrightarrow> same_but_root a c"
  unfolding same_but_root_def by (metis State.surjective State.update_convs(1))

lemma check_cell_state: "check_cell N f st k = Ok (fl, st') \<Longrightarrow> same_but_root st st'"
  by (auto simp: check_cell_def match_cell_def match_key_def State_get_root_path_offset_def
      same_but_root_def bindO_eq_Ok Let_def split: if_splits option.splits)

lemma read_from_slice_state:
  "read_from_slice N fuel fi st sl opts = Ok (r, st') \<Longrightarrow> same_but_root st st'"
  by (auto simp: read_from_slice_def bindO_eq_Ok Let_def dest!: check_cell_state
      split: if_splits option.splits)

lemma read_state: "CellKeyNode_read N fuel fi st opts = Ok (r, st') \<Longrightarrow> same_but_root st st'"
  by (auto simp: CellKeyNode_read_def bindO_eq_Ok dest: read_from_slice_state)

lemma sub_keys_loop_state:
  "sub_keys_loop N fuel fi flt m sf seq dm vs k st cs fk = Ok (r, b, k', st') \<Longrightarrow> same_but_root st st'"
proof (induction vs arbitrary: k st cs fk)
  case Nil
  then show ?case by simp
next
  case (Cons v vs)
  show ?case
    using Cons.prems
    by (auto split: outcome.splits option.splits prod.splits
        dest: Cons.IH intro: same_but_root_trans [OF read_state])
qed

section \<open>Witnesses\<close>

definition sample_nk :: nk_data where
  "sample_nk =
     \<lparr>nk_flags = 0x20, nk_written = 0, nk_access = 0, nk_parent = 0, nk_n_sub = 0, nk_n_vol = 0, nk_sub_list = 0,
      nk_vol_list = 0, nk_n_values = 0, nk_values_list = 0, nk_security = 0, nk_class_off = 0, nk_l_sub = 0,
      nk_l_class = 0, nk_l_vname = 0, nk_l_vdata = 0, nk_work = 0, nk_class_size = 0, nk_name = [0x61],
      nk_slack = [0, 0, 0, 0, 0, 0, 0]\<rparr>"

text \<open>A key with the UTF-16 name of the letter a and a character outside the Basic Multilingual Plane.\<close>

definition wide_nk :: nk_data where
  "wide_nk = sample_nk\<lparr>nk_flags := 0, nk_written := 77, nk_name := utf16_bytes [0x61, 0xD801, 0xDC37], nk_slack := [1, 2]\<rparr>"

theorem key_cell_roundtrip_witness:
  "\<exists>k. CellKeyNode_from_bytes env_ref State_default (nk_bytes (- 88) wide_nk @ [1, 2]) 100 ''p'' None = Ok ([1, 2], k) \<and>
     kn_key_name (kn k) = utf8 [0x61, 0x10437] \<and> kn_slack_offset_absolute k = 186 \<and>
     field_value (knd_last_key_written_date_and_time (kn_detail (kn k))) = 77"
proof -
  have c: "flags_contain (nk_flags wide_nk) KEY_COMP_NAME = False" "nk_flags wide_nk AND KeyNodeFlags_all = nk_flags wide_nk"
    by (simp_all add: wide_nk_def flags_contain_def KEY_COMP_NAME_def)
  have l: "length (nk_name wide_nk) < 2 ^ 16" "length (nk_name wide_nk) = 6"
    "unat (unsigned_abs (- 88)) = 80 + length (nk_name wide_nk) + length (nk_slack wide_nk)"
    by (simp_all add: wide_nk_def unsigned_abs_def)
  have n: "name_ok (flags_contain (nk_flags wide_nk) KEY_COMP_NAME) [0x61, 0x10437]"
    "nk_name wide_nk = name_bytes (flags_contain (nk_flags wide_nk) KEY_COMP_NAME) [0x61, 0x10437]"
    unfolding c
    by (simp_all add: wide_nk_def name_bytes_def name_ok_def is_scalar_def encode_utf16_def encode_utf16_char_def)
  obtain k where "CellKeyNode_from_bytes env_ref State_default (nk_bytes (- 88) wide_nk @ [1, 2]) 100 ''p'' None = Ok ([1, 2], k)"
    "kn_key_name (kn k) = utf8 [0x61, 0x10437]" "kn_slack_offset_absolute k = 186" "key_fields k = wide_nk\<lparr>nk_name := []\<rparr>"
    using key_cell_roundtrip [OF ref_nom.nom_spec_axioms l(1,3) c(2) n, of State_default "[1, 2]" 100 "''p''" None]
    by (auto simp: l(2))
  with key_fieldsD(2) [of k wide_nk] show ?thesis by (auto simp: wide_nk_def)
qed

theorem reading_a_key_never_panics_witness:
  "CellKeyNode_read env_ref 0 \<lparr>hbin_offset_absolute = 0, buffer = [1, 2, 3]\<rparr> State_default
     \<lparr>ro_offset = 1, ro_cur_path = [], ro_filter = None, ro_self_is_filter_match_or_descendent = True,
      ro_sequence_num = None, ro_get_deleted_and_modified = False\<rparr> \<noteq> Panic"
  using reading_a_key_never_panics [OF ref_nom.nom_spec_axioms, of "\<lparr>hbin_offset_absolute = 0, buffer = [1, 2, 3]\<rparr>"
    "\<lparr>ro_offset = 1, ro_cur_path = [], ro_filter = None, ro_self_is_filter_match_or_descendent = True,
      ro_sequence_num = None, ro_get_deleted_and_modified = False\<rparr>" 0 State_default]
  by simp

end
