(* ===== verification/Base_Block.thy ===== *)
theory Base_Block
  imports Hive_File
begin

text \<open>
  The base block of a primary file and of a transaction log (\<open>src/src/base_block.rs\<close>): the parsers of
  its two parts and the XOR-32 checksum.  The primary file's block takes 4096 bytes, the part it
  shares with a log 512, and the checksum guards the 508 bytes before it.
\<close>

section \<open>Data\<close>

datatype FileType = FT_Primary | FT_TransactionLog | FT_TransactionLogNewFormat | FT_Unknown

datatype FileFormat = FF_DirectMemoryLoad | FF_Unknown

datatype FileBaseBlockReservedFlags = RF_None | RF_KtmLockedHive | RF_Ktm2 | RF_Unknown

text \<open>The conversions that the derive macro makes from the discriminants of the enums, and the
  \<open>from_value\<close> of the macro \<open>impl_enum_from_value\<close>.\<close>

definition FileType_from_u32 :: "u32 \<Rightarrow> FileType option" where
  "FileType_from_u32 v =
     (if v = 0 then Some FT_Primary
      else if v = 1 then Some FT_TransactionLog
      else if v = 6 then Some FT_TransactionLogNewFormat
      else if v = 0x0fffffff then Some FT_Unknown
      else None)"

definition FileFormat_from_u32 :: "u32 \<Rightarrow> FileFormat option" where
  "FileFormat_from_u32 v =
     (if v = 1 then Some FF_DirectMemoryLoad else if v = 0x0fffffff then Some FF_Unknown else None)"

definition ReservedFlags_from_u32 :: "u32 \<Rightarrow> FileBaseBlockReservedFlags option" where
  "ReservedFlags_from_u32 v =
     (if v = 0 then Some RF_None
      else if v = 1 then Some RF_KtmLockedHive
      else if v = 2 then Some RF_Ktm2
      else if v = 0x0fffffff then Some RF_Unknown
      else None)"

definition enum_from_value :: "(u32 \<Rightarrow> 'a option) \<Rightarrow> 'a \<Rightarrow> string \<Rightarrow> u32 \<Rightarrow> Logs \<Rightarrow> 'a \<times> Logs" where
  "enum_from_value from_u32 unknown enum_type v logs =
     (case from_u32 v of
        Some x \<Rightarrow> (x, logs)
      | None \<Rightarrow> (unknown, Logs_add logs WarningConversion (''Unrecognized '' @ enum_type @ '' value'')))"

definition FileType_from_value :: "u32 \<Rightarrow> Logs \<Rightarrow> FileType \<times> Logs" where
  "FileType_from_value = enum_from_value FileType_from_u32 FT_Unknown ''FileType''"

definition FileFormat_from_value :: "u32 \<Rightarrow> Logs \<Rightarrow> FileFormat \<times> Logs" where
  "FileFormat_from_value = enum_from_value FileFormat_from_u32 FF_Unknown ''FileFormat''"

definition ReservedFlags_from_value :: "u32 \<Rightarrow> Logs \<Rightarrow> FileBaseBlockReservedFlags \<times> Logs" where
  "ReservedFlags_from_value =
     enum_from_value ReservedFlags_from_u32 RF_Unknown ''FileBaseBlockReservedFlags''"

record BaseBlockBase =
  primary_sequence_number :: u32
  secondary_sequence_number :: u32
  last_modification_date_and_time :: DateTime
  major_version :: u32
  minor_version :: u32
  file_type :: FileType
  format :: FileFormat
  root_cell_offset_relative :: i32
  hive_bins_data_size :: u32
  clustering_factor :: u32
  bbb_filename :: string
  bbb_unk2 :: bytes
  checksum :: u32
  bbb_logs :: Logs

definition CHECKSUM_OFFSET :: usize where "CHECKSUM_OFFSET = 508"
definition BASE_BLOCK_LEN :: usize where "BASE_BLOCK_LEN = 512"

record FileBaseBlockReserved =
  rm_id :: Guid
  log_id :: Guid
  reserved_flags :: FileBaseBlockReservedFlags
  tm_id :: Guid
  reserved_signature :: u32
  last_reorganized_timestamp :: DateTime
  reserved_remaining :: bytes
  reserved_logs :: Logs

record BaseBlockExtended =
  reserved :: FileBaseBlockReserved
  boot_type :: u32
  boot_recover :: u32

record BaseBlock =
  base :: BaseBlockBase
  ext :: BaseBlockExtended

section \<open>Parsers\<close>

definition BaseBlockBase_from_bytes :: "'z env_scheme \<Rightarrow> BaseBlockBase parser" where
  "BaseBlockBase_from_bytes N input =
     bindO (nom_tag N ''regf'' input) (\<lambda>(input, _).
     bindO (nom_le_u32 N input) (\<lambda>(input, primary_seq).
     bindO (nom_le_u32 N input) (\<lambda>(input, secondary_seq).
     bindO (nom_le_u64 N input) (\<lambda>(input, last_modification).
     bindO (nom_le_u32 N input) (\<lambda>(input, major).
     bindO (nom_le_u32 N input) (\<lambda>(input, minor).
     bindO (nom_le_u32 N input) (\<lambda>(input, file_type_bytes).
     bindO (nom_le_u32 N input) (\<lambda>(input, format_bytes).
     bindO (nom_le_i32 N input) (\<lambda>(input, root_cell).
     bindO (nom_le_u32 N input) (\<lambda>(input, data_size).
     bindO (nom_le_u32 N input) (\<lambda>(input, clustering).
     bindO (nom_take_streaming N 64 input) (\<lambda>(input, filename_bytes).
     bindO (nom_take_streaming N 396 input) (\<lambda>(input, unk2).
     bindO (nom_le_u32 N input) (\<lambda>(input, csum).
     let (ft, logs) = FileType_from_value file_type_bytes Logs_default;
         (ff, logs) = FileFormat_from_value format_bytes logs in
     bindO (infallible (from_utf16_le_string filename_bytes 64 logs ''Filename'')) (\<lambda>(filename, logs).
     Ok (input,
         \<lparr>primary_sequence_number = primary_seq,
          secondary_sequence_number = secondary_seq,
          last_modification_date_and_time = get_date_time_from_filetime last_modification,
          major_version = major,
          minor_version = minor,
          file_type = ft,
          format = ff,
          root_cell_offset_relative = root_cell,
          hive_bins_data_size = data_size,
          clustering_factor = clustering,
          bbb_filename = filename,
          bbb_unk2 = unk2,
          checksum = csum,
          bbb_logs = logs\<rparr>))))))))))))))))"

definition FileBaseBlockReserved_from_bytes :: "'z env_scheme \<Rightarrow> FileBaseBlockReserved parser" where
  "FileBaseBlockReserved_from_bytes N input =
     bindO (nom_take_streaming N 16 input) (\<lambda>(input, rm).
     bindO (nom_take_streaming N 16 input) (\<lambda>(input, lg).
     bindO (nom_le_u32 N input) (\<lambda>(input, flags).
     bindO (nom_take_streaming N 16 input) (\<lambda>(input, tm).
     bindO (nom_le_u32 N input) (\<lambda>(input, sig).
     bindO (nom_le_u64 N input) (\<lambda>(input, last_reorganized).
     bindO (nom_take_streaming N 3512 input) (\<lambda>(input, remaining).
     bindO (infallible (get_guid_from_buffer N rm Logs_default :: (Guid \<times> Logs) result)) (\<lambda>(rm, logs).
     bindO (infallible (get_guid_from_buffer N lg logs :: (Guid \<times> Logs) result)) (\<lambda>(lg, logs).
     let (fl, logs) = ReservedFlags_from_value flags logs in
     bindO (infallible (get_guid_from_buffer N tm logs :: (Guid \<times> Logs) result)) (\<lambda>(tm, logs).
     Ok (input,
         \<lparr>rm_id = rm,
          log_id = lg,
          reserved_flags = fl,
          tm_id = tm,
          reserved_signature = sig,
          last_reorganized_timestamp = get_date_time_from_filetime last_reorganized,
          reserved_remaining = remaining,
          reserved_logs = logs\<rparr>)))))))))))"

definition BaseBlockExtended_from_bytes :: "'z env_scheme \<Rightarrow> BaseBlockExtended parser" where
  "BaseBlockExtended_from_bytes N input =
     bindO (FileBaseBlockReserved_from_bytes N input) (\<lambda>(input, res).
     bindO (nom_le_u32 N input) (\<lambda>(input, bt).
     bindO (nom_le_u32 N input) (\<lambda>(input, br).
     Ok (input, \<lparr>reserved = res, boot_type = bt, boot_recover = br\<rparr>))))"

definition BaseBlock_from_bytes :: "'z env_scheme \<Rightarrow> BaseBlock parser" where
  "BaseBlock_from_bytes N input =
     bindO (BaseBlockBase_from_bytes N input) (\<lambda>(input, b).
     bindO (BaseBlockExtended_from_bytes N input) (\<lambda>(input, e).
     Ok (input, \<lparr>base = b, ext = e\<rparr>)))"

section \<open>The checksum\<close>

function checksum_loop :: "bytes \<Rightarrow> usize \<Rightarrow> u32 \<Rightarrow> u32 result" where
  "checksum_loop bs index xsum =
     (if index \<le> 0x01FB then
        bindO (ok_or (Error_buffer ''calculate_checksum'') (get_range bs index (index + 4))) (\<lambda>sl.
          checksum_loop bs (index + 4) (xsum XOR from_le_bytes sl))
      else Ok xsum)"
  by pat_completeness auto
termination
  by (relation "measure (\<lambda>(bs, index, xsum). 0x01FC - index)") auto

declare checksum_loop.simps [simp del]

definition calculate_checksum :: "bytes \<Rightarrow> u32 result" where
  "calculate_checksum bs =
     bindO (checksum_loop bs 0 0) (\<lambda>xsum.
       Ok (if xsum = 0 then 1 else if xsum = 0xFFFFFFFF then 0xFFFFFFFE else xsum))"

section \<open>What the parsers take\<close>

definition guid_total :: "'z env_scheme \<Rightarrow> bool" where
  "guid_total N \<longleftrightarrow> (\<exists>g. guid_from_buffer N (replicate 16 0) = Inr g)"

lemma get_guid_total:
  "guid_total N \<Longrightarrow> \<exists>g l. get_guid_from_buffer N b logs = Ok (g, l)"
  by (auto simp: guid_total_def get_guid_from_buffer_def split: sum.splits)

lemma get_guid_no_error: "get_guid_from_buffer N b logs \<noteq> Err e \<and> get_guid_from_buffer N b logs \<noteq> Diverge"
  by (simp add: get_guid_from_buffer_def split: sum.splits)

lemma from_utf16_le_string_total:
  assumes "count \<le> length sl"
  shows "\<exists>s l. from_utf16_le_string sl count logs d = Ok (s, l)"
  using assms by (simp add: from_utf16_le_string_def from_utf16_le_string_single_eq Let_def)

context nom_spec
begin

lemma base_block_base_Ok:
  assumes "512 \<le> length input" and "take 4 input = bytes_of ''regf''"
  shows "\<exists>b. BaseBlockBase_from_bytes N input = Ok (drop 512 input, b) \<and>
    primary_sequence_number b = from_le_bytes (take 4 (drop 4 input)) \<and>
    secondary_sequence_number b = from_le_bytes (take 4 (drop 8 input)) \<and>
    hive_bins_data_size b = from_le_bytes (take 4 (drop 40 input)) \<and>
    root_cell_offset_relative b = from_le_bytes (take 4 (drop 36 input)) \<and>
    file_type b = fst (FileType_from_value (from_le_bytes (take 4 (drop 28 input))) Logs_default) \<and>
    checksum b = from_le_bytes (take 4 (drop 508 input))"
proof -
  obtain ft l1 where l1: "FileType_from_value (from_le_bytes (take 4 (drop 28 input))) Logs_default = (ft, l1)"
    by (cases "FileType_from_value (from_le_bytes (take 4 (drop 28 input))) Logs_default")
  obtain ff l2 where l2: "FileFormat_from_value (from_le_bytes (take 4 (drop 32 input))) l1 = (ff, l2)"
    by (cases "FileFormat_from_value (from_le_bytes (take 4 (drop 32 input))) l1")
  obtain fn l3 where l3: "from_utf16_le_string (take 64 (drop 48 input)) 64 l2 ''Filename'' = Ok (fn, l3)"
    using from_utf16_le_string_total [of 64 "take 64 (drop 48 input)" l2 "''Filename''"] assms(1) by auto
  show ?thesis
    using assms l1 l2 l3
    by (simp add: BaseBlockBase_from_bytes_def nom_simps doc_Ok lit_len cong: bindO_weak_cong)
qed

lemma reserved_Ok:
  assumes "guid_total N" and "3576 \<le> length input"
  shows "\<exists>r. FileBaseBlockReserved_from_bytes N input = Ok (drop 3576 input, r)"
proof -
  obtain g1 l1 where g1: "get_guid_from_buffer N (take 16 input) Logs_default = Ok (g1, l1)"
    using get_guid_total [OF assms(1)] by blast
  obtain g2 l2 where g2: "get_guid_from_buffer N (take 16 (drop 16 input)) l1 = Ok (g2, l2)"
    using get_guid_total [OF assms(1)] by blast
  obtain fl l3 where f: "ReservedFlags_from_value (from_le_bytes (take 4 (drop 32 input))) l2 = (fl, l3)"
    by fastforce
  obtain g3 l4 where g3: "get_guid_from_buffer N (take 16 (drop 36 input)) l3 = Ok (g3, l4)"
    using get_guid_total [OF assms(1)] by blast
  show ?thesis
    using assms(2) g1 g2 f g3
    by (simp add: FileBaseBlockReserved_from_bytes_def nom_simps doc_Ok cong: bindO_weak_cong)
qed

lemma base_block_Ok:
  assumes "guid_total N" and "4096 \<le> length input" and "take 4 input = bytes_of ''regf''"
  shows "\<exists>b. BaseBlock_from_bytes N input = Ok (drop 4096 input, b)"
proof -
  obtain b where b: "BaseBlockBase_from_bytes N input = Ok (drop 512 input, b)"
    using base_block_base_Ok [of input] assms(2,3) by auto
  have "3576 \<le> length (drop 512 input)" using assms(2) by simp
  then obtain r where r: "FileBaseBlockReserved_from_bytes N (drop 512 input) = Ok (drop 4088 input, r)"
    using reserved_Ok [OF assms(1), of "drop 512 input"] by auto
  show ?thesis
    using b r assms(2)
    by (simp add: BaseBlock_from_bytes_def BaseBlockExtended_from_bytes_def nom_simps doc_Ok
        cong: bindO_weak_cong)
qed

lemma consumes_BaseBlockBase: "consumes 512 (BaseBlockBase_from_bytes N)"
  unfolding BaseBlockBase_from_bytes_def Let_def case_prod_beta [of _ "FileType_from_value _ _"]
    case_prod_beta [of _ "FileFormat_from_value _ _"]
  by (rule consumes_bind, rule consumes_nom, simp)+
    (rule consumes_pure_pair, rule consumes_return, simp)

lemma consumes_Reserved: "consumes 3576 (FileBaseBlockReserved_from_bytes N)"
  unfolding FileBaseBlockReserved_from_bytes_def Let_def
    case_prod_beta [of _ "ReservedFlags_from_value _ _"]
  by (rule consumes_bind, rule consumes_nom, simp)+
    ((rule consumes_pure_pair)+, rule consumes_return, simp)

lemma consumes_Extended: "consumes 3584 (BaseBlockExtended_from_bytes N)"
  unfolding BaseBlockExtended_from_bytes_def
  by (rule consumes_bind, rule consumes_nom consumes_Reserved, simp)+ (rule consumes_return, simp)

lemma consumes_BaseBlock: "consumes 4096 (BaseBlock_from_bytes N)"
  unfolding BaseBlock_from_bytes_def
  by (rule consumes_bind, rule consumes_Extended consumes_BaseBlockBase, simp)+
    (rule consumes_return, simp)

end

section \<open>The layout of the base block\<close>

text \<open>The base block of a primary file takes exactly 4096 bytes: on an input that starts with the
  signature \<open>regf\<close> and has those bytes the parse succeeds (given that a \<open>Guid\<close> can be read from
  sixteen zero bytes, which the code relies on), and wherever it succeeds the input handed on is
  what follows the block.  The offset of the hive bins is computed from this difference.\<close>

theorem base_block_takes_4096:
  assumes "nom_spec N" and "guid_total N"
  shows "(4096 \<le> length input \<and> take 4 input = bytes_of ''regf'' \<longrightarrow>
      (\<exists>b. BaseBlock_from_bytes N input = Ok (drop 4096 input, b))) \<and>
    (\<forall>rest b. BaseBlock_from_bytes N input = Ok (rest, b) \<longrightarrow> ptr_diff input rest = 4096)"
  using nom_spec.base_block_Ok [OF assms] nom_spec.consumes_BaseBlock [OF assms(1), THEN consumesD]
  by (fastforce simp: ptr_diff_def)

text \<open>The part that a log shares with the primary file parses whenever the 512 bytes are there
  and start with the signature; the sequence numbers, the type of the file, the offset of the root
  cell, the size of the hive bins and the checksum are the little-endian words at their offsets.\<close>

theorem base_block_base_fields:
  assumes "nom_spec N" and "512 \<le> length input" and "take 4 input = bytes_of ''regf''"
  shows "\<exists>b. BaseBlockBase_from_bytes N input = Ok (drop 512 input, b) \<and>
    primary_sequence_number b = from_le_bytes (take 4 (drop 4 input)) \<and>
    secondary_sequence_number b = from_le_bytes (take 4 (drop 8 input)) \<and>
    hive_bins_data_size b = from_le_bytes (take 4 (drop 40 input)) \<and>
    root_cell_offset_relative b = from_le_bytes (take 4 (drop 36 input)) \<and>
    file_type b = fst (FileType_from_value (from_le_bytes (take 4 (drop 28 input))) Logs_default) \<and>
    checksum b = from_le_bytes (take 4 (drop 508 input))"
  by (rule nom_spec.base_block_base_Ok [OF assms])

section \<open>The checksum is the XOR of 127 words\<close>

definition word_at :: "bytes \<Rightarrow> nat \<Rightarrow> u32" where
  "word_at bs k = from_le_bytes (take 4 (drop (4 * k) bs))"

definition xor_words :: "u32 list \<Rightarrow> u32" where
  "xor_words ws = fold (XOR) ws 0"

lemma xor_words_snoc: "xor_words (ws @ [w]) = w XOR xor_words ws"
  by (simp add: xor_words_def)

lemma checksum_loop_Ok:
  assumes "508 \<le> length bs" and "k \<le> 127"
  shows "checksum_loop bs (4 * k) (xor_words (map (word_at bs) [0..<k])) =
    Ok (xor_words (map (word_at bs) [0..<127]))"
  using assms(2)
proof (induction "127 - k" arbitrary: k)
  case 0
  then have "k = 127" by simp
  then show ?case by (simp add: checksum_loop.simps [of bs 508])
next
  case (Suc m)
  then have k: "k < 127" by simp
  have "checksum_loop bs (4 * k) (xor_words (map (word_at bs) [0..<k])) =
    checksum_loop bs (4 * Suc k) (xor_words (map (word_at bs) [0..<k]) XOR word_at bs k)"
    using k assms(1)
    by (simp add: checksum_loop.simps [of bs "4 * k"] get_range_def word_at_def add.commute)
  also have "xor_words (map (word_at bs) [0..<k]) XOR word_at bs k =
    xor_words (map (word_at bs) [0..<Suc k])"
    by (simp add: xor_words_snoc xor.commute)
  also have "checksum_loop bs (4 * Suc k) \<dots> = Ok (xor_words (map (word_at bs) [0..<127]))"
    using Suc k by (intro Suc.hyps) simp_all
  finally show ?case .
qed

lemma checksum_loop_Err:
  assumes "length bs < 508" and "index \<le> length bs"
  shows "\<exists>e. checksum_loop bs index x = Err e"
  using assms(2)
proof (induction "length bs - index" arbitrary: index x rule: less_induct)
  case less
  show ?case
  proof (cases "index + 4 \<le> length bs")
    case True
    then have "\<exists>e. checksum_loop bs (index + 4) (x XOR from_le_bytes (take 4 (drop index bs))) = Err e"
      by (intro less.hyps) auto
    with True assms(1) show ?thesis
      by (simp add: checksum_loop.simps [of bs index] get_range_def)
  next
    case False
    with less.prems assms(1) show ?thesis
      by (simp add: checksum_loop.simps [of bs index] get_range_def)
  qed
qed

definition checksum_spec :: "bytes \<Rightarrow> u32" where
  "checksum_spec bs =
     (let x = xor_words (map (word_at bs) [0..<127])
      in if x = 0 then 1 else if x = - 1 then - 2 else x)"

text \<open>C30: The checksum of the base block is the XOR of its first 127 words, with the two values
  that may not occur moved to their neighbours; it fails exactly on fewer than 508 bytes, so it
  never panics, and its value is never \<open>0\<close> or \<open>0xFFFFFFFF\<close>.\<close>

theorem calculate_checksum_correct:
  "(if 508 \<le> length bs
    then calculate_checksum bs = Ok (checksum_spec bs) \<and> checksum_spec bs \<notin> {0, 0xFFFFFFFF}
    else (\<exists>e. calculate_checksum bs = Err e))"
proof (cases "508 \<le> length bs")
  case True
  have "checksum_loop bs 0 0 = Ok (xor_words (map (word_at bs) [0..<127]))"
    using checksum_loop_Ok [OF True, of 0] by (simp add: xor_words_def)
  with True show ?thesis
    by (simp add: calculate_checksum_def checksum_spec_def Let_def)
next
  case False
  then obtain e where "checksum_loop bs 0 0 = Err e"
    using checksum_loop_Err [of bs 0 0] by auto
  with False show ?thesis by (simp add: calculate_checksum_def)
qed

section \<open>Witnesses\<close>

lemma le_bytes_zeros: "from_le_bytes (replicate n 0) = 0"
  by (induction n) (auto simp: from_le_bytes_def)

definition base_block_sample :: bytes where
  "base_block_sample = bytes_of ''regf'' @ replicate 4092 0"

lemma base_block_sample_props:
  "length base_block_sample = 4096" "take 4 base_block_sample = bytes_of ''regf''"
  by (simp_all add: base_block_sample_def lit_len)

lemma env_ref_guid_total: "guid_total env_ref"
  by (simp add: guid_total_def env_ref_def)

theorem base_block_takes_4096_witness:
  "\<exists>b. BaseBlock_from_bytes env_ref base_block_sample = Ok ([], b)"
  using base_block_takes_4096 [OF ref_nom.nom_spec_axioms env_ref_guid_total, of base_block_sample]
  by (simp add: base_block_sample_props)

theorem base_block_base_fields_witness:
  "\<exists>b. BaseBlockBase_from_bytes env_ref base_block_sample = Ok (drop 512 base_block_sample, b) \<and>
    file_type b = FT_Primary"
  using base_block_base_fields [OF ref_nom.nom_spec_axioms, of base_block_sample]
  by (auto simp: base_block_sample_props)
    (auto simp: base_block_sample_def FileType_from_value_def enum_from_value_def
      FileType_from_u32_def le_bytes_zeros)

end
