(* ===== verification/Marvin32.thy ===== *)
theory Marvin32
  imports Diagnostics
begin

text \<open>
  The Marvin32 hash of \<open>src/src/marvin32.rs\<close>, which guards the entries of a transaction log.  The
  source walks over the data by index; the reference \<open>marvin_ref\<close> takes it four bytes at a time and
  pads the rest with the byte 0x80.
\<close>

section \<open>The source\<close>

definition marvin_block :: "u32 \<Rightarrow> u32 \<Rightarrow> u32 \<times> u32" where
  "marvin_block a b =
     (let b = b XOR a;
          a = word_rotl 20 a;
          a = a + b;
          b = word_rotl 9 b;
          b = b XOR a;
          a = word_rotl 27 a;
          a = a + b;
          b = word_rotl 19 b
      in (a, b))"

function marvin_loop ::
  "bytes \<Rightarrow> usize \<Rightarrow> usize \<Rightarrow> u32 \<Rightarrow> u32 \<Rightarrow> (usize \<times> usize \<times> u32 \<times> u32) result" where
  "marvin_loop data i dlen s0 s1 =
     (if dlen > 3 then
        bindO (index_range data i (i + 4)) (\<lambda>w.
        let s0 = s0 + from_le_bytes w; (s0, s1) = marvin_block s0 s1
        in marvin_loop data (i + 4) (dlen - 4) s0 s1)
      else Ok (i, dlen, s0, s1))"
  by pat_completeness auto
termination
  by (relation "measure (\<lambda>(data, i, dlen, s0, s1). dlen)") auto

declare marvin_loop.simps [simp del]

definition marvin_tail :: "bytes \<Rightarrow> usize \<Rightarrow> usize \<Rightarrow> u32 result" where
  "marvin_tail data i dlen =
     (if dlen = 0 then Ok 0x80
      else if dlen = 1 then
        bindO (index_at data i) (\<lambda>b. Ok (0x8000 OR ucast b))
      else if dlen = 2 then
        bindO (index_range data i (i + 2)) (\<lambda>w. Ok (0x800000 OR ucast (from_le_bytes w :: u16)))
      else if dlen = 3 then
        bindO (index_at data (i + 2)) (\<lambda>b.
        bindO (index_range data i (i + 2)) (\<lambda>w.
          Ok (0x80000000 OR push_bit 16 (ucast b) OR ucast (from_le_bytes w :: u16))))
      else Panic)"

definition marvin32 :: "u64 \<Rightarrow> bytes \<Rightarrow> usize \<Rightarrow> u64 result" where
  "marvin32 seed data dlen =
     (let s0 = ucast (seed AND 0xFFFFFFFF) :: u32; s1 = ucast (drop_bit 32 seed) :: u32 in
      bindO (marvin_loop data 0 dlen s0 s1) (\<lambda>(i, dlen, s0, s1).
      bindO (marvin_tail data i dlen) (\<lambda>t.
      let s0 = s0 + t;
          (s0, s1) = marvin_block s0 s1;
          (s0, s1) = marvin_block s0 s1
      in Ok (ucast s0 OR push_bit 32 (ucast s1)))))"

section \<open>The reference\<close>

fun marvin_absorb :: "bytes \<Rightarrow> u32 \<times> u32 \<Rightarrow> u32 \<times> u32" where
  "marvin_absorb (a # b # c # d # rest) (s0, s1) =
     marvin_absorb rest (marvin_block (s0 + from_le_bytes [a, b, c, d]) s1)"
| "marvin_absorb rest (s0, s1) =
     (let (s0, s1) = marvin_block (s0 + from_le_bytes (rest @ [0x80])) s1
      in marvin_block s0 s1)"

definition marvin_ref :: "u64 \<Rightarrow> bytes \<Rightarrow> u64" where
  "marvin_ref seed data =
     (let (s0, s1) = marvin_absorb data (ucast (seed AND 0xFFFFFFFF), ucast (drop_bit 32 seed))
      in ucast s0 OR push_bit 32 (ucast s1))"

section \<open>They agree\<close>

lemma marvin_loop_step:
  assumes "3 < dlen" and "i + 4 \<le> length data"
  shows "marvin_loop data i dlen s0 s1 =
    (let (t0, t1) = marvin_block (s0 + from_le_bytes (take 4 (drop i data))) s1
     in marvin_loop data (i + 4) (dlen - 4) t0 t1)"
  using assms by (subst marvin_loop.simps) (simp add: index_range_def Let_def)

lemma marvin_loop_short: "dlen \<le> 3 \<Longrightarrow> marvin_loop data i dlen s0 s1 = Ok (i, dlen, s0, s1)"
  by (subst marvin_loop.simps) simp

lemma marvin_loop_panic:
  "length data < i + dlen \<Longrightarrow> 3 < dlen \<Longrightarrow>
     marvin_loop data i dlen s0 s1 = Panic \<or>
     (\<exists>j k t0 t1. marvin_loop data i dlen s0 s1 = Ok (j, k, t0, t1) \<and> length data < j + k \<and> 0 < k \<and> k \<le> 3)"
proof (induction data i dlen s0 s1 rule: marvin_loop.induct)
  case (1 data i dlen s0 s1)
  show ?case
  proof (cases "i + 4 \<le> length data")
    case False
    then show ?thesis using "1.prems" by (subst marvin_loop.simps) (simp add: index_range_def)
  next
    case True
    obtain t0 t1 where b: "marvin_block (s0 + from_le_bytes (take 4 (drop i data))) s1 = (t0, t1)"
      by (cases "marvin_block (s0 + from_le_bytes (take 4 (drop i data))) s1") auto
    have st: "marvin_loop data i dlen s0 s1 = marvin_loop data (i + 4) (dlen - 4) t0 t1"
      using marvin_loop_step [OF _ True, of dlen s0 s1] "1.prems"(2) b by simp
    show ?thesis
    proof (cases "3 < dlen - 4")
      case long: True
      have "marvin_loop data (i + 4) (dlen - 4) t0 t1 = Panic \<or>
        (\<exists>j k u0 u1. marvin_loop data (i + 4) (dlen - 4) t0 t1 = Ok (j, k, u0, u1) \<and>
           length data < j + k \<and> 0 < k \<and> k \<le> 3)"
        using "1.prems" True long b
        by (intro "1.IH" [of "take 4 (drop i data)" "s0 + from_le_bytes (take 4 (drop i data))"
              "(t0, t1)" t0 t1]) (auto simp: index_range_def)
      then show ?thesis by (simp add: st)
    next
      case short: False
      then show ?thesis
        using "1.prems" True by (simp add: st marvin_loop_short)
    qed
  qed
qed

lemma marvin_tail_panic: "length data < i + k \<Longrightarrow> 0 < k \<Longrightarrow> marvin_tail data i k = Panic"
  by (auto simp: marvin_tail_def index_at_def index_range_def numeral_eq_Suc le_Suc_eq)

lemma push_bit_or_add:
  fixes x y :: "'a::len word"
  assumes "unat x < 2 ^ k"
  shows "push_bit k y OR x = push_bit k y + x"
proof -
  have "unat (take_bit k x) = unat x"
    using assms by (simp only: unsigned_take_bit_eq) (simp add: take_bit_nat_eq_self)
  then have t: "take_bit k x = x" by (simp only: unsigned_word_eqI)
  have "push_bit k y AND x = 0"
    by (subst t [symmetric], rule bit_word_eqI) (auto simp: bit_simps)
  then show ?thesis by (simp add: disjunctive_add_eq_or)
qed

lemma unat_ucast_u16: "unat (ucast (w :: u16) :: u32) = unat w"
  using unat_less [of w] by (simp only: unsigned_ucast_eq) (simp add: take_bit_nat_eq_self)

lemma unat_ucast_u8: "unat (ucast (w :: u8) :: u32) = unat w"
  using unat_less [of w] by (simp only: unsigned_ucast_eq) (simp add: take_bit_nat_eq_self)

lemma ucast_of_unat: "(ucast (w :: 'b::len word) :: 'a::len word) = of_nat (unat w)"
  by simp

lemma le16: "ucast (from_le_bytes [a, b] :: u16) = (of_nat (unat a + 256 * unat b) :: u32)"
  using unat_from_le_bytes [where ?'a = 16, of "[a, b]"] by (simp only: ucast_of_unat) simp

lemma marvin_tail_pad:
  assumes "length rest \<le> 3"
  shows "marvin_tail (pre @ rest @ post) (length pre) (length rest) = Ok (from_le_bytes (rest @ [0x80]))"
proof -
  consider "rest = []" | a where "rest = [a]" | a b where "rest = [a, b]"
    | a b c where "rest = [a, b, c]"
    using assms by (cases rest; cases "tl rest"; cases "tl (tl rest)") auto
  then show ?thesis
  proof cases
    case 1
    then show ?thesis by (simp add: marvin_tail_def from_le_bytes_def)
  next
    case (2 a)
    have "push_bit 8 0x80 OR ucast a = push_bit 8 0x80 + (ucast a :: u32)"
      using unat_u8_less [of a] by (intro push_bit_or_add) (simp add: unat_ucast_u8)
    with 2 show ?thesis
      by (simp add: marvin_tail_def from_le_bytes_def index_at_def)
  next
    case (3 a b)
    let ?w = "ucast (from_le_bytes [a, b] :: u16) :: u32"
    have "push_bit 16 0x80 OR ?w = push_bit 16 0x80 + ?w"
      using unat_less [of "from_le_bytes [a, b] :: u16"]
      by (intro push_bit_or_add) (simp add: unat_ucast_u16)
    with 3 show ?thesis
      by (simp add: marvin_tail_def index_range_def le16) (simp add: from_le_bytes_def)
  next
    case (4 a b c)
    let ?w = "ucast (from_le_bytes [a, b] :: u16) :: u32"
    have 1: "0x80000000 OR push_bit 16 (ucast c) = push_bit 16 (0x8000 + ucast c :: u32)"
    proof -
      have "push_bit 8 0x80 OR ucast c = push_bit 8 0x80 + (ucast c :: u32)"
        using unat_u8_less [of c] by (intro push_bit_or_add) (simp add: unat_ucast_u8)
      then have "push_bit 16 (push_bit 8 0x80 OR ucast c) = push_bit 16 (0x8000 + ucast c :: u32)"
        by simp
      then show ?thesis by (simp add: push_bit_or)
    qed
    have 2: "push_bit 16 (0x8000 + ucast c) OR ?w = push_bit 16 (0x8000 + ucast c) + ?w"
      using unat_less [of "from_le_bytes [a, b] :: u16"]
      by (intro push_bit_or_add) (simp add: unat_ucast_u16)
    have 3: "0x80000000 OR push_bit 16 (ucast c) OR ?w = push_bit 16 (0x8000 + ucast c) + ?w"
      by (simp only: or.assoc [symmetric] 1 2)
    have "marvin_tail (pre @ rest @ post) (length pre) (length rest) =
        Ok (0x80000000 OR push_bit 16 (ucast c) OR ?w)"
      using 4 by (simp add: marvin_tail_def index_range_def index_at_def nth_append)
    also have "\<dots> = Ok (push_bit 16 (0x8000 + ucast c) + ?w)" by (simp only: 3)
    finally show ?thesis
      using 4 by (simp add: le16) (simp add: from_le_bytes_def push_bit_eq_mult)
  qed
qed

lemma marvin_walk_short:
  assumes "length rest \<le> 3"
  shows "bindO (marvin_loop (pre @ rest @ post) (length pre) (length rest) s0 s1) (\<lambda>(i, dlen, s0, s1).
     bindO (marvin_tail (pre @ rest @ post) i dlen) (\<lambda>t.
       Ok (let (s0, s1) = marvin_block (s0 + t) s1 in marvin_block s0 s1))) =
   Ok (let (s0, s1) = marvin_block (s0 + from_le_bytes (rest @ [0x80])) s1 in marvin_block s0 s1)"
  by (simp only: marvin_loop_short [OF assms] marvin_tail_pad [OF assms] bindO.simps case_prod_conv)

lemma marvin_walk:
  "bindO (marvin_loop (pre @ rest @ post) (length pre) (length rest) s0 s1) (\<lambda>(i, dlen, s0, s1).
     bindO (marvin_tail (pre @ rest @ post) i dlen) (\<lambda>t.
       Ok (let (s0, s1) = marvin_block (s0 + t) s1 in marvin_block s0 s1))) =
   Ok (marvin_absorb rest (s0, s1))"
proof (induction rest "(s0, s1)" arbitrary: pre s0 s1 rule: marvin_absorb.induct)
  case (1 a b c d rest s0 s1)
  obtain t0 t1 where b: "marvin_block (s0 + from_le_bytes [a, b, c, d]) s1 = (t0, t1)"
    by (cases "marvin_block (s0 + from_le_bytes [a, b, c, d]) s1") auto
  have st: "marvin_loop (pre @ (a # b # c # d # rest) @ post) (length pre)
      (length (a # b # c # d # rest)) s0 s1 =
    marvin_loop (pre @ (a # b # c # d # rest) @ post) (length pre + 4) (length rest) t0 t1"
    using b by (subst marvin_loop_step) simp_all
  have lp: "length (pre @ [a, b, c, d]) = length pre + 4" by simp
  have as: "(pre @ [a, b, c, d]) @ rest @ post = pre @ (a # b # c # d # rest) @ post" by simp
  show ?case
    using "1" [of t0 t1 "pre @ [a, b, c, d]", unfolded lp as] b
    by (simp only: st marvin_absorb.simps)
qed (simp only: marvin_absorb.simps, rule marvin_walk_short, simp)+

lemma marvin32_eq:
  assumes "dlen \<le> length data"
  shows "marvin32 seed data dlen = Ok (marvin_ref seed (take dlen data))"
proof -
  let ?s0 = "ucast (seed AND 0xFFFFFFFF) :: u32" and ?s1 = "ucast (drop_bit 32 seed) :: u32"
  have "bindO (marvin_loop data 0 dlen ?s0 ?s1) (\<lambda>(i, dlen, s0, s1).
     bindO (marvin_tail data i dlen) (\<lambda>t.
       Ok (let (s0, s1) = marvin_block (s0 + t) s1 in marvin_block s0 s1))) =
   Ok (marvin_absorb (take dlen data) (?s0, ?s1))"
    using marvin_walk [of "[]" "take dlen data" "drop dlen data" ?s0 ?s1] assms by simp
  then obtain i k t0 t1 t where l: "marvin_loop data 0 dlen ?s0 ?s1 = Ok (i, k, t0, t1)"
    and t: "marvin_tail data i k = Ok t"
    and b: "(let (s0, s1) = marvin_block (t0 + t) t1 in marvin_block s0 s1) =
      marvin_absorb (take dlen data) (?s0, ?s1)"
    by (auto simp: bindO_eq_Ok)
  show ?thesis
    using b by (simp add: marvin32_def marvin_ref_def l t Let_def split: prod.splits)
qed

text \<open>
  C31: \<open>marvin32\<close> is total within its data and equal to the reference that absorbs the first
  \<open>dlen\<close> bytes four at a time and pads the rest with 0x80; asked for more bytes than there are, it
  panics.
\<close>

theorem marvin32_correct:
  "marvin32 seed data dlen =
     (if dlen \<le> length data then Ok (marvin_ref seed (take dlen data)) else Panic)"
proof (cases "dlen \<le> length data")
  case True
  then show ?thesis by (simp add: marvin32_eq)
next
  case False
  show ?thesis
  proof (cases "3 < dlen")
    case True
    then show ?thesis
      using False marvin_loop_panic [of data 0 dlen "ucast (seed AND 0xFFFFFFFF)" "ucast (drop_bit 32 seed)"]
      by (auto simp: marvin32_def Let_def marvin_tail_panic)
  next
    case short: False
    then show ?thesis
      using False marvin_tail_panic [of data 0 dlen]
      by (simp add: marvin32_def Let_def marvin_loop_short)
  qed
qed

text \<open>The test vectors of the source for the empty input and for one byte.\<close>

lemma marvin32_vectors:
  "marvin32 0x004fb61a001bdbcc [] 0 = Ok 0x30ED35C100CD3C7D"
  "marvin32 0x004fb61a001bdbcc [0xAF] 1 = Ok 0x48E73FC77D75DDC1"
  by (simp add: marvin32_eq marvin_ref_def marvin_block_def Let_def from_le_bytes_def,
      code_simp?)+

end
