(* ===== verification/Log_Entries.thy ===== *)
theory Log_Entries
  imports Base_Block Marvin32 Sub_Key_Lists
begin

text \<open>
  The format of transaction logs (the first half of \<open>src/src/transaction_log.rs\<close>): dirty pages, log
  entries with their two hashes, the log file, and the reading of several logs in the order of
  their sequence numbers.  What is done with the entries is in the theory that applies them.
\<close>

section \<open>Data\<close>

record DirtyPageRef =
  dpr_offset :: u32
  dpr_size :: u32

record DirtyPage =
  dirty_page_ref_offset :: u32
  page_bytes :: bytes

record LogEntry =
  le_file_offset_absolute :: usize
  le_size :: u32
  le_flags :: u32
  le_sequence_number :: u32
  le_hive_bins_data_size :: u32
  dirty_pages_count :: u32
  hash1 :: u64
  hash2 :: u64
  dirty_pages :: "DirtyPage list"
  has_valid_hashes :: bool

record TransactionLog =
  tl_base_block :: BaseBlockBase
  base_block_bytes :: bytes
  log_file_entries :: "LogEntry list"

definition DEFAULT_SEED :: u64 where "DEFAULT_SEED = 0x82EF4D887A4E55C5"

record env_log = env_list +
  nom_count_dirty :: "DirtyPageRef parser \<Rightarrow> nat \<Rightarrow> DirtyPageRef list parser"
  nom_many0_entry :: "LogEntry parser \<Rightarrow> LogEntry list parser"

section \<open>The parsers\<close>

definition DirtyPageRef_from_bytes :: "'z env_log_scheme \<Rightarrow> DirtyPageRef parser" where
  "DirtyPageRef_from_bytes N input =
     bindO (nom_le_u32 N input) (\<lambda>(input, offset).
     bindO (nom_le_u32 N input) (\<lambda>(input, sz).
     Ok (input, \<lparr>dpr_offset = offset, dpr_size = sz\<rparr>)))"

primrec dirty_pages_loop ::
  "'z env_log_scheme \<Rightarrow> DirtyPageRef list \<Rightarrow> bytes \<Rightarrow> DirtyPage list \<Rightarrow> DirtyPage list iresult" where
  "dirty_pages_loop N [] input pages = Ok (input, pages)"
| "dirty_pages_loop N (r # refs) input pages =
     bindO (nom_take N (unat (dpr_size r)) input) (\<lambda>(input, bs).
       dirty_pages_loop N refs input
         (pages @ [\<lparr>dirty_page_ref_offset = dpr_offset r, page_bytes = bs\<rparr>]))"

text \<open>
  \<open>len - OFFSET\<close> underflows on a length below 40: that panics, in a build without overflow checks at
  the allocation of the vector.
\<close>

definition calc_hash1 :: "bytes \<Rightarrow> usize \<Rightarrow> u64 result" where
  "calc_hash1 raw_bytes len =
     bindO (guardP (40 \<le> len)) (\<lambda>_.
     bindO (index_range raw_bytes 40 len) (\<lambda>src. marvin32 DEFAULT_SEED src (len - 40)))"

definition calc_hash2 :: "bytes \<Rightarrow> u64 result" where
  "calc_hash2 raw_bytes =
     bindO (index_range raw_bytes 0 32) (\<lambda>src. marvin32 DEFAULT_SEED src 32)"

definition check_hashes :: "bytes \<Rightarrow> u32 \<Rightarrow> u64 \<Rightarrow> u64 \<Rightarrow> bool result" where
  "check_hashes start sz h1 h2 =
     bindO (calc_hash1 start (unat sz)) (\<lambda>c1.
       if h1 = c1 then bindO (calc_hash2 start) (\<lambda>c2. Ok (h2 = c2)) else Ok False)"

definition LogEntry_from_bytes_internal :: "'z env_log_scheme \<Rightarrow> bytes \<Rightarrow> LogEntry parser" where
  "LogEntry_from_bytes_internal N start_pos input =
     (let start = input; file_offset_absolute = ptr_diff start_pos input in
      bindO (nom_tag N ''HvLE'' input) (\<lambda>(input, _).
      bindO (nom_le_u32 N input) (\<lambda>(input, sz).
      bindO (nom_le_u32 N input) (\<lambda>(input, flags).
      bindO (nom_le_u32 N input) (\<lambda>(input, sequence_number).
      bindO (nom_le_u32 N input) (\<lambda>(input, bins_size).
      bindO (nom_le_u32 N input) (\<lambda>(input, pages_count).
      bindO (nom_le_u64 N input) (\<lambda>(input, h1).
      bindO (nom_le_u64 N input) (\<lambda>(input, h2).
      bindO (nom_count_dirty N (DirtyPageRef_from_bytes N) (unat pages_count) input) (\<lambda>(input, refs).
      bindO (dirty_pages_loop N refs input []) (\<lambda>(input, pages).
      bindO (parser_eat_remaining N input sz (ptr_diff start_pos input - file_offset_absolute))
        (\<lambda>(input, _).
      bindO (infallible (check_hashes start sz h1 h2)) (\<lambda>valid.
      Ok (input,
          \<lparr>le_file_offset_absolute = file_offset_absolute,
           le_size = sz,
           le_flags = flags,
           le_sequence_number = sequence_number,
           le_hive_bins_data_size = bins_size,
           dirty_pages_count = pages_count,
           hash1 = h1,
           hash2 = h2,
           dirty_pages = pages,
           has_valid_hashes = valid\<rparr>))))))))))))))"

definition is_valid_hive_bin_data_size :: "LogEntry \<Rightarrow> bool" where
  "is_valid_hive_bin_data_size e \<longleftrightarrow> le_hive_bins_data_size e mod 4096 = 0"

definition TransactionLog_from_bytes :: "'z env_log_scheme \<Rightarrow> TransactionLog parser" where
  "TransactionLog_from_bytes N input =
     (let start = input in
      bindO (BaseBlockBase_from_bytes N input) (\<lambda>(input, bb).
      bindO (nom_many0_entry N (LogEntry_from_bytes_internal N start) input) (\<lambda>(input, entries).
      bindO (index_range start 0 BASE_BLOCK_LEN) (\<lambda>bbb.
      Ok (input, \<lparr>tl_base_block = bb, base_block_bytes = bbb, log_file_entries = entries\<rparr>)))))"

section \<open>Reading the logs\<close>

text \<open>
  A log file is what reading it to its end gives: the bytes, or the message of an I/O error.
\<close>

definition TransactionLog_parse_one ::
  "'z env_log_scheme \<Rightarrow> bytes \<Rightarrow> TransactionLog list \<times> Logs \<Rightarrow> (TransactionLog list \<times> Logs) result" where
  "TransactionLog_parse_one N file_buffer_log acc =
     (case acc of (transaction_logs, error_logs) \<Rightarrow>
        if file_buffer_log = [] then
          Ok (transaction_logs, Logs_add error_logs WarningParse ''Skipping log file; 0 bytes'')
        else
          case TransactionLog_from_bytes N file_buffer_log of
            Ok (_, log) \<Rightarrow> Ok (transaction_logs @ [log], error_logs)
          | Err e \<Rightarrow> Ok (transaction_logs, Logs_add error_logs WarningParse
                       (''Skipping log file; '' @ Error_to_string (Error_from_nom e)))
          | Panic \<Rightarrow> Panic
          | Diverge \<Rightarrow> Diverge)"

primrec TransactionLog_parse_loop ::
  "'z env_log_scheme \<Rightarrow> (string + bytes) list \<Rightarrow> TransactionLog list \<times> Logs \<Rightarrow>
     (TransactionLog list \<times> Logs) result" where
  "TransactionLog_parse_loop N [] acc = Ok acc"
| "TransactionLog_parse_loop N (f # fs) acc =
     (case f of
        Inl io_error \<Rightarrow> Err (Error_from_io io_error)
      | Inr file_buffer_log \<Rightarrow>
          bindO (TransactionLog_parse_one N file_buffer_log acc) (TransactionLog_parse_loop N fs))"

definition log_seq :: "TransactionLog \<Rightarrow> u32" where
  "log_seq l = primary_sequence_number (tl_base_block l)"

definition TransactionLog_parse ::
  "'z env_log_scheme \<Rightarrow> (string + bytes) list \<Rightarrow> (TransactionLog list \<times> Logs option) result" where
  "TransactionLog_parse N log_files =
     bindO (TransactionLog_parse_loop N log_files ([], Logs_default)) (\<lambda>(transaction_logs, error_logs).
       Ok (sort_key log_seq transaction_logs, Logs_get_option error_logs))"

section \<open>What an entry takes and what its hashes cover\<close>

text \<open>The part of the parser behind the fixed header of 40 bytes.\<close>

definition entry_at :: "'z env_log_scheme \<Rightarrow> bytes \<Rightarrow> LogEntry parser" where
  "entry_at N start_pos i =
     (let sz = from_le_bytes (take 4 (drop 4 i)) :: u32;
          pages_count = from_le_bytes (take 4 (drop 20 i)) :: u32;
          h1 = from_le_bytes (take 8 (drop 24 i)); h2 = from_le_bytes (take 8 (drop 32 i)) in
      bindO (nom_count_dirty N (DirtyPageRef_from_bytes N) (unat pages_count) (drop 40 i)) (\<lambda>(input, refs).
      bindO (dirty_pages_loop N refs input []) (\<lambda>(input, pages).
      bindO (parser_eat_remaining N input sz (ptr_diff start_pos input - ptr_diff start_pos i))
        (\<lambda>(input, _).
      bindO (infallible (check_hashes i sz h1 h2)) (\<lambda>valid.
      Ok (input,
          \<lparr>le_file_offset_absolute = ptr_diff start_pos i,
           le_size = sz,
           le_flags = from_le_bytes (take 4 (drop 8 i)),
           le_sequence_number = from_le_bytes (take 4 (drop 12 i)),
           le_hive_bins_data_size = from_le_bytes (take 4 (drop 16 i)),
           dirty_pages_count = pages_count,
           hash1 = h1,
           hash2 = h2,
           dirty_pages = pages,
           has_valid_hashes = valid\<rparr>))))))"

locale nom_log_spec = nom_list_spec N for N :: "'z env_log_scheme" +
  assumes count_dirty [nom_simps]: "nom_count_dirty N p5 n i = count_doc p5 n i"
    and many0_entry [nom_simps]: "nom_many0_entry N p6 i = many0_doc p6 i"
begin

lemma log_entry_header:
  assumes "40 \<le> length i" and "take 4 i = bytes_of ''HvLE''"
  shows "LogEntry_from_bytes_internal N start_pos i = entry_at N start_pos i"
  using assms
  by (simp add: LogEntry_from_bytes_internal_def entry_at_def Let_def tag le_u32 le_u64 doc_Ok lit_len
      cong: bindO_weak_cong)

lemma log_entry_no_header:
  assumes "\<not> (40 \<le> length i \<and> take 4 i = bytes_of ''HvLE'')"
  shows "\<exists>j k. LogEntry_from_bytes_internal N start_pos i = Err (NomError j k)"
proof (cases "take 4 i = bytes_of ''HvLE''")
  case True
  then have "length i < 40" and "4 \<le> length i"
    using assms take_bytes_of_length [OF True] by simp_all
  with True show ?thesis
    by (auto simp: LogEntry_from_bytes_internal_def Let_def tag le_u32 le_u64 doc_Ok(1) le_doc_def
        lit_len cong: bindO_weak_cong)
next
  case False
  then show ?thesis
    by (simp add: LogEntry_from_bytes_internal_def Let_def tag tag_doc_def lit_len)
qed

lemma fixed_width_DirtyPageRef:
  "fixed_width 8 (DirtyPageRef_from_bytes N)
     (\<lambda>b. \<lparr>dpr_offset = from_le_bytes (take 4 b), dpr_size = from_le_bytes (take 4 (drop 4 b))\<rparr>)"
  by (auto simp: fixed_width_def DirtyPageRef_from_bytes_def le_u32 le_doc_def take_drop min_def)

lemma dirty_pages_loop_cases:
  "(\<exists>pages'. dirty_pages_loop N refs i pages = Ok (drop (sum_list (map (\<lambda>r. unat (dpr_size r)) refs)) i, pages')
      \<and> sum_list (map (\<lambda>r. unat (dpr_size r)) refs) \<le> length i
      \<and> map dirty_page_ref_offset pages' = map dirty_page_ref_offset pages @ map dpr_offset refs)
   \<or> (\<exists>j k. dirty_pages_loop N refs i pages = Err (NomError j k))"
proof (induction refs arbitrary: i pages)
  case Nil
  then show ?case by simp
next
  case (Cons r refs)
  show ?case
  proof (cases "unat (dpr_size r) \<le> length i")
    case True
    with Cons.IH [of "drop (unat (dpr_size r)) i"
        "pages @ [\<lparr>dirty_page_ref_offset = dpr_offset r, page_bytes = take (unat (dpr_size r)) i\<rparr>]"]
    show ?thesis by (auto simp: take doc_Ok add.commute)
  next
    case False
    then show ?thesis by (simp add: take take_doc_def)
  qed
qed

lemma parser_eat_remaining_cases:
  "(parser_eat_remaining N i sz c = Ok (drop (unat sz - c) i, take (unat sz - c) i) \<and>
      unat sz - c \<le> length i) \<or>
   (\<exists>j k. parser_eat_remaining N i sz c = Err (NomError j k))"
  by (auto simp: parser_eat_remaining_def Let_def take take_doc_def)

end

lemma check_hashes_Ok:
  assumes "40 \<le> unat sz" and "unat sz \<le> length start"
  shows "check_hashes start sz h1 h2 =
    Ok (h1 = marvin_ref DEFAULT_SEED (take (unat sz - 40) (drop 40 start)) \<and>
        h2 = marvin_ref DEFAULT_SEED (take 32 start))"
  using assms
  by (simp add: check_hashes_def calc_hash1_def calc_hash2_def index_range_def marvin32_eq)

lemma check_hashes_Panic: "unat sz < 40 \<Longrightarrow> check_hashes start sz h1 h2 = Panic"
  by (simp add: check_hashes_def calc_hash1_def)

context nom_log_spec
begin

lemma eat_and_check:
  assumes "40 \<le> t" and "t \<le> length i"
  shows "(\<exists>v. bindO (parser_eat_remaining N (drop t i) sz t) (\<lambda>(input, _).
          bindO (infallible (check_hashes i sz h1 h2)) (\<lambda>valid. Ok (input, mk valid))) =
          Ok (drop (max t (unat sz)) i, mk v) \<and> 40 \<le> unat sz \<and> max t (unat sz) \<le> length i \<and>
          (v \<longleftrightarrow> h1 = marvin_ref DEFAULT_SEED (take (unat sz - 40) (drop 40 i)) \<and>
             h2 = marvin_ref DEFAULT_SEED (take 32 i)))
    \<or> (\<exists>j k. bindO (parser_eat_remaining N (drop t i) sz t) (\<lambda>(input, _).
          bindO (infallible (check_hashes i sz h1 h2)) (\<lambda>valid. Ok (input, mk valid))) = Err (NomError j k))
    \<or> (unat sz < 40 \<and> bindO (parser_eat_remaining N (drop t i) sz t) (\<lambda>(input, _).
          bindO (infallible (check_hashes i sz h1 h2)) (\<lambda>valid. Ok (input, mk valid))) = Panic)"
  using parser_eat_remaining_cases [of "drop t i" sz t]
proof (elim disjE conjE exE)
  assume eat: "parser_eat_remaining N (drop t i) sz t =
      Ok (drop (unat sz - t) (drop t i), take (unat sz - t) (drop t i))"
    and l: "unat sz - t \<le> length (drop t i)"
  have d: "drop (unat sz - t) (drop t i) = drop (max t (unat sz)) i" by (simp add: max_def)
  have m: "max t (unat sz) \<le> length i" using l assms(2) by (auto simp: max_def)
  show ?thesis
  proof (cases "unat sz < 40")
    case True
    then show ?thesis by (simp add: eat check_hashes_Panic)
  next
    case False
    then show ?thesis using m by (simp add: eat d check_hashes_Ok del: drop_drop)
  qed
qed simp

lemma entry_at_cases:
  assumes "40 \<le> length i" and "length i \<le> length start_pos"
  shows "(\<exists>k e. entry_at N start_pos i = Ok (drop k i, e) \<and> 40 \<le> k \<and> 40 \<le> unat (le_size e) \<and>
        unat (le_size e) \<le> k \<and> k \<le> length i \<and>
        le_sequence_number e = from_le_bytes (take 4 (drop 12 i)) \<and>
        (has_valid_hashes e \<longleftrightarrow>
           hash1 e = marvin_ref DEFAULT_SEED (take (unat (le_size e) - 40) (drop 40 i)) \<and>
           hash2 e = marvin_ref DEFAULT_SEED (take 32 i)))
    \<or> (\<exists>j k. entry_at N start_pos i = Err (NomError j k))
    \<or> (unat (from_le_bytes (take 4 (drop 4 i)) :: u32) < 40 \<and> entry_at N start_pos i = Panic)"
proof -
  define sz where "sz = (from_le_bytes (take 4 (drop 4 i)) :: u32)"
  define n where "n = unat (from_le_bytes (take 4 (drop 20 i)) :: u32)"
  show ?thesis
  proof (cases "8 * n \<le> length (drop 40 i)")
    case False
    then obtain j k where "count_doc (DirtyPageRef_from_bytes N) n (drop 40 i) = Err (NomError j k)"
      using count_doc_fixed_Err [OF fixed_width_DirtyPageRef] by (meson not_le)
    then show ?thesis by (simp add: entry_at_def count_dirty n_def)
  next
    case True
    obtain refs where c: "count_doc (DirtyPageRef_from_bytes N) n (drop 40 i) = Ok (drop (40 + 8 * n) i, refs)"
      using count_doc_fixed_Ok [OF fixed_width_DirtyPageRef True] by (simp add: add.commute)
    define m where "m = sum_list (map (\<lambda>r. unat (dpr_size r)) refs)"
    from dirty_pages_loop_cases [of refs "drop (40 + 8 * n) i" "[]"] consider
        (ok) pages where "dirty_pages_loop N refs (drop (40 + 8 * n) i) [] = Ok (drop (40 + 8 * n + m) i, pages)"
          "m \<le> length (drop (40 + 8 * n) i)"
      | (err) j k where "dirty_pages_loop N refs (drop (40 + 8 * n) i) [] = Err (NomError j k)"
      by (auto simp: m_def add.commute)
    then show ?thesis
    proof cases
      case err
      then show ?thesis using c by (simp add: entry_at_def count_dirty n_def)
    next
      case ok
      define t where "t = 40 + 8 * n + m"
      have t: "40 \<le> t" "t \<le> length i" using ok(2) True assms(1) by (auto simp: t_def)
      have d: "ptr_diff start_pos (drop t i) - ptr_diff start_pos i = t"
        using t(2) assms(2) by (simp add: ptr_diff_def)
      define mk where "mk = (\<lambda>valid. \<lparr>le_file_offset_absolute = ptr_diff start_pos i, le_size = sz,
             le_flags = from_le_bytes (take 4 (drop 8 i)),
             le_sequence_number = from_le_bytes (take 4 (drop 12 i)),
             le_hive_bins_data_size = from_le_bytes (take 4 (drop 16 i)),
             dirty_pages_count = from_le_bytes (take 4 (drop 20 i)),
             hash1 = from_le_bytes (take 8 (drop 24 i)), hash2 = from_le_bytes (take 8 (drop 32 i)),
             dirty_pages = pages, has_valid_hashes = valid\<rparr>)"
      have e: "entry_at N start_pos i =
        bindO (parser_eat_remaining N (drop t i) sz t) (\<lambda>(input, _).
        bindO (infallible (check_hashes i sz (from_le_bytes (take 8 (drop 24 i)))
          (from_le_bytes (take 8 (drop 32 i))))) (\<lambda>valid. Ok (input, mk valid)))"
        using c ok(1) d by (simp add: entry_at_def count_dirty n_def sz_def t_def Let_def mk_def)
      have mk: "le_size (mk v) = sz" "le_sequence_number (mk v) = from_le_bytes (take 4 (drop 12 i))"
        "has_valid_hashes (mk v) = v" "hash1 (mk v) = from_le_bytes (take 8 (drop 24 i))"
        "hash2 (mk v) = from_le_bytes (take 8 (drop 32 i))" for v
        by (simp_all add: mk_def)
      from eat_and_check [OF t, of sz "from_le_bytes (take 8 (drop 24 i))"
          "from_le_bytes (take 8 (drop 32 i))" mk]
      show ?thesis
        unfolding e [symmetric]
      proof (elim disjE)
        assume "\<exists>v. entry_at N start_pos i = Ok (drop (max t (unat sz)) i, mk v) \<and> 40 \<le> unat sz \<and>
          max t (unat sz) \<le> length i \<and>
          v = (from_le_bytes (take 8 (drop 24 i)) =
              marvin_ref DEFAULT_SEED (take (unat sz - 40) (drop 40 i)) \<and>
            from_le_bytes (take 8 (drop 32 i)) = marvin_ref DEFAULT_SEED (take 32 i))"
        then obtain v where v: "entry_at N start_pos i = Ok (drop (max t (unat sz)) i, mk v)"
          "40 \<le> unat sz" "max t (unat sz) \<le> length i"
          "v \<longleftrightarrow> from_le_bytes (take 8 (drop 24 i)) =
              marvin_ref DEFAULT_SEED (take (unat sz - 40) (drop 40 i)) \<and>
            from_le_bytes (take 8 (drop 32 i)) = marvin_ref DEFAULT_SEED (take 32 i)" by blast
        have "40 \<le> max t (unat sz)" "unat sz \<le> max t (unat sz)" using t(1) by auto
        with v mk [of v] show ?thesis
          by (intro disjI1 exI [of _ "max t (unat sz)"] exI [of _ "mk v"] conjI) simp_all
      qed (simp_all add: sz_def)
    qed
  qed
qed

end

section \<open>Writing a log\<close>

text \<open>
  The bytes of an entry with a payload of dirty pages and padding, with the size and the hashes that
  belong to them, as Windows writes them.
\<close>

record entry_data =
  ed_flags :: u32
  ed_seq :: u32
  ed_bins :: u32
  ed_pages :: "(u32 \<times> bytes) list"
  ed_pad :: bytes

definition ref_bytes :: "u32 \<times> bytes \<Rightarrow> bytes" where
  "ref_bytes p = to_le_bytes (fst p) @ to_le_bytes (of_nat (length (snd p)) :: u32)"

definition entry_payload :: "entry_data \<Rightarrow> bytes" where
  "entry_payload d = concat (map ref_bytes (ed_pages d)) @ concat (map snd (ed_pages d)) @ ed_pad d"

definition entry_size :: "entry_data \<Rightarrow> nat" where
  "entry_size d = 40 + length (entry_payload d)"

definition entry_head :: "entry_data \<Rightarrow> bytes" where
  "entry_head d = bytes_of ''HvLE'' @ to_le_bytes (of_nat (entry_size d) :: u32) @
     to_le_bytes (ed_flags d) @ to_le_bytes (ed_seq d) @ to_le_bytes (ed_bins d) @
     to_le_bytes (of_nat (length (ed_pages d)) :: u32) @
     to_le_bytes (marvin_ref DEFAULT_SEED (entry_payload d))"

definition entry_bytes :: "entry_data \<Rightarrow> bytes" where
  "entry_bytes d = entry_head d @ to_le_bytes (marvin_ref DEFAULT_SEED (entry_head d)) @ entry_payload d"

definition entry_read :: "nat \<Rightarrow> entry_data \<Rightarrow> LogEntry" where
  "entry_read off d =
     \<lparr>le_file_offset_absolute = off, le_size = of_nat (entry_size d), le_flags = ed_flags d,
      le_sequence_number = ed_seq d, le_hive_bins_data_size = ed_bins d,
      dirty_pages_count = of_nat (length (ed_pages d)),
      hash1 = marvin_ref DEFAULT_SEED (entry_payload d),
      hash2 = marvin_ref DEFAULT_SEED (entry_head d),
      dirty_pages = map (\<lambda>(o', b). \<lparr>dirty_page_ref_offset = o', page_bytes = b\<rparr>) (ed_pages d),
      has_valid_hashes = True\<rparr>"

lemma length_entry_head [simp]: "length (entry_head d) = 32"
  by (simp add: entry_head_def)

lemma length_entry_bytes [simp]: "length (entry_bytes d) = entry_size d"
  by (simp add: entry_bytes_def entry_size_def)

lemma length_ref_bytes [simp]: "length (ref_bytes p) = 8"
  by (simp add: ref_bytes_def)

lemma entry_small:
  assumes "entry_size d < 2 ^ 32"
  shows "length (ed_pages d) < 2 ^ 32" and "(o', b) \<in> set (ed_pages d) \<Longrightarrow> length b < 2 ^ 32"
proof -
  have l: "length (concat (map ref_bytes ps)) = 8 * length ps" for ps
    by (induction ps) auto
  then show "length (ed_pages d) < 2 ^ 32"
    using assms by (simp add: entry_size_def entry_payload_def)
  assume "(o', b) \<in> set (ed_pages d)"
  then have "length b \<le> length (concat (map snd (ed_pages d)))"
    by (auto simp: length_concat comp_def intro!: member_le_sum_list image_eqI [of _ _ "(o', b)"])
  then show "length b < 2 ^ 32"
    using assms by (simp add: entry_size_def entry_payload_def)
qed

text \<open>Several entries one after the other, each with its offset in the file.\<close>

primrec entries_read :: "nat \<Rightarrow> entry_data list \<Rightarrow> LogEntry list" where
  "entries_read off [] = []"
| "entries_read off (d # ds) = entry_read off d # entries_read (off + entry_size d) ds"

context nom_log_spec
begin

lemma DirtyPageRef_roundtrip:
  "DirtyPageRef_from_bytes N (ref_bytes p @ rest) =
     Ok (rest, \<lparr>dpr_offset = fst p, dpr_size = of_nat (length (snd p))\<rparr>)"
  by (simp add: DirtyPageRef_from_bytes_def ref_bytes_def le_u32 doc_Ok cong: bindO_weak_cong)

lemma dirty_pages_roundtrip:
  assumes "\<And>o' b. (o', b) \<in> set ps \<Longrightarrow> length b < 2 ^ 32"
  shows "dirty_pages_loop N (map (\<lambda>p. \<lparr>dpr_offset = fst p, dpr_size = of_nat (length (snd p))\<rparr>) ps)
      (concat (map snd ps) @ rest) acc =
    Ok (rest, acc @ map (\<lambda>(o', b). \<lparr>dirty_page_ref_offset = o', page_bytes = b\<rparr>) ps)"
  using assms
proof (induction ps arbitrary: acc)
  case Nil
  then show ?case by simp
next
  case (Cons p ps)
  obtain o' b where p: "p = (o', b)" by fastforce
  then have "unat (of_nat (length b) :: u32) = length b"
    using Cons.prems [of o' b] by (simp add: unat_of_nat)
  moreover have "\<And>o' b. (o', b) \<in> set ps \<Longrightarrow> length b < 2 ^ 32"
    using Cons.prems by (meson list.set_intros(2))
  ultimately show ?case using Cons.IH by (simp add: p take doc_Ok)
qed

lemma entry_roundtrip:
  assumes "entry_size d < 2 ^ 32" and "length (entry_bytes d @ rest) \<le> length start_pos"
  shows "LogEntry_from_bytes_internal N start_pos (entry_bytes d @ rest) =
    Ok (rest, entry_read (ptr_diff start_pos (entry_bytes d @ rest)) d)"
proof -
  let ?i = "entry_bytes d @ rest"
  let ?refs = "map (\<lambda>p. \<lparr>dpr_offset = fst p, dpr_size = of_nat (length (snd p)) :: u32\<rparr>) (ed_pages d)"
  have f: "take 4 ?i = bytes_of ''HvLE''" "40 \<le> length ?i"
    "take 4 (drop 4 ?i) = to_le_bytes (of_nat (entry_size d) :: u32)"
    "take 4 (drop 8 ?i) = to_le_bytes (ed_flags d)" "take 4 (drop 12 ?i) = to_le_bytes (ed_seq d)"
    "take 4 (drop 16 ?i) = to_le_bytes (ed_bins d)"
    "take 4 (drop 20 ?i) = to_le_bytes (of_nat (length (ed_pages d)) :: u32)"
    "take 8 (drop 24 ?i) = to_le_bytes (marvin_ref DEFAULT_SEED (entry_payload d))"
    "take 8 (drop 32 ?i) = to_le_bytes (marvin_ref DEFAULT_SEED (entry_head d))"
    "drop 40 ?i = entry_payload d @ rest" "take 32 ?i = entry_head d"
    by (simp_all add: entry_bytes_def entry_head_def entry_size_def)
  have n: "unat (of_nat (length (ed_pages d)) :: u32) = length (ed_pages d)"
    and sz: "unat (of_nat (entry_size d) :: u32) = entry_size d"
    using entry_small [OF assms(1)] assms(1) by (simp_all add: unat_of_nat)
  have c: "count_doc (DirtyPageRef_from_bytes N) (length (ed_pages d)) (entry_payload d @ rest) =
      Ok (concat (map snd (ed_pages d)) @ ed_pad d @ rest, ?refs)"
    using count_doc_roundtrip [of "ed_pages d" "DirtyPageRef_from_bytes N" ref_bytes, OF DirtyPageRef_roundtrip]
    by (simp add: entry_payload_def)
  have l: "dirty_pages_loop N ?refs (concat (map snd (ed_pages d)) @ ed_pad d @ rest) [] =
      Ok (ed_pad d @ rest, map (\<lambda>(o', b). \<lparr>dirty_page_ref_offset = o', page_bytes = b\<rparr>) (ed_pages d))"
    using dirty_pages_roundtrip [of "ed_pages d" "ed_pad d @ rest" "[]"] entry_small(2) [OF assms(1)]
    by simp
  have "ptr_diff start_pos (ed_pad d @ rest) - ptr_diff start_pos ?i = entry_size d - length (ed_pad d)"
    using assms(2) by (simp add: ptr_diff_def entry_size_def entry_payload_def)
  moreover have "length (ed_pad d) \<le> entry_size d" "0 < entry_size d"
    by (simp_all add: entry_size_def entry_payload_def)
  ultimately have eat: "parser_eat_remaining N (ed_pad d @ rest) (of_nat (entry_size d))
      (ptr_diff start_pos (ed_pad d @ rest) - ptr_diff start_pos ?i) = Ok (rest, ed_pad d)"
    by (cases "ed_pad d = []") (simp_all add: parser_eat_remaining_def sz take doc_Ok)
  have e40: "40 \<le> entry_size d" by (simp add: entry_size_def)
  have pay: "take (entry_size d - 40) (drop 40 ?i) = entry_payload d"
    unfolding f(10) by (simp add: entry_size_def)
  have h: "check_hashes ?i (of_nat (entry_size d)) (marvin_ref DEFAULT_SEED (entry_payload d))
      (marvin_ref DEFAULT_SEED (entry_head d)) = Ok True"
    using check_hashes_Ok [of "of_nat (entry_size d)" ?i, unfolded sz f(11) pay] e40 by simp
  have "entry_at N start_pos ?i = Ok (rest, entry_read (ptr_diff start_pos ?i) d)"
    unfolding entry_at_def Let_def f(3-10) le_bytes_id count_dirty n
    by (simp add: c l eat h entry_read_def)
  then show ?thesis using log_entry_header [OF f(2,1)] by simp
qed

lemma entries_roundtrip:
  assumes "\<And>d. d \<in> set ds \<Longrightarrow> entry_size d < 2 ^ 32"
    and "\<not> (40 \<le> length rest \<and> take 4 rest = bytes_of ''HvLE'')"
    and "length (concat (map entry_bytes ds) @ rest) \<le> length start_pos"
  shows "many0_doc (LogEntry_from_bytes_internal N start_pos) (concat (map entry_bytes ds) @ rest) =
    Ok (rest, entries_read (ptr_diff start_pos (concat (map entry_bytes ds) @ rest)) ds)"
  using assms(1,3)
proof (induction ds)
  case Nil
  obtain j k where "LogEntry_from_bytes_internal N start_pos rest = Err (NomError j k)"
    using log_entry_no_header [OF assms(2)] by blast
  then show ?case by (simp add: many0_doc.simps [of _ rest])
next
  case (Cons d ds)
  let ?i = "concat (map entry_bytes ds) @ rest"
  have p: "LogEntry_from_bytes_internal N start_pos (entry_bytes d @ ?i) =
      Ok (?i, entry_read (ptr_diff start_pos (entry_bytes d @ ?i)) d)"
    using Cons.prems by (intro entry_roundtrip) simp_all
  have "length ?i < length (entry_bytes d @ ?i)" by (simp add: entry_size_def)
  moreover have "ptr_diff start_pos ?i = ptr_diff start_pos (entry_bytes d @ ?i) + entry_size d"
    using Cons.prems(2) by (simp add: ptr_diff_def)
  moreover have "many0_doc (LogEntry_from_bytes_internal N start_pos) ?i =
      Ok (rest, entries_read (ptr_diff start_pos ?i) ds)"
    using Cons by simp
  ultimately show ?case
    using p by (simp add: many0_doc.simps [of _ "entry_bytes d @ _"])
qed

end

section \<open>Reading several logs\<close>

definition parsed_log :: "'z env_log_scheme \<Rightarrow> bytes \<Rightarrow> TransactionLog option" where
  "parsed_log N b =
     (if b = [] then None
      else case TransactionLog_from_bytes N b of Ok (_, log) \<Rightarrow> Some log | _ \<Rightarrow> None)"

definition survives :: "'z env_log_scheme \<Rightarrow> bytes \<Rightarrow> bool" where
  "survives N b \<longleftrightarrow> TransactionLog_from_bytes N b \<noteq> Panic \<and> TransactionLog_from_bytes N b \<noteq> Diverge"

lemma parse_one_Ok:
  assumes "survives N b"
  shows "\<exists>w. TransactionLog_parse_one N b (logs, l) =
    Ok (logs @ List.map_filter (parsed_log N) [b], w) \<and>
    length (log_entries w) = length (log_entries l) + (if parsed_log N b = None then 1 else 0)"
  using assms
  by (cases "b = []"; cases "TransactionLog_from_bytes N b")
     (auto simp: TransactionLog_parse_one_def parsed_log_def survives_def logs.entries_add)

lemma parse_loop_Ok:
  assumes "\<And>b. b \<in> set bs \<Longrightarrow> survives N b"
  shows "\<exists>w. TransactionLog_parse_loop N (map Inr bs) (logs, l) =
    Ok (logs @ List.map_filter (parsed_log N) bs, w) \<and>
    length (log_entries w) = length (log_entries l) + length (filter (\<lambda>b. parsed_log N b = None) bs)"
  using assms
proof (induction bs arbitrary: logs l)
  case Nil
  then show ?case by simp
next
  case (Cons b bs)
  obtain w where w: "TransactionLog_parse_one N b (logs, l) =
      Ok (logs @ List.map_filter (parsed_log N) [b], w)"
    "length (log_entries w) = length (log_entries l) + (if parsed_log N b = None then 1 else 0)"
    using parse_one_Ok [of N b logs l] Cons.prems by (meson list.set_intros(1))
  have "\<And>b. b \<in> set bs \<Longrightarrow> survives N b" using Cons.prems by simp
  from Cons.IH [OF this, of "logs @ List.map_filter (parsed_log N) [b]" w] w show ?case
    by (auto split: option.splits)
qed

section \<open>Properties\<close>

text \<open>
  C23: when a log entry is read, it takes a piece of the log that holds all of its \<open>size\<close> bytes, the
  header of 40 bytes included, and its hashes are found valid exactly when they are the Marvin32
  hashes of the bytes behind the header, up to \<open>size\<close>, and of the first 32 bytes.
\<close>

theorem log_entry_hashes:
  assumes "nom_log_spec N" and "length i \<le> length start_pos"
    and "LogEntry_from_bytes_internal N start_pos i = Ok (rest, e)"
  shows "(\<exists>k. rest = drop k i \<and> 40 \<le> unat (le_size e) \<and> unat (le_size e) \<le> k \<and> k \<le> length i) \<and>
    (has_valid_hashes e \<longleftrightarrow>
       hash1 e = marvin_ref DEFAULT_SEED (take (unat (le_size e) - 40) (drop 40 i)) \<and>
       hash2 e = marvin_ref DEFAULT_SEED (take 32 i))"
proof -
  have h: "40 \<le> length i \<and> take 4 i = bytes_of ''HvLE''"
    using nom_log_spec.log_entry_no_header [OF assms(1), of i start_pos] assms(3) by force
  then have "entry_at N start_pos i = Ok (rest, e)"
    using nom_log_spec.log_entry_header [OF assms(1), of i start_pos] assms(3) by simp
  then show ?thesis
    using nom_log_spec.entry_at_cases [OF assms(1) _ assms(2)] h by auto
qed

text \<open>
  C24: a log file is read back: a base block, entries written with the size and hashes that belong to
  them, and a tail that does not start another entry give exactly those entries, in order, each with
  its offset in the file and with valid hashes, and the tail is left.
\<close>

theorem log_file_roundtrip:
  assumes "nom_log_spec N" and "length bb = 512" and "take 4 bb = bytes_of ''regf''"
    and "\<And>d. d \<in> set ds \<Longrightarrow> entry_size d < 2 ^ 32"
    and "\<not> (40 \<le> length tail \<and> take 4 tail = bytes_of ''HvLE'')"
  shows "\<exists>b. TransactionLog_from_bytes N (bb @ concat (map entry_bytes ds) @ tail) =
    Ok (tail, \<lparr>tl_base_block = b, base_block_bytes = bb, log_file_entries = entries_read 512 ds\<rparr>)"
proof -
  let ?body = "concat (map entry_bytes ds) @ tail"
  have nom: "nom_spec N"
    using assms(1) by (simp add: nom_log_spec_def nom_list_spec_def nom_cell_spec_def)
  obtain b where "BaseBlockBase_from_bytes N (bb @ ?body) = Ok (?body, b)"
    using nom_spec.base_block_base_Ok [OF nom, of "bb @ ?body"] assms(2,3) by auto
  moreover have "many0_doc (LogEntry_from_bytes_internal N (bb @ ?body)) ?body =
      Ok (tail, entries_read 512 ds)"
    using nom_log_spec.entries_roundtrip [OF assms(1), of ds tail "bb @ ?body"] assms(2,4,5)
    by (simp add: ptr_diff_def)
  ultimately show ?thesis
    by (simp add: TransactionLog_from_bytes_def nom_log_spec.many0_entry [OF assms(1)]
        index_range_def BASE_BLOCK_LEN_def assms(2))
qed

text \<open>
  C25: reading several logs gives every log that parses, from the oldest to the newest primary
  sequence number, logs with the same number in the order of the files; each file that is skipped,
  because it is empty or does not parse, leaves one warning.
\<close>

theorem logs_sorted_oldest_first:
  assumes "\<And>b. b \<in> set bs \<Longrightarrow> survives N b"
  shows "\<exists>logs w. TransactionLog_parse N (map Inr bs) = Ok (logs, Logs_get_option w) \<and>
    sorted (map log_seq logs) \<and>
    (\<forall>k. filter (\<lambda>l. log_seq l = k) logs = filter (\<lambda>l. log_seq l = k) (List.map_filter (parsed_log N) bs)) \<and>
    length (log_entries w) = length (filter (\<lambda>b. parsed_log N b = None) bs)"
proof -
  obtain w where "TransactionLog_parse_loop N (map Inr bs) ([], Logs_default) =
      Ok (List.map_filter (parsed_log N) bs, w)"
    "length (log_entries w) = length (filter (\<lambda>b. parsed_log N b = None) bs)"
    using parse_loop_Ok [OF assms, of bs "[]" Logs_default] by (auto simp: logs.entries_empty)
  then show ?thesis
    by (auto simp: TransactionLog_parse_def sort_key_stable intro!: exI [of _ w])
qed

text \<open>
  A log entry that claims a size of less than its own header of 40 bytes, but is otherwise
  complete, makes the reader panic: the length of the hashed part underflows.
\<close>

theorem short_log_entry_panics:
  assumes "nom_log_spec N" and "40 \<le> length i" and "take 4 i = bytes_of ''HvLE''"
    and "unat (from_le_bytes (take 4 (drop 4 i)) :: u32) < 40" and "take 4 (drop 20 i) = [0, 0, 0, 0]"
  shows "LogEntry_from_bytes_internal N i i = Panic"
proof -
  have "from_le_bytes [0, 0, 0, 0] = (0 :: u32)" by (simp add: from_le_bytes_def)
  moreover have "ptr_diff i (drop 40 i) - ptr_diff i i = 40" using assms(2) by (simp add: ptr_diff_def)
  ultimately have "entry_at N i i = Panic"
    using assms(4)
    by (simp add: entry_at_def nom_log_spec.count_dirty [OF assms(1)] assms(5) parser_eat_remaining_def
        check_hashes_Panic)
  then show ?thesis
    using nom_log_spec.log_entry_header [OF assms(1-3)] by simp
qed

section \<open>Witnesses\<close>

definition env_log_ref :: env_log where
  "env_log_ref = env_list.extend env_list_ref
     \<lparr>nom_count_dirty = count_doc, nom_many0_entry = many0_doc\<rparr>"

interpretation ref_nom_log: nom_log_spec env_log_ref
  by unfold_locales (simp_all add: env_log_ref_def env_list_ref_def env_cell_ref_def env_ref_def
      env.defs env_cell.defs env_list.defs)

definition sample_entry :: entry_data where
  "sample_entry = \<lparr>ed_flags = 0, ed_seq = 7, ed_bins = 4096, ed_pages = [(0, [1, 2, 3])], ed_pad = [0]\<rparr>"

lemma sample_entry_size: "entry_size sample_entry = 52"
  by (simp add: sample_entry_def entry_size_def entry_payload_def ref_bytes_def)

theorem log_entry_hashes_witness:
  "\<exists>e. LogEntry_from_bytes_internal env_log_ref (entry_bytes sample_entry) (entry_bytes sample_entry) =
     Ok ([], e) \<and> hash1 e = marvin_ref DEFAULT_SEED (take 12 (drop 40 (entry_bytes sample_entry)))"
proof -
  define e where "e = entry_read 0 sample_entry"
  have p: "LogEntry_from_bytes_internal env_log_ref (entry_bytes sample_entry) (entry_bytes sample_entry) = Ok ([], e)"
    using ref_nom_log.entry_roundtrip [of sample_entry "[]" "entry_bytes sample_entry"]
    by (simp add: sample_entry_size ptr_diff_def e_def)
  have "has_valid_hashes e" "unat (le_size e) = 52"
    by (simp_all add: e_def entry_read_def sample_entry_size)
  then show ?thesis
    using log_entry_hashes [OF ref_nom_log.nom_log_spec_axioms le_refl p] p by auto
qed

theorem log_file_roundtrip_witness:
  "\<exists>b. TransactionLog_from_bytes env_log_ref (take 512 base_block_sample @ entry_bytes sample_entry) =
    Ok ([], \<lparr>tl_base_block = b, base_block_bytes = take 512 base_block_sample,
             log_file_entries = [entry_read 512 sample_entry]\<rparr>)"
  using log_file_roundtrip [OF ref_nom_log.nom_log_spec_axioms, of "take 512 base_block_sample" "[sample_entry]" "[]"]
  by (simp add: base_block_sample_props sample_entry_size)

theorem logs_sorted_oldest_first_witness:
  "\<exists>logs w. TransactionLog_parse env_log_ref (map Inr [[], take 512 base_block_sample]) =
     Ok (logs, Logs_get_option w) \<and> sorted (map log_seq logs) \<and> length (log_entries w) = 1"
proof -
  obtain l where l: "TransactionLog_from_bytes env_log_ref (take 512 base_block_sample) = Ok ([], l)"
    using ref_nom_log.nom_log_spec_axioms
      log_file_roundtrip [OF ref_nom_log.nom_log_spec_axioms, of "take 512 base_block_sample" "[]" "[]"]
    by (auto simp: base_block_sample_props)
  have ne: "take 512 base_block_sample \<noteq> []"
    using base_block_sample_props(1) by (metis length_0_conv length_take min_def numeral_eq_iff zero_neq_numeral)
  have e: "\<exists>e. TransactionLog_from_bytes env_log_ref [] = Err e"
    by (simp add: TransactionLog_from_bytes_def BaseBlockBase_from_bytes_def ref_nom_log.tag tag_doc_def bytes_of_def)
  have "survives env_log_ref b" if "b \<in> set [[], take 512 base_block_sample]" for b
    using that l e by (auto simp: survives_def)
  from logs_sorted_oldest_first [OF this] l ne show ?thesis
    by (fastforce simp: parsed_log_def)
qed

theorem short_log_entry_panics_witness:
  "LogEntry_from_bytes_internal env_log_ref (bytes_of ''HvLE'' @ replicate 36 0) (bytes_of ''HvLE'' @ replicate 36 0) = Panic"
proof -
  have z: "take 4 (replicate 32 (0::u8)) = [0, 0, 0, 0]" "replicate 4 (0::u8) = [0,0,0,0]"
    by (simp_all add: numeral_eq_Suc)
  show ?thesis
    by (rule short_log_entry_panics [OF ref_nom_log.nom_log_spec_axioms])
      (simp_all add: lit_len z from_le_bytes_def)
qed

end
