(* ===== verification/Parser_Core.thy ===== *)
theory Parser_Core
  imports Key_Node_Facts Log_Entries
begin

text \<open>
  The parser itself (\<open>src/src/parser.rs\<close>): its state, the reading and checking of the base block, the
  root key, the repair of the header, the iteration over all keys in preorder and in postorder, and
  the direct access to single keys.  The parts of \<open>parser.rs\<close> that call the recovery of deleted cells
  or apply transaction logs follow in \<open>Recover_Deleted\<close> and \<open>Apply_Logs\<close>.
\<close>

section \<open>The parser and its base block\<close>

record Parser =
  p_file_info :: FileInfo
  p_state :: State
  p_base_block :: "BaseBlock option"
  p_hive_bin_header :: "HiveBinHeader option"
  p_cell_key_node_root :: "CellKeyNode option"
  p_recover_deleted :: bool
  p_update_console :: bool

definition p_add_info :: "LogCode \<Rightarrow> string \<Rightarrow> Parser \<Rightarrow> Parser" where
  "p_add_info c t p = p\<lparr>p_state := (p_state p)\<lparr>info := Logs_add (info (p_state p)) c t\<rparr>\<rparr>"

text \<open>\<open>self.base_block.as_ref().expect(..).base\<close>.\<close>

definition expect_base :: "Parser \<Rightarrow> BaseBlockBase result" where
  "expect_base p = (case p_base_block p of Some bb \<Rightarrow> Ok (base bb) | None \<Rightarrow> Panic)"

definition is_supported_file_type :: "Parser \<Rightarrow> bool result" where
  "is_supported_file_type p = bindO (expect_base p) (\<lambda>b. Ok (file_type b \<noteq> FT_Unknown))"

definition check_base_block :: "Parser \<Rightarrow> ((bool \<times> bool) \<times> Parser) result" where
  "check_base_block p =
     bindO (is_supported_file_type p) (\<lambda>supported.
     if supported then
       bindO (expect_base p) (\<lambda>b.
       let p = (if primary_sequence_number b \<noteq> secondary_sequence_number b
                then p_add_info WarningBaseBlock
                  (''Hive requires recovery: primary and secondary sequence numbers do not match. '' @
                   show_nat (unat (primary_sequence_number b)) @ '', '' @
                   show_nat (unat (secondary_sequence_number b))) p
                else p) in
       bindO (index_range (buffer (p_file_info p)) 0 0x200) (\<lambda>sl.
       bindO (calculate_checksum sl) (\<lambda>checksum_calculated.
       if checksum_calculated \<noteq> checksum b
       then Ok ((True, True),
                p_add_info WarningBaseBlock ''Hive requires recovery: base block checksum is wrong.'' p)
       else Ok ((True, False), p))))
     else Ok ((False, False), p_add_info WarningBaseBlock ''Unsupported registry file type.'' p))"

definition init_base_block :: "'z env_scheme \<Rightarrow> Parser \<Rightarrow> ((bool \<times> bool) \<times> Parser) result" where
  "init_base_block N p =
     (let fi = p_file_info p in
      bindO (from_nom (BaseBlock_from_bytes N (buffer fi))) (\<lambda>(input, bb).
      check_base_block
        (p\<lparr>p_file_info := fi\<lparr>hbin_offset_absolute := ptr_diff (buffer fi) input\<rparr>, p_base_block := Some bb\<rparr>)))"

definition get_base_block_info :: "Parser \<Rightarrow> (u32 \<times> u32) result" where
  "get_base_block_info p =
     bindO (expect_base p) (\<lambda>b. Ok (secondary_sequence_number b, hive_bins_data_size b))"

section \<open>The root key\<close>

definition init_root :: "'z env_scheme \<Rightarrow> nat \<Rightarrow> Parser \<Rightarrow> Parser result" where
  "init_root N fuel p =
     (let fi = p_file_info p in
      bindO (ok_or (Error_buffer ''init_root'') (get_from (buffer fi) (hbin_offset_absolute fi))) (\<lambda>input.
      bindO (from_nom (HiveBinHeader_from_bytes N fi input)) (\<lambda>(input, hbh).
      bindO (CellKeyNode_read N fuel fi (p_state p)
        \<lparr>ro_offset = get_file_offset fi input, ro_cur_path = [], ro_filter = None,
         ro_self_is_filter_match_or_descendent = True, ro_sequence_num = None,
         ro_get_deleted_and_modified = True\<rparr>) (\<lambda>(root, st).
      Ok (p\<lparr>p_state := st, p_hive_bin_header := Some hbh, p_cell_key_node_root := root\<rparr>)))))"

section \<open>The header around transaction logs\<close>

text \<open>
  The repair of a header with a bad checksum from the newest log.  The source asserts in debug builds
  that there are at most two logs; debug assertions and overflow checks belong to one profile.
\<close>

definition handle_bad_checksum ::
  "'z env_scheme \<Rightarrow> TransactionLog list \<Rightarrow> Parser \<Rightarrow> (TransactionLog list \<times> Parser) result" where
  "handle_bad_checksum N logs p =
     (let p = p_add_info WarningBaseBlock ''Applying recovered base block'' p; fi = p_file_info p in
      if logs = [] then Panic
      else
        bindO (ok_or (Error_buffer ''handle_bad_checksum'') (get_range (buffer fi) 0 BASE_BLOCK_LEN)) (\<lambda>_.
        if length (base_block_bytes (last logs)) \<noteq> BASE_BLOCK_LEN then Panic
        else
          bindO (copy_at (buffer fi) 0 (base_block_bytes (last logs))) (\<lambda>buf.
          if overflow_checks N \<and> length logs > 2 then Panic
          else
            bindO (init_base_block N (p\<lparr>p_file_info := fi\<lparr>buffer := buf\<rparr>\<rparr>)) (\<lambda>(_, p).
            Ok (if length logs > 1 then tl logs else logs, p)))))"

definition prepare_transaction_logs ::
  "'z env_scheme \<Rightarrow> bool \<Rightarrow> TransactionLog list \<Rightarrow> Parser \<Rightarrow> (bool \<times> TransactionLog list \<times> Parser) result" where
  "prepare_transaction_logs N has_bad_checksum logs p =
     bindO (if has_bad_checksum then handle_bad_checksum N logs p else Ok (logs, p)) (\<lambda>(logs, p).
     bindO (expect_base p) (\<lambda>b.
     if primary_sequence_number b = secondary_sequence_number b
     then Ok (False, logs, p_add_info WarningTransactionLog
            ''Skipping transaction logs because the primary file's primary_sequence_number matches the secondary_sequence_number'' p)
     else Ok (True, logs, p)))"

definition update_header_after_transaction_logs :: "'z env_scheme \<Rightarrow> u32 \<Rightarrow> Parser \<Rightarrow> Parser result" where
  "update_header_after_transaction_logs N new_sequence_number p =
     (let fi = p_file_info p; seq_bytes = to_le_bytes new_sequence_number in
      bindO (copy_at (buffer fi) 4 seq_bytes) (\<lambda>buf.
      bindO (copy_at buf 8 seq_bytes) (\<lambda>buf.
      bindO (index_range buf 0 0x200) (\<lambda>sl.
      bindO (calculate_checksum sl) (\<lambda>new_checksum.
      bindO (copy_at buf CHECKSUM_OFFSET (to_le_bytes new_checksum)) (\<lambda>buf.
      bindO (init_base_block N (p\<lparr>p_file_info := fi\<lparr>buffer := buf\<rparr>\<rparr>)) (\<lambda>(_, p).
      Ok (p_add_info Info
        (''Applied transaction log(s). Sequence numbers have been updated to '' @
         show_nat (unat new_sequence_number) @ ''. New Checksum: 0x'' @
         pad_zeros 8 (show_hex True (unat new_checksum))) p))))))))"

section \<open>Iteration\<close>

text \<open>
  The context of an iteration.  The two vectors are used as stacks only; the top of a stack is the head
  of its list here.
\<close>

record ParserIteratorContext =
  ic_state :: State
  ic_filter :: Filter
  stack_to_traverse :: "CellKeyNode list"
  stack_file_offsets :: "usize set"
  stack_to_return :: "CellKeyNode list"
  ic_get_modified_items :: bool
  ic_filter_include_ancestors :: bool

definition ParserIteratorContext_from_parser ::
  "Parser \<Rightarrow> bool \<Rightarrow> (Filter \<times> bool) option \<Rightarrow> ParserIteratorContext" where
  "ParserIteratorContext_from_parser p get_modified filter_and_ancestors =
     (let (flt, include_ancestors) =
            (case filter_and_ancestors of Some fa \<Rightarrow> fa | None \<Rightarrow> (Filter_new, False));
          root = (case p_cell_key_node_root p of Some r \<Rightarrow> r | None \<Rightarrow> CellKeyNode_default)
      in \<lparr>ic_state = p_state p, ic_filter = flt, stack_to_traverse = [root],
          stack_file_offsets = {kn_file_offset_absolute (kn root)}, stack_to_return = [],
          ic_get_modified_items = get_modified, ic_filter_include_ancestors = include_ancestors\<rparr>)"

text \<open>A key whose offset has been pushed before is refused; the callers drop the error.\<close>

definition push_check_stack_to_traverse ::
  "CellKeyNode \<Rightarrow> ParserIteratorContext \<Rightarrow> unit result \<times> ParserIteratorContext" where
  "push_check_stack_to_traverse node ctx =
     (let off = kn_file_offset_absolute (kn node) in
      if off \<notin> stack_file_offsets ctx
      then (Ok (), ctx\<lparr>stack_file_offsets := insert off (stack_file_offsets ctx),
                       stack_to_traverse := node # stack_to_traverse ctx\<rparr>)
      else (Err (AnyErr
              (''Attempting to add node with same file offset as another node we have processed (potential circular reference): '' @
               show_nat off)), ctx))"

definition pop_stack_to_traverse ::
  "ParserIteratorContext \<Rightarrow> (CellKeyNode \<times> ParserIteratorContext) option" where
  "pop_stack_to_traverse ctx =
     (case stack_to_traverse ctx of
        [] \<Rightarrow> None
      | node # rest \<Rightarrow> Some (node, ctx\<lparr>stack_to_traverse := rest\<rparr>))"

text \<open>
  What both orders do with a key they take from the stack: push its sub keys, the first on top, and
  then its deleted keys, which get the filter state of the key and are not checked.
\<close>

definition push_children :: "CellKeyNode list \<Rightarrow> ParserIteratorContext \<Rightarrow> ParserIteratorContext" where
  "push_children children ctx = fold (\<lambda>c ctx. snd (push_check_stack_to_traverse c ctx)) (rev children) ctx"

definition mark_deleted :: "CellKeyNode \<Rightarrow> CellKeyNode" where
  "mark_deleted node = CellKeyNode (kn node) (kn_versions node)
     (map (kn_update (\<lambda>c. c\<lparr>iteration_state := (iteration_state c)
             \<lparr>filter_state := filter_state (iteration_state (kn node))\<rparr>\<rparr>)) (kn_deleted_keys node))"

definition push_deleted :: "CellKeyNode \<Rightarrow> ParserIteratorContext \<Rightarrow> ParserIteratorContext" where
  "push_deleted node ctx = ctx\<lparr>stack_to_traverse := rev (kn_deleted_keys node) @ stack_to_traverse ctx\<rparr>"

definition expand_node ::
  "'z env_list_scheme \<Rightarrow> nat \<Rightarrow> FileInfo \<Rightarrow> CellKeyNode \<Rightarrow> ParserIteratorContext \<Rightarrow>
     (CellKeyNode \<times> ParserIteratorContext) result" where
  "expand_node N depth fi node ctx =
     bindO (if field_value (knd_number_of_sub_keys (kn_detail (kn node))) > 0 then
              bindO (read_sub_keys_internal N depth fi (ic_state ctx) (ic_filter ctx) None
                       (ic_get_modified_items ctx) node) (\<lambda>(children, _, node, st).
              Ok (kn_update (\<lambda>c. c\<lparr>iteration_state := (iteration_state c)\<lparr>to_return := of_nat (length children)\<rparr>\<rparr>) node,
                  push_children children (ctx\<lparr>ic_state := st\<rparr>)))
            else Ok (node, ctx)) (\<lambda>(node, ctx).
     let node = mark_deleted node in Ok (node, push_deleted node ctx))"

text \<open>The loops take fuel for their rounds, besides that of the operations they call.\<close>

primrec next_key_preorder ::
  "'z env_list_scheme \<Rightarrow> nat \<Rightarrow> nat \<Rightarrow> FileInfo \<Rightarrow> ParserIteratorContext \<Rightarrow>
     (CellKeyNode option \<times> ParserIteratorContext) result" where
  "next_key_preorder N depth 0 fi ctx = Diverge"
| "next_key_preorder N depth (Suc fuel) fi ctx =
     (case pop_stack_to_traverse ctx of
        None \<Rightarrow> Ok (None, ctx)
      | Some (node, ctx) \<Rightarrow>
          bindO (expand_node N depth fi node ctx) (\<lambda>(node, ctx).
          if ic_filter_include_ancestors ctx \<or> \<not> Filter_is_valid (ic_filter ctx) \<or>
             is_filter_match_or_descendent node
          then Ok (Some node, ctx)
          else next_key_preorder N depth fuel fi ctx))"

definition postorder_remaining :: "ParserIteratorContext \<Rightarrow> CellKeyNode option \<times> ParserIteratorContext" where
  "postorder_remaining ctx =
     (case stack_to_return ctx of
        [] \<Rightarrow> (None, ctx)
      | node # rest \<Rightarrow>
          (if ic_filter_include_ancestors ctx \<or> filter_state (iteration_state (kn node)) \<noteq> Some FMS_None
           then Some node else None, ctx\<lparr>stack_to_return := rest\<rparr>))"

definition count_returned :: "'z env_scheme \<Rightarrow> CellKeyNode list \<Rightarrow> CellKeyNode list result" where
  "count_returned N stack =
     (case stack of
        [] \<Rightarrow> Ok []
      | node # rest \<Rightarrow>
          bindO (add_w (overflow_checks N) (track_returned (iteration_state (kn node))) 1) (\<lambda>n.
          Ok (kn_update (\<lambda>c. c\<lparr>iteration_state := (iteration_state c)\<lparr>track_returned := n\<rparr>\<rparr>) node # rest)))"

definition last_is_done :: "CellKeyNode list \<Rightarrow> bool" where
  "last_is_done stack =
     (case stack of
        [] \<Rightarrow> False
      | node # _ \<Rightarrow> track_returned (iteration_state (kn node)) = to_return (iteration_state (kn node)))"

primrec next_key_postorder ::
  "'z env_list_scheme \<Rightarrow> nat \<Rightarrow> nat \<Rightarrow> FileInfo \<Rightarrow> ParserIteratorContext \<Rightarrow>
     (CellKeyNode option \<times> ParserIteratorContext) result" where
  "next_key_postorder N depth 0 fi ctx = Diverge"
| "next_key_postorder N depth (Suc fuel) fi ctx =
     (if stack_to_traverse ctx = [] then Ok (postorder_remaining ctx)
      else if last_is_done (stack_to_return ctx)
      then Ok (Some (hd (stack_to_return ctx)), ctx\<lparr>stack_to_return := tl (stack_to_return ctx)\<rparr>)
      else
        case pop_stack_to_traverse ctx of
          None \<Rightarrow> next_key_postorder N depth fuel fi ctx
        | Some (node, ctx) \<Rightarrow>
            bindO (expand_node N depth fi node ctx) (\<lambda>(node, ctx).
            bindO (count_returned N (stack_to_return ctx)) (\<lambda>stack.
            next_key_postorder N depth fuel fi (ctx\<lparr>stack_to_return := node # stack\<rparr>))))"

record ParserIterator =
  it_parser :: Parser
  it_postorder_iteration :: bool
  it_context :: ParserIteratorContext

definition ParserIterator_new :: "Parser \<Rightarrow> ParserIterator" where
  "ParserIterator_new p =
     \<lparr>it_parser = p, it_postorder_iteration = False,
      it_context = ParserIteratorContext_from_parser p True None\<rparr>"

definition ParserIterator_with_filter :: "Filter \<Rightarrow> ParserIterator \<Rightarrow> ParserIterator" where
  "ParserIterator_with_filter flt it = it\<lparr>it_context := (it_context it)\<lparr>ic_filter := flt\<rparr>\<rparr>"

definition ParserIterator_filter_include_ancestors :: "bool \<Rightarrow> ParserIterator \<Rightarrow> ParserIterator" where
  "ParserIterator_filter_include_ancestors v it =
     it\<lparr>it_context := (it_context it)\<lparr>ic_filter_include_ancestors := v\<rparr>\<rparr>"

definition ParserIterator_postorder_iteration :: "bool \<Rightarrow> ParserIterator \<Rightarrow> ParserIterator" where
  "ParserIterator_postorder_iteration v it = it\<lparr>it_postorder_iteration := v\<rparr>"

definition ParserIterator_get_modified_items :: "bool \<Rightarrow> ParserIterator \<Rightarrow> ParserIterator" where
  "ParserIterator_get_modified_items v it =
     it\<lparr>it_context := (it_context it)\<lparr>ic_get_modified_items := v\<rparr>\<rparr>"

definition ParserIterator_next ::
  "'z env_list_scheme \<Rightarrow> nat \<Rightarrow> nat \<Rightarrow> ParserIterator \<Rightarrow> (CellKeyNode option \<times> ParserIterator) result" where
  "ParserIterator_next N depth fuel it =
     bindO ((if it_postorder_iteration it then next_key_postorder else next_key_preorder)
              N depth fuel (p_file_info (it_parser it)) (it_context it)) (\<lambda>(key, ctx).
     Ok (key, it\<lparr>it_context := ctx\<rparr>))"

text \<open>A \<open>for\<close> loop over an iterator: what it returns until it returns \<open>None\<close>.\<close>

primrec collect_iter :: "(nat \<Rightarrow> 's \<Rightarrow> ('k option \<times> 's) result) \<Rightarrow> nat \<Rightarrow> 's \<Rightarrow> 'k list result" where
  "collect_iter nxt 0 s = Diverge"
| "collect_iter nxt (Suc fuel) s =
     bindO (nxt (Suc fuel) s) (\<lambda>(item, s).
       case item of
         None \<Rightarrow> Ok []
       | Some k \<Rightarrow> bindO (collect_iter nxt fuel s) (\<lambda>ks. Ok (k # ks)))"

definition iter_all :: "'z env_list_scheme \<Rightarrow> nat \<Rightarrow> nat \<Rightarrow> ParserIterator \<Rightarrow> CellKeyNode list result" where
  "iter_all N depth = collect_iter (ParserIterator_next N depth)"

definition count_all_keys_and_values ::
  "'z env_list_scheme \<Rightarrow> nat \<Rightarrow> nat \<Rightarrow> Parser \<Rightarrow> Filter option \<Rightarrow> (usize \<times> usize) result" where
  "count_all_keys_and_values N depth fuel p flt =
     (let it = ParserIterator_new p;
          it = (case flt of Some f \<Rightarrow> ParserIterator_with_filter f it | None \<Rightarrow> it) in
      bindO (iter_all N depth fuel it) (\<lambda>keys.
      Ok (foldl (\<lambda>(ks, vs) key. (ks + 1, vs + length (kn_sub_values (kn key)))) (0, 0) keys)))"

record counts =
  n_keys :: usize
  n_keys_versions :: usize
  n_keys_deleted :: usize
  n_values :: usize
  n_values_versions :: usize
  n_values_deleted :: usize

definition count_value :: "counts \<Rightarrow> CellKeyValue \<Rightarrow> counts" where
  "count_value c v =
     (let c = (if is_deleted (kv_cell_state (kv v)) then c\<lparr>n_values_deleted := n_values_deleted c + 1\<rparr>
               else c\<lparr>n_values := n_values c + 1\<rparr>)
      in c\<lparr>n_values_versions := n_values_versions c + length (kv_versions v)\<rparr>)"

definition count_key :: "counts \<Rightarrow> CellKeyNode \<Rightarrow> counts" where
  "count_key c k =
     (let c = (if is_deleted (kn_cell_state (kn k)) then c\<lparr>n_keys_deleted := n_keys_deleted c + 1\<rparr>
               else c\<lparr>n_keys := n_keys c + 1\<rparr>);
          c = c\<lparr>n_keys_versions := n_keys_versions c + length (kn_versions k)\<rparr>
      in foldl count_value c (value_iter_from k 0))"

definition count_all_keys_and_values_with_modified ::
  "'z env_list_scheme \<Rightarrow> nat \<Rightarrow> nat \<Rightarrow> Parser \<Rightarrow> Filter option \<Rightarrow> counts result" where
  "count_all_keys_and_values_with_modified N depth fuel p flt =
     (let it = ParserIterator_new p;
          it = (case flt of Some f \<Rightarrow> ParserIterator_with_filter f it | None \<Rightarrow> it) in
      bindO (iter_all N depth fuel it) (\<lambda>keys.
      Ok (foldl count_key \<lparr>n_keys = 0, n_keys_versions = 0, n_keys_deleted = 0, n_values = 0,
                           n_values_versions = 0, n_values_deleted = 0\<rparr> keys)))"

section \<open>Access to single keys\<close>

definition get_root_key :: "'z env_scheme \<Rightarrow> nat \<Rightarrow> Parser \<Rightarrow> (CellKeyNode option \<times> Parser) result" where
  "get_root_key N fuel p =
     (case p_base_block p of
        Some bb \<Rightarrow>
          bindO (usize_add (overflow_checks N) (usize_of_i32 (root_cell_offset_relative (base bb)))
                   (hbin_offset_absolute (p_file_info p))) (\<lambda>offset.
          bindO (CellKeyNode_read N fuel (p_file_info p) (p_state p)
            \<lparr>ro_offset = offset, ro_cur_path = [], ro_filter = None,
             ro_self_is_filter_match_or_descendent = True, ro_sequence_num = None,
             ro_get_deleted_and_modified = True\<rparr>) (\<lambda>(root, st).
          Ok (root, p\<lparr>p_state := st\<rparr>)))
      | None \<Rightarrow> Ok (None, p))"

definition get_sub_key ::
  "'z env_list_scheme \<Rightarrow> nat \<Rightarrow> CellKeyNode \<Rightarrow> string \<Rightarrow> Parser \<Rightarrow>
     (CellKeyNode option \<times> CellKeyNode \<times> Parser) result" where
  "get_sub_key N fuel k name p =
     (let (off, st) = State_get_root_path_offset (p_state p) (kn_path (kn k)) in
      bindO (str_from (kn_path (kn k)) off) (\<lambda>key_path_sans_root.
      bindO (FilterBuilder_build (add_key_path FilterBuilder_new (key_path_sans_root @ backslash # name))) (\<lambda>flt.
      bindO (read_sub_keys_internal N fuel (p_file_info p) st flt None False k) (\<lambda>(children, _, k, st).
      Ok (case children of [] \<Rightarrow> None | c # _ \<Rightarrow> Some c, k, p\<lparr>p_state := st\<rparr>)))))"

definition strip_root :: "string \<Rightarrow> bool \<Rightarrow> string" where
  "strip_root key_path key_path_has_root =
     (let key_path = trim_start_char backslash key_path in
      if key_path_has_root then
        (case find_char backslash key_path of
           Some slash_offset \<Rightarrow> drop (slash_offset + 1) key_path
         | None \<Rightarrow> [])
      else key_path)"

definition get_key ::
  "'z env_list_scheme \<Rightarrow> nat \<Rightarrow> string \<Rightarrow> bool \<Rightarrow> Parser \<Rightarrow> (CellKeyNode option \<times> Parser) result" where
  "get_key N fuel key_path key_path_has_root p =
     (case get_root_key N fuel p of
        Ok (Some root, p) \<Rightarrow>
          bindO (get_sub_key_by_path N fuel (p_file_info p) (p_state p)
                   (strip_root key_path key_path_has_root) root) (\<lambda>(key, _, st).
          Ok (key, p\<lparr>p_state := st\<rparr>))
      | Ok (None, p) \<Rightarrow> Ok (None, p)
      | Err _ \<Rightarrow> Ok (None, p)
      | Panic \<Rightarrow> Panic
      | Diverge \<Rightarrow> Diverge)"

definition truncate_last_segment :: "string \<Rightarrow> string" where
  "truncate_last_segment path = (case rfind_char backslash path of Some i \<Rightarrow> take i path | None \<Rightarrow> path)"

definition get_parent_key ::
  "'z env_scheme \<Rightarrow> nat \<Rightarrow> CellKeyNode \<Rightarrow> Parser \<Rightarrow> (CellKeyNode option \<times> Parser) result" where
  "get_parent_key N fuel k p =
     bindO (usize_add (overflow_checks N) (usize_of_i32 (field_value (knd_parent_key_offset_relative (kn_detail (kn k)))))
              (hbin_offset_absolute (p_file_info p))) (\<lambda>offset.
     bindO (CellKeyNode_read N fuel (p_file_info p) (p_state p)
       \<lparr>ro_offset = offset, ro_cur_path = truncate_last_segment (truncate_last_segment (kn_path (kn k))),
        ro_filter = None, ro_self_is_filter_match_or_descendent = True, ro_sequence_num = None,
        ro_get_deleted_and_modified = True\<rparr>) (\<lambda>(parent, st).
     Ok (parent, p\<lparr>p_state := st\<rparr>)))"

end
