(* ===== verification/Header_Facts.thy ===== *)
theory Header_Facts
  imports Parser_Core
begin

text \<open>
  What holds of the base block in the parser: when it is accepted, what the check of it says, and that
  the repair of the header after transaction logs leaves a header that passes the check.
\<close>

section \<open>Parsing the whole base block\<close>

context nom_spec
begin

lemma safe_BaseBlock:
  assumes "guid_total N"
  shows "safe (BaseBlock_from_bytes N input)"
proof -
  have g: "safe (infallible (get_guid_from_buffer N b logs :: (Guid \<times> Logs) result) :: (nom_err, Guid \<times> Logs) outcome)" for b logs
    using get_guid_total [OF assms, of b logs] by auto
  have u: "safe (infallible (from_utf16_le_string nm 64 logs ''Filename'') :: (nom_err, string \<times> Logs) outcome)"
    if "nom_take_streaming N 64 j = Ok (j', nm)" for nm logs j j'
  proof -
    have "length nm = 64"
      using that by (auto simp: take_streaming take_streaming_doc_def split: if_splits)
    then show ?thesis using from_utf16_le_string_total [of 64 nm logs "''Filename''"] by auto
  qed
  have "safe (BaseBlockBase_from_bytes N i)" for i
    unfolding BaseBlockBase_from_bytes_def Let_def case_prod_beta [of _ "FileType_from_value _ _"]
      case_prod_beta [of _ "FileFormat_from_value _ _"]
    apply (rule safe_bind_prod, rule safe_nom)+
    apply (rule safe_bind_prod)
     apply (rule u, assumption)
    apply simp
    done
  moreover have "safe (BaseBlockExtended_from_bytes N i)" for i
    unfolding BaseBlockExtended_from_bytes_def FileBaseBlockReserved_from_bytes_def Let_def
      case_prod_beta [of _ "ReservedFlags_from_value _ _"]
    by (intro safe_bind_prod safe_nom g safe_Ok)
  ultimately show ?thesis
    unfolding BaseBlock_from_bytes_def by (intro safe_bind_prod safe_Ok)
qed

lemma base_block_Ok_iff:
  assumes "guid_total N"
  shows "(\<exists>r. BaseBlock_from_bytes N input = Ok r) \<longleftrightarrow> 4096 \<le> length input \<and> take 4 input = bytes_of ''regf''"
proof
  assume "\<exists>r. BaseBlock_from_bytes N input = Ok r"
  then obtain i b where r: "BaseBlock_from_bytes N input = Ok (i, b)" by auto
  have "4096 \<le> length input"
    using consumesD [OF consumes_BaseBlock r] by auto
  moreover have "take 4 input = bytes_of ''regf''"
  proof -
    have "is_ok (nom_tag N ''regf'' input)"
      using r by (cases "nom_tag N ''regf'' input") (auto simp: BaseBlock_from_bytes_def BaseBlockBase_from_bytes_def)
    then show ?thesis by (simp add: tag tag_doc_def eval_nat_numeral split: if_splits)
  qed
  ultimately show "4096 \<le> length input \<and> take 4 input = bytes_of ''regf''" by simp
qed (use base_block_Ok [OF assms] in blast)

lemma base_block_fields:
  assumes "guid_total N" and "4096 \<le> length input" and "take 4 input = bytes_of ''regf''"
  shows "\<exists>bb. BaseBlock_from_bytes N input = Ok (drop 4096 input, bb) \<and>
    primary_sequence_number (base bb) = from_le_bytes (take 4 (drop 4 input)) \<and>
    secondary_sequence_number (base bb) = from_le_bytes (take 4 (drop 8 input)) \<and>
    file_type (base bb) = fst (FileType_from_value (from_le_bytes (take 4 (drop 28 input))) Logs_default) \<and>
    checksum (base bb) = from_le_bytes (take 4 (drop 508 input))"
proof -
  obtain bb where bb: "BaseBlock_from_bytes N input = Ok (drop 4096 input, bb)" using base_block_Ok [OF assms] by blast
  obtain b where "BaseBlockBase_from_bytes N input = Ok (drop 512 input, b)"
    "primary_sequence_number b = from_le_bytes (take 4 (drop 4 input))"
    "secondary_sequence_number b = from_le_bytes (take 4 (drop 8 input))"
    "file_type b = fst (FileType_from_value (from_le_bytes (take 4 (drop 28 input))) Logs_default)"
    "checksum b = from_le_bytes (take 4 (drop 508 input))"
    using base_block_base_Ok [of input] assms(2,3) by auto
  moreover from this(1) bb have "base bb = b"
    by (auto simp: BaseBlock_from_bytes_def bindO_eq_Ok)
  ultimately show ?thesis using bb by blast
qed

end

section \<open>The checksum\<close>

lemma word_at_take: "k < 127 \<Longrightarrow> word_at bs k = word_at (take 508 bs) k"
  using min_absorb1 [of 4 "508 - 4 * k"] by (simp only: word_at_def drop_take take_take)

lemma checksum_spec_take: "checksum_spec bs = checksum_spec (take 508 bs)"
proof -
  have "map (word_at bs) [0..<127] = map (word_at (take 508 bs)) [0..<127]"
    by (rule map_cong [OF refl], rule word_at_take) (simp only: set_upt atLeastLessThan_iff)
  then show ?thesis by (simp only: checksum_spec_def)
qed

lemma checksum_Ok: "508 \<le> length bs \<Longrightarrow> calculate_checksum bs = Ok (checksum_spec bs)"
  using checksum_loop_Ok [of bs 0] by (simp add: calculate_checksum_def checksum_spec_def xor_words_def Let_def)

section \<open>Checking the base block\<close>

definition word32 :: "bytes \<Rightarrow> nat \<Rightarrow> u32" where
  "word32 buf off = from_le_bytes (take 4 (drop off buf))"

definition supported_type :: "bytes \<Rightarrow> bool" where
  "supported_type buf \<longleftrightarrow> word32 buf 28 \<in> {0, 1, 6}"

lemma supported_type_eq:
  "fst (FileType_from_value (word32 buf 28) Logs_default) \<noteq> FT_Unknown \<longleftrightarrow> supported_type buf"
  by (auto simp: supported_type_def FileType_from_value_def enum_from_value_def FileType_from_u32_def)

lemma p_add_info_simps [simp]:
  "p_file_info (p_add_info c t p) = p_file_info p" "p_base_block (p_add_info c t p) = p_base_block p"
  "p_cell_key_node_root (p_add_info c t p) = p_cell_key_node_root p"
  "p_hive_bin_header (p_add_info c t p) = p_hive_bin_header p"
  "p_state (p_add_info c t p) = (p_state p)\<lparr>info := Logs_add (info (p_state p)) c t\<rparr>"
  by (simp_all add: p_add_info_def)

lemma check_base_block_eq:
  assumes "p_base_block p = Some bb" and "512 \<le> length (buffer (p_file_info p))"
  shows "\<exists>p'. check_base_block p =
      Ok ((file_type (base bb) \<noteq> FT_Unknown,
           file_type (base bb) \<noteq> FT_Unknown \<and> checksum_spec (buffer (p_file_info p)) \<noteq> checksum (base bb)), p') \<and>
    p_file_info p' = p_file_info p \<and> p_base_block p' = p_base_block p \<and>
    p_cell_key_node_root p' = p_cell_key_node_root p \<and> p_hive_bin_header p' = p_hive_bin_header p \<and>
    p_state p' = (p_state p)\<lparr>info := info (p_state p')\<rparr>"
proof -
  have "checksum_spec (take 512 (buffer (p_file_info p))) = checksum_spec (buffer (p_file_info p))"
    using checksum_spec_take [of "take 512 (buffer (p_file_info p))"] checksum_spec_take [of "buffer (p_file_info p)"]
    by simp
  then show ?thesis
    using assms
    by (auto simp: check_base_block_def is_supported_file_type_def expect_base_def Let_def index_range_def checksum_Ok)
qed

context nom_spec
begin

lemma init_base_block_Ok:
  assumes "guid_total N" and "4096 \<le> length (buffer (p_file_info p))" and "take 4 (buffer (p_file_info p)) = bytes_of ''regf''"
  shows "\<exists>p' bb. init_base_block N p =
      Ok ((supported_type (buffer (p_file_info p)), supported_type (buffer (p_file_info p)) \<and>
           word32 (buffer (p_file_info p)) 508 \<noteq> checksum_spec (buffer (p_file_info p))), p') \<and>
    p_file_info p' = (p_file_info p)\<lparr>hbin_offset_absolute := 4096\<rparr> \<and> p_base_block p' = Some bb \<and>
    primary_sequence_number (base bb) = word32 (buffer (p_file_info p)) 4 \<and>
    secondary_sequence_number (base bb) = word32 (buffer (p_file_info p)) 8 \<and>
    p_state p' = (p_state p)\<lparr>info := info (p_state p')\<rparr>"
proof -
  let ?fi = "p_file_info p"
  obtain bb where bb: "BaseBlock_from_bytes N (buffer ?fi) = Ok (drop 4096 (buffer ?fi), bb)"
    and f: "primary_sequence_number (base bb) = word32 (buffer ?fi) 4" "secondary_sequence_number (base bb) = word32 (buffer ?fi) 8"
      "file_type (base bb) = fst (FileType_from_value (word32 (buffer ?fi) 28) Logs_default)" "checksum (base bb) = word32 (buffer ?fi) 508"
    using base_block_fields [OF assms] by (auto simp: word32_def)
  let ?p = "p\<lparr>p_file_info := ?fi\<lparr>hbin_offset_absolute := 4096\<rparr>, p_base_block := Some bb\<rparr>"
  have i: "init_base_block N p = check_base_block ?p"
    using bb assms(2) by (simp add: init_base_block_def Let_def ptr_diff_def)
  obtain p' where "check_base_block ?p = Ok ((supported_type (buffer ?fi), supported_type (buffer ?fi) \<and>
           checksum_spec (buffer ?fi) \<noteq> word32 (buffer ?fi) 508), p')"
    and "p_file_info p' = p_file_info ?p" and "p_base_block p' = p_base_block ?p"
    and "p_state p' = (p_state ?p)\<lparr>info := info (p_state p')\<rparr>"
    using check_base_block_eq [of ?p bb] assms(2) f(3,4) supported_type_eq [of "buffer ?fi"] by auto
  with f(1,2) show ?thesis unfolding i by (intro exI [of _ p'] exI [of _ bb]) auto
qed

lemma init_base_block_Err:
  assumes "guid_total N" and "\<not> (4096 \<le> length (buffer (p_file_info p)) \<and> take 4 (buffer (p_file_info p)) = bytes_of ''regf'')"
  shows "\<exists>e. init_base_block N p = Err e"
proof -
  have "\<nexists>r. BaseBlock_from_bytes N (buffer (p_file_info p)) = Ok r"
    using base_block_Ok_iff [OF assms(1)] assms(2) by blast
  then obtain e where "BaseBlock_from_bytes N (buffer (p_file_info p)) = Err e"
    using safe_BaseBlock [OF assms(1), of "buffer (p_file_info p)"] by (auto elim: safe_cases)
  then show ?thesis by (simp add: init_base_block_def)
qed

end

section \<open>Properties\<close>

text \<open>
  C19: a file is accepted exactly when it holds a whole base block that starts with the signature; then
  the hive bins start at 4096, the file counts as supported exactly for the three known file types,
  and its checksum as bad exactly when the stored word differs from the one computed.  Every other
  file is an error, and no file makes the check panic.
\<close>

theorem base_block_check:
  assumes "nom_spec N" and "guid_total N" and "buf = buffer (p_file_info p)"
  shows "if 4096 \<le> length buf \<and> take 4 buf = bytes_of ''regf''
    then \<exists>p'. init_base_block N p =
        Ok ((supported_type buf, supported_type buf \<and> word32 buf 508 \<noteq> checksum_spec buf), p') \<and>
      p_file_info p' = (p_file_info p)\<lparr>hbin_offset_absolute := 4096\<rparr>
    else \<exists>e. init_base_block N p = Err e"
proof (cases "4096 \<le> length buf \<and> take 4 buf = bytes_of ''regf''")
  case True
  then show ?thesis using nom_spec.init_base_block_Ok [OF assms(1,2), of p] by (auto simp: assms(3))
next
  case False
  then show ?thesis using nom_spec.init_base_block_Err [OF assms(1,2), of p] by (auto simp: assms(3))
qed

text \<open>The bytes of the header after the repair.\<close>

definition repaired :: "u32 \<Rightarrow> bytes \<Rightarrow> bytes" where
  "repaired seq buf =
     (let b = take 4 buf @ to_le_bytes seq @ to_le_bytes seq @ drop 12 buf
      in take 508 b @ to_le_bytes (checksum_spec b) @ drop 512 b)"

lemma repaired_props:
  assumes "512 \<le> length buf"
  shows "length (repaired seq buf) = length buf" and "take 4 (repaired seq buf) = take 4 buf"
    and "word32 (repaired seq buf) 4 = seq" and "word32 (repaired seq buf) 8 = seq"
    and "word32 (repaired seq buf) 28 = word32 buf 28"
    and "word32 (repaired seq buf) 508 = checksum_spec (repaired seq buf)"
    and "i \<notin> {4..<12} \<union> {508..<512} \<Longrightarrow> repaired seq buf ! i = buf ! i"
proof -
  let ?b = "take 4 buf @ to_le_bytes seq @ to_le_bytes seq @ drop 12 buf"
  have r: "repaired seq buf = take 508 ?b @ to_le_bytes (checksum_spec ?b) @ drop 512 ?b" by (simp add: repaired_def Let_def)
  have lb: "length ?b = length buf" using assms by simp
  show "length (repaired seq buf) = length buf" using assms unfolding r by simp
  show "take 4 (repaired seq buf) = take 4 buf" using assms unfolding r by simp
  show "word32 (repaired seq buf) 4 = seq" using assms unfolding r word32_def by simp
  show "word32 (repaired seq buf) 8 = seq" using assms unfolding r word32_def by simp
  show "word32 (repaired seq buf) 28 = word32 buf 28" using assms unfolding r word32_def by (simp add: drop_take)
  have "checksum_spec (repaired seq buf) = checksum_spec ?b"
    using checksum_spec_take [of ?b] checksum_spec_take [of "repaired seq buf"] assms by (simp add: r)
  moreover have "word32 (repaired seq buf) 508 = checksum_spec ?b" using assms unfolding r word32_def by simp
  ultimately show "word32 (repaired seq buf) 508 = checksum_spec (repaired seq buf)" by simp
  assume "i \<notin> {4..<12} \<union> {508..<512}"
  then consider "i < 4" | "12 \<le> i" "i < 508" | "512 \<le> i" by force
  then show "repaired seq buf ! i = buf ! i"
    using assms unfolding r by cases (auto simp: nth_append min_def)
qed

lemma supported_type_repaired: "512 \<le> length buf \<Longrightarrow> supported_type (repaired seq buf) = supported_type buf"
  by (simp add: supported_type_def repaired_props(5))

lemma header_bytes_written:
  assumes "512 \<le> length buf"
  shows "bindO (copy_at buf 4 (to_le_bytes (seq :: u32))) (\<lambda>buf.
      bindO (copy_at buf 8 (to_le_bytes seq)) (\<lambda>buf.
      bindO (index_range buf 0 0x200) (\<lambda>sl.
      bindO (calculate_checksum sl) (\<lambda>new_checksum.
      bindO (copy_at buf CHECKSUM_OFFSET (to_le_bytes new_checksum)) (f new_checksum))))) =
    f (checksum_spec (repaired seq buf)) (repaired seq buf)"
proof -
  let ?b = "take 4 buf @ to_le_bytes seq @ to_le_bytes seq @ drop 12 buf"
  have c1: "copy_at buf 4 (to_le_bytes seq) = (Ok (take 4 buf @ to_le_bytes seq @ drop 8 buf) :: bytes result)"
    using assms by (simp add: copy_at_def)
  have c2: "copy_at (take 4 buf @ to_le_bytes seq @ drop 8 buf) 8 (to_le_bytes seq) = (Ok ?b :: bytes result)"
    using assms by (simp add: copy_at_def)
  have lb: "length ?b = length buf" using assms by simp
  have k: "calculate_checksum (take 512 ?b) = Ok (checksum_spec ?b)"
    using checksum_Ok [of "take 512 ?b"] checksum_spec_take [of "take 512 ?b"] checksum_spec_take [of ?b] lb assms
    by simp
  have c3: "copy_at ?b CHECKSUM_OFFSET (to_le_bytes (checksum_spec ?b)) = (Ok (repaired seq buf) :: bytes result)"
    using assms lb by (simp add: copy_at_def CHECKSUM_OFFSET_def repaired_def Let_def)
  have s: "checksum_spec (repaired seq buf) = checksum_spec ?b"
    using checksum_spec_take [of ?b] checksum_spec_take [of "repaired seq buf"] assms by (simp add: repaired_def Let_def)
  have i: "index_range ?b 0 0x200 = (Ok (take 512 ?b) :: bytes result)"
    using assms lb by (simp add: index_range_def)
  show ?thesis unfolding c1 bindO.simps c2 i k c3 s ..
qed

text \<open>
  C18: the update of the header after transaction logs succeeds on every supported file with a whole base
  block.  It writes the new sequence number over both old ones and the checksum of the result into
  its word, touches no other byte, and leaves a header that a new check finds consistent: equal
  sequence numbers and a good checksum.
\<close>

theorem header_repaired:
  assumes "nom_spec N" and "guid_total N" and "4096 \<le> length (buffer (p_file_info p))"
    and "take 4 (buffer (p_file_info p)) = bytes_of ''regf''" and "supported_type (buffer (p_file_info p))"
  shows "\<exists>p' bb p''. update_header_after_transaction_logs N seq p = Ok p' \<and>
    length (buffer (p_file_info p')) = length (buffer (p_file_info p)) \<and>
    (\<forall>i. i \<notin> {4..<12} \<union> {508..<512} \<longrightarrow> buffer (p_file_info p') ! i = buffer (p_file_info p) ! i) \<and>
    p_base_block p' = Some bb \<and> primary_sequence_number (base bb) = seq \<and> secondary_sequence_number (base bb) = seq \<and>
    init_base_block N p' = Ok ((True, False), p'')"
proof -
  let ?buf = "buffer (p_file_info p)" and ?p1 = "p\<lparr>p_file_info := (p_file_info p)\<lparr>buffer := repaired seq (buffer (p_file_info p))\<rparr>\<rparr>"
  have l: "512 \<le> length ?buf" using assms(3) by simp
  note rp = repaired_props [OF l, where seq = seq]
  obtain p1 bb where i: "init_base_block N ?p1 = Ok ((True, False), p1)"
    and b: "p_base_block p1 = Some bb" "primary_sequence_number (base bb) = seq" "secondary_sequence_number (base bb) = seq"
    and fi: "p_file_info p1 = (p_file_info ?p1)\<lparr>hbin_offset_absolute := 4096\<rparr>"
    using nom_spec.init_base_block_Ok [OF assms(1,2), of ?p1] assms(3-5) rp supported_type_repaired [OF l] by auto
  obtain c t where u: "update_header_after_transaction_logs N seq p = Ok (p_add_info c t p1)"
    unfolding update_header_after_transaction_logs_def Let_def header_bytes_written [OF l] using i by simp
  let ?p' = "p_add_info c t p1"
  have "supported_type (buffer (p_file_info ?p'))" "word32 (buffer (p_file_info ?p')) 508 = checksum_spec (buffer (p_file_info ?p'))"
    "4096 \<le> length (buffer (p_file_info ?p'))" "take 4 (buffer (p_file_info ?p')) = bytes_of ''regf''"
    using assms(3-5) rp supported_type_repaired [OF l] by (simp_all add: fi)
  then obtain p'' where "init_base_block N ?p' = Ok ((True, False), p'')"
    using nom_spec.init_base_block_Ok [OF assms(1,2), of ?p'] by auto
  with u b rp(1,7) fi show ?thesis
    by (intro exI [of _ ?p'] exI [of _ bb] exI [of _ p'']) simp
qed

section \<open>Witnesses\<close>

definition header_parser :: Parser where
  "header_parser = \<lparr>p_file_info = \<lparr>hbin_offset_absolute = 0, buffer = base_block_sample\<rparr>, p_state = State_default,
     p_base_block = None, p_hive_bin_header = None, p_cell_key_node_root = None, p_recover_deleted = False,
     p_update_console = False\<rparr>"

lemma header_parser_buffer: "buffer (p_file_info header_parser) = base_block_sample"
  by (simp add: header_parser_def)

lemma base_block_sample_type: "supported_type base_block_sample"
  by (simp add: supported_type_def word32_def base_block_sample_def le_bytes_zeros)

theorem base_block_check_witness:
  "\<exists>p' bad. init_base_block env_ref header_parser = Ok ((True, bad), p')"
  using base_block_check [OF ref_nom.nom_spec_axioms env_ref_guid_total, of base_block_sample header_parser]
  by (auto simp: header_parser_buffer base_block_sample_props base_block_sample_type)

theorem header_repaired_witness:
  "\<exists>p' bb. update_header_after_transaction_logs env_ref 7 header_parser = Ok p' \<and> p_base_block p' = Some bb \<and>
     primary_sequence_number (base bb) = 7"
  using header_repaired [OF ref_nom.nom_spec_axioms env_ref_guid_total, of header_parser 7]
  by (auto simp: header_parser_buffer base_block_sample_props base_block_sample_type)

end
