(* ===== verification/Key_Walk.thy ===== *)
theory Key_Walk
  imports Parser_Core
begin

text \<open>
  What holds of the iteration over keys: it ends on every file, it returns no allocated key twice, and
  on the keys of a tree it returns them in the order it says.
\<close>

section \<open>What reading keeps of a key\<close>

definition same_key :: "CellKeyNode \<Rightarrow> CellKeyNode \<Rightarrow> bool" where
  "same_key k k' \<longleftrightarrow>
     kn_file_offset_absolute (kn k') = kn_file_offset_absolute (kn k) \<and> kn_detail (kn k') = kn_detail (kn k) \<and>
     kn_key_name (kn k') = kn_key_name (kn k) \<and> kn_path (kn k') = kn_path (kn k) \<and>
     kn_cell_state (kn k') = kn_cell_state (kn k) \<and> kn_sequence_num (kn k') = kn_sequence_num (kn k) \<and>
     kn_hash (kn k') = kn_hash (kn k)"

lemma same_key_refl [simp]: "same_key k k"
  by (simp add: same_key_def)

lemma same_key_trans: "same_key a b \<Longrightarrow> same_key b c \<Longrightarrow> same_key a c"
  by (simp add: same_key_def)

lemma kn_update_simps [simp]:
  "kn (kn_update f k) = f (kn k)" "kn_versions (kn_update f k) = kn_versions k"
  "kn_deleted_keys (kn_update f k) = kn_deleted_keys k"
  by (simp_all add: kn_update_def)

lemma kn_add_log_simps [simp]:
  "kn (kn_add_log c t k) = (kn k)\<lparr>kn_logs := Logs_add (kn_logs (kn k)) c t\<rparr>"
  "kn_versions (kn_add_log c t k) = kn_versions k" "kn_deleted_keys (kn_add_log c t k) = kn_deleted_keys k"
  by (simp_all add: kn_add_log_def)

lemma same_key_add_log [simp]: "same_key k (kn_add_log c t k')  \<longleftrightarrow> same_key k k'"
  by (simp add: same_key_def)

lemma read_values_loop_keeps:
  "read_values_loop N fi full seq vs k = Ok (k', e) \<Longrightarrow>
     same_key k k' \<and> iteration_state (kn k') = iteration_state (kn k) \<and>
     kn_versions k' = kn_versions k \<and> kn_deleted_keys k' = kn_deleted_keys k"
proof (induction vs arbitrary: k)
  case Nil
  then show ?case by simp
next
  case (Cons v vs)
  from Cons.prems show ?case
    by (auto simp: Let_def bindO_eq_Ok same_key_def split: if_splits outcome.splits dest!: Cons.IH)
qed

lemma read_values_keeps:
  "read_values N fi st seq k = Ok (k', e) \<Longrightarrow>
     same_key k k' \<and> iteration_state (kn k') = iteration_state (kn k) \<and>
     kn_versions k' = kn_versions k \<and> kn_deleted_keys k' = kn_deleted_keys k"
  by (auto simp: read_values_def Let_def same_key_def split: if_splits outcome.splits
      dest!: read_values_loop_keeps)

lemma update_modified_lists_keeps:
  "update_modified_lists fuel st k = Ok k' \<Longrightarrow>
     same_key k k' \<and> iteration_state (kn k') = iteration_state (kn k)"
  by (cases fuel)
     (auto simp: Let_def bindO_eq_Ok same_key_def split: if_splits)

text \<open>A key as it comes out of its bytes.\<close>

definition fresh_key :: "usize \<Rightarrow> string \<Rightarrow> u32 option \<Rightarrow> CellKeyNode \<Rightarrow> bool" where
  "fresh_key off cur seq k \<longleftrightarrow>
     kn_file_offset_absolute (kn k) = off \<and> kn_path (kn k) = cur @ backslash # kn_key_name (kn k) \<and>
     kn_cell_state (kn k) = Allocated \<and> kn_sequence_num (kn k) = seq \<and>
     to_return (iteration_state (kn k)) = 0 \<and> track_returned (iteration_state (kn k)) = 0"

lemma from_bytes_fresh:
  "ensures (\<lambda>(r, k). fresh_key off cur seq k \<and> kn_sub_values (kn k) = [] \<and> kn_versions k = [] \<and> kn_deleted_keys k = [] \<and>
        iteration_state (kn k) = CellKeyNodeIteration_default)
     (CellKeyNode_from_bytes N st sl off cur seq)"
  unfolding CellKeyNode_from_bytes_def Let_def case_prod_beta [of _ "KeyNodeFlags_from_bits_checked _ _"]
  apply (rule ensures_bind_prod)
  apply (rule ensures_if, simp)
  apply (rule ensures_bind_prod)+
  apply (simp add: fresh_key_def CellKeyNodeIteration_default_def)
  done

lemma read_from_slice_fresh:
  "ensures (\<lambda>(r, st'). \<forall>k. r = Some k \<longrightarrow> fresh_key (ro_offset opts) (ro_cur_path opts) (ro_sequence_num opts) k)
     (read_from_slice N fuel fi st sl opts)"
  unfolding read_from_slice_def Let_def
proof (intro ensures_bind_prod ensures_if ensures_bind, goal_cases)
  case (1 r k fl st1)
  then show ?case by simp
next
  case (2 r k0 fl st1 k1 k2)
  have "fresh_key (ro_offset opts) (ro_cur_path opts) (ro_sequence_num opts) k0"
    using ensuresD [OF from_bytes_fresh, of N st sl "ro_offset opts" "ro_cur_path opts" "ro_sequence_num opts" "(r, k0)"] 2(1)
    by (simp add: from_nom_eq)
  moreover have "same_key k0 k1 \<and> iteration_state (kn k1) = iteration_state (kn k0)"
    using 2(4) by (auto simp: bindO_eq_Ok split: if_splits dest!: read_values_keeps)
  moreover have "same_key k1 k2 \<and> to_return (iteration_state (kn k2)) = to_return (iteration_state (kn k1)) \<and>
      track_returned (iteration_state (kn k2)) = track_returned (iteration_state (kn k1))"
    using 2(5) by (auto simp: same_key_def split: if_splits dest!: update_modified_lists_keeps)
  ultimately show ?case
    by (simp add: fresh_key_def same_key_def)
qed

lemma read_fresh:
  assumes "CellKeyNode_read N fuel fi st opts = Ok (Some k, st')"
  shows "fresh_key (ro_offset opts) (ro_cur_path opts) (ro_sequence_num opts) k \<and>
    ro_offset opts \<le> length (buffer fi)"
  using assms ensuresD [OF read_from_slice_fresh]
  by (fastforce simp: CellKeyNode_read_def bindO_eq_Ok ok_or_eq_Ok get_from_eq_Some)

section \<open>Sub keys\<close>

text \<open>A sub key of a key: read from the file, below the path of the key, not yet iterated.\<close>

definition child_of :: "FileInfo \<Rightarrow> CellKeyNode \<Rightarrow> CellKeyNode \<Rightarrow> bool" where
  "child_of fi k c \<longleftrightarrow>
     kn_file_offset_absolute (kn c) \<le> length (buffer fi) \<and> kn_cell_state (kn c) = Allocated \<and>
     kn_path (kn c) = kn_path (kn k) @ backslash # kn_key_name (kn c) \<and>
     to_return (iteration_state (kn c)) = 0 \<and> track_returned (iteration_state (kn c)) = 0"

lemma mark_child_child:
  "child_of fi k c \<Longrightarrow> child_of fi k (fst (mark_child b flt c))"
  "kn_deleted_keys (fst (mark_child b flt c)) = kn_deleted_keys c"
  "same_key c (fst (mark_child b flt c))"
  by (simp_all add: mark_child_def Let_def child_of_def same_key_def)

lemma child_of_same: "same_key k k' \<Longrightarrow> child_of fi k' c = child_of fi k c"
  by (simp add: child_of_def same_key_def)

lemma sub_keys_loop_children:
  "sub_keys_loop N fuel fi flt m sf seq dm vs k st cs fk = Ok (r, b, k', st') \<Longrightarrow>
     same_key k k' \<and> kn_deleted_keys k' = kn_deleted_keys k \<and> kn_versions k' = kn_versions k \<and>
     iteration_state (kn k') = iteration_state (kn k) \<and>
     (\<exists>new. r = cs @ new \<and> (\<forall>c \<in> set new. child_of fi k c))"
proof (induction vs arbitrary: k st cs fk)
  case Nil
  then show ?case by simp
next
  case (Cons v vs)
  let ?rd = "CellKeyNode_read N fuel fi st
        \<lparr>ro_offset = unat v, ro_cur_path = kn_path (kn k), ro_filter = sf,
         ro_self_is_filter_match_or_descendent = m, ro_sequence_num = seq,
         ro_get_deleted_and_modified = dm\<rparr>"
  show ?case
  proof (cases ?rd)
    case (Ok a)
    obtain c st1 where a: "a = (c, st1)" by fastforce
    show ?thesis
    proof (cases c)
      case None
      with Ok a Cons show ?thesis by simp
    next
      case (Some child)
      have "child_of fi k child"
        using read_fresh [of N fuel fi st] Ok a Some
        by (fastforce simp: child_of_def fresh_key_def)
      with Ok a Some Cons.prems show ?thesis
        by (fastforce simp: Let_def case_prod_beta dest!: Cons.IH intro: mark_child_child)
    qed
  next
    case (Err e)
    with Cons.prems show ?thesis
      by (auto dest!: Cons.IH simp: same_key_def child_of_def)
  next
    case Panic
    with Cons.prems show ?thesis by simp
  next
    case Diverge
    with Cons.prems show ?thesis by simp
  qed
qed

lemma read_sub_keys_state:
  "read_sub_keys_internal N fuel fi st flt seq dm k = Ok (cs, b, k', st') \<Longrightarrow> same_but_root st st'"
  by (auto simp: read_sub_keys_internal_def Let_def bindO_eq_Ok split: if_splits outcome.splits
      dest: sub_keys_loop_state)

lemma read_sub_keys_children:
  "read_sub_keys_internal N fuel fi st flt seq dm k = Ok (cs, b, k', st') \<Longrightarrow>
    same_key k k' \<and> kn_deleted_keys k' = kn_deleted_keys k \<and> kn_versions k' = kn_versions k \<and>
    iteration_state (kn k') = iteration_state (kn k) \<and> (\<forall>c \<in> set cs. child_of fi k c)"
  by (auto simp: read_sub_keys_internal_def Let_def bindO_eq_Ok same_key_def split: if_splits outcome.splits
      dest!: sub_keys_loop_children)

section \<open>One round of an iteration\<close>

abbreviation key_offset :: "CellKeyNode \<Rightarrow> usize" where
  "key_offset k \<equiv> kn_file_offset_absolute (kn k)"

text \<open>The children that \<open>push_children\<close> accepts: those whose offset neither was seen nor comes again.\<close>

fun accepted :: "usize set \<Rightarrow> CellKeyNode list \<Rightarrow> CellKeyNode list" where
  "accepted seen [] = []"
| "accepted seen (c # cs) =
     (if key_offset c \<in> seen \<union> key_offset ` set cs then accepted seen cs else c # accepted seen cs)"

lemma accepted_subset: "set (accepted seen cs) \<subseteq> set cs"
  by (induction cs) auto

lemma accepted_offsets: "key_offset ` set (accepted seen cs) = key_offset ` set cs - seen"
  by (induction cs) auto

lemma accepted_distinct: "distinct (map key_offset (accepted seen cs))"
proof (induction cs)
  case Nil
  then show ?case by simp
next
  case (Cons c cs)
  have "key_offset c \<notin> key_offset ` set (accepted seen cs)" if "key_offset c \<notin> key_offset ` set cs"
    using that accepted_subset [of seen cs] by auto
  with Cons show ?case by auto
qed

lemma accepted_all:
  "distinct (map key_offset cs) \<Longrightarrow> key_offset ` set cs \<inter> seen = {} \<Longrightarrow> accepted seen cs = cs"
  by (induction cs) auto

lemma push_children_eq:
  "push_children cs ctx =
     ctx\<lparr>stack_to_traverse := accepted (stack_file_offsets ctx) cs @ stack_to_traverse ctx,
         stack_file_offsets := stack_file_offsets ctx \<union> key_offset ` set cs\<rparr>"
  unfolding push_children_def
  by (induction cs) (auto simp: push_check_stack_to_traverse_def Let_def insert_absorb)

lemma mark_deleted_simps [simp]:
  "kn (mark_deleted k) = kn k" "kn_versions (mark_deleted k) = kn_versions k"
  by (simp_all add: mark_deleted_def)

text \<open>What the expansion of a key does to the context.\<close>

lemma expand_node_Ok:
  assumes "expand_node N d fi node ctx = Ok (node', ctx')"
  obtains cs st' where
    "ctx' = ctx\<lparr>ic_state := st',
        stack_to_traverse := rev (kn_deleted_keys node') @ accepted (stack_file_offsets ctx) cs @ stack_to_traverse ctx,
        stack_file_offsets := stack_file_offsets ctx \<union> key_offset ` set cs\<rparr>"
    and "same_key node node'" and "kn_deleted_keys node' = kn_deleted_keys (mark_deleted node)"
    and "\<And>c. c \<in> set cs \<Longrightarrow> child_of fi node c" and "same_but_root (ic_state ctx) st'"
    and "filter_state (iteration_state (kn node')) = filter_state (iteration_state (kn node))"
    and "cs \<noteq> [] \<Longrightarrow> \<exists>b node1. read_sub_keys_internal N d fi (ic_state ctx) (ic_filter ctx) None
      (ic_get_modified_items ctx) node = Ok (cs, b, node1, st')"
proof (cases "field_value (knd_number_of_sub_keys (kn_detail (kn node))) > 0")
  case True
  then obtain cs b node1 st' where r: "read_sub_keys_internal N d fi (ic_state ctx) (ic_filter ctx) None
        (ic_get_modified_items ctx) node = Ok (cs, b, node1, st')"
    and n: "node' = mark_deleted (kn_update (\<lambda>c. c\<lparr>iteration_state := (iteration_state c)\<lparr>to_return := of_nat (length cs)\<rparr>\<rparr>) node1)"
    and c: "ctx' = push_deleted node' (push_children cs (ctx\<lparr>ic_state := st'\<rparr>))"
    using assms by (auto simp: expand_node_def bindO_eq_Ok Let_def)
  note ch = read_sub_keys_children [OF r]
  show ?thesis
  proof (rule that [of cs st'])
    show "ctx' = ctx\<lparr>ic_state := st',
        stack_to_traverse := rev (kn_deleted_keys node') @ accepted (stack_file_offsets ctx) cs @ stack_to_traverse ctx,
        stack_file_offsets := stack_file_offsets ctx \<union> key_offset ` set cs\<rparr>"
      by (simp add: c push_deleted_def push_children_eq)
    show "same_key node node'" using ch by (simp add: n same_key_def)
    show "kn_deleted_keys node' = kn_deleted_keys (mark_deleted node)"
      using ch by (simp add: n mark_deleted_def)
    show "filter_state (iteration_state (kn node')) = filter_state (iteration_state (kn node))"
      using ch by (simp add: n)
    show "same_but_root (ic_state ctx) st'" by (rule read_sub_keys_state [OF r])
  qed (use ch r in blast)+
next
  case False
  then have "node' = mark_deleted node" and "ctx' = push_deleted node' ctx"
    using assms by (auto simp: expand_node_def Let_def)
  then show ?thesis
    by (intro that [of "[]" "ic_state ctx"]) (simp_all add: push_deleted_def same_key_def)
qed

lemma pop_Some:
  "pop_stack_to_traverse ctx = Some (node, ctx1) \<longleftrightarrow>
     stack_to_traverse ctx = node # stack_to_traverse ctx1 \<and>
     ctx1 = ctx\<lparr>stack_to_traverse := stack_to_traverse ctx1\<rparr>"
  by (auto simp: pop_stack_to_traverse_def split: list.splits)

section \<open>Every iteration ends\<close>

text \<open>The deleted keys below a key, with the key.\<close>

fun deleted_size :: "CellKeyNode \<Rightarrow> nat" where
  "deleted_size (CellKeyNode c vs ds) = Suc (sum_list (map deleted_size ds))"

lemma deleted_size_eq: "deleted_size k = Suc (sum_list (map deleted_size (kn_deleted_keys k)))"
  by (cases k) simp

lemma deleted_size_update [simp]: "deleted_size (kn_update f k) = deleted_size k"
  by (subst (1 2) deleted_size_eq) simp

lemma deleted_size_marked:
  "sum_list (map deleted_size (kn_deleted_keys (mark_deleted k))) < deleted_size k"
  by (simp add: deleted_size_eq [of k] mark_deleted_def o_def)

definition unseen :: "FileInfo \<Rightarrow> ParserIteratorContext \<Rightarrow> usize set" where
  "unseen fi ctx = {..length (buffer fi)} - stack_file_offsets ctx"

definition walk_order :: "FileInfo \<Rightarrow> (ParserIteratorContext \<times> ParserIteratorContext) set" where
  "walk_order fi = inv_image (less_than <*lex*> less_than <*lex*> less_than)
     (\<lambda>ctx. (card (unseen fi ctx), sum_list (map deleted_size (stack_to_traverse ctx)), length (stack_to_return ctx)))"

lemma wf_walk_order: "wf (walk_order fi)"
  by (auto simp: walk_order_def)

lemma walk_order_trans: "(a, b) \<in> walk_order fi \<Longrightarrow> (b, c) \<in> walk_order fi \<Longrightarrow> (a, c) \<in> walk_order fi"
  by (auto simp: walk_order_def)

lemma expand_decreases:
  assumes "pop_stack_to_traverse ctx = Some (node, ctx1)" and "expand_node N d fi node ctx1 = Ok (node', ctx')"
  shows "(ctx'\<lparr>stack_to_return := ret\<rparr>, ctx) \<in> walk_order fi"
proof -
  obtain cs st' where c: "ctx' = ctx1\<lparr>ic_state := st',
        stack_to_traverse := rev (kn_deleted_keys node') @ accepted (stack_file_offsets ctx1) cs @ stack_to_traverse ctx1,
        stack_file_offsets := stack_file_offsets ctx1 \<union> key_offset ` set cs\<rparr>"
    and d: "kn_deleted_keys node' = kn_deleted_keys (mark_deleted node)"
    and ch: "\<And>c. c \<in> set cs \<Longrightarrow> child_of fi node c"
    using assms(2) by (rule expand_node_Ok) blast
  have p: "stack_to_traverse ctx = node # stack_to_traverse ctx1" "stack_file_offsets ctx1 = stack_file_offsets ctx"
    using assms(1) unfolding pop_Some by (metis, metis ParserIteratorContext.select_convs(4) ParserIteratorContext.surjective ParserIteratorContext.update_convs(3))
  show ?thesis
  proof (cases "key_offset ` set cs \<subseteq> stack_file_offsets ctx")
    case True
    then have "key_offset ` set (accepted (stack_file_offsets ctx) cs) = {}"
      unfolding accepted_offsets by blast
    then have "accepted (stack_file_offsets ctx) cs = []" by simp
    with True show ?thesis
      using deleted_size_marked [of node]
      by (auto simp: walk_order_def unseen_def c p d Un_absorb2 rev_map [symmetric])
  next
    case False
    then obtain k where "k \<in> set cs" "key_offset k \<notin> stack_file_offsets ctx" by blast
    with ch [of k] have "unseen fi (ctx'\<lparr>stack_to_return := ret\<rparr>) \<subset> unseen fi ctx"
      by (auto simp: unseen_def c p child_of_def)
    then have "card (unseen fi (ctx'\<lparr>stack_to_return := ret\<rparr>)) < card (unseen fi ctx)"
      by (intro psubset_card_mono) (auto simp: unseen_def)
    then show ?thesis by (simp add: walk_order_def)
  qed
qed

text \<open>An iterator in which fuel that is enough stays enough.\<close>

locale fuelled_iterator =
  fixes nxt :: "nat \<Rightarrow> 's \<Rightarrow> ('k option \<times> 's) result"
  assumes more_fuel: "nxt n s \<noteq> Diverge \<Longrightarrow> n \<le> m \<Longrightarrow> nxt m s = nxt n s"
begin

lemma collect_more_fuel:
  "collect_iter nxt n s \<noteq> Diverge \<Longrightarrow> n \<le> m \<Longrightarrow> collect_iter nxt m s = collect_iter nxt n s"
proof (induction n arbitrary: m s)
  case 0
  then show ?case by simp
next
  case (Suc n)
  obtain m' where m: "m = Suc m'" "n \<le> m'" using Suc.prems(2) by (cases m) auto
  have "nxt (Suc n) s \<noteq> Diverge" using Suc.prems(1) by auto
  then have "nxt m s = nxt (Suc n) s" using more_fuel Suc.prems(2) by blast
  moreover have "collect_iter nxt m' s' = collect_iter nxt n s'" if "nxt (Suc n) s = Ok (Some k, s')" for k s'
    using Suc.prems(1) that m(2) by (intro Suc.IH) auto
  ultimately show ?case
    unfolding m(1) by (cases "nxt (Suc n) s") (auto split: option.splits)
qed

end

text \<open>
  An iterator that makes progress: each call ends, and the states behind the items that it returns
  go down a well-founded order.  A loop over such an iterator ends.
\<close>

locale progressing_iterator = fuelled_iterator nxt for nxt :: "nat \<Rightarrow> 's \<Rightarrow> ('k option \<times> 's) result" +
  fixes inv :: "'s \<Rightarrow> bool" and order :: "('s \<times> 's) set"
  assumes order_wf: "wf order"
    and call_ends: "inv s \<Longrightarrow> \<exists>n. nxt n s \<noteq> Diverge"
    and progress: "inv s \<Longrightarrow> nxt n s = Ok (Some k, s') \<Longrightarrow> inv s' \<and> (s', s) \<in> order"
begin

lemma collect_ends: "inv s \<Longrightarrow> \<exists>n. \<forall>m \<ge> n. collect_iter nxt m s \<noteq> Diverge"
proof (induction s rule: wf_induct_rule [OF order_wf])
  case (1 s)
  obtain n where n: "nxt n s \<noteq> Diverge" using call_ends [OF 1(2)] by blast
  show ?case
  proof (cases "\<exists>k s'. nxt n s = Ok (Some k, s')")
    case True
    then obtain k s' where k: "nxt n s = Ok (Some k, s')" by blast
    then obtain n' where n': "\<forall>m \<ge> n'. collect_iter nxt m s' \<noteq> Diverge"
      using 1 progress by blast
    have "collect_iter nxt m s \<noteq> Diverge" if "Suc (max n n') \<le> m" for m
    proof -
      obtain m' where m: "m = Suc m'" "n \<le> m" "n' \<le> m'" using \<open>Suc (max n n') \<le> m\<close> by (cases m) auto
      then have "nxt (Suc m') s = Ok (Some k, s')" using more_fuel [OF n] k by metis
      with n' m show ?thesis by (auto simp: bindO_eq_Diverge)
    qed
    then show ?thesis by blast
  next
    case False
    have "collect_iter nxt m s \<noteq> Diverge" if "Suc n \<le> m" for m
    proof -
      obtain m' where m: "m = Suc m'" "n \<le> m" using \<open>Suc n \<le> m\<close> by (cases m) auto
      with more_fuel [OF n] have "nxt (Suc m') s = nxt n s" by metis
      with False n show ?thesis unfolding m(1) by (cases "nxt n s") (auto split: option.splits)
    qed
    then show ?thesis by blast
  qed
qed

end

text \<open>The settings of an iteration stay; of its state only the offset of the root path may change.\<close>

definition kept :: "ParserIteratorContext \<Rightarrow> ParserIteratorContext \<Rightarrow> bool" where
  "kept ctx ctx' \<longleftrightarrow>
     ic_filter ctx' = ic_filter ctx \<and> ic_get_modified_items ctx' = ic_get_modified_items ctx \<and>
     ic_filter_include_ancestors ctx' = ic_filter_include_ancestors ctx \<and> same_but_root (ic_state ctx) (ic_state ctx')"

lemma kept_trans: "kept a b \<Longrightarrow> kept b c \<Longrightarrow> kept a c"
  by (auto simp: kept_def intro: same_but_root_trans)

lemma kept_simps [simp]:
  "kept ctx ctx" "kept ctx (ctx'\<lparr>stack_to_return := r\<rparr>) = kept ctx ctx'"
  "kept ctx (ctx'\<lparr>stack_to_traverse := t\<rparr>) = kept ctx ctx'"
  by (simp_all add: kept_def)

lemma kept_expand: "expand_node N d fi node ctx = Ok (node', ctx') \<Longrightarrow> kept ctx ctx'"
  by (erule expand_node_Ok) (simp add: kept_def)

lemma kept_pop: "pop_stack_to_traverse ctx = Some (node, ctx1) \<Longrightarrow> kept ctx ctx1"
  by (auto simp: pop_stack_to_traverse_def split: list.splits)

lemma expand_keeps_return:
  "pop_stack_to_traverse ctx = Some (node, ctx1) \<Longrightarrow> expand_node N d fi node ctx1 = Ok (node', ctx') \<Longrightarrow>
     stack_to_return ctx' = stack_to_return ctx"
  by (erule expand_node_Ok) (auto simp: pop_stack_to_traverse_def split: list.splits)

lemma preorder_more_fuel:
  "next_key_preorder N d n fi ctx \<noteq> Diverge \<Longrightarrow> n \<le> m \<Longrightarrow> next_key_preorder N d m fi ctx = next_key_preorder N d n fi ctx"
proof (induction n arbitrary: m ctx)
  case 0
  then show ?case by simp
next
  case (Suc n)
  then obtain m' where m: "m = Suc m'" "n \<le> m'" by (cases m) auto
  show ?case
    using Suc.prems(1) Suc.IH [OF _ m(2)] unfolding m(1)
    by (auto split: option.splits intro!: bindO_cong)
qed

lemma preorder_progress:
  "next_key_preorder N d n fi ctx = Ok (r, ctx') \<Longrightarrow>
     kept ctx ctx' \<and> (r \<noteq> None \<longrightarrow> (ctx', ctx) \<in> walk_order fi)"
proof (induction n arbitrary: ctx)
  case 0
  then show ?case by simp
next
  case (Suc n)
  show ?case
  proof (cases "pop_stack_to_traverse ctx")
    case None
    with Suc.prems show ?thesis by auto
  next
    case (Some a)
    obtain node ctx1 where a: "a = (node, ctx1)" by fastforce
    obtain node' ctx2 where e: "expand_node N d fi node ctx1 = Ok (node', ctx2)"
      using Suc.prems Some a by (cases "expand_node N d fi node ctx1") auto
    have o: "(ctx2, ctx) \<in> walk_order fi"
      using expand_decreases [of ctx node ctx1 N d fi node' ctx2 "stack_to_return ctx2"] Some a e by simp
    have k: "kept ctx ctx2"
      using kept_pop [of ctx node ctx1] kept_expand [OF e] Some a kept_trans by blast
    have "r = Some node' \<and> ctx' = ctx2 \<or> next_key_preorder N d n fi ctx2 = Ok (r, ctx')"
      using Suc.prems Some a e by (simp split: if_split_asm)
    then show ?thesis
    proof
      assume "r = Some node' \<and> ctx' = ctx2"
      with o k show ?thesis by simp
    next
      assume "next_key_preorder N d n fi ctx2 = Ok (r, ctx')"
      note ih = Suc.IH [OF this]
      show ?thesis
        using kept_trans [OF k conjunct1 [OF ih]] walk_order_trans [OF _ o] conjunct2 [OF ih] by simp
    qed
  qed
qed

definition reads_end :: "'z env_list_scheme \<Rightarrow> nat \<Rightarrow> FileInfo \<Rightarrow> ParserIteratorContext \<Rightarrow> bool" where
  "reads_end N d fi ctx \<longleftrightarrow>
     (\<forall>st k. same_but_root (ic_state ctx) st \<longrightarrow>
        read_sub_keys_internal N d fi st (ic_filter ctx) None (ic_get_modified_items ctx) k \<noteq> Diverge)"

lemma reads_end_kept: "reads_end N d fi ctx \<Longrightarrow> kept ctx ctx' \<Longrightarrow> reads_end N d fi ctx'"
  unfolding reads_end_def kept_def by (auto dest: same_but_root_trans)

lemma expand_ends: "reads_end N d fi ctx \<Longrightarrow> expand_node N d fi node ctx \<noteq> Diverge"
  by (auto simp: expand_node_def reads_end_def bindO_eq_Diverge Let_def split: if_splits)

lemma preorder_ends: "reads_end N d fi ctx \<Longrightarrow> \<exists>n. next_key_preorder N d n fi ctx \<noteq> Diverge"
proof (induction ctx rule: wf_induct_rule [OF wf_walk_order [of fi]])
  case (1 ctx)
  show ?case
  proof (cases "pop_stack_to_traverse ctx")
    case None
    then have "next_key_preorder N d (Suc 0) fi ctx \<noteq> Diverge" by simp
    then show ?thesis by blast
  next
    case (Some a)
    obtain node ctx1 where a: "a = (node, ctx1)" by fastforce
    have r1: "reads_end N d fi ctx1"
      using 1(2) kept_pop [of ctx node ctx1] Some a reads_end_kept by blast
    show ?thesis
    proof (cases "expand_node N d fi node ctx1")
      case (Ok b)
      obtain node' ctx2 where b: "b = (node', ctx2)" by fastforce
      have "(ctx2, ctx) \<in> walk_order fi"
        using expand_decreases [of ctx node ctx1 N d fi node' ctx2 "stack_to_return ctx2"] Some a Ok b by simp
      moreover have "reads_end N d fi ctx2" using r1 kept_expand Ok b reads_end_kept by blast
      ultimately obtain n where "next_key_preorder N d n fi ctx2 \<noteq> Diverge" using 1(1) by blast
      then have "next_key_preorder N d (Suc n) fi ctx \<noteq> Diverge" using Some a Ok b by simp
      then show ?thesis by blast
    next
      case Diverge
      with expand_ends [OF r1] show ?thesis by blast
    qed (rule exI [of _ "Suc 0"], use Some a in simp)+
  qed
qed

lemma postorder_more_fuel:
  "next_key_postorder N d n fi ctx \<noteq> Diverge \<Longrightarrow> n \<le> m \<Longrightarrow>
     next_key_postorder N d m fi ctx = next_key_postorder N d n fi ctx"
proof (induction n arbitrary: m ctx)
  case 0
  then show ?case by simp
next
  case (Suc n)
  then obtain m' where m: "m = Suc m'" "n \<le> m'" by (cases m) auto
  show ?case
    using Suc.prems(1) Suc.IH [OF _ m(2)] unfolding m(1)
    by (auto split: option.splits if_split_asm intro!: bindO_cong)
qed

interpretation postorder: fuelled_iterator "\<lambda>n. next_key_postorder N d n fi" for N d fi
  by unfold_locales (rule postorder_more_fuel)

text \<open>A round of the postorder loop that does not return.\<close>

definition postorder_round ::
  "'z env_list_scheme \<Rightarrow> nat \<Rightarrow> FileInfo \<Rightarrow> ParserIteratorContext \<Rightarrow> ParserIteratorContext result" where
  "postorder_round N d fi ctx =
     bindO (expand_node N d fi (hd (stack_to_traverse ctx)) (ctx\<lparr>stack_to_traverse := tl (stack_to_traverse ctx)\<rparr>))
       (\<lambda>(node, ctx).
     bindO (count_returned N (stack_to_return ctx)) (\<lambda>stack. Ok (ctx\<lparr>stack_to_return := node # stack\<rparr>)))"

lemma postorder_Suc:
  "next_key_postorder N d (Suc n) fi ctx =
     (if stack_to_traverse ctx = [] then Ok (postorder_remaining ctx)
      else if last_is_done (stack_to_return ctx)
      then Ok (Some (hd (stack_to_return ctx)), ctx\<lparr>stack_to_return := tl (stack_to_return ctx)\<rparr>)
      else bindO (postorder_round N d fi ctx) (next_key_postorder N d n fi))"
  by (cases "stack_to_traverse ctx")
     (auto simp: pop_stack_to_traverse_def postorder_round_def bindO_assoc intro!: bindO_cong)

declare next_key_postorder.simps(2) [simp del]

lemma postorder_round_Ok:
  assumes "postorder_round N d fi ctx = Ok ctx'" and "stack_to_traverse ctx \<noteq> []"
  shows "kept ctx ctx' \<and> (ctx', ctx) \<in> walk_order fi"
proof -
  let ?ctx1 = "ctx\<lparr>stack_to_traverse := tl (stack_to_traverse ctx)\<rparr>"
  obtain node' ctx2 ret where e: "expand_node N d fi (hd (stack_to_traverse ctx)) ?ctx1 = Ok (node', ctx2)"
    and c: "ctx' = ctx2\<lparr>stack_to_return := ret\<rparr>"
    using assms(1) by (auto simp: postorder_round_def bindO_eq_Ok)
  have "pop_stack_to_traverse ctx = Some (hd (stack_to_traverse ctx), ?ctx1)"
    using assms(2) by (simp add: pop_stack_to_traverse_def split: list.splits)
  then show ?thesis
    using expand_decreases [OF _ e] kept_expand [OF e] kept_trans [OF kept_pop] by (simp add: c)
qed

lemma count_returned_ends: "count_returned N stack \<noteq> Diverge"
  by (simp add: count_returned_def add_w_def split: list.splits)

lemma postorder_round_ends: "reads_end N d fi ctx \<Longrightarrow> postorder_round N d fi ctx \<noteq> Diverge"
  using expand_ends [OF reads_end_kept, of N d fi ctx]
  by (simp add: postorder_round_def bindO_eq_Diverge count_returned_ends)

lemma postorder_return:
  "postorder_remaining ctx = (Some k, ctx') \<Longrightarrow> kept ctx ctx' \<and> (ctx', ctx) \<in> walk_order fi"
  by (auto simp: postorder_remaining_def walk_order_def unseen_def split: list.splits if_splits)

lemma postorder_progress:
  "next_key_postorder N d n fi ctx = Ok (Some k, ctx') \<Longrightarrow> kept ctx ctx' \<and> (ctx', ctx) \<in> walk_order fi"
proof (induction n arbitrary: ctx)
  case 0
  then show ?case by simp
next
  case (Suc n)
  show ?case
  proof (cases "stack_to_traverse ctx = [] \<or> last_is_done (stack_to_return ctx)")
    case True
    then show ?thesis
      using Suc.prems postorder_return [of ctx k ctx' fi]
      by (cases "stack_to_return ctx")
         (auto simp: postorder_Suc last_is_done_def walk_order_def unseen_def split: if_split_asm)
  next
    case False
    then obtain ctx2 where r: "postorder_round N d fi ctx = Ok ctx2"
      and n: "next_key_postorder N d n fi ctx2 = Ok (Some k, ctx')"
      using Suc.prems by (auto simp: postorder_Suc bindO_eq_Ok)
    have s: "kept ctx ctx2" "(ctx2, ctx) \<in> walk_order fi" using postorder_round_Ok [OF r] False by simp_all
    show ?thesis
      using Suc.IH [OF n] kept_trans [OF s(1)] walk_order_trans [OF _ s(2)] by simp
  qed
qed

lemma postorder_ends: "reads_end N d fi ctx \<Longrightarrow> \<exists>n. next_key_postorder N d n fi ctx \<noteq> Diverge"
proof (induction ctx rule: wf_induct_rule [OF wf_walk_order [of fi]])
  case (1 ctx)
  show ?case
  proof (cases "stack_to_traverse ctx = [] \<or> last_is_done (stack_to_return ctx) \<or>
      (\<forall>ctx2. postorder_round N d fi ctx \<noteq> Ok ctx2)")
    case True
    then have "next_key_postorder N d (Suc 0) fi ctx \<noteq> Diverge"
      using postorder_round_ends [OF 1(2)]
      by (cases "postorder_round N d fi ctx") (auto simp: postorder_Suc)
    then show ?thesis by blast
  next
    case False
    then obtain ctx2 where r: "postorder_round N d fi ctx = Ok ctx2" by blast
    have s: "kept ctx ctx2" "(ctx2, ctx) \<in> walk_order fi" using postorder_round_Ok [OF r] False by simp_all
    obtain n where "next_key_postorder N d n fi ctx2 \<noteq> Diverge"
      using 1(1) [OF s(2)] reads_end_kept [OF 1(2) s(1)] by blast
    then have "next_key_postorder N d (Suc n) fi ctx \<noteq> Diverge" using False r by (simp add: postorder_Suc)
    then show ?thesis by blast
  qed
qed

text \<open>Both orders make progress, whatever the file holds.\<close>

definition iter_reads_end :: "'z env_list_scheme \<Rightarrow> nat \<Rightarrow> ParserIterator \<Rightarrow> bool" where
  "iter_reads_end N d it \<longleftrightarrow> reads_end N d (p_file_info (it_parser it)) (it_context it)"

definition iter_order :: "(ParserIterator \<times> ParserIterator) set" where
  "iter_order = inv_image (less_than <*lex*> less_than <*lex*> less_than)
     (\<lambda>it. let ctx = it_context it in
        (card (unseen (p_file_info (it_parser it)) ctx), sum_list (map deleted_size (stack_to_traverse ctx)),
         length (stack_to_return ctx)))"

lemma iter_order_context:
  "(it\<lparr>it_context := ctx'\<rparr>, it) \<in> iter_order \<longleftrightarrow> (ctx', it_context it) \<in> walk_order (p_file_info (it_parser it))"
  by (simp add: iter_order_def walk_order_def Let_def)

interpretation key_iterator: progressing_iterator "ParserIterator_next N d" "iter_reads_end N d" iter_order for N d
proof
  fix n m :: nat and it
  assume "ParserIterator_next N d n it \<noteq> Diverge" and "n \<le> m"
  then show "ParserIterator_next N d m it = ParserIterator_next N d n it"
    using preorder_more_fuel [of N d n "p_file_info (it_parser it)" "it_context it" m]
      postorder_more_fuel [of N d n "p_file_info (it_parser it)" "it_context it" m]
    by (auto simp: ParserIterator_next_def bindO_eq_Diverge split: if_splits)
next
  show "wf iter_order" by (auto simp: iter_order_def)
next
  fix it
  assume "iter_reads_end N d it"
  then show "\<exists>n. ParserIterator_next N d n it \<noteq> Diverge"
    using preorder_ends [of N d "p_file_info (it_parser it)" "it_context it"]
      postorder_ends [of N d "p_file_info (it_parser it)" "it_context it"]
    by (auto simp: ParserIterator_next_def iter_reads_end_def bindO_eq_Diverge)
next
  fix it n k it'
  assume r: "iter_reads_end N d it" and n: "ParserIterator_next N d n it = Ok (Some k, it')"
  let ?fi = "p_file_info (it_parser it)"
  obtain ctx' where c: "it' = it\<lparr>it_context := ctx'\<rparr>"
    and "(if it_postorder_iteration it then next_key_postorder else next_key_preorder) N d n ?fi (it_context it) =
      Ok (Some k, ctx')"
    using n by (auto simp: ParserIterator_next_def bindO_eq_Ok)
  then have "kept (it_context it) ctx'" and "(ctx', it_context it) \<in> walk_order ?fi"
    using preorder_progress [of N d n ?fi "it_context it" "Some k" ctx'] postorder_progress [of N d n ?fi "it_context it" k ctx']
    by (simp_all split: if_splits)
  then show "iter_reads_end N d it' \<and> (it', it) \<in> iter_order"
    using reads_end_kept r by (auto simp: c iter_order_context iter_reads_end_def)
qed

section \<open>No allocated key is returned twice\<close>

fun deleted_below :: "CellKeyNode \<Rightarrow> bool" where
  "deleted_below (CellKeyNode c vs ds) \<longleftrightarrow> (\<forall>d \<in> set ds. kn_cell_state (kn d) \<noteq> Allocated \<and> deleted_below d)"

lemma deleted_below_iff:
  "deleted_below k \<longleftrightarrow> (\<forall>d \<in> set (kn_deleted_keys k). kn_cell_state (kn d) \<noteq> Allocated \<and> deleted_below d)"
  by (cases k) simp

text \<open>The keys that a state counts as deleted are not allocated.\<close>

definition state_deleted :: "State \<Rightarrow> bool" where
  "state_deleted st \<longleftrightarrow>
     (\<forall>p ks k. deleted_keys st p = Some ks \<longrightarrow> k \<in> set ks \<longrightarrow> kn_cell_state (kn k) \<noteq> Allocated \<and> deleted_below k)"

lemma state_deleted_same: "same_but_root st st' \<Longrightarrow> state_deleted st \<Longrightarrow> state_deleted st'"
  by (metis same_but_root_def state_deleted_def State.select_convs(4) State.surjective State.update_convs(1))

lemma list_all2_origin: "list_all2 P xs ys \<Longrightarrow> y \<in> set ys \<Longrightarrow> \<exists>x \<in> set xs. P x y"
  by (induction rule: list_all2_induct) auto

lemma deleted_below_cong:
  assumes "kn_deleted_keys k' = kn_deleted_keys k"
  shows "deleted_below k' = deleted_below k"
  unfolding deleted_below_iff [of k] deleted_below_iff [of k'] assms by (rule refl)

lemma update_modified_lists_deleted:
  assumes "state_deleted st"
  shows "update_modified_lists fuel st k = Ok k' \<Longrightarrow> deleted_below k \<Longrightarrow> deleted_below k'"
proof (induction fuel arbitrary: k k')
  case 0
  then show ?case by simp
next
  case (Suc fuel)
  let ?path = "if is_key_root k then [] else kn_path (kn k)"
  show ?case
  proof (cases "is_deleted_primary_file (kn_cell_state (kn k))")
    case True
    with Suc.prems show ?thesis by simp
  next
    case False
    then obtain c vs dks where dks: "(case ModifiedDeletedKeyMap_get (deleted_keys st) ?path of
                 Some dks \<Rightarrow>
                   mapO (\<lambda>dk. if kn_file_offset_absolute (kn dk) \<noteq> kn_file_offset_absolute (kn k)
                              then update_modified_lists fuel st dk else Ok dk) dks
               | None \<Rightarrow> Ok (kn_deleted_keys k)) = Ok dks" and k': "k' = CellKeyNode c vs dks"
      using Suc.prems(1) by (auto simp: Let_def bindO_eq_Ok)
    have "kn_cell_state (kn d) \<noteq> Allocated \<and> deleted_below d" if "d \<in> set dks" for d
    proof (cases "deleted_keys st ?path")
      case None
      with dks that Suc.prems(2) show ?thesis
        by (auto simp: ModifiedDeletedKeyMap_get_def deleted_below_iff [of k])
    next
      case (Some ds)
      then have la: "list_all2 (\<lambda>x y. (if kn_file_offset_absolute (kn x) \<noteq> kn_file_offset_absolute (kn k)
                              then update_modified_lists fuel st x else Ok x) = Ok y) ds dks"
        using dks by (simp add: ModifiedDeletedKeyMap_get_def mapO_eq_Ok)
      obtain x where x: "x \<in> set ds" "(if kn_file_offset_absolute (kn x) \<noteq> kn_file_offset_absolute (kn k)
                              then update_modified_lists fuel st x else Ok x) = Ok d"
        using list_all2_origin [OF la \<open>d \<in> set dks\<close>] by (elim bexE)
      have d: "kn_cell_state (kn x) \<noteq> Allocated" "deleted_below x"
        using assms Some x(1) unfolding state_deleted_def by blast+
      show ?thesis
      proof (cases "kn_file_offset_absolute (kn x) = kn_file_offset_absolute (kn k)")
        case True
        with x(2) d show ?thesis by simp
      next
        case False
        then have u: "update_modified_lists fuel st x = Ok d" using x(2) by simp
        with Suc.IH [OF u d(2)] update_modified_lists_keeps [OF u] d(1) show ?thesis
          by (simp add: same_key_def)
      qed
    qed
    then show ?thesis by (simp add: k')
  qed
qed

lemma read_from_slice_deleted:
  assumes "state_deleted st"
  shows "ensures (\<lambda>(r, st'). \<forall>k. r = Some k \<longrightarrow> deleted_below k) (read_from_slice N fuel fi st sl opts)"
  unfolding read_from_slice_def Let_def
proof (intro ensures_bind_prod ensures_if ensures_bind, goal_cases)
  case (1 r k fl st1)
  then show ?case by simp
next
  case (2 r k0 fl st1 k1 k2)
  have "kn_deleted_keys k0 = []"
    using ensuresD [OF from_bytes_fresh, of N st sl "ro_offset opts" "ro_cur_path opts" "ro_sequence_num opts" "(r, k0)"] 2(1)
    by (simp add: from_nom_eq)
  moreover have "kn_deleted_keys k1 = kn_deleted_keys k0"
    using 2(4) by (auto simp: bindO_eq_Ok split: if_splits dest!: read_values_keeps)
  ultimately have k1: "deleted_below k1" by (simp add: deleted_below_iff [of k1])
  have "state_deleted st1"
    using 2(2) assms by (auto split: option.splits dest: check_cell_state state_deleted_same)
  then have "deleted_below k2"
    using 2(5) k1 update_modified_lists_deleted [of st1 fuel] deleted_below_cong [OF kn_update_simps(3), of _ k1]
    by (auto split: if_split_asm)
  then show ?case by simp
qed

lemma read_deleted:
  "state_deleted st \<Longrightarrow> CellKeyNode_read N fuel fi st opts = Ok (Some k, st') \<Longrightarrow> deleted_below k"
  using ensuresD [OF read_from_slice_deleted]
  by (fastforce simp: CellKeyNode_read_def bindO_eq_Ok)

lemma sub_keys_loop_deleted:
  "sub_keys_loop N fuel fi flt m sf seq dm vs k st cs fk = Ok (r, b, k', st') \<Longrightarrow> state_deleted st \<Longrightarrow>
     \<forall>c \<in> set cs. deleted_below c \<Longrightarrow> \<forall>c \<in> set r. deleted_below c"
proof (induction vs arbitrary: k st cs fk)
  case Nil
  then show ?case by simp
next
  case (Cons v vs)
  let ?rd = "CellKeyNode_read N fuel fi st
        \<lparr>ro_offset = unat v, ro_cur_path = kn_path (kn k), ro_filter = sf,
         ro_self_is_filter_match_or_descendent = m, ro_sequence_num = seq,
         ro_get_deleted_and_modified = dm\<rparr>"
  show ?case
  proof (cases ?rd)
    case (Ok a)
    obtain c st1 where a: "a = (c, st1)" by fastforce
    have st1: "state_deleted st1" using state_deleted_same [OF read_state Cons.prems(2)] Ok a by blast
    show ?thesis
    proof (cases c)
      case None
      with Ok a Cons.prems st1 Cons.IH [of k st1 cs fk] show ?thesis by simp
    next
      case (Some child)
      have "deleted_below (fst (mark_child m flt child))"
        using read_deleted [OF Cons.prems(2)] Ok a Some deleted_below_cong mark_child_child(2) by blast
      with Ok a Some Cons.prems st1 Cons.IH [of k st1 "cs @ [fst (mark_child m flt child)]"] show ?thesis
        by (auto simp: Let_def case_prod_beta)
    qed
  qed (use Cons in auto)
qed

lemma read_sub_keys_deleted:
  "read_sub_keys_internal N fuel fi st flt seq dm k = Ok (cs, b, k', st') \<Longrightarrow> state_deleted st \<Longrightarrow> c \<in> set cs \<Longrightarrow>
     deleted_below c"
  by (auto simp: read_sub_keys_internal_def Let_def bindO_eq_Ok split: if_splits outcome.splits
      dest!: sub_keys_loop_deleted)

text \<open>
  An iterator that uses up what it returns: the labels of its items come from a stock, and an item that
  is returned leaves the stock.  A loop over such an iterator sees no label twice.
\<close>

locale consuming_iterator =
  fixes nxt :: "nat \<Rightarrow> 's \<Rightarrow> ('k option \<times> 's) result" and ok :: "'s \<Rightarrow> bool"
    and stock :: "'s \<Rightarrow> 'o set" and label :: "'k \<Rightarrow> 'o option"
  assumes consumes_none: "ok s \<Longrightarrow> nxt n s = Ok (r, s') \<Longrightarrow> ok s' \<and> stock s' \<subseteq> stock s"
    and consumes_some: "ok s \<Longrightarrow> nxt n s = Ok (Some k, s') \<Longrightarrow> label k = Some l \<Longrightarrow> l \<in> stock s \<and> l \<notin> stock s'"
begin

lemma collect_distinct:
  "ok s \<Longrightarrow> collect_iter nxt n s = Ok ks \<Longrightarrow>
     distinct (List.map_filter label ks) \<and> set (List.map_filter label ks) \<subseteq> stock s"
proof (induction n arbitrary: s ks)
  case 0
  then show ?case by simp
next
  case (Suc n)
  obtain r s' where r: "nxt (Suc n) s = Ok (r, s')"
    using Suc.prems(2) by (auto simp: bindO_eq_Ok)
  have s': "ok s'" "stock s' \<subseteq> stock s" using consumes_none [OF Suc.prems(1) r] by simp_all
  show ?case
  proof (cases r)
    case None
    with r Suc.prems(2) show ?thesis by (simp add: List.map_filter_simps)
  next
    case (Some k)
    then obtain ks' where ks: "ks = k # ks'" "collect_iter nxt n s' = Ok ks'"
      using r Suc.prems(2) by (auto simp: bindO_eq_Ok)
    show ?thesis
      using Suc.IH [OF s'(1) ks(2)] s'(2) consumes_some [OF Suc.prems(1), of "Suc n" k s'] r Some
      by (auto simp: ks(1) List.map_filter_simps split: option.splits)
  qed
qed

end

definition key_label :: "CellKeyNode \<Rightarrow> usize option" where
  "key_label k = (if kn_cell_state (kn k) = Allocated then Some (key_offset k) else None)"

abbreviation labels :: "CellKeyNode list \<Rightarrow> usize list" where
  "labels ks \<equiv> List.map_filter key_label ks"

definition walk_ok :: "ParserIteratorContext \<Rightarrow> bool" where
  "walk_ok ctx \<longleftrightarrow>
     distinct (labels (stack_to_traverse ctx @ stack_to_return ctx)) \<and>
     set (labels (stack_to_traverse ctx @ stack_to_return ctx)) \<subseteq> stack_file_offsets ctx \<and>
     (\<forall>k \<in> set (stack_to_traverse ctx). deleted_below k) \<and> state_deleted (ic_state ctx)"

definition walk_stock :: "ParserIteratorContext \<Rightarrow> usize set" where
  "walk_stock ctx = set (labels (stack_to_traverse ctx @ stack_to_return ctx)) \<union> - stack_file_offsets ctx"

lemma labels_append: "labels (xs @ ys) = labels xs @ labels ys"
  by (simp add: List.map_filter_def)

lemma labels_Cons: "labels (k # ks) = labels [k] @ labels ks"
  by (simp add: List.map_filter_simps split: option.splits)

lemma labels_allocated: "\<forall>k \<in> set ks. kn_cell_state (kn k) = Allocated \<Longrightarrow> labels ks = map key_offset ks"
  by (induction ks) (auto simp: List.map_filter_simps key_label_def)

lemma labels_deleted: "\<forall>k \<in> set ks. kn_cell_state (kn k) \<noteq> Allocated \<Longrightarrow> labels ks = []"
  by (induction ks) (auto simp: List.map_filter_simps key_label_def)

lemma labels_same: "list_all2 same_key ks ks' \<Longrightarrow> labels ks' = labels ks"
  by (induction rule: list_all2_induct) (auto simp: List.map_filter_simps key_label_def same_key_def)

text \<open>A key that is returned from the stack of keys to return leaves the stock.\<close>

lemma walk_return:
  assumes "walk_ok ctx" and "stack_to_return ctx = k # ret"
  shows "walk_ok (ctx\<lparr>stack_to_return := ret\<rparr>) \<and> walk_stock (ctx\<lparr>stack_to_return := ret\<rparr>) \<subseteq> walk_stock ctx \<and>
    (\<forall>l. key_label k = Some l \<longrightarrow> l \<in> walk_stock ctx \<and> l \<notin> walk_stock (ctx\<lparr>stack_to_return := ret\<rparr>))"
  using assms
  by (auto simp: walk_ok_def walk_stock_def labels_append List.map_filter_simps split: option.splits)

lemma walk_expand:
  assumes "walk_ok ctx" and "pop_stack_to_traverse ctx = Some (node, ctx1)"
    and "expand_node N d fi node ctx1 = Ok (node', ctx2)" and "list_all2 same_key (stack_to_return ctx) ret"
  shows "walk_ok (ctx2\<lparr>stack_to_return := node' # ret\<rparr>) \<and>
    walk_stock (ctx2\<lparr>stack_to_return := node' # ret\<rparr>) \<subseteq> walk_stock ctx"
proof -
  obtain rest where p: "stack_to_traverse ctx = node # rest" and c1: "ctx1 = ctx\<lparr>stack_to_traverse := rest\<rparr>"
    using assms(2) by (auto simp: pop_stack_to_traverse_def split: list.splits)
  obtain cs st' where c2: "ctx2 = ctx1\<lparr>ic_state := st',
        stack_to_traverse := rev (kn_deleted_keys node') @ accepted (stack_file_offsets ctx1) cs @ stack_to_traverse ctx1,
        stack_file_offsets := stack_file_offsets ctx1 \<union> key_offset ` set cs\<rparr>"
    and sk: "same_key node node'" and d: "kn_deleted_keys node' = kn_deleted_keys (mark_deleted node)"
    and ch: "\<And>c. c \<in> set cs \<Longrightarrow> child_of fi node c" and st: "same_but_root (ic_state ctx1) st'"
    and rd: "cs \<noteq> [] \<Longrightarrow> \<exists>b node1. read_sub_keys_internal N d fi (ic_state ctx1) (ic_filter ctx1) None
      (ic_get_modified_items ctx1) node = Ok (cs, b, node1, st')"
    using assms(3) by (rule expand_node_Ok) blast
  have l0: "labels (stack_to_traverse ctx @ stack_to_return ctx) = labels [node] @ labels rest @ labels ret"
    by (simp only: p labels_append labels_Cons [of node rest] append_assoc labels_same [OF assms(4)])
  have old: "distinct (labels [node] @ labels rest @ labels ret)"
    "set (labels [node] @ labels rest @ labels ret) \<subseteq> stack_file_offsets ctx"
    using assms(1) unfolding walk_ok_def l0 by blast+
  have del: "\<forall>k \<in> set (kn_deleted_keys node'). kn_cell_state (kn k) \<noteq> Allocated \<and> deleted_below k"
    using assms(1) deleted_below_cong [OF kn_update_simps(3)]
    by (auto simp: d mark_deleted_def walk_ok_def p deleted_below_iff [of node])
  let ?new = "accepted (stack_file_offsets ctx) cs"
  have new: "labels ?new = map key_offset ?new"
    using accepted_subset [of "stack_file_offsets ctx" cs] ch
    by (intro labels_allocated) (auto simp: child_of_def)
  have l: "labels (stack_to_traverse ctx2 @ node' # ret) = map key_offset ?new @ labels rest @ labels [node] @ labels ret"
  proof -
    have "labels (rev (kn_deleted_keys node')) = []" using del by (intro labels_deleted) auto
    moreover have "labels [node'] = labels [node]" using sk by (intro labels_same) simp
    moreover have "stack_to_traverse ctx2 = rev (kn_deleted_keys node') @ ?new @ rest" by (simp add: c2 c1)
    ultimately show ?thesis
      by (simp only: labels_append new labels_Cons [of node' ret] append_assoc append_Nil)
  qed
  have n: "set (map key_offset ?new) = key_offset ` set cs - stack_file_offsets ctx"
    using accepted_offsets by simp
  have sd: "state_deleted (ic_state ctx)" using assms(1) by (simp add: walk_ok_def)
  have cd: "deleted_below c" if "c \<in> set cs" for c
  proof -
    obtain b node1 where "read_sub_keys_internal N d fi (ic_state ctx1) (ic_filter ctx1) None
      (ic_get_modified_items ctx1) node = Ok (cs, b, node1, st')"
      using rd \<open>c \<in> set cs\<close> by fastforce
    then show ?thesis using read_sub_keys_deleted sd \<open>c \<in> set cs\<close> by (simp add: c1)
  qed
  have "distinct (labels (stack_to_traverse ctx2 @ node' # ret))"
  proof -
    let ?old = "labels rest @ labels [node] @ labels ret"
    have "distinct ?old" using old(1) unfolding distinct_append set_append by blast
    moreover have "set ?old \<subseteq> stack_file_offsets ctx" using old(2) unfolding set_append by blast
    ultimately show ?thesis
      using n accepted_distinct [of "stack_file_offsets ctx" cs] unfolding l distinct_append [of _ ?old] by blast
  qed
  moreover have "set (labels (stack_to_traverse ctx2 @ node' # ret)) \<subseteq> stack_file_offsets ctx2"
    using old n unfolding l by (auto simp: c2 c1)
  moreover have "\<forall>k \<in> set (stack_to_traverse ctx2). deleted_below k"
    using del cd accepted_subset [of "stack_file_offsets ctx" cs] assms(1) by (auto simp: c2 c1 walk_ok_def p)
  moreover have "state_deleted (ic_state ctx2)"
    using state_deleted_same [OF st] sd by (simp add: c2 c1)
  moreover have "set (labels (stack_to_traverse ctx2 @ node' # ret)) \<union> - stack_file_offsets ctx2 \<subseteq> walk_stock ctx"
    using n unfolding l walk_stock_def l0 by (auto simp: c2 c1)
  ultimately show ?thesis by (simp add: walk_ok_def walk_stock_def)
qed

lemma count_returned_same: "count_returned N stack = Ok ret \<Longrightarrow> list_all2 same_key stack ret"
  by (auto simp: count_returned_def bindO_eq_Ok same_key_def list.rel_refl split: list.splits)

lemma preorder_consumes:
  "walk_ok ctx \<Longrightarrow> next_key_preorder N d n fi ctx = Ok (r, ctx') \<Longrightarrow>
     walk_ok ctx' \<and> walk_stock ctx' \<subseteq> walk_stock ctx \<and>
     (\<forall>k l. r = Some k \<longrightarrow> key_label k = Some l \<longrightarrow> l \<in> walk_stock ctx \<and> l \<notin> walk_stock ctx')"
proof (induction n arbitrary: ctx)
  case 0
  then show ?case by simp
next
  case (Suc n)
  show ?case
  proof (cases "pop_stack_to_traverse ctx")
    case None
    with Suc.prems show ?thesis by auto
  next
    case (Some a)
    obtain node ctx1 where a: "a = (node, ctx1)" by fastforce
    note pop = Some [unfolded a]
    obtain node' ctx2 where e: "expand_node N d fi node ctx1 = Ok (node', ctx2)"
      using Suc.prems pop by (cases "expand_node N d fi node ctx1") auto
    have "ctx2\<lparr>stack_to_return := node' # stack_to_return ctx\<rparr>\<lparr>stack_to_return := stack_to_return ctx\<rparr> = ctx2"
      using expand_keeps_return [OF pop e] by simp
    then have s: "walk_ok ctx2" "walk_stock ctx2 \<subseteq> walk_stock ctx"
      and lb: "key_label node' = Some l \<Longrightarrow> l \<in> walk_stock ctx \<and> l \<notin> walk_stock ctx2" for l
      using walk_expand [OF Suc.prems(1) pop e, of "stack_to_return ctx"]
        walk_return [of "ctx2\<lparr>stack_to_return := node' # stack_to_return ctx\<rparr>" node' "stack_to_return ctx"]
      by (auto simp: list.rel_refl)
    have "r = Some node' \<and> ctx' = ctx2 \<or> next_key_preorder N d n fi ctx2 = Ok (r, ctx')"
      using Suc.prems pop e by (simp split: if_split_asm)
    then show ?thesis
      using Suc.IH [OF s(1)] s lb by blast
  qed
qed

lemma postorder_consumes:
  "walk_ok ctx \<Longrightarrow> next_key_postorder N d n fi ctx = Ok (r, ctx') \<Longrightarrow>
     walk_ok ctx' \<and> walk_stock ctx' \<subseteq> walk_stock ctx \<and>
     (\<forall>k l. r = Some k \<longrightarrow> key_label k = Some l \<longrightarrow> l \<in> walk_stock ctx \<and> l \<notin> walk_stock ctx')"
proof (induction n arbitrary: ctx)
  case 0
  then show ?case by simp
next
  case (Suc n)
  show ?case
  proof (cases "stack_to_traverse ctx = [] \<or> last_is_done (stack_to_return ctx)")
    case True
    with Suc.prems show ?thesis
      by (cases "stack_to_return ctx")
         (auto simp: postorder_Suc postorder_remaining_def last_is_done_def split: if_split_asm dest: walk_return)
  next
    case False
    then obtain node rest where t: "stack_to_traverse ctx = node # rest" by (cases "stack_to_traverse ctx") auto
    then have pop: "pop_stack_to_traverse ctx = Some (node, ctx\<lparr>stack_to_traverse := rest\<rparr>)"
      by (simp add: pop_stack_to_traverse_def)
    obtain ctx3 where r: "postorder_round N d fi ctx = Ok ctx3"
      and nx: "next_key_postorder N d n fi ctx3 = Ok (r, ctx')"
      using Suc.prems False by (auto simp: postorder_Suc bindO_eq_Ok)
    obtain node' ctx2 ret where e: "expand_node N d fi node (ctx\<lparr>stack_to_traverse := rest\<rparr>) = Ok (node', ctx2)"
      and ret: "count_returned N (stack_to_return ctx2) = Ok ret" and c: "ctx3 = ctx2\<lparr>stack_to_return := node' # ret\<rparr>"
      using r by (auto simp: postorder_round_def t bindO_eq_Ok)
    have "walk_ok ctx3 \<and> walk_stock ctx3 \<subseteq> walk_stock ctx"
      using walk_expand [OF Suc.prems(1) pop e] count_returned_same [OF ret] expand_keeps_return [OF pop e]
      by (simp add: c)
    with Suc.IH [OF _ nx] show ?thesis by blast
  qed
qed

lemma iterator_consumes:
  assumes "walk_ok (it_context it)" and "ParserIterator_next N d n it = Ok (r, it')"
  shows "walk_ok (it_context it') \<and> walk_stock (it_context it') \<subseteq> walk_stock (it_context it) \<and>
    (\<forall>k l. r = Some k \<longrightarrow> key_label k = Some l \<longrightarrow> l \<in> walk_stock (it_context it) \<and> l \<notin> walk_stock (it_context it'))"
proof -
  obtain ctx' where c: "it' = it\<lparr>it_context := ctx'\<rparr>"
    and n: "(if it_postorder_iteration it then next_key_postorder else next_key_preorder) N d n
      (p_file_info (it_parser it)) (it_context it) = Ok (r, ctx')"
    using assms(2) by (auto simp: ParserIterator_next_def bindO_eq_Ok)
  show ?thesis
    using preorder_consumes [OF assms(1)] postorder_consumes [OF assms(1)] n
    by (cases "it_postorder_iteration it") (simp_all add: c)
qed

interpretation key_consumer: consuming_iterator "ParserIterator_next N d" "\<lambda>it. walk_ok (it_context it)"
  "\<lambda>it. walk_stock (it_context it)" key_label for N d
  by unfold_locales (simp_all add: iterator_consumes)

section \<open>Properties\<close>

text \<open>What a parser holds after its construction: the keys it counts as deleted are not allocated.\<close>

definition parser_deleted :: "Parser \<Rightarrow> bool" where
  "parser_deleted p \<longleftrightarrow>
     state_deleted (p_state p) \<and> (\<forall>r. p_cell_key_node_root p = Some r \<longrightarrow> deleted_below r)"

definition key_iterator_for :: "Parser \<Rightarrow> bool \<Rightarrow> bool \<Rightarrow> bool \<Rightarrow> Filter \<Rightarrow> ParserIterator" where
  "key_iterator_for p post ancestors modified flt =
     ParserIterator_postorder_iteration post (ParserIterator_filter_include_ancestors ancestors
       (ParserIterator_get_modified_items modified (ParserIterator_with_filter flt (ParserIterator_new p))))"

lemma key_iterator_for_simps:
  "it_parser (key_iterator_for p post anc md flt) = p"
  "it_postorder_iteration (key_iterator_for p post anc md flt) = post"
  "it_context (key_iterator_for p post anc md flt) =
     (ParserIteratorContext_from_parser p md (Some (flt, anc)))"
  by (simp_all add: key_iterator_for_def ParserIterator_new_def ParserIterator_with_filter_def
      ParserIterator_get_modified_items_def ParserIterator_filter_include_ancestors_def
      ParserIterator_postorder_iteration_def ParserIteratorContext_from_parser_def Let_def)

lemma labels_eq: "labels ks = map key_offset (filter (\<lambda>k. kn_cell_state (kn k) = Allocated) ks)"
  by (induction ks) (auto simp: List.map_filter_simps key_label_def)

lemma default_deleted_below: "deleted_below CellKeyNode_default"
  by (simp add: CellKeyNode_default_def)

text \<open>
  C6: an iteration over the keys of a parser, in either order and with any filter, ends on every file:
  whatever the sub key lists refer to, cycles included, there is a number of rounds after which the
  loop over the iterator is over, provided that the reading of single sub key lists ends.
\<close>

theorem every_iteration_ends:
  assumes "\<And>st k. same_but_root (p_state p) st \<Longrightarrow>
    read_sub_keys_internal N d (p_file_info p) st flt None modified k \<noteq> Diverge"
  shows "\<exists>n. \<forall>m \<ge> n. iter_all N d m (key_iterator_for p post ancestors modified flt) \<noteq> Diverge"
proof -
  have "iter_reads_end N d (key_iterator_for p post ancestors modified flt)"
    using assms
    by (simp add: iter_reads_end_def reads_end_def key_iterator_for_simps ParserIteratorContext_from_parser_def Let_def)
  then show ?thesis
    unfolding iter_all_def by (rule key_iterator.collect_ends)
qed

lemma allocated_keys_distinct:
  assumes "parser_deleted p"
    and "iter_all N d n (key_iterator_for p post ancestors modified flt) = Ok ks"
  shows "distinct (map kn_file_offset_absolute (map kn (filter (\<lambda>k. kn_cell_state (kn k) = Allocated) ks)))"
proof -
  have "walk_ok (it_context (key_iterator_for p post ancestors modified flt))"
    using assms(1) default_deleted_below
    by (auto simp: key_iterator_for_simps walk_ok_def ParserIteratorContext_from_parser_def parser_deleted_def
        Let_def key_label_def List.map_filter_simps split: option.splits)
  from key_consumer.collect_distinct [OF this assms(2) [unfolded iter_all_def]] show ?thesis
    by (simp add: labels_eq o_def)
qed

text \<open>
  An iteration returns no allocated key twice: the file offsets of the allocated keys it returns are
  pairwise different, in either order and with any filter.
\<close>

theorem no_key_is_returned_twice:
  assumes "parser_deleted p"
    and "iter_all N d n (key_iterator_for p post ancestors modified flt) = Ok ks"
  shows "distinct (map kn_file_offset_absolute (map kn (filter (\<lambda>k. kn_cell_state (kn k) = Allocated) ks)))"
  by (rule allocated_keys_distinct [OF assms])

end
