(* ===== verification/Recover_Deleted.thy ===== *)
theory Recover_Deleted
  imports Header_Facts Key_Walk
begin

text \<open>
  The recovery of deleted keys and values from unallocated cells and from the slack of cells
  (\<open>src/src/parser_recover_deleted.rs\<close>, and the loop over the hive bins in \<open>src/src/parser.rs\<close>).
\<close>

section \<open>Checked reads\<close>

definition read_checked :: "bytes \<Rightarrow> usize \<Rightarrow> bytes option" where
  "read_checked buf off = (if off < length buf then get_from buf off else None)"

definition read_range_checked :: "bytes \<Rightarrow> usize \<Rightarrow> usize \<Rightarrow> bytes option" where
  "read_range_checked buf off sz =
     (if off < length buf then get_range buf off (min (off + sz) (length buf)) else None)"

section \<open>One cell\<close>

text \<open>
  The two functions below call the scan of the slack of the cell they have parsed, which calls them in
  turn; \<open>scan\<close> stands for that call.  They give the number of bytes to go on by, and the state.
\<close>

definition kv_set_cell_state :: "CellState \<Rightarrow> CellKeyValue \<Rightarrow> CellKeyValue" where
  "kv_set_cell_state s v = CellKeyValue ((kv v)\<lparr>kv_cell_state := s\<rparr>) (kv_versions v)"

definition kn_set_cell_state :: "CellState \<Rightarrow> CellKeyNode \<Rightarrow> CellKeyNode" where
  "kn_set_cell_state s = kn_update (\<lambda>c. c\<lparr>kn_cell_state := s\<rparr>)"

definition st_add_info :: "LogCode \<Rightarrow> string \<Rightarrow> State \<Rightarrow> State" where
  "st_add_info c t st = st\<lparr>info := Logs_add (info st) c t\<rparr>"

definition recover_cell_key_value ::
  "(bytes \<Rightarrow> usize \<Rightarrow> State \<Rightarrow> State result) \<Rightarrow> 'z env_scheme \<Rightarrow> FileInfo \<Rightarrow> bytes \<Rightarrow> usize \<Rightarrow> CellState \<Rightarrow> bool \<Rightarrow>
     State \<Rightarrow> (usize \<times> State) result" where
  "recover_cell_key_value scan N fi input_orig off cell_state force_add st =
     (case CellKeyValue_from_bytes N input_orig off None False of
        Ok (_, v) \<Rightarrow>
          bindO (scan (field_value (kvd_slack (kv_detail (kv v)))) (kv_slack_offset_absolute v) st) (\<lambda>st.
          if force_add \<or> kv_is_free v then
            bindO (CellKeyValue_read_value_bytes N fi v) (\<lambda>v.
            Ok (kv_get_cell_size v,
                st\<lparr>deleted_values := DeletedValueMap_add (deleted_values st) [] (kv_set_cell_state cell_state v)\<rparr>))
          else Ok (1, st))
      | Err _ \<Rightarrow>
          Ok (1, st_add_info WarningRecovery
            (CHR 0x09 # ''Unable to parse deleted value at offset '' @ show_nat off) st)
      | Panic \<Rightarrow> Panic
      | Diverge \<Rightarrow> Diverge)"

definition recover_cell_key_node ::
  "(bytes \<Rightarrow> usize \<Rightarrow> State \<Rightarrow> State result) \<Rightarrow> 'z env_scheme \<Rightarrow> FileInfo \<Rightarrow> bytes \<Rightarrow> usize \<Rightarrow> CellState \<Rightarrow> bool \<Rightarrow>
     State \<Rightarrow> (usize \<times> State) result" where
  "recover_cell_key_node scan N fi input_orig off cell_state force_add st =
     (case read_from_slice N 0 fi st input_orig
        \<lparr>ro_offset = off, ro_cur_path = [], ro_filter = None, ro_self_is_filter_match_or_descendent = True,
         ro_sequence_num = None, ro_get_deleted_and_modified = False\<rparr> of
        Ok (Some k, st) \<Rightarrow>
          bindO (scan (field_value (knd_slack (kn_detail (kn k)))) (kn_slack_offset_absolute k) st) (\<lambda>st.
          if force_add \<or> kn_is_free k then
            Ok (kn_get_cell_size k,
                st\<lparr>deleted_keys := ModifiedDeletedKeyMap_add (deleted_keys st) [] (kn_set_cell_state cell_state k)\<rparr>)
          else Ok (1, st))
      | Ok (None, st) \<Rightarrow> Ok (1, st)
      | Err e \<Rightarrow>
          Ok (1, st_add_info WarningRecovery
            (''Unable to parse deleted key at offset '' @ show_nat off @ '' ('' @ Error_to_string e @ '')'') st)
      | Panic \<Rightarrow> Panic
      | Diverge \<Rightarrow> Diverge)"

section \<open>Slack\<close>

text \<open>The function \<open>cell_type\<close> local to the scan.\<close>

definition slack_cell_type :: "'z env_cell_scheme \<Rightarrow> CellType parser" where
  "slack_cell_type N =
     nom_alt_cell N
       [nom_map_cell N (nom_tag N ''nk'') (\<lambda>_. CellKey), nom_map_cell N (nom_tag N ''vk'') (\<lambda>_. CellVal)]"

text \<open>
  The loop over the offsets of the slack.  An error ends it with the cells found so far in the state; the
  error is only dropped by the caller.  Every round and every scan of the slack of a cell uses fuel.
\<close>

primrec find_cells_in_slack_internal ::
  "'z env_cell_scheme \<Rightarrow> FileInfo \<Rightarrow> nat \<Rightarrow> bytes \<Rightarrow> usize \<Rightarrow> usize \<Rightarrow> State \<Rightarrow> (Error option \<times> State) result" where
  "find_cells_in_slack_internal N fi 0 input_orig start offset st = Diverge"
| "find_cells_in_slack_internal N fi (Suc fuel) input_orig start offset st =
     (if offset < length input_orig then
        let input = drop offset input_orig; file_offset_absolute = start + offset;
            scan = (\<lambda>slack off st. bindO (find_cells_in_slack_internal N fi fuel slack off 0 st) (\<lambda>(_, st). Ok st)) in
        case nom_le_i32 N input of
          Ok (input1, _) \<Rightarrow>
            bindO (case slack_cell_type N input1 of
                     Ok (_, CellVal) \<Rightarrow>
                       recover_cell_key_value scan N fi input file_offset_absolute DeletedPrimaryFileSlack True st
                   | Ok (_, CellKey) \<Rightarrow>
                       recover_cell_key_node scan N fi input file_offset_absolute DeletedPrimaryFileSlack True st
                   | Ok _ \<Rightarrow> Ok (1, st)
                   | Err _ \<Rightarrow> Ok (1, st)
                   | Panic \<Rightarrow> Panic
                   | Diverge \<Rightarrow> Diverge) (\<lambda>(inc, st).
            find_cells_in_slack_internal N fi fuel input_orig start (offset + inc) st)
        | Err e \<Rightarrow> Ok (Some (Error_from_nom e), st)
        | Panic \<Rightarrow> Panic
        | Diverge \<Rightarrow> Diverge
      else Ok (None, st))"

definition find_cells_in_slack ::
  "'z env_cell_scheme \<Rightarrow> FileInfo \<Rightarrow> nat \<Rightarrow> bytes \<Rightarrow> usize \<Rightarrow> State \<Rightarrow> State result" where
  "find_cells_in_slack N fi fuel input_orig start st =
     bindO (find_cells_in_slack_internal N fi fuel input_orig start 0 st) (\<lambda>(_, st). Ok st)"

section \<open>Hive bins\<close>

text \<open>
  What the loop over the cells of a hive bin does with one cell.  The slice in which the next cell is
  recognised has the size of the cell before it.
\<close>

definition recover_cell ::
  "'z env_cell_scheme \<Rightarrow> nat \<Rightarrow> FileInfo \<Rightarrow> bytes \<Rightarrow> usize \<Rightarrow> usize \<Rightarrow> State \<Rightarrow> State result" where
  "recover_cell N fuel fi input_cell_type off size_abs st =
     (let scan = find_cells_in_slack N fi fuel in
      case read_cell_type N input_cell_type of
        CellVal \<Rightarrow>
          (case read_checked (buffer fi) off of
             Some value_slack \<Rightarrow>
               bindO (recover_cell_key_value scan N fi value_slack off DeletedPrimaryFile False st) (\<lambda>(_, st). Ok st)
           | None \<Rightarrow> Ok st)
      | CellKey \<Rightarrow>
          (case read_checked (buffer fi) off of
             Some key_slack \<Rightarrow>
               bindO (recover_cell_key_node scan N fi key_slack off DeletedPrimaryFile False st) (\<lambda>(_, st). Ok st)
           | None \<Rightarrow> Ok st)
      | _ \<Rightarrow>
          (case read_range_checked (buffer fi) off size_abs of
             Some slack \<Rightarrow> scan slack off st
           | None \<Rightarrow> Ok st))"

function unused_cells_loop ::
  "'z env_cell_scheme \<Rightarrow> nat \<Rightarrow> FileInfo \<Rightarrow> usize \<Rightarrow> bytes \<Rightarrow> usize \<Rightarrow> State \<Rightarrow> (usize \<times> State) result" where
  "unused_cells_loop N fuel fi hbin_max input off st =
     (if off < hbin_max then
        bindO (from_nom (nom_le_i32 N input)) (\<lambda>(input_cell_type, size).
        let size_abs = unat (unsigned_abs size) in
        if size = 0 then Ok (off, st)
        else
          bindO (recover_cell N fuel fi input_cell_type off size_abs st) (\<lambda>st.
          case read_range_checked (buffer fi) (off + size_abs) size_abs of
            Some data \<Rightarrow> unused_cells_loop N fuel fi hbin_max data (off + size_abs) st
          | None \<Rightarrow> Ok (off + size_abs, st)))
      else Ok (off, st))"
  by pat_completeness auto

lemma unsigned_abs_pos: "w \<noteq> 0 \<Longrightarrow> 0 < unat (unsigned_abs w)"
  by (simp add: unsigned_abs_def unat_gt_0)

termination unused_cells_loop
  by (relation "measure (\<lambda>(N, fuel, fi, hbin_max, input, off, st). hbin_max - off)")
     (use unsigned_abs_pos in \<open>auto intro: diff_less_mono2\<close>)

declare unused_cells_loop.simps [simp del]

definition find_unused_cells_in_hbin ::
  "'z env_cell_scheme \<Rightarrow> nat \<Rightarrow> FileInfo \<Rightarrow> usize \<Rightarrow> usize \<Rightarrow> State \<Rightarrow> (usize \<times> State) result" where
  "find_unused_cells_in_hbin N fuel fi off hbin_max st =
     bindO (ok_or (Error_buffer ''find_unused_cells_in_hbin: initial'') (read_checked (buffer fi) off)) (\<lambda>input.
     unused_cells_loop N fuel fi hbin_max input off st)"

definition find_free_in_hbin ::
  "'z env_cell_scheme \<Rightarrow> nat \<Rightarrow> FileInfo \<Rightarrow> usize \<Rightarrow> State \<Rightarrow> (usize \<times> State) result" where
  "find_free_in_hbin N fuel fi off st =
     bindO (ok_or (Error_buffer ''find_free_keys_and_values'') (read_checked (buffer fi) off)) (\<lambda>sl.
     bindO (from_nom (HiveBinHeader_from_bytes N fi sl)) (\<lambda>(input, hbin_header).
     find_unused_cells_in_hbin N fuel fi (get_file_offset fi input) (off + unat (hbh_size hbin_header)) st))"

text \<open>The loop of the parser over the hive bins, with fuel for its rounds.\<close>

primrec free_keys_and_values_loop ::
  "'z env_cell_scheme \<Rightarrow> nat \<Rightarrow> FileInfo \<Rightarrow> u32 \<Rightarrow> nat \<Rightarrow> usize \<Rightarrow> State \<Rightarrow> State result" where
  "free_keys_and_values_loop N fuel fi hive_bins_size 0 off st = Diverge"
| "free_keys_and_values_loop N fuel fi hive_bins_size (Suc rounds) off st =
     (if off < unat hive_bins_size then
        bindO (find_free_in_hbin N fuel fi off st) (\<lambda>(off, st).
        free_keys_and_values_loop N fuel fi hive_bins_size rounds off st)
      else Ok st)"

definition find_free_keys_and_values :: "'z env_cell_scheme \<Rightarrow> nat \<Rightarrow> Parser \<Rightarrow> (bool \<times> Parser) result" where
  "find_free_keys_and_values N fuel p =
     bindO (expect_base p) (\<lambda>b.
     bindO (free_keys_and_values_loop N fuel (p_file_info p) (hive_bins_data_size b) fuel
              (hbin_offset_absolute (p_file_info p)) (p_state p)) (\<lambda>st.
     Ok (True, p\<lparr>p_state := st\<rparr>)))"

definition init_recover_deleted :: "'z env_cell_scheme \<Rightarrow> nat \<Rightarrow> Parser \<Rightarrow> Parser result" where
  "init_recover_deleted N fuel p = bindO (find_free_keys_and_values N fuel p) (\<lambda>(_, p). Ok p)"

end
