(* ===== verification/Apply_Logs.thy ===== *)
theory Apply_Logs
  imports Recover_Deleted
begin

text \<open>
  The application of transaction logs: the second half of \<open>src/src/transaction_log.rs\<close> (the dirty pages of
  the entries are copied into the file in memory, the tree of keys is read again after each entry and
  compared with the one before), the loop over the logs and the initialisation in \<open>src/src/parser.rs\<close>,
  and the construction of a parser in \<open>src/src/parser_builder.rs\<close>.  The progress shown on the console is
  not part of the model.
\<close>

section \<open>What the standard library gives\<close>

text \<open>
  The texts of the derived \<open>Debug\<close> of an error and of the key of an item, which only occur in warnings,
  and the order in which a \<open>HashMap\<close> is walked, which is not specified: it is some permutation of the
  entries.
\<close>

record env_apply = env_log +
  fmt_error_debug :: "Error \<Rightarrow> string"
  fmt_item_debug :: "RegItemMapKey \<Rightarrow> string"
  hash_map_iter :: "RegItemMap \<Rightarrow> RegItemMap"

definition rim_insert :: "RegItemMapKey \<Rightarrow> RegItemMapValue \<Rightarrow> RegItemMap \<Rightarrow> RegItemMap" where
  "rim_insert key v m = (key, v) # filter (\<lambda>e. fst e \<noteq> key) m"

definition rim_remove :: "RegItemMapKey \<Rightarrow> RegItemMap \<Rightarrow> RegItemMapValue option \<times> RegItemMap" where
  "rim_remove key m = (map_of m key, filter (\<lambda>e. fst e \<noteq> key) m)"

section \<open>The analysis of what an entry changed\<close>

datatype ModifiedListType = Updated | Deleted

record RegItemNeeded =
  rin_key_path :: string
  rin_file_offset_absolute :: usize
  rin_sequence_num :: u32

definition RegItemNeeded_new :: "string \<Rightarrow> usize \<Rightarrow> u32 \<Rightarrow> RegItemNeeded" where
  "RegItemNeeded_new key_path off seq =
     \<lparr>rin_key_path = key_path, rin_file_offset_absolute = off, rin_sequence_num = seq\<rparr>"

text \<open>The item of \<open>NewItemInfo\<close> is a \<open>dyn Cell\<close>, of which the hash, the offset and the warnings are used.\<close>

record NewItemInfo =
  nii_key_path :: string
  nii_value_path :: "string option"
  nii_hash :: "Hash option"
  nii_file_offset_absolute :: usize
  nii_logs :: Logs

definition new_key_item :: "CellKeyNode \<Rightarrow> NewItemInfo" where
  "new_key_item k =
     \<lparr>nii_key_path = kn_path (kn k), nii_value_path = None, nii_hash = kn_hash (kn k),
      nii_file_offset_absolute = kn_file_offset_absolute (kn k), nii_logs = kn_logs (kn k)\<rparr>"

definition new_value_item :: "CellKeyNode \<Rightarrow> CellKeyValue \<Rightarrow> NewItemInfo" where
  "new_value_item k v =
     \<lparr>nii_key_path = kn_path (kn k), nii_value_path = Some (value_name_of v), nii_hash = kv_hash (kv v),
      nii_file_offset_absolute = kv_file_offset_absolute (kv v), nii_logs = kv_logs (kv v)\<rparr>"

record TransactionAnalyzer =
  prior_file_info :: FileInfo
  ta_new_sequence_number :: u32

text \<open>The variables of the analysis: the two maps, what is needed of the prior file, and the warnings.\<close>

record analysis =
  prior_reg_items :: RegItemMap
  latest_reg_items :: RegItemMap
  prior_keys_needed :: "RegItemNeeded list"
  prior_values_needed :: "RegItemNeeded list"
  an_logs :: Logs

definition handle_new_item ::
  "TransactionAnalyzer \<Rightarrow> NewItemInfo \<Rightarrow> RegItemMap \<Rightarrow> RegItemMap \<Rightarrow> RegItemNeeded list \<Rightarrow> Logs \<Rightarrow>
     (RegItemMap \<times> RegItemMap \<times> RegItemNeeded list \<times> Logs) result" where
  "handle_new_item ta new_item prior latest needed logs =
     bindO (case nii_hash new_item of Some h \<Rightarrow> Ok h | None \<Rightarrow> Panic) (\<lambda>updated_item_hash.
     let key = RegItemMapKey_new (nii_key_path new_item) (nii_value_path new_item);
         (prior_item, prior) = rim_remove key prior;
         (sequence_num, needed) =
           (case prior_item of
              Some item \<Rightarrow>
                if updated_item_hash = rim_hash item then (rim_sequence_num item, needed)
                else (ta_new_sequence_number ta,
                      needed @ [RegItemNeeded_new (nii_key_path new_item) (rim_file_offset_absolute item)
                                  (rim_sequence_num item)])
            | None \<Rightarrow> (ta_new_sequence_number ta, needed));
         latest = rim_insert key
           (RegItemMapValue_new updated_item_hash (nii_file_offset_absolute new_item) sequence_num) latest;
         item_logs = Logs_prepend_all (nii_logs new_item)
           (''Sequence number '' @ show_nat (unat (ta_new_sequence_number ta)) @ '' - '')
     in Ok (prior, latest, needed, Logs_extend logs item_logs))"

primrec new_values_loop :: "TransactionAnalyzer \<Rightarrow> CellKeyNode \<Rightarrow> CellKeyValue list \<Rightarrow> analysis \<Rightarrow> analysis result" where
  "new_values_loop ta k [] a = Ok a"
| "new_values_loop ta k (v # vs) a =
     bindO (handle_new_item ta (new_value_item k v) (prior_reg_items a) (latest_reg_items a)
              (prior_values_needed a) (an_logs a)) (\<lambda>(prior, latest, needed, logs).
     new_values_loop ta k vs (a\<lparr>prior_reg_items := prior, latest_reg_items := latest,
                               prior_values_needed := needed, an_logs := logs\<rparr>))"

primrec new_keys_loop :: "TransactionAnalyzer \<Rightarrow> CellKeyNode list \<Rightarrow> analysis \<Rightarrow> analysis result" where
  "new_keys_loop ta [] a = Ok a"
| "new_keys_loop ta (k # ks) a =
     bindO (handle_new_item ta (new_key_item k) (prior_reg_items a) (latest_reg_items a)
              (prior_keys_needed a) (an_logs a)) (\<lambda>(prior, latest, needed, logs).
     bindO (new_values_loop ta k (kn_sub_values (kn k))
              (a\<lparr>prior_reg_items := prior, latest_reg_items := latest, prior_keys_needed := needed, an_logs := logs\<rparr>))
       (new_keys_loop ta ks))"

definition add_full_key_to_list ::
  "'z env_scheme \<Rightarrow> TransactionAnalyzer \<Rightarrow> string \<Rightarrow> usize \<Rightarrow> u32 \<Rightarrow> ModifiedListType \<Rightarrow> State \<Rightarrow> State result" where
  "add_full_key_to_list N ta path off old_sequence_number list_type st =
     bindO (CellKeyNode_read N 0 (prior_file_info ta) st
       \<lparr>ro_offset = off, ro_cur_path = parent_path path, ro_filter = None,
        ro_self_is_filter_match_or_descendent = False, ro_sequence_num = Some old_sequence_number,
        ro_get_deleted_and_modified = False\<rparr>) (\<lambda>(full_key, st).
     case full_key of
       Some k \<Rightarrow>
         let k = kn_update (\<lambda>c. c\<lparr>kn_updated_by_sequence_num := Some (ta_new_sequence_number ta), kn_sub_values := []\<rparr>) k in
         Ok (case list_type of
               Updated \<Rightarrow> st\<lparr>modified_keys := ModifiedDeletedKeyMap_add (modified_keys st) path
                              (kn_set_cell_state ModifiedTransactionLog k)\<rparr>
             | Deleted \<Rightarrow> st\<lparr>deleted_keys := ModifiedDeletedKeyMap_add (deleted_keys st) (parent_path path)
                              (kn_set_cell_state DeletedTransactionLog k)\<rparr>)
     | None \<Rightarrow> Ok st)"

definition add_full_value_to_list ::
  "'z env_scheme \<Rightarrow> TransactionAnalyzer \<Rightarrow> string \<Rightarrow> usize \<Rightarrow> u32 \<Rightarrow> ModifiedListType \<Rightarrow> State \<Rightarrow> State result" where
  "add_full_value_to_list N ta path off old_sequence_number list_type st =
     bindO (ok_or (Error_buffer ''add_full_value_to_list'') (get_from (buffer (prior_file_info ta)) off)) (\<lambda>sl.
     bindO (from_nom (CellKeyValue_from_bytes N sl off (Some old_sequence_number) (get_full_field_info st))) (\<lambda>(_, v).
     bindO (CellKeyValue_read_value_bytes N (prior_file_info ta) v) (\<lambda>v.
     let v = CellKeyValue ((kv v)\<lparr>kv_updated_by_sequence_num := Some (ta_new_sequence_number ta)\<rparr>) (kv_versions v);
         name = value_name_of v in
     Ok (case list_type of
           Updated \<Rightarrow> st\<lparr>modified_values := ModifiedValueMap_add (modified_values st) path name
                          (kv_set_cell_state ModifiedTransactionLog v)\<rparr>
         | Deleted \<Rightarrow> st\<lparr>deleted_values := DeletedValueMap_add (deleted_values st) path
                          (kv_set_cell_state DeletedTransactionLog v)\<rparr>))))"

text \<open>An error of one of the two is a warning, and the state stays as it was.\<close>

definition or_warn :: "State result \<Rightarrow> string \<Rightarrow> State \<Rightarrow> Logs \<Rightarrow> (State \<times> Logs) result" where
  "or_warn r msg st logs =
     (case r of
        Ok st' \<Rightarrow> Ok (st', logs)
      | Err e \<Rightarrow> Ok (st, Logs_add logs WarningTransactionLog (msg @ Error_to_string e @ '')''))
      | Panic \<Rightarrow> Panic
      | Diverge \<Rightarrow> Diverge)"

primrec keys_needed_loop ::
  "'z env_scheme \<Rightarrow> TransactionAnalyzer \<Rightarrow> RegItemNeeded list \<Rightarrow> State \<Rightarrow> Logs \<Rightarrow> (State \<times> Logs) result" where
  "keys_needed_loop N ta [] st logs = Ok (st, logs)"
| "keys_needed_loop N ta (r # rs) st logs =
     bindO (or_warn (add_full_key_to_list N ta (rin_key_path r) (rin_file_offset_absolute r) (rin_sequence_num r) Updated st)
              (''Error adding key '' @ rin_key_path r @ '' to modified list for sequence num '' @
               show_nat (unat (rin_sequence_num r)) @ '' ('') st logs) (\<lambda>(st, logs).
     keys_needed_loop N ta rs st logs)"

primrec values_needed_loop ::
  "'z env_scheme \<Rightarrow> TransactionAnalyzer \<Rightarrow> RegItemNeeded list \<Rightarrow> State \<Rightarrow> Logs \<Rightarrow> (State \<times> Logs) result" where
  "values_needed_loop N ta [] st logs = Ok (st, logs)"
| "values_needed_loop N ta (r # rs) st logs =
     bindO (or_warn (add_full_value_to_list N ta (rin_key_path r) (rin_file_offset_absolute r) (rin_sequence_num r) Updated st)
              (''Error adding value '' @ rin_key_path r @ '' to modified list for sequence num '' @
               show_nat (unat (rin_sequence_num r)) @ '' ('') st logs) (\<lambda>(st, logs).
     values_needed_loop N ta rs st logs)"

primrec deleted_items_loop ::
  "'z env_apply_scheme \<Rightarrow> TransactionAnalyzer \<Rightarrow> RegItemMap \<Rightarrow> State \<Rightarrow> Logs \<Rightarrow> (State \<times> Logs) result" where
  "deleted_items_loop N ta [] st logs = Ok (st, logs)"
| "deleted_items_loop N ta (e # es) st logs =
     (case e of (key, item) \<Rightarrow>
        bindO (case snd key of
                 Some _ \<Rightarrow>
                   or_warn (add_full_value_to_list N ta (fst key) (rim_file_offset_absolute item) (rim_sequence_num item) Deleted st)
                     (''Error adding value '' @ fmt_item_debug N key @ '' to deleted list for sequence num: '' @
                      show_nat (unat (rim_sequence_num item)) @ '' ('') st logs
               | None \<Rightarrow>
                   or_warn (add_full_key_to_list N ta (fst key) (rim_file_offset_absolute item) (rim_sequence_num item) Deleted st)
                     (''Error adding key '' @ fst key @ '' to deleted list for sequence num: '' @
                      show_nat (unat (rim_sequence_num item)) @ '' ('') st logs) (\<lambda>(st, logs).
        deleted_items_loop N ta es st logs))"

definition remove_from_deleted :: "RegItemMapKey \<times> RegItemMapValue \<Rightarrow> State \<Rightarrow> State" where
  "remove_from_deleted e st =
     (case e of (key, item) \<Rightarrow>
        case snd key of
          Some value_name \<Rightarrow>
            st\<lparr>deleted_values := DeletedValueMap_remove (deleted_values st) (fst key) value_name (rim_hash item)\<rparr>
        | None \<Rightarrow> st\<lparr>deleted_keys := ModifiedDeletedKeyMap_remove (deleted_keys st) (fst key) (rim_hash item)\<rparr>)"

text \<open>The iteration takes fuel for its rounds (\<open>fuel\<close>) and for reading sub key lists (\<open>depth\<close>).\<close>

definition get_latest_reg_items ::
  "'z env_apply_scheme \<Rightarrow> nat \<Rightarrow> nat \<Rightarrow> TransactionAnalyzer \<Rightarrow> RegItemMap \<Rightarrow> Logs \<Rightarrow> Parser \<Rightarrow>
     (RegItemMap \<times> Logs \<times> Parser) result" where
  "get_latest_reg_items N depth fuel ta prior logs p =
     bindO (init_root N depth p) (\<lambda>p.
     bindO (iter_all N depth fuel (ParserIterator_get_modified_items False (ParserIterator_new p))) (\<lambda>updated_keys.
     bindO (new_keys_loop ta updated_keys
              \<lparr>prior_reg_items = prior, latest_reg_items = [], prior_keys_needed = [], prior_values_needed = [],
               an_logs = logs\<rparr>) (\<lambda>a.
     bindO (keys_needed_loop N ta (prior_keys_needed a) (p_state p) (an_logs a)) (\<lambda>(st, logs).
     bindO (values_needed_loop N ta (prior_values_needed a) st logs) (\<lambda>(st, logs).
     bindO (deleted_items_loop N ta (hash_map_iter N (prior_reg_items a)) st logs) (\<lambda>(st, logs).
     Ok (latest_reg_items a, logs,
         p\<lparr>p_state := fold remove_from_deleted (hash_map_iter N (latest_reg_items a)) st\<rparr>)))))))"

section \<open>The entries of a log\<close>

primrec apply_dirty_pages :: "DirtyPage list \<Rightarrow> FileInfo \<Rightarrow> FileInfo result" where
  "apply_dirty_pages [] fi = Ok fi"
| "apply_dirty_pages (page # pages) fi =
     (let dst_offset = unat (dirty_page_ref_offset page) + hbin_offset_absolute fi;
          dst_offset_end = dst_offset + length (page_bytes page) in
      bindO (ok_or (Error_buffer ''update_parser'') (get_range (buffer fi) dst_offset dst_offset_end)) (\<lambda>_.
      bindO (copy_at (buffer fi) dst_offset (page_bytes page)) (\<lambda>buf.
      apply_dirty_pages pages (fi\<lparr>buffer := buf\<rparr>))))"

definition resize_buffer :: "u32 \<Rightarrow> LogEntry \<Rightarrow> FileInfo \<Rightarrow> FileInfo" where
  "resize_buffer primary_hive_bins_data_size e fi =
     (if primary_hive_bins_data_size < le_hive_bins_data_size e
      then fi\<lparr>buffer := buffer fi @ replicate (unat (le_hive_bins_data_size e - primary_hive_bins_data_size)) 0\<rparr>
      else fi)"

text \<open>When the root cannot be read, the header of the first hive bin has been stored all the same.\<close>

definition init_root_failed :: "'z env_scheme \<Rightarrow> Parser \<Rightarrow> Parser" where
  "init_root_failed N p =
     (let fi = p_file_info p in
      case get_from (buffer fi) (hbin_offset_absolute fi) of
        None \<Rightarrow> p
      | Some input \<Rightarrow>
          (case HiveBinHeader_from_bytes N fi input of
             Ok (_, hbh) \<Rightarrow> p\<lparr>p_hive_bin_header := Some hbh\<rparr>
           | _ \<Rightarrow> p))"

text \<open>
  The analysis after an entry.  Its only error is that of reading the root; the items known before are
  then kept.
\<close>

definition analyze_entry ::
  "'z env_apply_scheme \<Rightarrow> nat \<Rightarrow> nat \<Rightarrow> FileInfo \<Rightarrow> u32 \<Rightarrow> RegItemMap \<Rightarrow> Parser \<Rightarrow> (RegItemMap \<times> Parser) result" where
  "analyze_entry N depth fuel prior_fi new_seq prior_items p =
     (case get_latest_reg_items N depth fuel \<lparr>prior_file_info = prior_fi, ta_new_sequence_number = new_seq\<rparr>
             prior_items Logs_default p of
        Ok (updated_items, logs, p) \<Rightarrow>
          Ok (updated_items, p\<lparr>p_state := (p_state p)\<lparr>info := Logs_extend (info (p_state p)) logs\<rparr>\<rparr>)
      | Err e \<Rightarrow>
          let p = p_add_info WarningTransactionLog
                (''Unable to read cell tree for new sequence number '' @ show_nat (unat new_seq) @ '', '' @ fmt_error_debug N e)
                (init_root_failed N p) in
          Ok (prior_items, p\<lparr>p_state := (p_state p)\<lparr>info := Logs_extend (info (p_state p)) Logs_default\<rparr>\<rparr>)
      | Panic \<Rightarrow> Panic
      | Diverge \<Rightarrow> Diverge)"

definition apply_log_entry ::
  "'z env_apply_scheme \<Rightarrow> nat \<Rightarrow> nat \<Rightarrow> u32 \<Rightarrow> LogEntry \<Rightarrow> RegItemMap \<Rightarrow> Parser \<Rightarrow> (RegItemMap \<times> Parser) result" where
  "apply_log_entry N depth fuel primary_hive_bins_data_size e prior_items p =
     (let prior_fi = resize_buffer primary_hive_bins_data_size e (p_file_info p) in
      bindO (apply_dirty_pages (dirty_pages e) prior_fi) (\<lambda>fi.
      let p = p\<lparr>p_file_info := fi\<rparr> in
      if p_recover_deleted p then analyze_entry N depth fuel prior_fi (le_sequence_number e) prior_items p
      else Ok (prior_items, p)))"

primrec log_entries_loop ::
  "'z env_apply_scheme \<Rightarrow> nat \<Rightarrow> nat \<Rightarrow> u32 \<Rightarrow> u32 \<Rightarrow> LogEntry list \<Rightarrow> u32 \<Rightarrow> RegItemMap \<Rightarrow> Parser \<Rightarrow>
     (u32 \<times> RegItemMap \<times> Parser) result" where
  "log_entries_loop N depth fuel sec_seq bins_size [] new_seq items p = Ok (new_seq, items, p)"
| "log_entries_loop N depth fuel sec_seq bins_size (e # es) new_seq items p =
     (if \<not> has_valid_hashes e then
        Ok (new_seq, items, p_add_info WarningTransactionLog
          (''Stopping log entry processing; hash mismatch at log entry with sequence number '' @
           show_nat (unat (le_sequence_number e))) p)
      else if le_sequence_number e < sec_seq then
        log_entries_loop N depth fuel sec_seq bins_size es new_seq items
          (p_add_info WarningTransactionLog
            (''Skipping log entry; the log entry sequence number ('' @ show_nat (unat (le_sequence_number e)) @
             '') is less than to the primary file's secondary sequence number ('' @ show_nat (unat sec_seq) @ '')'') p)
      else if \<not> is_valid_hive_bin_data_size e then
        Ok (new_seq, items, p_add_info WarningTransactionLog
          (''Stopping log entry processing; the hive_bin_data_size ('' @ show_nat (unat (le_hive_bins_data_size e)) @
           '') is not a multiple of 4096)'') p)
      else
        bindO (if new_seq = 0 then Ok False
               else bindO (add_w (overflow_checks N) new_seq 1) (\<lambda>nxt. Ok (le_sequence_number e \<noteq> nxt))) (\<lambda>gap.
        if gap then
          Ok (new_seq, items, p_add_info WarningTransactionLog
            (''Stopping log entry processing; the sequence number ('' @ show_nat (unat (le_sequence_number e)) @
             '') does not follow the previous log entry's sequence number ('' @ show_nat (unat new_seq) @ '')'') p)
        else
          bindO (apply_log_entry N depth fuel bins_size e items p) (\<lambda>(items, p).
          log_entries_loop N depth fuel sec_seq bins_size es (le_sequence_number e) items p)))"

definition update_parser ::
  "'z env_apply_scheme \<Rightarrow> nat \<Rightarrow> nat \<Rightarrow> TransactionLog \<Rightarrow> RegItemMap \<Rightarrow> Parser \<Rightarrow> (u32 \<times> RegItemMap \<times> Parser) result" where
  "update_parser N depth fuel log prior_items p =
     bindO (get_base_block_info p) (\<lambda>(primary_secondary_seq_num, primary_hive_bins_data_size).
     log_entries_loop N depth fuel primary_secondary_seq_num primary_hive_bins_data_size
       (log_file_entries log) 0 prior_items p)"

text \<open>All keys and values of the hive with their hashes.\<close>

definition reg_item :: "u32 \<Rightarrow> NewItemInfo \<Rightarrow> RegItemMap \<Rightarrow> RegItemMap result" where
  "reg_item sequence_num i m =
     bindO (case nii_hash i of Some h \<Rightarrow> Ok h | None \<Rightarrow> Panic) (\<lambda>h.
     Ok (rim_insert (RegItemMapKey_new (nii_key_path i) (nii_value_path i))
           (RegItemMapValue_new h (nii_file_offset_absolute i) sequence_num) m))"

primrec reg_items_loop :: "u32 \<Rightarrow> NewItemInfo list \<Rightarrow> RegItemMap \<Rightarrow> RegItemMap result" where
  "reg_items_loop sequence_num [] m = Ok m"
| "reg_items_loop sequence_num (i # is) m = bindO (reg_item sequence_num i m) (reg_items_loop sequence_num is)"

definition items_of_key :: "CellKeyNode \<Rightarrow> NewItemInfo list" where
  "items_of_key k = new_key_item k # map (new_value_item k) (kn_sub_values (kn k))"

definition get_reg_items ::
  "'z env_list_scheme \<Rightarrow> nat \<Rightarrow> nat \<Rightarrow> u32 \<Rightarrow> Parser \<Rightarrow> (RegItemMap \<times> Parser) result" where
  "get_reg_items N depth fuel sequence_num p =
     (if p_recover_deleted p then
        bindO (init_root N depth p) (\<lambda>p.
        bindO (iter_all N depth fuel (ParserIterator_new p)) (\<lambda>keys.
        bindO (reg_items_loop sequence_num (concat (map items_of_key keys)) []) (\<lambda>m. Ok (m, p))))
      else Ok ([], p))"

section \<open>The logs of a hive\<close>

primrec transaction_logs_loop ::
  "'z env_apply_scheme \<Rightarrow> nat \<Rightarrow> nat \<Rightarrow> u32 \<Rightarrow> TransactionLog list \<Rightarrow> u32 \<Rightarrow> RegItemMap \<Rightarrow> Parser \<Rightarrow> (u32 \<times> Parser) result" where
  "transaction_logs_loop N depth fuel sec_seq [] new_seq items p = Ok (new_seq, p)"
| "transaction_logs_loop N depth fuel sec_seq (log # logs) new_seq items p =
     (if sec_seq \<le> log_seq log then
        bindO (if new_seq = 0 then Ok True
               else bindO (add_w (overflow_checks N) new_seq 1) (\<lambda>nxt. Ok (log_seq log = nxt))) (\<lambda>follows.
        if follows then
          bindO (update_parser N depth fuel log items p) (\<lambda>(new_seq, items, p).
          transaction_logs_loop N depth fuel sec_seq logs new_seq items p)
        else
          transaction_logs_loop N depth fuel sec_seq logs new_seq items
            (p_add_info WarningTransactionLog
              (''Skipping log file; the log's primary sequence number ('' @ show_nat (unat (log_seq log)) @
               '') does not follow the previous log's last sequence number ('' @ show_nat (unat new_seq) @ '')'') p))
      else
        transaction_logs_loop N depth fuel sec_seq logs new_seq items
          (p_add_info WarningTransactionLog
            (''Skipping log file; the log's primary sequence number ('' @ show_nat (unat (log_seq log)) @
             '') is less than the primary file's secondary sequence number ('' @ show_nat (unat sec_seq) @ '')'') p))"

definition apply_transaction_logs ::
  "'z env_apply_scheme \<Rightarrow> nat \<Rightarrow> nat \<Rightarrow> bool \<Rightarrow> TransactionLog list \<Rightarrow> Parser \<Rightarrow> Parser result" where
  "apply_transaction_logs N depth fuel has_bad_checksum logs p =
     (if logs = [] then Ok p
      else
        bindO (prepare_transaction_logs N has_bad_checksum logs p) (\<lambda>(go_on, logs, p).
        if go_on then
          bindO (get_reg_items N depth fuel 0 p) (\<lambda>(original_items, p).
          bindO (get_base_block_info p) (\<lambda>(sec_seq, _).
          bindO (transaction_logs_loop N depth fuel sec_seq logs 0 original_items p) (\<lambda>(new_seq, p).
          update_header_after_transaction_logs N new_seq p)))
        else Ok p))"

definition Parser_init ::
  "'z env_apply_scheme \<Rightarrow> nat \<Rightarrow> nat \<Rightarrow> bool \<Rightarrow> TransactionLog list \<Rightarrow> Parser \<Rightarrow> Parser result" where
  "Parser_init N depth fuel recover_deleted logs p =
     bindO (init_base_block N p) (\<lambda>((is_supported_format, has_bad_checksum), p).
     if is_supported_format then
       bindO (if recover_deleted then init_recover_deleted N fuel p else Ok p) (\<lambda>p.
       bindO (apply_transaction_logs N depth fuel has_bad_checksum logs p) (\<lambda>p.
       init_root N depth p))
     else Ok p)"

section \<open>The builder\<close>

record ParserBuilderBase =
  pb_filter :: "Filter option"
  pb_recover_deleted :: bool
  pb_get_full_field_info :: bool
  pb_update_console :: bool

definition ParserBuilderBase_default :: ParserBuilderBase where
  "ParserBuilderBase_default =
     \<lparr>pb_filter = None, pb_recover_deleted = False, pb_get_full_field_info = False, pb_update_console = False\<rparr>"

text \<open>
  A file that is opened by its path, and what reading it to its end gives: the bytes, or the message of
  an error.
\<close>

type_synonym read_source = "string + bytes"

datatype path_source = OpenFails string | Opened read_source

record ParserBuilderFromPath =
  pp_primary :: path_source
  pp_transaction_logs :: "path_source list"
  pp_base :: ParserBuilderBase

definition pp_recover_deleted :: "bool \<Rightarrow> ParserBuilderFromPath \<Rightarrow> ParserBuilderFromPath" where
  "pp_recover_deleted recover b = b\<lparr>pp_base := (pp_base b)\<lparr>pb_recover_deleted := recover\<rparr>\<rparr>"

definition pp_get_full_field_info :: "bool \<Rightarrow> ParserBuilderFromPath \<Rightarrow> ParserBuilderFromPath" where
  "pp_get_full_field_info full b = b\<lparr>pp_base := (pp_base b)\<lparr>pb_get_full_field_info := full\<rparr>\<rparr>"

definition pp_with_transaction_log :: "path_source \<Rightarrow> ParserBuilderFromPath \<Rightarrow> ParserBuilderFromPath" where
  "pp_with_transaction_log log b = b\<lparr>pp_transaction_logs := pp_transaction_logs b @ [log]\<rparr>"

definition pp_update_console :: "bool \<Rightarrow> ParserBuilderFromPath \<Rightarrow> ParserBuilderFromPath" where
  "pp_update_console console b = b\<lparr>pp_base := (pp_base b)\<lparr>pb_update_console := console\<rparr>\<rparr>"

record ParserBuilderFromFile =
  pf_primary :: read_source
  pf_transaction_logs :: "read_source list"
  pf_base :: ParserBuilderBase

definition pf_with_filter :: "Filter \<Rightarrow> ParserBuilderFromFile \<Rightarrow> ParserBuilderFromFile" where
  "pf_with_filter flt b = b\<lparr>pf_base := (pf_base b)\<lparr>pb_filter := Some flt\<rparr>\<rparr>"

definition pf_recover_deleted :: "bool \<Rightarrow> ParserBuilderFromFile \<Rightarrow> ParserBuilderFromFile" where
  "pf_recover_deleted recover b = b\<lparr>pf_base := (pf_base b)\<lparr>pb_recover_deleted := recover\<rparr>\<rparr>"

definition pf_get_full_field_info :: "bool \<Rightarrow> ParserBuilderFromFile \<Rightarrow> ParserBuilderFromFile" where
  "pf_get_full_field_info full b = b\<lparr>pf_base := (pf_base b)\<lparr>pb_get_full_field_info := full\<rparr>\<rparr>"

definition pf_with_transaction_log :: "read_source \<Rightarrow> ParserBuilderFromFile \<Rightarrow> ParserBuilderFromFile" where
  "pf_with_transaction_log log b = b\<lparr>pf_transaction_logs := pf_transaction_logs b @ [log]\<rparr>"

definition ParserBuilder_from_path :: "path_source \<Rightarrow> ParserBuilderFromPath" where
  "ParserBuilder_from_path primary =
     \<lparr>pp_primary = primary, pp_transaction_logs = [], pp_base = ParserBuilderBase_default\<rparr>"

definition ParserBuilder_from_file :: "read_source \<Rightarrow> ParserBuilderFromFile" where
  "ParserBuilder_from_file primary =
     \<lparr>pf_primary = primary, pf_transaction_logs = [], pf_base = ParserBuilderBase_default\<rparr>"

definition ParserBuilder_build ::
  "'z env_apply_scheme \<Rightarrow> nat \<Rightarrow> nat \<Rightarrow> FileInfo \<Rightarrow> ParserBuilderBase \<Rightarrow> read_source list \<Rightarrow> Parser result" where
  "ParserBuilder_build N depth fuel fi b transaction_logs =
     bindO (TransactionLog_parse N transaction_logs) (\<lambda>(parsed_transaction_logs, warning_logs).
     bindO (Parser_init N depth fuel (pb_recover_deleted b) parsed_transaction_logs
       \<lparr>p_file_info = fi, p_state = State_default\<lparr>get_full_field_info := pb_get_full_field_info b\<rparr>,
        p_base_block = None, p_hive_bin_header = None, p_cell_key_node_root = None,
        p_recover_deleted = pb_recover_deleted b, p_update_console = pb_update_console b\<rparr>) (\<lambda>p.
     Ok (case warning_logs of
           Some w \<Rightarrow> p\<lparr>p_state := (p_state p)\<lparr>info := Logs_extend (info (p_state p)) w\<rparr>\<rparr>
         | None \<Rightarrow> p)))"

definition read_primary :: "read_source \<Rightarrow> FileInfo result" where
  "read_primary src =
     (case src of
        Inl io_error \<Rightarrow> Err (Error_from_io io_error)
      | Inr content \<Rightarrow> Ok (FileInfo_from_read_seek content))"

definition open_path :: "path_source \<Rightarrow> read_source result" where
  "open_path src = (case src of OpenFails io_error \<Rightarrow> Err (Error_from_io io_error) | Opened r \<Rightarrow> Ok r)"

definition ParserBuilderFromPath_build ::
  "'z env_apply_scheme \<Rightarrow> nat \<Rightarrow> nat \<Rightarrow> ParserBuilderFromPath \<Rightarrow> Parser result" where
  "ParserBuilderFromPath_build N depth fuel b =
     bindO (mapO open_path (pp_transaction_logs b)) (\<lambda>transaction_logs.
     bindO (bindO (open_path (pp_primary b)) read_primary) (\<lambda>fi.
     ParserBuilder_build N depth fuel fi (pp_base b) transaction_logs))"

definition ParserBuilderFromFile_build ::
  "'z env_apply_scheme \<Rightarrow> nat \<Rightarrow> nat \<Rightarrow> ParserBuilderFromFile \<Rightarrow> Parser result" where
  "ParserBuilderFromFile_build N depth fuel b =
     bindO (read_primary (pf_primary b)) (\<lambda>fi.
     ParserBuilder_build N depth fuel fi (pf_base b) (pf_transaction_logs b))"

end
