(* ===== verification/Python_Bindings.thy ===== *)
theory Python_Bindings
  imports Apply_Logs
begin

text \<open>
  The Python bindings (\<open>src/pynotatin/src\<close>): dates, files and warnings on the side of Python (\<open>util.rs\<close>, \<open>err.rs\<close>),
  contents and values, keys, and the parser with its builder and its iterator.  A method that
  changes its object, or the parser it is given, gives it back changed; an exception ends the call, and
  the objects are not followed beyond it, except for the parser that gives itself away.
\<close>

section \<open>The interpreter and the libraries\<close>

text \<open>Exceptions: those that the bindings raise, and any other of the interpreter.\<close>

datatype py_err =
    PyRuntimeError string
  | PyNotImplementedError string
  | PyOSError string
  | PyOtherError string

type_synonym 'a py_result = "(py_err, 'a) outcome"

text \<open>The classes of the module.\<close>

datatype py_class =
    ClassParserBuilder | ClassParser | ClassKey | ClassValue | ClassContent | ClassDecodeFormat
  | ClassKeysIterator | ClassValuesIterator | ClassSubKeysIterator | ClassValueVersionsIterator

text \<open>What \<open>PyDateTime::new\<close> is given.\<close>

record py_datetime =
  py_year :: int
  py_month :: u8
  py_day :: u8
  py_hour :: u8
  py_minute :: u8
  py_second :: u8
  py_microsecond :: u32

text \<open>
  \<open>chrono\<close>: the parts of a date, and a date from seconds and nanoseconds.  \<open>pyo3\<close>: the exception, if there is one,
  when an object of a class or a \<open>datetime\<close> is made or when a class is added to the module; an object
  of the caller as a string, or else as a file with \<open>read\<close> and \<open>seek\<close>; the file that a path leads to.  The
  module \<open>warnings\<close> may be missing, and a logger may have been set before.
\<close>

typedecl py_ref

record env_py = env_apply +
  dt_timestamp :: "DateTime \<Rightarrow> int"
  dt_subsec_nanos :: "DateTime \<Rightarrow> u32"
  dt_subsec_micros :: "DateTime \<Rightarrow> u32"
  dt_from_timestamp_opt :: "int \<Rightarrow> u32 \<Rightarrow> DateTime option"
  dt_year :: "DateTime \<Rightarrow> int"
  dt_month :: "DateTime \<Rightarrow> u32"
  dt_day :: "DateTime \<Rightarrow> u32"
  dt_hour :: "DateTime \<Rightarrow> u32"
  dt_minute :: "DateTime \<Rightarrow> u32"
  dt_second :: "DateTime \<Rightarrow> u32"
  py_alloc :: "py_class \<Rightarrow> py_err option"
  py_datetime_new :: "py_datetime \<Rightarrow> py_err option"
  py_add_class :: "py_class \<Rightarrow> py_err option"
  py_extract_path :: "py_ref \<Rightarrow> string option"
  py_file_like :: "py_ref \<Rightarrow> py_err + read_source"
  py_open :: "string \<Rightarrow> path_source"
  py_has_warnings :: bool
  py_logger_set :: bool

definition Py_new :: "'z env_py_scheme \<Rightarrow> py_class \<Rightarrow> 'a \<Rightarrow> 'a py_result" where
  "Py_new N c x = (case py_alloc N c of None \<Rightarrow> Ok x | Some e \<Rightarrow> Err e)"

text \<open>\<open>Vec::get\<close>.\<close>

definition vec_get :: "'a list \<Rightarrow> usize \<Rightarrow> 'a option" where
  "vec_get xs i = (if i < length xs then Some (xs ! i) else None)"

section \<open>Errors and files\<close>

definition PyNotatinError :: "Error \<Rightarrow> py_err" where
  "PyNotatinError err = PyRuntimeError (Error_to_string err)"

datatype FileOrFileLike = File string | FileLike read_source

definition FileOrFileLike_from_pyobject :: "'z env_py_scheme \<Rightarrow> py_ref \<Rightarrow> FileOrFileLike py_result" where
  "FileOrFileLike_from_pyobject N path_or_file_like =
     (case py_extract_path N path_or_file_like of
        Some s \<Rightarrow> Ok (File s)
      | None \<Rightarrow>
          (case py_file_like N path_or_file_like of
             Inr f \<Rightarrow> Ok (FileLike f)
           | Inl e \<Rightarrow> Err e))"

definition to_read_seek :: "'z env_py_scheme \<Rightarrow> py_ref \<Rightarrow> read_source py_result" where
  "to_read_seek N path_or_file_like =
     bindO (FileOrFileLike_from_pyobject N path_or_file_like) (\<lambda>f.
       case f of
         File s \<Rightarrow>
           (case py_open N s of
              OpenFails io_error \<Rightarrow> Err (PyOSError io_error)
            | Opened reader \<Rightarrow> Ok reader)
       | FileLike f \<Rightarrow> Ok f)"

section \<open>Dates\<close>

definition nanos_to_micros_round_half_even :: "u32 \<Rightarrow> u32" where
  "nanos_to_micros_round_half_even nanos =
     (let nanos_e7 = (nanos mod 1000) div 100;
          nanos_e6 = (nanos mod 10000) div 1000;
          micros = (nanos div 10000) * 10 in
      if nanos_e7 > 5 then micros + (nanos_e6 + 1)
      else if nanos_e7 < 5 then micros + nanos_e6
      else micros + (nanos_e6 + nanos_e6 mod 2))"

definition date_splitter :: "'z env_py_scheme \<Rightarrow> DateTime \<Rightarrow> int \<times> u32" where
  "date_splitter N date =
     (let unix_time = dt_timestamp N date;
          micros = nanos_to_micros_round_half_even (dt_subsec_nanos N date);
          inc_sec = micros div 1000000;
          micros = micros mod 1000000;
          unix_time = unix_time + uint inc_sec
      in (unix_time, micros))"

definition round_to_usec_half_even :: "'z env_py_scheme \<Rightarrow> DateTime \<Rightarrow> ('e, DateTime) outcome" where
  "round_to_usec_half_even N date =
     (let (unix_time, micros) = date_splitter N date in
      case dt_from_timestamp_opt N unix_time (micros * 1000) of
        Some d \<Rightarrow> Ok d
      | None \<Rightarrow> Panic)"

definition datetime_of :: "'z env_py_scheme \<Rightarrow> DateTime \<Rightarrow> py_datetime" where
  "datetime_of N d =
     \<lparr>py_year = dt_year N d, py_month = ucast (dt_month N d), py_day = ucast (dt_day N d), py_hour = ucast (dt_hour N d),
      py_minute = ucast (dt_minute N d), py_second = ucast (dt_second N d), py_microsecond = dt_subsec_micros N d\<rparr>"

definition date_to_pyobject :: "'z env_py_scheme \<Rightarrow> DateTime \<Rightarrow> py_datetime py_result" where
  "date_to_pyobject N date =
     bindO (round_to_usec_half_even N date) (\<lambda>rounded_date.
       let dt = datetime_of N rounded_date in
       case py_datetime_new N dt of None \<Rightarrow> Ok dt | Some e \<Rightarrow> Err e)"

section \<open>Warnings\<close>

datatype log_level = LevelError | LevelWarn | LevelInfo | LevelDebug | LevelTrace

primrec level_number :: "log_level \<Rightarrow> nat" where
  "level_number LevelError = 1"
| "level_number LevelWarn = 2"
| "level_number LevelInfo = 3"
| "level_number LevelDebug = 4"
| "level_number LevelTrace = 5"

primrec level_string :: "log_level \<Rightarrow> string" where
  "level_string LevelError = ''ERROR''"
| "level_string LevelWarn = ''WARN''"
| "level_string LevelInfo = ''INFO''"
| "level_string LevelDebug = ''DEBUG''"
| "level_string LevelTrace = ''TRACE''"

record log_record =
  rec_level :: log_level
  rec_module_path :: "string option"
  rec_args :: string

text \<open>The logger holds the module \<open>warnings\<close>; here, the list of the messages that it has been given.\<close>

record PyLogger =
  lg_level :: log_level
  lg_warnings :: "string list"

definition PyLogger_enabled :: "PyLogger \<Rightarrow> log_level \<Rightarrow> bool" where
  "PyLogger_enabled lg level \<longleftrightarrow> level_number level \<le> level_number (lg_level lg)"

definition pad_right :: "nat \<Rightarrow> string \<Rightarrow> string" where
  "pad_right n s = s @ replicate (n - length s) (CHR '' '')"

definition PyLogger_log :: "log_record \<Rightarrow> PyLogger \<Rightarrow> PyLogger" where
  "PyLogger_log r lg =
     (if PyLogger_enabled lg (rec_level r) then
        if lg_level lg = LevelWarn then
          let message = pad_right 5 (level_string (rec_level r)) @ '' ['' @
                (case rec_module_path r of Some m \<Rightarrow> m | None \<Rightarrow> []) @ ''] '' @ rec_args r
          in lg\<lparr>lg_warnings := lg_warnings lg @ [message]\<rparr>
        else lg
      else lg)"

text \<open>The logger and the highest level that the crate \<open>log\<close> is given, or the error that a logger is set.\<close>

definition init_logging :: "'z env_py_scheme \<Rightarrow> (unit, PyLogger \<times> log_level) outcome" where
  "init_logging N =
     (if \<not> py_has_warnings N then Panic
      else if py_logger_set N then Err ()
      else Ok (\<lparr>lg_level = LevelWarn, lg_warnings = []\<rparr>, LevelWarn))"

section \<open>Contents and values\<close>

record PyNotatinValue = pv_inner :: CellKeyValue

record PyNotatinKey =
  pk_inner :: CellKeyNode
  pk_last_key_written_date_and_time :: py_datetime

record PyNotatinContent = pc_inner :: CellValue

record PyNotatinDecodeFormat = pd_inner :: DecodeFormat

text \<open>The objects that the caller gets.\<close>

datatype py_object =
    PyStr string
  | PyInt int
  | PyStrList "string list"
  | PyBytes bytes
  | PyValue PyNotatinValue
  | PyKey PyNotatinKey
  | PyException py_err

fun prepare_content :: "CellValue \<Rightarrow> py_object option" where
  "prepare_content (CV_String content) = Some (PyStr content)"
| "prepare_content (CV_I32 content) = Some (PyInt (sint content))"
| "prepare_content (CV_U32 content) = Some (PyInt (uint content))"
| "prepare_content (CV_U64 content) = Some (PyInt (uint content))"
| "prepare_content (CV_I64 content) = Some (PyInt (sint content))"
| "prepare_content (CV_MultiString content) = Some (PyStrList content)"
| "prepare_content (CV_Binary content) = Some (PyBytes content)"
| "prepare_content _ = None"

definition PyNotatinContent_content :: "PyNotatinContent \<Rightarrow> py_object option" where
  "PyNotatinContent_content c = prepare_content (pc_inner c)"

definition PyNotatinContent_decode ::
  "'z env_py_scheme \<Rightarrow> PyNotatinDecodeFormat \<Rightarrow> usize \<Rightarrow> PyNotatinContent \<Rightarrow> PyNotatinContent py_result" where
  "PyNotatinContent_decode N fmt offset c =
     bindO (infallible (DecodeFormat_decode (pd_inner fmt) (pc_inner c) offset)) (\<lambda>(decoded_content, _).
     Py_new N ClassContent \<lparr>pc_inner = decoded_content\<rparr>)"

definition PyNotatinDecodeFormat_lznt1 :: PyNotatinDecodeFormat where "PyNotatinDecodeFormat_lznt1 = \<lparr>pd_inner = DF_Lznt1\<rparr>"

definition PyNotatinDecodeFormat_rot13 :: PyNotatinDecodeFormat where "PyNotatinDecodeFormat_rot13 = \<lparr>pd_inner = DF_Rot13\<rparr>"

definition PyNotatinDecodeFormat_utf16 :: PyNotatinDecodeFormat where "PyNotatinDecodeFormat_utf16 = \<lparr>pd_inner = DF_Utf16\<rparr>"

definition PyNotatinDecodeFormat_utf16_multiple :: PyNotatinDecodeFormat where
  "PyNotatinDecodeFormat_utf16_multiple = \<lparr>pd_inner = DF_Utf16Multiple\<rparr>"

definition PyNotatinValue_value :: "PyNotatinValue \<Rightarrow> py_object" where
  "PyNotatinValue_value v =
     PyBytes (case field_value (kvd_value_bytes (kv_detail (kv (pv_inner v)))) of Some b \<Rightarrow> b | None \<Rightarrow> [])"

definition PyNotatinValue_pretty_name :: "PyNotatinValue \<Rightarrow> py_object" where
  "PyNotatinValue_pretty_name v = PyStr (CellKeyValue_get_pretty_name (pv_inner v))"

definition PyNotatinValue_name :: "PyNotatinValue \<Rightarrow> py_object" where
  "PyNotatinValue_name v = PyStr (value_name_of (pv_inner v))"

definition PyNotatinValue_raw_data_type :: "PyNotatinValue \<Rightarrow> py_object" where
  "PyNotatinValue_raw_data_type v = PyInt (uint (field_value (kvd_data_type_raw (kv_detail (kv (pv_inner v))))))"

definition PyNotatinValue_content :: "PyNotatinValue \<Rightarrow> (py_object option) py_result" where
  "PyNotatinValue_content v =
     bindO (infallible (CellKeyValue_get_content (pv_inner v))) (\<lambda>(content, _). Ok (prepare_content content))"

definition PyNotatinValue_decode ::
  "'z env_py_scheme \<Rightarrow> PyNotatinDecodeFormat \<Rightarrow> usize \<Rightarrow> PyNotatinValue \<Rightarrow> PyNotatinContent py_result" where
  "PyNotatinValue_decode N fmt offset v =
     bindO (infallible (CellKeyValue_decode_content (pv_inner v) (pd_inner fmt) offset)) (\<lambda>(decoded_content, _).
     Py_new N ClassContent \<lparr>pc_inner = decoded_content\<rparr>)"

definition PyNotatinValue_from_cell_key_value :: "'z env_py_scheme \<Rightarrow> CellKeyValue \<Rightarrow> PyNotatinValue py_result" where
  "PyNotatinValue_from_cell_key_value N v = Py_new N ClassValue \<lparr>pv_inner = v\<rparr>"

definition reg_value_to_pyobject :: "'z env_py_scheme \<Rightarrow> CellKeyValue \<Rightarrow> ('e, py_object) outcome" where
  "reg_value_to_pyobject N v =
     (case PyNotatinValue_from_cell_key_value N v of
        Ok entry \<Rightarrow> Ok (PyValue entry)
      | Err e \<Rightarrow> Ok (PyException e)
      | Panic \<Rightarrow> Panic
      | Diverge \<Rightarrow> Diverge)"

record PyNotatinValueVersionsIterator =
  vv_index :: usize
  vv_versions :: "CellKeyValue list"

definition versions_iterator :: "'z env_py_scheme \<Rightarrow> PyNotatinValue \<Rightarrow> PyNotatinValueVersionsIterator py_result" where
  "versions_iterator N v =
     Py_new N ClassValueVersionsIterator \<lparr>vv_index = 0, vv_versions = kv_versions (pv_inner v)\<rparr>"

definition PyNotatinValue_versions :: "'z env_py_scheme \<Rightarrow> PyNotatinValue \<Rightarrow> PyNotatinValueVersionsIterator py_result" where
  "PyNotatinValue_versions N v = versions_iterator N v"

definition versions_next ::
  "'z env_py_scheme \<Rightarrow> PyNotatinValueVersionsIterator \<Rightarrow> ('e, py_object option \<times> PyNotatinValueVersionsIterator) outcome" where
  "versions_next N it =
     (case vec_get (vv_versions it) (vv_index it) of
        Some v \<Rightarrow>
          bindO (reg_value_to_pyobject N v) (\<lambda>obj. Ok (Some obj, it\<lparr>vv_index := vv_index it + 1\<rparr>))
      | None \<Rightarrow> Ok (None, it))"

definition versions_py_next ::
  "'z env_py_scheme \<Rightarrow> PyNotatinValueVersionsIterator \<Rightarrow> (py_object option \<times> PyNotatinValueVersionsIterator) py_result" where
  "versions_py_next N it = versions_next N it"

section \<open>Keys\<close>

definition PyNotatinKey_from_cell_key_node :: "'z env_py_scheme \<Rightarrow> CellKeyNode \<Rightarrow> PyNotatinKey py_result" where
  "PyNotatinKey_from_cell_key_node N k =
     bindO (date_to_pyobject N (last_key_written_date_and_time k)) (\<lambda>date.
     Py_new N ClassKey \<lparr>pk_inner = k, pk_last_key_written_date_and_time = date\<rparr>)"

text \<open>\<open>.ok()\<close> on the key made for the caller: an exception gives \<open>None\<close>.\<close>

definition key_made :: "'z env_py_scheme \<Rightarrow> CellKeyNode \<Rightarrow> ('e, PyNotatinKey option) outcome" where
  "key_made N k =
     (case PyNotatinKey_from_cell_key_node N k of
        Ok key \<Rightarrow> Ok (Some key)
      | Err _ \<Rightarrow> Ok None
      | Panic \<Rightarrow> Panic
      | Diverge \<Rightarrow> Diverge)"

definition reg_key_to_pyobject :: "'z env_py_scheme \<Rightarrow> CellKeyNode \<Rightarrow> ('e, py_object) outcome" where
  "reg_key_to_pyobject N k =
     (case PyNotatinKey_from_cell_key_node N k of
        Ok entry \<Rightarrow> Ok (PyKey entry)
      | Err e \<Rightarrow> Ok (PyException e)
      | Panic \<Rightarrow> Panic
      | Diverge \<Rightarrow> Diverge)"

record PyNotatinParser = pn_inner :: "Parser option"

record PyNotatinValuesIterator =
  vi_inner :: CellKeyNode
  vi_sub_values_iter_index :: usize

record PyNotatinSubKeysIterator =
  ski_index :: usize
  ski_sub_keys :: "CellKeyNode list"

definition reg_values_iterator :: "'z env_py_scheme \<Rightarrow> PyNotatinKey \<Rightarrow> PyNotatinValuesIterator py_result" where
  "reg_values_iterator N key =
     Py_new N ClassValuesIterator \<lparr>vi_inner = pk_inner key, vi_sub_values_iter_index = 0\<rparr>"

definition PyNotatinKey_values :: "'z env_py_scheme \<Rightarrow> PyNotatinKey \<Rightarrow> PyNotatinValuesIterator py_result" where
  "PyNotatinKey_values N key = reg_values_iterator N key"

definition PyNotatinKey_value :: "'z env_py_scheme \<Rightarrow> string \<Rightarrow> PyNotatinKey \<Rightarrow> ('e, PyNotatinValue option) outcome" where
  "PyNotatinKey_value N name key =
     (case get_value (pk_inner key) name of
        Some v \<Rightarrow>
          (case PyNotatinValue_from_cell_key_value N v of
             Ok entry \<Rightarrow> Ok (Some entry)
           | Err _ \<Rightarrow> Ok None
           | Panic \<Rightarrow> Panic
           | Diverge \<Rightarrow> Diverge)
      | None \<Rightarrow> Ok None)"

definition sub_keys_iterator ::
  "'z env_py_scheme \<Rightarrow> nat \<Rightarrow> PyNotatinParser \<Rightarrow> PyNotatinKey \<Rightarrow>
     (PyNotatinSubKeysIterator \<times> PyNotatinKey \<times> PyNotatinParser) py_result" where
  "sub_keys_iterator N fuel parser key =
     (let k = init_sub_key_iter (pk_inner key) in
      case pn_inner parser of
        Some p \<Rightarrow>
          bindO (infallible (read_sub_keys N fuel (p_file_info p) (p_state p) k)) (\<lambda>(sub_keys, k, st).
          bindO (Py_new N ClassSubKeysIterator \<lparr>ski_index = 0, ski_sub_keys = sub_keys\<rparr>) (\<lambda>it.
          Ok (it, key\<lparr>pk_inner := k\<rparr>, parser\<lparr>pn_inner := Some (p\<lparr>p_state := st\<rparr>)\<rparr>)))
      | None \<Rightarrow>
          bindO (Py_new N ClassSubKeysIterator \<lparr>ski_index = 0, ski_sub_keys = []\<rparr>) (\<lambda>it.
          Ok (it, key\<lparr>pk_inner := k\<rparr>, parser)))"

definition PyNotatinKey_subkeys ::
  "'z env_py_scheme \<Rightarrow> nat \<Rightarrow> PyNotatinParser \<Rightarrow> PyNotatinKey \<Rightarrow>
     (PyNotatinSubKeysIterator \<times> PyNotatinKey \<times> PyNotatinParser) py_result" where
  "PyNotatinKey_subkeys N fuel parser key = sub_keys_iterator N fuel parser key"

definition PyNotatinKey_find_key ::
  "'z env_py_scheme \<Rightarrow> nat \<Rightarrow> PyNotatinParser \<Rightarrow> string \<Rightarrow> PyNotatinKey \<Rightarrow>
     (PyNotatinKey option \<times> PyNotatinKey \<times> PyNotatinParser) py_result" where
  "PyNotatinKey_find_key N fuel parser path key =
     (case pn_inner parser of
        Some p \<Rightarrow>
          bindO (infallible (get_sub_key_by_path N fuel (p_file_info p) (p_state p) path (pk_inner key))) (\<lambda>(found, k, st).
          bindO (case found of Some f \<Rightarrow> key_made N f | None \<Rightarrow> Ok None) (\<lambda>r.
          Ok (r, key\<lparr>pk_inner := k\<rparr>, parser\<lparr>pn_inner := Some (p\<lparr>p_state := st\<rparr>)\<rparr>)))
      | None \<Rightarrow> Ok (None, key, parser))"

definition PyNotatinKey_name :: "PyNotatinKey \<Rightarrow> py_object" where
  "PyNotatinKey_name key = PyStr (kn_key_name (kn (pk_inner key)))"

definition PyNotatinKey_path :: "PyNotatinKey \<Rightarrow> py_object" where
  "PyNotatinKey_path key = PyStr (kn_path (kn (pk_inner key)))"

definition PyNotatinKey_pretty_path :: "PyNotatinKey \<Rightarrow> py_object py_result" where
  "PyNotatinKey_pretty_path key = bindO (infallible (get_pretty_path (pk_inner key))) (\<lambda>s. Ok (PyStr s))"

definition PyNotatinKey_number_of_sub_keys :: "PyNotatinKey \<Rightarrow> py_object" where
  "PyNotatinKey_number_of_sub_keys key =
     PyInt (uint (field_value (knd_number_of_sub_keys (kn_detail (kn (pk_inner key))))))"

definition PyNotatinKey_number_of_key_values :: "PyNotatinKey \<Rightarrow> py_object" where
  "PyNotatinKey_number_of_key_values key =
     PyInt (uint (field_value (knd_number_of_key_values (kn_detail (kn (pk_inner key))))))"

definition PyNotatinKey_py_iter :: "'z env_py_scheme \<Rightarrow> PyNotatinKey \<Rightarrow> PyNotatinValuesIterator py_result" where
  "PyNotatinKey_py_iter N key = PyNotatinKey_values N key"

definition PyNotatinKey_py_next :: "PyNotatinKey \<Rightarrow> (py_object option) py_result" where
  "PyNotatinKey_py_next key =
     Err (PyNotImplementedError ''Using `next()` over `PyNotatinKey` is not supported. Try iterating over `PyNotatinKey(...).values() or PyNotatinKey(...).sub_keys()`'')"

definition values_next ::
  "'z env_py_scheme \<Rightarrow> PyNotatinValuesIterator \<Rightarrow> ('e, py_object option \<times> PyNotatinValuesIterator) outcome" where
  "values_next N it =
     (case next_value (vi_inner it) (vi_sub_values_iter_index it) of
        Some (v, i) \<Rightarrow>
          bindO (reg_value_to_pyobject N v) (\<lambda>obj. Ok (Some obj, it\<lparr>vi_sub_values_iter_index := i\<rparr>))
      | None \<Rightarrow> Ok (None, it))"

definition values_py_next ::
  "'z env_py_scheme \<Rightarrow> PyNotatinValuesIterator \<Rightarrow> (py_object option \<times> PyNotatinValuesIterator) py_result" where
  "values_py_next N it = values_next N it"

definition sub_keys_next ::
  "'z env_py_scheme \<Rightarrow> PyNotatinSubKeysIterator \<Rightarrow> ('e, py_object option \<times> PyNotatinSubKeysIterator) outcome" where
  "sub_keys_next N it =
     (case vec_get (ski_sub_keys it) (ski_index it) of
        Some key \<Rightarrow>
          bindO (reg_key_to_pyobject N key) (\<lambda>obj. Ok (Some obj, it\<lparr>ski_index := ski_index it + 1\<rparr>))
      | None \<Rightarrow> Ok (None, it))"

definition sub_keys_py_next ::
  "'z env_py_scheme \<Rightarrow> PyNotatinSubKeysIterator \<Rightarrow> (py_object option \<times> PyNotatinSubKeysIterator) py_result" where
  "sub_keys_py_next N it = sub_keys_next N it"

section \<open>The parser\<close>

definition PyNotatinParser_new :: "'z env_py_scheme \<Rightarrow> nat \<Rightarrow> nat \<Rightarrow> py_ref \<Rightarrow> PyNotatinParser py_result" where
  "PyNotatinParser_new N depth fuel path_or_file_like =
     bindO (to_read_seek N path_or_file_like) (\<lambda>reader.
     bindO (map_err PyNotatinError (ParserBuilderFromFile_build N depth fuel (ParserBuilder_from_file reader))) (\<lambda>p.
     Ok \<lparr>pn_inner = Some p\<rparr>))"

definition key_for ::
  "'z env_py_scheme \<Rightarrow> (Parser \<Rightarrow> (CellKeyNode option \<times> Parser) result) \<Rightarrow> PyNotatinParser \<Rightarrow>
     (PyNotatinKey option \<times> PyNotatinParser) py_result" where
  "key_for N func parser =
     (case pn_inner parser of
        Some p \<Rightarrow>
          (case func p of
             Ok (Some key, p) \<Rightarrow>
               bindO (key_made N key) (\<lambda>r. Ok (r, parser\<lparr>pn_inner := Some p\<rparr>))
           | Ok (None, p) \<Rightarrow> Ok (None, parser\<lparr>pn_inner := Some p\<rparr>)
           | Err e \<Rightarrow> Err (PyRuntimeError (Error_to_string e))
           | Panic \<Rightarrow> Panic
           | Diverge \<Rightarrow> Diverge)
      | None \<Rightarrow> Ok (None, parser))"

definition PyNotatinParser_open ::
  "'z env_py_scheme \<Rightarrow> nat \<Rightarrow> string \<Rightarrow> PyNotatinParser \<Rightarrow> (PyNotatinKey option \<times> PyNotatinParser) py_result" where
  "PyNotatinParser_open N fuel path = key_for N (get_key N fuel path False)"

definition PyNotatinParser_root ::
  "'z env_py_scheme \<Rightarrow> nat \<Rightarrow> PyNotatinParser \<Rightarrow> (PyNotatinKey option \<times> PyNotatinParser) py_result" where
  "PyNotatinParser_root N fuel = key_for N (get_root_key N fuel)"

definition PyNotatinParser_get_parent ::
  "'z env_py_scheme \<Rightarrow> nat \<Rightarrow> PyNotatinKey \<Rightarrow> PyNotatinParser \<Rightarrow> (PyNotatinKey option \<times> PyNotatinParser) py_result" where
  "PyNotatinParser_get_parent N fuel key = key_for N (get_parent_key N fuel (pk_inner key))"

record PyNotatinKeysIterator =
  ki_inner :: Parser
  ki_iterator_context :: ParserIteratorContext

text \<open>The parser is taken out of its object, whatever becomes of the iterator.\<close>

definition reg_keys_iterator :: "'z env_py_scheme \<Rightarrow> PyNotatinParser \<Rightarrow> PyNotatinKeysIterator py_result \<times> PyNotatinParser" where
  "reg_keys_iterator N parser =
     (case pn_inner parser of
        Some p \<Rightarrow>
          (let iterator_context = ParserIteratorContext_from_parser p True None in
           (Py_new N ClassKeysIterator \<lparr>ki_inner = p, ki_iterator_context = iterator_context\<rparr>, parser\<lparr>pn_inner := None\<rparr>))
      | None \<Rightarrow> (Err (PyRuntimeError ''PyNotatinParser can only be used once''), parser\<lparr>pn_inner := None\<rparr>))"

definition PyNotatinParser_reg_keys :: "'z env_py_scheme \<Rightarrow> PyNotatinParser \<Rightarrow> PyNotatinKeysIterator py_result \<times> PyNotatinParser" where
  "PyNotatinParser_reg_keys N parser = reg_keys_iterator N parser"

definition PyNotatinParser_py_iter :: "'z env_py_scheme \<Rightarrow> PyNotatinParser \<Rightarrow> PyNotatinKeysIterator py_result \<times> PyNotatinParser" where
  "PyNotatinParser_py_iter N parser = PyNotatinParser_reg_keys N parser"

definition PyNotatinParser_py_next :: "PyNotatinParser \<Rightarrow> (py_object option) py_result" where
  "PyNotatinParser_py_next parser =
     Err (PyNotImplementedError ''Using `next()` over `PyNotatinParser` is not supported. Try iterating over `PyNotatinParser(...).reg_keys()`'')"

definition keys_next ::
  "'z env_py_scheme \<Rightarrow> nat \<Rightarrow> nat \<Rightarrow> PyNotatinKeysIterator \<Rightarrow> ('e, py_object option \<times> PyNotatinKeysIterator) outcome" where
  "keys_next N depth fuel it =
     bindO (infallible (next_key_preorder N depth fuel (p_file_info (ki_inner it)) (ki_iterator_context it))) (\<lambda>(key, ctx).
       case key of
         Some k \<Rightarrow> bindO (reg_key_to_pyobject N k) (\<lambda>obj. Ok (Some obj, it\<lparr>ki_iterator_context := ctx\<rparr>))
       | None \<Rightarrow> Ok (None, it\<lparr>ki_iterator_context := ctx\<rparr>))"

definition keys_py_next ::
  "'z env_py_scheme \<Rightarrow> nat \<Rightarrow> nat \<Rightarrow> PyNotatinKeysIterator \<Rightarrow> (py_object option \<times> PyNotatinKeysIterator) py_result" where
  "keys_py_next N depth fuel it = keys_next N depth fuel it"

section \<open>The builder and the module\<close>

record PyNotatinParserBuilder =
  pnb_primary_file :: py_ref
  pnb_recover_deleted :: bool
  pnb_transaction_logs :: "py_ref list"

definition PyNotatinParserBuilder_new :: "py_ref \<Rightarrow> PyNotatinParserBuilder py_result" where
  "PyNotatinParserBuilder_new path_or_file_like =
     Ok \<lparr>pnb_primary_file = path_or_file_like, pnb_recover_deleted = False, pnb_transaction_logs = []\<rparr>"

definition PyNotatinParserBuilder_recover_deleted :: "bool \<Rightarrow> PyNotatinParserBuilder \<Rightarrow> PyNotatinParserBuilder" where
  "PyNotatinParserBuilder_recover_deleted recover b = b\<lparr>pnb_recover_deleted := recover\<rparr>"

definition PyNotatinParserBuilder_with_transaction_log :: "py_ref \<Rightarrow> PyNotatinParserBuilder \<Rightarrow> PyNotatinParserBuilder" where
  "PyNotatinParserBuilder_with_transaction_log log b = b\<lparr>pnb_transaction_logs := pnb_transaction_logs b @ [log]\<rparr>"

primrec add_transaction_logs ::
  "'z env_py_scheme \<Rightarrow> py_ref list \<Rightarrow> ParserBuilderFromFile \<Rightarrow> ParserBuilderFromFile py_result" where
  "add_transaction_logs N [] builder = Ok builder"
| "add_transaction_logs N (log # logs) builder =
     bindO (to_read_seek N log) (\<lambda>reader. add_transaction_logs N logs (pf_with_transaction_log reader builder))"

definition PyNotatinParserBuilder_build ::
  "'z env_py_scheme \<Rightarrow> nat \<Rightarrow> nat \<Rightarrow> PyNotatinParserBuilder \<Rightarrow> PyNotatinParser py_result" where
  "PyNotatinParserBuilder_build N depth fuel b =
     bindO (to_read_seek N (pnb_primary_file b)) (\<lambda>reader.
     bindO (add_transaction_logs N (pnb_transaction_logs b)
              (pf_recover_deleted (pnb_recover_deleted b) (ParserBuilder_from_file reader))) (\<lambda>builder.
     bindO (map_err PyNotatinError (ParserBuilderFromFile_build N depth fuel builder)) (\<lambda>p.
     Ok \<lparr>pn_inner = Some p\<rparr>)))"

text \<open>The classes of the module when all could be added; the logger is set first, as far as it can be.\<close>

primrec add_classes :: "'z env_py_scheme \<Rightarrow> py_class list \<Rightarrow> py_class list \<Rightarrow> py_class list py_result" where
  "add_classes N [] m = Ok m"
| "add_classes N (c # cs) m = (case py_add_class N c of Some e \<Rightarrow> Err e | None \<Rightarrow> add_classes N cs (m @ [c]))"

definition notatin_module :: "'z env_py_scheme \<Rightarrow> (py_class list \<times> (PyLogger \<times> log_level) option) py_result" where
  "notatin_module N =
     (case init_logging N of
        Panic \<Rightarrow> Panic
      | Diverge \<Rightarrow> Diverge
      | r \<Rightarrow>
          bindO (add_classes N
                   [ClassParserBuilder, ClassParser, ClassKey, ClassValue, ClassContent, ClassDecodeFormat] []) (\<lambda>classes.
          Ok (classes, case r of Ok lg \<Rightarrow> Some lg | _ \<Rightarrow> None)))"

end
