(* ===== verification/Output.thy ===== *)
theory Output
  imports Apply_Logs
begin

text \<open>
  What the programs under \<open>src/bin\<close> share when they write what a parser has found: lines that go to a
  buffered file, the printed forms of dates and contents, and a loop over the keys of a parser whose
  body can fail.  The locale \<open>reliable_output\<close> says that no write fails and that dates and
  flags are printed without the characters that structure a file.
\<close>

section \<open>What the libraries give\<close>

text \<open>
  The formats of \<open>chrono\<close>, the derived \<open>Debug\<close> of flags, contents and lists of strings, and the file
  behind a writer: the message of the error, if there is one, when a text is written behind what the
  file already has.
\<close>

record env_out = env_apply +
  io_write_error :: "string \<Rightarrow> string \<Rightarrow> string option"
  chrono_format :: "string \<Rightarrow> DateTime \<Rightarrow> string"
  chrono_rfc3339_nanos :: "DateTime \<Rightarrow> string"
  fmt_key_node_flags :: "u16 \<Rightarrow> string"
  fmt_access_flags :: "u32 \<Rightarrow> string"
  fmt_cell_value_debug :: "CellValue \<Rightarrow> string"
  fmt_strings_debug :: "string list \<Rightarrow> string"

section \<open>Lines\<close>

definition newline :: char where "newline = CHR 10"

definition tab :: char where "tab = CHR 9"

definition write_str :: "'z env_out_scheme \<Rightarrow> string \<Rightarrow> string \<Rightarrow> string result" where
  "write_str N s out =
     (case io_write_error N out s of
        None \<Rightarrow> Ok (out @ s)
      | Some io_error \<Rightarrow> Err (Error_from_io io_error))"

definition writeln :: "'z env_out_scheme \<Rightarrow> string \<Rightarrow> string \<Rightarrow> string result" where
  "writeln N s = write_str N (s @ [newline])"

primrec writelns :: "'z env_out_scheme \<Rightarrow> string list \<Rightarrow> string \<Rightarrow> string result" where
  "writelns N [] out = Ok out"
| "writelns N (s # ss) out = bindO (writeln N s out) (writelns N ss)"

text \<open>The lines of a text, as its writer meant them.\<close>

definition unlines :: "string list \<Rightarrow> string" where
  "unlines ls = concat (map (\<lambda>s. s @ [newline]) ls)"

lemma unlines_simps [simp]:
  "unlines [] = []" "unlines (s # ss) = s @ newline # unlines ss" "unlines (ss @ ts) = unlines ss @ unlines ts"
  by (simp_all add: unlines_def)

text \<open>A reader: the text between the newlines, with what follows the last one.\<close>

lemma split_unlines:
  "\<forall>s\<in>set ls. newline \<notin> set s \<Longrightarrow> split_char newline (unlines ls @ t) = ls @ split_char newline t"
  by (induction ls) (simp_all add: split_char_append)

section \<open>Characters\<close>

text \<open>The characters of a string, each as its bytes, and the code point of a character.\<close>

definition is_continuation :: "char \<Rightarrow> bool" where
  "is_continuation c \<longleftrightarrow> 0x80 \<le> (of_char c :: nat) \<and> (of_char c :: nat) < 0xC0"

function str_chars :: "string \<Rightarrow> string list" where
  "str_chars [] = []"
| "str_chars (c # s) = (c # takeWhile is_continuation s) # str_chars (dropWhile is_continuation s)"
  by pat_completeness auto
termination
  by (relation "measure length") (simp_all add: less_Suc_eq_le length_dropWhile_le)

fun code_point :: "string \<Rightarrow> nat" where
  "code_point [a] = of_char a"
| "code_point [a, b] = (of_char a - 0xC0) * 64 + (of_char b - 0x80)"
| "code_point [a, b, c] = (of_char a - 0xE0) * 4096 + (of_char b - 0x80) * 64 + (of_char c - 0x80)"
| "code_point (a # b # c # d # _) =
     (of_char a - 0xF0) * 262144 + (of_char b - 0x80) * 4096 + (of_char c - 0x80) * 64 + (of_char d - 0x80)"
| "code_point [] = 0"

lemma concat_str_chars [simp]: "concat (str_chars s) = s"
  by (induction s rule: str_chars.induct) simp_all

lemma str_chars_Nil [simp]: "str_chars s = [] \<longleftrightarrow> s = []"
  by (cases s) simp_all

section \<open>Printed forms\<close>

text \<open>
  The fraction of a second is cut to seven digits when the other two are zeros; a byte of the string
  that is a digit is never inside a character.
\<close>

definition format_date_time :: "'z env_out_scheme \<Rightarrow> DateTime \<Rightarrow> string" where
  "format_date_time N date_time =
     (let fractional_seconds = chrono_format N ''%9f'' date_time in
      if length fractional_seconds = 9 \<and> fractional_seconds ! 8 = CHR ''0'' \<and> fractional_seconds ! 7 = CHR ''0''
      then chrono_format N ''%Y-%m-%dT%H:%M:%S'' date_time @ ''.'' @ take 7 fractional_seconds @ ''Z''
      else chrono_rfc3339_nanos N date_time)"

definition show_int :: "int \<Rightarrow> string" where
  "show_int i = (if i < 0 then CHR ''-'' # show_nat (nat (- i)) else show_nat (nat i))"

fun CellValue_display :: "'z env_out_scheme \<Rightarrow> CellValue \<Rightarrow> string" where
  "CellValue_display N (CV_Binary v) = to_hex_string v"
| "CellValue_display N (CV_String v) = v"
| "CellValue_display N (CV_MultiString v) = fmt_strings_debug N v"
| "CellValue_display N (CV_U32 v) = show_nat (unat v)"
| "CellValue_display N (CV_I32 v) = show_int (sint v)"
| "CellValue_display N (CV_U64 v) = show_nat (unat v)"
| "CellValue_display N (CV_I64 v) = show_int (sint v)"
| "CellValue_display N CV_None = []"
| "CellValue_display N CV_Error = []"

fun CellState_debug :: "CellState \<Rightarrow> string" where
  "CellState_debug DeletedTransactionLog = ''DeletedTransactionLog''"
| "CellState_debug DeletedPrimaryFile = ''DeletedPrimaryFile''"
| "CellState_debug DeletedPrimaryFileSlack = ''DeletedPrimaryFileSlack''"
| "CellState_debug Allocated = ''Allocated''"
| "CellState_debug ModifiedTransactionLog = ''ModifiedTransactionLog''"

text \<open>The content of a value can always be had.\<close>

lemma get_content_total: "\<exists>content warnings. CellKeyValue_get_content v = Ok (content, warnings)"
proof -
  obtain c l where "get_value_content (kv_data_type (kv v)) (field_value (kvd_value_bytes (kv_detail (kv v)))) Logs_default = Ok (c, l)"
    using get_value_content_total by blast
  then show ?thesis by (simp add: CellKeyValue_get_content_def)
qed

section \<open>Loops over the keys of a parser\<close>

text \<open>A \<open>for\<close> loop over an iterator whose body hands on a state and may end the loop with an error.\<close>

primrec for_iter ::
  "(nat \<Rightarrow> 's \<Rightarrow> ('k option \<times> 's) result) \<Rightarrow> nat \<Rightarrow> 's \<Rightarrow> ('k \<Rightarrow> 'a \<Rightarrow> 'a result) \<Rightarrow> 'a \<Rightarrow> 'a result" where
  "for_iter nxt 0 s body a = Diverge"
| "for_iter nxt (Suc fuel) s body a =
     bindO (nxt (Suc fuel) s) (\<lambda>(item, s).
       case item of
         None \<Rightarrow> Ok a
       | Some k \<Rightarrow> bindO (body k a) (for_iter nxt fuel s body))"

primrec foldO :: "('k \<Rightarrow> 'a \<Rightarrow> ('e, 'a) outcome) \<Rightarrow> 'k list \<Rightarrow> 'a \<Rightarrow> ('e, 'a) outcome" where
  "foldO body [] a = Ok a"
| "foldO body (k # ks) a = bindO (body k a) (foldO body ks)"

definition new_iter :: "Parser \<Rightarrow> Filter option \<Rightarrow> ParserIterator" where
  "new_iter p flt =
     (case flt of
        Some f \<Rightarrow> ParserIterator_with_filter f (ParserIterator_new p)
      | None \<Rightarrow> ParserIterator_new p)"

definition for_keys ::
  "'z env_list_scheme \<Rightarrow> nat \<Rightarrow> nat \<Rightarrow> ParserIterator \<Rightarrow> (CellKeyNode \<Rightarrow> 'a \<Rightarrow> 'a result) \<Rightarrow> 'a \<Rightarrow> 'a result" where
  "for_keys N depth = for_iter (ParserIterator_next N depth)"

lemma for_iter_collect:
  "collect_iter nxt fuel s = Ok ks \<Longrightarrow> for_iter nxt fuel s body a = foldO body ks a"
proof (induction fuel arbitrary: s ks a)
  case 0
  then show ?case by simp
next
  case (Suc fuel)
  from Suc.prems obtain item s' where n: "nxt (Suc fuel) s = Ok (item, s')"
    by (auto simp: bindO_eq_Ok)
  show ?case
  proof (cases item)
    case None
    with Suc.prems n show ?thesis by simp
  next
    case (Some k)
    with Suc.prems n obtain ks' where ks: "collect_iter nxt fuel s' = Ok ks'" "ks = k # ks'"
      by (auto simp: bindO_eq_Ok)
    have "for_iter nxt fuel s' body = foldO body ks'" using Suc.IH [OF ks(1)] by blast
    with n Some ks show ?thesis by simp
  qed
qed

text \<open>A loop over the keys is a fold over the keys that the iteration returns.\<close>

lemma for_keys_fold:
  "iter_all N depth fuel it = Ok keys \<Longrightarrow> for_keys N depth fuel it body a = foldO body keys a"
  by (simp add: iter_all_def for_keys_def for_iter_collect)

lemma foldO_append: "foldO f (xs @ ys) a = bindO (foldO f xs a) (foldO f ys)"
  by (induction xs arbitrary: a) (auto simp: bindO_assoc intro: bindO_cong)

lemma foldO_Ok: "(\<And>x a. x \<in> set xs \<Longrightarrow> f x a = Ok (g x a)) \<Longrightarrow> foldO f xs a = Ok (fold g xs a)"
  by (induction xs arbitrary: a) auto

lemma foldO_concat: "foldO (\<lambda>x. foldO f (g x)) xs a = foldO f (concat (map g xs)) a"
  by (induction xs arbitrary: a) (auto simp: foldO_append intro: bindO_cong)

text \<open>What the recursion over the versions of a key needs.\<close>

lemma foldO_cong [fundef_cong]:
  "xs = ys \<Longrightarrow> a = b \<Longrightarrow> (\<And>x a. x \<in> set ys \<Longrightarrow> f x a = g x a) \<Longrightarrow> foldO f xs a = foldO g ys b"
  by (induction ys arbitrary: xs a b) (auto intro: bindO_cong)

lemma size_version [termination_simp]: "v \<in> set (kn_versions k) \<Longrightarrow> size v < size k"
  by (cases k) (auto simp: less_Suc_eq_le dest: size_list_estimation' [of _ _ _ size, OF _ order_refl])

section \<open>Output that does not fail\<close>

locale reliable_output =
  fixes N :: "'z env_out_scheme"
  assumes no_write_error: "io_write_error N out s = None"
    and chrono_plain: "set (chrono_format N fmt d) \<inter> {CHR 9, CHR 10, CHR 0x22, CHR 0x2C} = {}"
    and rfc3339_plain: "set (chrono_rfc3339_nanos N d) \<inter> {CHR 9, CHR 10, CHR 0x22, CHR 0x2C} = {}"
    and key_flags_plain: "set (fmt_key_node_flags N f) \<inter> {CHR 9, CHR 10, CHR 0x22, CHR 0x2C} = {}"
    and access_flags_plain: "set (fmt_access_flags N a) \<inter> {CHR 9, CHR 10, CHR 0x22, CHR 0x2C} = {}"
begin

lemma write_str_Ok [simp]: "write_str N s out = Ok (out @ s)"
  by (simp add: write_str_def no_write_error)

lemma writeln_Ok [simp]: "writeln N s out = Ok (out @ s @ [newline])"
  by (simp add: writeln_def)

lemma writelns_Ok [simp]: "writelns N ss out = Ok (out @ unlines ss)"
  by (induction ss arbitrary: out) simp_all

lemma date_plain: "set (format_date_time N d) \<inter> {CHR 9, CHR 10, CHR 0x22, CHR 0x2C} = {}"
  using chrono_plain [of "''%9f''" d] chrono_plain [of "''%Y-%m-%dT%H:%M:%S''" d] rfc3339_plain [of d]
  by (auto simp: format_date_time_def Let_def dest: in_set_takeD)

end

section \<open>Reading back a printed number\<close>

definition digit_value :: "char \<Rightarrow> nat" where
  "digit_value c = of_char c - 48"

definition read_nat :: "string \<Rightarrow> nat" where
  "read_nat s = foldl (\<lambda>n c. 10 * n + digit_value c) 0 s"

definition is_digit :: "char \<Rightarrow> bool" where
  "is_digit c \<longleftrightarrow> 48 \<le> (of_char c :: nat) \<and> (of_char c :: nat) < 58"

lemma digit_char_simps [simp]:
  "d < 10 \<Longrightarrow> digit_value (digit_char d) = d" "d < 10 \<Longrightarrow> is_digit (digit_char d)"
  by (simp_all add: digit_value_def digit_char_def is_digit_def)

lemma read_show_nat [simp]: "read_nat (show_nat n) = n"
proof (induction n rule: less_induct)
  case (less n)
  show ?case
  proof (cases "n < 10")
    case True
    then show ?thesis by (simp add: show_nat.simps [of n] read_nat_def)
  next
    case False
    then have "read_nat (show_nat (n div 10)) = n div 10" by (intro less.IH) simp
    with False show ?thesis by (simp add: show_nat.simps [of n] read_nat_def)
  qed
qed

lemma show_nat_digits: "list_all is_digit (show_nat n)"
proof (induction n rule: less_induct)
  case (less n)
  show ?case
  proof (cases "n < 10")
    case True
    then show ?thesis by (simp add: show_nat.simps [of n])
  next
    case False
    then have "list_all is_digit (show_nat (n div 10))" by (intro less.IH) simp
    with False show ?thesis by (simp add: show_nat.simps [of n])
  qed
qed

lemma show_nat_nonempty [simp]: "show_nat n \<noteq> []"
  by (simp add: show_nat.simps [of n])

lemma show_nat_plain: "\<not> is_digit c \<Longrightarrow> c \<notin> set (show_nat n)"
  using show_nat_digits [of n] by (auto simp: list_all_iff)

end
