(* ===== verification/Reg_Compare.thy ===== *)
theory Reg_Compare
  imports Output
begin

text \<open>
  The program that compares two hives (\<open>src/bin/reg_compare.rs\<close>): the items of the base hive are put
  into a map with their hashes, the items of the other hive are looked up and removed there, and what
  is left at the end was deleted; the differences are written as a text or as a unified diff.  The walk
  through folders is in \<open>Cli_Tools\<close>; the progress shown on the console is not part of the model.
\<close>

section \<open>What the libraries give\<close>

text \<open>
  The file system (what opening a path gives, and the error of creating a file), the \<open>Debug\<close> of paths
  and strings in the names of the files, and the order in which a \<open>HashMap\<close> is consumed.  A path is
  its text.
\<close>

type_synonym compare_key = "string \<times> string option"
type_synonym original_map = "(compare_key \<times> Hash option) list"

record env_compare = env_out +
  fs_open :: "string \<Rightarrow> path_source"
  fs_create_error :: "string \<Rightarrow> string option"
  fmt_str_debug :: "string \<Rightarrow> string"
  fmt_path_debug :: "string \<Rightarrow> string"
  fmt_paths_debug :: "string list \<Rightarrow> string"
  original_map_iter :: "original_map \<Rightarrow> original_map"

definition hm_insert :: "'k \<Rightarrow> 'v \<Rightarrow> ('k \<times> 'v) list \<Rightarrow> ('k \<times> 'v) list" where
  "hm_insert key v m = (key, v) # filter (\<lambda>e. fst e \<noteq> key) m"

definition hm_remove :: "'k \<Rightarrow> ('k \<times> 'v) list \<Rightarrow> 'v option \<times> ('k \<times> 'v) list" where
  "hm_remove key m = (map_of m key, filter (\<lambda>e. fst e \<noteq> key) m)"

section \<open>The comparison\<close>

definition get_parser ::
  "'z env_compare_scheme \<Rightarrow> nat \<Rightarrow> nat \<Rightarrow> string \<Rightarrow> string list option \<Rightarrow> Parser result" where
  "get_parser N depth fuel primary logs =
     ParserBuilderFromPath_build N depth fuel
       (fold (\<lambda>log. pp_with_transaction_log (fs_open N log)) (vec_or_default logs)
          (ParserBuilder_from_path (fs_open N primary)))"

text \<open>The entries of a key of the base hive in the map.\<close>

definition insert_items :: "CellKeyNode \<Rightarrow> original_map \<Rightarrow> original_map" where
  "insert_items key m =
     (let path = kn_path (kn key) in
      foldl (\<lambda>m v. hm_insert (path, Some (value_name_of v)) (kv_hash (kv v)) m)
        (hm_insert (path, None) (kn_hash (kn key)) m) (value_iter_from key 0))"

record comparison =
  cmp_map :: original_map
  cmp_parser1 :: Parser
  keys_added :: "CellKeyNode list"
  keys_modified :: "(CellKeyNode \<times> CellKeyNode) list"
  values_added :: "(string \<times> CellKeyValue) list"
  values_modified :: "(string \<times> CellKeyValue \<times> CellKeyValue) list"

text \<open>\<open>parser1.get_key(path, true).unwrap().unwrap()\<close>, and \<open>get_value(name).unwrap()\<close> of the key.\<close>

definition original_key ::
  "'z env_list_scheme \<Rightarrow> nat \<Rightarrow> string \<Rightarrow> Parser \<Rightarrow> (CellKeyNode \<times> Parser) result" where
  "original_key N depth path p =
     (case get_key N depth path True p of
        Ok (Some key, p) \<Rightarrow> Ok (key, p)
      | Ok (None, p) \<Rightarrow> Panic
      | Err _ \<Rightarrow> Panic
      | Panic \<Rightarrow> Panic
      | Diverge \<Rightarrow> Diverge)"

definition original_value ::
  "'z env_list_scheme \<Rightarrow> nat \<Rightarrow> string \<Rightarrow> string \<Rightarrow> Parser \<Rightarrow> ((CellKeyNode \<times> CellKeyValue) \<times> Parser) result" where
  "original_value N depth path name p =
     bindO (original_key N depth path p) (\<lambda>(key, p).
       case get_value key name of Some v \<Rightarrow> Ok ((key, v), p) | None \<Rightarrow> Panic)"

definition compare_value ::
  "'z env_list_scheme \<Rightarrow> nat \<Rightarrow> CellKeyNode \<Rightarrow> CellKeyValue \<Rightarrow> comparison \<Rightarrow> comparison result" where
  "compare_value N depth key v c =
     (let path = kn_path (kn key); name = value_name_of v;
          (found, m) = hm_remove (path, Some name) (cmp_map c);
          c = c\<lparr>cmp_map := m\<rparr> in
      case found of
        Some val \<Rightarrow>
          if val \<noteq> kv_hash (kv v) then
            bindO (original_value N depth path name (cmp_parser1 c)) (\<lambda>((_, original), p).
            Ok (c\<lparr>cmp_parser1 := p, values_modified := values_modified c @ [(path, original, v)]\<rparr>))
          else Ok c
      | None \<Rightarrow> Ok (c\<lparr>values_added := values_added c @ [(path, v)]\<rparr>))"

definition compare_key_itself ::
  "'z env_list_scheme \<Rightarrow> nat \<Rightarrow> CellKeyNode \<Rightarrow> comparison \<Rightarrow> comparison result" where
  "compare_key_itself N depth key c =
     (let path = kn_path (kn key);
          (found, m) = hm_remove (path, None) (cmp_map c);
          c = c\<lparr>cmp_map := m\<rparr> in
      case found of
        Some val \<Rightarrow>
          if val \<noteq> kn_hash (kn key) then
            bindO (original_key N depth path (cmp_parser1 c)) (\<lambda>(original, p).
            Ok (c\<lparr>cmp_parser1 := p, keys_modified := keys_modified c @ [(original, key)]\<rparr>))
          else Ok c
      | None \<Rightarrow> Ok (c\<lparr>keys_added := keys_added c @ [key]\<rparr>))"

definition compare_key ::
  "'z env_list_scheme \<Rightarrow> nat \<Rightarrow> CellKeyNode \<Rightarrow> comparison \<Rightarrow> comparison result" where
  "compare_key N depth key c =
     bindO (compare_key_itself N depth key c) (foldO (compare_value N depth key) (value_iter_from key 0))"

text \<open>What is left in the map.\<close>

record deletions =
  del_parser1 :: Parser
  keys_deleted :: "CellKeyNode list"
  values_deleted :: "(string \<times> CellKeyValue) list"

definition compare_deleted ::
  "'z env_list_scheme \<Rightarrow> nat \<Rightarrow> compare_key \<times> Hash option \<Rightarrow> deletions \<Rightarrow> deletions result" where
  "compare_deleted N depth remaining d =
     (case snd (fst remaining) of
        None \<Rightarrow>
          bindO (original_key N depth (fst (fst remaining)) (del_parser1 d)) (\<lambda>(original, p).
          Ok (d\<lparr>del_parser1 := p, keys_deleted := keys_deleted d @ [original]\<rparr>))
      | Some val \<Rightarrow>
          bindO (original_value N depth (fst (fst remaining)) val (del_parser1 d)) (\<lambda>((key, original), p).
          Ok (d\<lparr>del_parser1 := p, values_deleted := values_deleted d @ [(kn_path (kn key), original)]\<rparr>)))"

text \<open>The two loops over the hives and the one over what is left; the counts are those of the progress.\<close>

definition compare_parsers ::
  "'z env_compare_scheme \<Rightarrow> nat \<Rightarrow> nat \<Rightarrow> Filter option \<Rightarrow> Parser \<Rightarrow> Parser result \<Rightarrow> (comparison \<times> deletions) result" where
  "compare_parsers N depth fuel flt parser1 get_parser2 =
     bindO (count_all_keys_and_values N depth fuel parser1 flt) (\<lambda>_.
     bindO (for_keys N depth fuel (new_iter parser1 flt) (\<lambda>key m. Ok (insert_items key m)) []) (\<lambda>m.
     bindO get_parser2 (\<lambda>parser2.
     bindO (count_all_keys_and_values N depth fuel parser2 flt) (\<lambda>_.
     bindO (for_keys N depth fuel (new_iter parser2 flt) (compare_key N depth)
       \<lparr>cmp_map = m, cmp_parser1 = parser1, keys_added = [], keys_modified = [], values_added = [],
        values_modified = []\<rparr>) (\<lambda>c.
     bindO (foldO (compare_deleted N depth) (original_map_iter N (cmp_map c))
       \<lparr>del_parser1 = cmp_parser1 c, keys_deleted = [], values_deleted = []\<rparr>) (\<lambda>d.
     Ok (c, d)))))))"

section \<open>The printed items\<close>

definition format_value :: "'z env_out_scheme \<Rightarrow> string \<Rightarrow> CellKeyValue \<Rightarrow> string result" where
  "format_value N path v =
     bindO (CellKeyValue_get_content v) (\<lambda>(content, _).
     Ok (path @ tab # CellKeyValue_get_pretty_name v @ tab # fmt_cell_value_debug N content))"

definition format_key :: "'z env_out_scheme \<Rightarrow> CellKeyNode \<Rightarrow> string" where
  "format_key N k =
     (let (flags, logs) = key_node_flags k Logs_default;
          (acc, _) = access_flags k logs in
      kn_path (kn k) @ tab # format_date_time N (last_key_written_date_and_time k) @ tab #
        fmt_key_node_flags N flags @ tab # fmt_access_flags N acc)"

section \<open>The text\<close>

definition dashes :: string where "dashes = replicate 34 (CHR ''-'')"

text \<open>The items come from two lazy iterators: each item is printed when its turn comes.\<close>

definition write_item ::
  "'z env_out_scheme \<Rightarrow> string result \<Rightarrow> string \<Rightarrow> string result" where
  "write_item N item out = bindO item (\<lambda>s. writeln N s out)"

definition write_both ::
  "'z env_out_scheme \<Rightarrow> string result \<Rightarrow> string result \<Rightarrow> string \<Rightarrow> string result" where
  "write_both N removed added out =
     bindO removed (\<lambda>r. bindO added (\<lambda>a. bindO (writeln N r out) (writeln N a)))"

fun write_zip_longest ::
  "'z env_out_scheme \<Rightarrow> string result list \<Rightarrow> string result list \<Rightarrow> string \<Rightarrow> string result" where
  "write_zip_longest N (removed # rs) (added # as) out =
     bindO (write_both N removed added out) (write_zip_longest N rs as)"
| "write_zip_longest N (removed # rs) [] out = bindO (write_item N removed out) (write_zip_longest N rs [])"
| "write_zip_longest N [] (added # as) out = bindO (write_item N added out) (write_zip_longest N [] as)"
| "write_zip_longest N [] [] out = Ok out"

definition write_text_section ::
  "'z env_out_scheme \<Rightarrow> string \<Rightarrow> string result list \<Rightarrow> string result list \<Rightarrow> usize \<Rightarrow> string \<Rightarrow> string result" where
  "write_text_section N header removed added len out =
     bindO (writeln N (newline # dashes @ newline # header @ '': '' @ show_nat len @ newline # dashes) out)
       (write_zip_longest N removed added)"

text \<open>The six lists that are printed.\<close>

record differences =
  d_keys_deleted :: "CellKeyNode list"
  d_keys_added :: "CellKeyNode list"
  d_keys_modified :: "(CellKeyNode \<times> CellKeyNode) list"
  d_values_deleted :: "(string \<times> CellKeyValue) list"
  d_values_added :: "(string \<times> CellKeyValue) list"
  d_values_modified :: "(string \<times> CellKeyValue \<times> CellKeyValue) list"

definition total_changes :: "differences \<Rightarrow> usize" where
  "total_changes d = length (d_keys_deleted d) + length (d_keys_added d) + length (d_keys_modified d) +
     length (d_values_deleted d) + length (d_values_added d) + length (d_values_modified d)"

definition write_text ::
  "'z env_out_scheme \<Rightarrow> string \<Rightarrow> string \<Rightarrow> differences \<Rightarrow> string \<Rightarrow> string result" where
  "write_text N base_filenames comparison_filenames d out =
     bindO (writeln N (''Base: '' @ base_filenames @ '' '') out) (\<lambda>out.
     bindO (writeln N (''Comparison: '' @ comparison_filenames) out) (\<lambda>out.
     bindO (write_text_section N ''Keys deleted'' (map (\<lambda>k. Ok (format_key N k)) (d_keys_deleted d)) []
              (length (d_keys_deleted d)) out) (\<lambda>out.
     bindO (write_text_section N ''Keys added'' [] (map (\<lambda>k. Ok (format_key N k)) (d_keys_added d))
              (length (d_keys_added d)) out) (\<lambda>out.
     bindO (write_text_section N ''Keys modified'' (map (\<lambda>k. Ok (format_key N (fst k))) (d_keys_modified d))
              (map (\<lambda>k. Ok (format_key N (snd k))) (d_keys_modified d)) (length (d_keys_modified d)) out) (\<lambda>out.
     bindO (write_text_section N ''Values deleted'' (map (\<lambda>v. format_value N (fst v) (snd v)) (d_values_deleted d)) []
              (length (d_values_deleted d)) out) (\<lambda>out.
     bindO (write_text_section N ''Values added'' [] (map (\<lambda>v. format_value N (fst v) (snd v)) (d_values_added d))
              (length (d_values_added d)) out) (\<lambda>out.
     bindO (write_text_section N ''Values modified''
              (map (\<lambda>v. format_value N (fst v) (fst (snd v))) (d_values_modified d))
              (map (\<lambda>v. format_value N (fst v) (snd (snd v))) (d_values_modified d))
              (length (d_values_modified d)) out) (\<lambda>out.
     writeln N (newline # dashes @ newline # ''Total changes: '' @ show_nat (total_changes d) @ newline # dashes) out))))))))"

section \<open>The unified diff\<close>

definition hunk_header :: "usize \<Rightarrow> usize \<Rightarrow> usize \<Rightarrow> usize \<Rightarrow> string" where
  "hunk_header lline llen rline rlen =
     ''@@ -'' @ show_nat lline @ '','' @ show_nat llen @ '' +'' @ show_nat rline @ '','' @ show_nat rlen @ '' @@''"

definition write_signed :: "'z env_out_scheme \<Rightarrow> char \<Rightarrow> string result \<Rightarrow> string \<Rightarrow> string result" where
  "write_signed N sign item out = bindO item (\<lambda>s. writeln N (sign # s) out)"

definition write_diff_section ::
  "'z env_out_scheme \<Rightarrow> usize \<Rightarrow> string result list \<Rightarrow> usize \<Rightarrow> usize \<Rightarrow> string result list \<Rightarrow> usize \<Rightarrow> string \<Rightarrow>
     ((usize \<times> usize) \<times> string) result" where
  "write_diff_section N lline left llen rline right rlen out =
     (if llen > 0 \<or> rlen > 0 then
        bindO (writeln N (hunk_header lline llen rline rlen) out) (\<lambda>out.
        bindO (usize_add (overflow_checks N) lline llen) (\<lambda>lline.
        bindO (usize_add (overflow_checks N) rline rlen) (\<lambda>rline.
        bindO (foldO (write_signed N (CHR ''-'')) left out) (\<lambda>out.
        bindO (foldO (write_signed N (CHR ''+'')) right out) (\<lambda>out.
        Ok ((lline, rline), out))))))
      else Ok ((lline, rline), out))"

definition write_diff_k_del ::
  "'z env_out_scheme \<Rightarrow> usize \<Rightarrow> usize \<Rightarrow> CellKeyNode list \<Rightarrow> string \<Rightarrow> ((usize \<times> usize) \<times> string) result" where
  "write_diff_k_del N lline rline ks =
     write_diff_section N lline (map (\<lambda>k. Ok (format_key N k)) ks) (length ks) rline [] 0"

definition write_diff_k_add ::
  "'z env_out_scheme \<Rightarrow> usize \<Rightarrow> usize \<Rightarrow> CellKeyNode list \<Rightarrow> string \<Rightarrow> ((usize \<times> usize) \<times> string) result" where
  "write_diff_k_add N lline rline ks =
     write_diff_section N lline [] 0 rline (map (\<lambda>k. Ok (format_key N k)) ks) (length ks)"

definition write_diff_k_mod ::
  "'z env_out_scheme \<Rightarrow> usize \<Rightarrow> usize \<Rightarrow> (CellKeyNode \<times> CellKeyNode) list \<Rightarrow> string \<Rightarrow> ((usize \<times> usize) \<times> string) result" where
  "write_diff_k_mod N lline rline ks =
     write_diff_section N lline (map (\<lambda>k. Ok (format_key N (fst k))) ks) (length ks)
       rline (map (\<lambda>k. Ok (format_key N (snd k))) ks) (length ks)"

definition write_diff_v_del ::
  "'z env_out_scheme \<Rightarrow> usize \<Rightarrow> usize \<Rightarrow> (string \<times> CellKeyValue) list \<Rightarrow> string \<Rightarrow> ((usize \<times> usize) \<times> string) result" where
  "write_diff_v_del N lline rline vs =
     write_diff_section N lline (map (\<lambda>v. format_value N (fst v) (snd v)) vs) (length vs) rline [] 0"

definition write_diff_v_add ::
  "'z env_out_scheme \<Rightarrow> usize \<Rightarrow> usize \<Rightarrow> (string \<times> CellKeyValue) list \<Rightarrow> string \<Rightarrow> ((usize \<times> usize) \<times> string) result" where
  "write_diff_v_add N lline rline vs =
     write_diff_section N lline [] 0 rline (map (\<lambda>v. format_value N (fst v) (snd v)) vs) (length vs)"

definition write_diff_v_mod ::
  "'z env_out_scheme \<Rightarrow> usize \<Rightarrow> usize \<Rightarrow> (string \<times> CellKeyValue \<times> CellKeyValue) list \<Rightarrow> string \<Rightarrow>
     ((usize \<times> usize) \<times> string) result" where
  "write_diff_v_mod N lline rline vs =
     write_diff_section N lline (map (\<lambda>v. format_value N (fst v) (fst (snd v))) vs) (length vs)
       rline (map (\<lambda>v. format_value N (fst v) (snd (snd v))) vs) (length vs)"

definition write_diff ::
  "'z env_out_scheme \<Rightarrow> string \<Rightarrow> string \<Rightarrow> differences \<Rightarrow> string \<Rightarrow> string result" where
  "write_diff N base_filenames comparison_filenames d out =
     bindO (writeln N (''--- '' @ base_filenames) out) (\<lambda>out.
     bindO (writeln N (''+++ '' @ comparison_filenames) out) (\<lambda>out.
     bindO (write_diff_k_del N 1 1 (d_keys_deleted d) out) (\<lambda>((lline, rline), out).
     bindO (write_diff_k_add N lline rline (d_keys_added d) out) (\<lambda>((lline, rline), out).
     bindO (write_diff_k_mod N lline rline (d_keys_modified d) out) (\<lambda>((lline, rline), out).
     bindO (write_diff_v_del N lline rline (d_values_deleted d) out) (\<lambda>((lline, rline), out).
     bindO (write_diff_v_add N lline rline (d_values_added d) out) (\<lambda>((lline, rline), out).
     bindO (write_diff_v_mod N lline rline (d_values_modified d) out) (\<lambda>(_, out).
     Ok out))))))))"

section \<open>The whole comparison\<close>

definition file_names :: "'z env_compare_scheme \<Rightarrow> string \<Rightarrow> string list option \<Rightarrow> string" where
  "file_names N primary logs =
     (case logs of
        Some ls \<Rightarrow> fmt_str_debug N primary @ '' '' @ fmt_paths_debug N ls
      | None \<Rightarrow> primary)"

definition reg_compare ::
  "'z env_compare_scheme \<Rightarrow> nat \<Rightarrow> nat \<Rightarrow> string \<Rightarrow> string \<Rightarrow> string list option \<Rightarrow> string \<Rightarrow> string list option \<Rightarrow>
     Filter option \<Rightarrow> bool \<Rightarrow> string result" where
  "reg_compare N depth fuel output base_primary base_logs comparison_primary comparison_logs flt use_diff_format =
     (case fs_create_error N output of
        Some e \<Rightarrow> Err (Error_buffer (''Error creating file '' @ fmt_path_debug N output @ '': '' @ e))
      | None \<Rightarrow>
          bindO (get_parser N depth fuel base_primary base_logs) (\<lambda>parser1.
          bindO (compare_parsers N depth fuel flt parser1
                   (get_parser N depth fuel comparison_primary comparison_logs)) (\<lambda>(c, d).
          (if use_diff_format then write_diff else write_text) N (file_names N base_primary base_logs)
            (file_names N comparison_primary comparison_logs)
            \<lparr>d_keys_deleted = keys_deleted d, d_keys_added = keys_added c, d_keys_modified = keys_modified c,
             d_values_deleted = values_deleted d, d_values_added = values_added c,
             d_values_modified = values_modified c\<rparr> [])))"

end
