(* ===== verification/Recovery_Facts.thy ===== *)
theory Recovery_Facts
  imports Recover_Deleted
begin

text \<open>
  What holds of the recovery of deleted items: it ends without a panic on every file, and all it does to
  the state is to add keys and values that are marked as deleted.
\<close>

section \<open>Cells shrink\<close>

context nom_spec
begin

lemma nom_shorter:
  "nom_tag N t i = Ok (j, b) \<Longrightarrow> length j \<le> length i"
  "nom_take N n i = Ok (j, b) \<Longrightarrow> length j \<le> length i"
  "nom_le_u16 N i = Ok (j, w2) \<Longrightarrow> length j \<le> length i"
  "nom_le_u32 N i = Ok (j, w4) \<Longrightarrow> length j \<le> length i"
  "nom_le_i32 N i = Ok (j, v4) \<Longrightarrow> length j < length i"
  "nom_le_u64 N i = Ok (j, w8) \<Longrightarrow> length j \<le> length i"
  by (auto simp: tag take le_u16 le_u32 le_i32 le_u64 tag_doc_eq_Ok take_doc_eq_Ok le_doc_eq_Ok)

lemma eat_remaining_shorter: "parser_eat_remaining N i sz c = Ok (j, b) \<Longrightarrow> length b \<le> length i"
  by (auto simp: parser_eat_remaining_def Let_def take take_doc_eq_Ok split: if_splits)

lemmas shorter = nom_shorter eat_remaining_shorter

lemma value_slack_shorter:
  "ensures (\<lambda>(r, v). length (field_value (kvd_slack (kv_detail (kv v)))) < length input \<and> 0 < kv_get_cell_size v)
     (CellKeyValue_from_bytes N input off seq full)"
  unfolding CellKeyValue_from_bytes_def Let_def
  apply (rule ensures_bind_prod)
  apply (rule ensures_if, simp)
  apply (rule ensures_bind_prod)+
  apply (simp add: kv_get_cell_size_def kv_check_size_def MIN_CELL_VALUE_SIZE_def Let_def)
  apply (drule shorter)+
  apply simp
  done

lemma key_slack_shorter:
  "ensures (\<lambda>(r, k). length (field_value (knd_slack (kn_detail (kn k)))) < length input \<and> 0 < kn_get_cell_size k)
     (CellKeyNode_from_bytes N st input off cur seq)"
  unfolding CellKeyNode_from_bytes_def Let_def case_prod_beta [of _ "KeyNodeFlags_from_bits_checked _ _"]
  apply (rule ensures_bind_prod)
  apply (rule ensures_if, simp)
  apply (rule ensures_bind_prod)+
  apply (simp add: kn_get_cell_size_def kn_check_size_def MIN_CELL_KEY_SIZE_def Let_def)
  apply (drule shorter)+
  apply simp
  done

end

lemma read_plain:
  assumes "ro_filter opts = None" and "\<not> ro_get_deleted_and_modified opts"
  shows "ensures (\<lambda>(r, st'). st' = st \<and> (\<exists>rest k0 k. CellKeyNode_from_bytes N st sl (ro_offset opts) (ro_cur_path opts)
        (ro_sequence_num opts) = Ok (rest, k0) \<and> r = Some k \<and> same_key k0 k \<and> kn_deleted_keys k = []))
     (read_from_slice N fuel fi st sl opts)"
proof -
  have f: "(case ro_filter opts of Some f \<Rightarrow> check_cell N f st k | None \<Rightarrow> Ok (FILTER_ITERATE_KEYS, st)) =
      Ok (FILTER_ITERATE_KEYS, st)" for k
    by (simp add: assms(1))
  have nm: "\<not> flags_contain FILTER_ITERATE_KEYS FILTER_NO_MATCH" "\<not> flags_contain FILTER_ITERATE_KEYS FILTER_KEY_MATCH"
    by (simp_all add: flags_contain_def FILTER_ITERATE_KEYS_def FILTER_NO_MATCH_def FILTER_KEY_MATCH_def)
  have k: "same_key k0 k1 \<and> kn_deleted_keys k1 = kn_deleted_keys k0"
    if "(if P then bindO (read_values N fi st seq k0) (\<lambda>(k, err). Ok (if err = None then k else kn_add_log c (t k) k))
         else Ok k0) = Ok k1" for P seq k0 k1 c t
    using that by (auto simp: bindO_eq_Ok split: if_splits dest!: read_values_keeps)
  show ?thesis
    unfolding read_from_slice_def f Let_def bindO.simps prod.case
  proof (simp only: nm if_False assms(2) bindO.simps, intro ensures_bind_prod ensures_bind, goal_cases)
    case (1 r k0 k1)
    then have k0: "CellKeyNode_from_bytes N st sl (ro_offset opts) (ro_cur_path opts) (ro_sequence_num opts) = Ok (r, k0)"
      by (simp add: from_nom_eq)
    have "kn_deleted_keys k0 = []" using ensuresD [OF from_bytes_fresh k0] by simp
    with k [OF 1(2)] k0 show ?case by simp
  qed
qed

section \<open>The recovery ends\<close>

lemma safe_recover_value:
  assumes "nom_spec N" and "\<And>slack so st. length slack < length input \<Longrightarrow> safe (scan slack so st)"
  shows "safe (recover_cell_key_value scan N fi input off cs force st) \<and>
    ensures (\<lambda>(inc, _). 0 < inc) (recover_cell_key_value scan N fi input off cs force st)"
proof -
  have "safe (CellKeyValue_from_bytes N input off None False)"
    by (rule nom_spec.safe_CellKeyValue_from_bytes [OF assms(1)])
  then show ?thesis
  proof (cases rule: safe_cases)
    case (Ok a)
    obtain r v where a: "a = (r, v)" by fastforce
    note sl = ensuresD [OF nom_spec.value_slack_shorter [OF assms(1)] Ok]
    obtain v' where v': "CellKeyValue_read_value_bytes N fi v = Ok v'"
      using nom_spec.CellKeyValue_read_value_bytes_total [OF assms(1)] by blast
    then have sz: "kv_get_cell_size v' = kv_get_cell_size v"
      by (auto simp: CellKeyValue_read_value_bytes_def bindO_eq_Ok kv_get_cell_size_def Let_def split: if_splits)
    have "safe (scan (field_value (kvd_slack (kv_detail (kv v)))) (kv_slack_offset_absolute v) st)"
      using sl a by (intro assms(2)) simp
    then show ?thesis
      using Ok a v' sz sl by (cases rule: safe_cases) (auto simp: recover_cell_key_value_def)
  next
    case (Err e)
    then show ?thesis by (simp add: recover_cell_key_value_def)
  qed
qed

lemma safe_recover_key:
  assumes "nom_spec N" and "hbin_offset_absolute fi < 2 ^ 63" and "\<And>slack so st. length slack < length input \<Longrightarrow> safe (scan slack so st)"
  shows "safe (recover_cell_key_node scan N fi input off cs force st) \<and>
    ensures (\<lambda>(inc, _). 0 < inc) (recover_cell_key_node scan N fi input off cs force st)"
proof -
  let ?opts = "\<lparr>ro_offset = off, ro_cur_path = [], ro_filter = None, ro_self_is_filter_match_or_descendent = True,
         ro_sequence_num = None, ro_get_deleted_and_modified = False\<rparr>"
  have "safe (read_from_slice N 0 fi st input ?opts)"
    using nom_spec.safe_read_from_slice [OF assms(1,2), of ?opts] by simp
  then show ?thesis
  proof (cases rule: safe_cases)
    case (Ok a)
    have pl: "ensures (\<lambda>(r, st'). st' = st \<and> (\<exists>rest k0 k. CellKeyNode_from_bytes N st input off [] None = Ok (rest, k0) \<and>
        r = Some k \<and> same_key k0 k \<and> kn_deleted_keys k = [])) (read_from_slice N 0 fi st input ?opts)"
      using read_plain [of ?opts st N input 0 fi] by simp
    obtain rest k0 k where k: "a = (Some k, st)" "CellKeyNode_from_bytes N st input off [] None = Ok (rest, k0)" "same_key k0 k"
      using ensuresD [OF pl Ok] by auto
    have sl: "length (field_value (knd_slack (kn_detail (kn k)))) < length input" "0 < kn_get_cell_size k"
      using ensuresD [OF nom_spec.key_slack_shorter [OF assms(1)] k(2)] k(3) by (simp_all add: same_key_def kn_get_cell_size_def)
    have "safe (scan (field_value (knd_slack (kn_detail (kn k)))) (kn_slack_offset_absolute k) st)"
      using sl by (intro assms(3)) simp
    then show ?thesis
      using Ok k sl by (cases rule: safe_cases) (auto simp: recover_cell_key_node_def)
  next
    case (Err e)
    then show ?thesis by (simp add: recover_cell_key_node_def)
  qed
qed

context nom_cell_spec
begin

lemma slack_cell_type_cases:
  "(\<exists>j. slack_cell_type N i = Ok (j, CellKey)) \<or> (\<exists>j. slack_cell_type N i = Ok (j, CellVal)) \<or> (\<exists>e. slack_cell_type N i = Err e)"
  by (simp add: slack_cell_type_def alt_cell map_cell tag map_doc_def tag_doc_def)

lemma safe_slack:
  assumes "hbin_offset_absolute fi < 2 ^ 63"
  shows "length input - offset < fuel \<Longrightarrow> safe (find_cells_in_slack_internal N fi fuel input start offset st)"
proof (induction fuel arbitrary: input start offset st)
  case 0
  then show ?case by simp
next
  case (Suc fuel)
  let ?scan = "\<lambda>slack off st. bindO (find_cells_in_slack_internal N fi fuel slack off 0 st) (\<lambda>(_, st). Ok st)"
  let ?in = "drop offset input"
  show ?case
  proof (cases "offset < length input")
    case True
    have sc: "safe (?scan slack so st)" if "length slack < length ?in" for slack so st
      using that Suc.prems by (intro safe_bind_prod Suc.IH safe_Ok) simp
    define r where "r j = (case slack_cell_type N j of
                     Ok (_, CellVal) \<Rightarrow> recover_cell_key_value ?scan N fi ?in (start + offset) DeletedPrimaryFileSlack True st
                   | Ok (_, CellKey) \<Rightarrow> recover_cell_key_node ?scan N fi ?in (start + offset) DeletedPrimaryFileSlack True st
                   | Ok _ \<Rightarrow> Ok (1, st) | Err _ \<Rightarrow> Ok (1, st) | Panic \<Rightarrow> Panic | Diverge \<Rightarrow> Diverge)" for j
    note rv = safe_recover_value [OF nom_spec_axioms, of ?in ?scan fi "start + offset" DeletedPrimaryFileSlack True st]
    note rk = safe_recover_key [OF nom_spec_axioms assms, of ?in ?scan "start + offset" DeletedPrimaryFileSlack True st]
    have r: "safe (r j) \<and> ensures (\<lambda>(inc, _). 0 < inc) (r j)" for j
      using slack_cell_type_cases [of j] rv [OF sc] rk [OF sc] unfolding r_def by auto
    have "safe (bindO (r j) (\<lambda>(inc, st). find_cells_in_slack_internal N fi fuel input start (offset + inc) st))" for j
    proof (rule safe_bind_prod)
      fix inc st'
      assume "r j = Ok (inc, st')"
      with r [of j] have "0 < inc" by (auto dest: ensuresD)
      with Suc.prems True show "safe (find_cells_in_slack_internal N fi fuel input start (offset + inc) st')"
        by (intro Suc.IH) simp
    qed (use r in simp)
    moreover have "safe (nom_le_i32 N ?in)" by (rule safe_nom)
    ultimately show ?thesis
      using True unfolding find_cells_in_slack_internal.simps Let_def r_def
      by (cases "nom_le_i32 N ?in") auto
  next
    case False
    then show ?thesis by simp
  qed
qed

end

lemma read_checked_length: "read_checked buf off = Some s \<Longrightarrow> length s \<le> length buf"
  by (auto simp: read_checked_def get_from_eq_Some split: if_splits)

lemma read_range_checked_length: "read_range_checked buf off n = Some s \<Longrightarrow> length s \<le> length buf"
  by (auto simp: read_range_checked_def get_range_eq_Some split: if_splits)

context nom_cell_spec
begin

lemma safe_recover_cell:
  assumes "hbin_offset_absolute fi < 2 ^ 63" and "length (buffer fi) < fuel"
  shows "safe (recover_cell N fuel fi i off sz st)"
proof -
  have sc: "safe (find_cells_in_slack N fi fuel slack so st)" if "length slack \<le> length (buffer fi)" for slack so st
    unfolding find_cells_in_slack_def using that assms(2)
    by (intro safe_bind_prod safe_slack [OF assms(1)] safe_Ok) simp
  have v: "safe (recover_cell_key_value (find_cells_in_slack N fi fuel) N fi s off cs b st)"
    and k: "safe (recover_cell_key_node (find_cells_in_slack N fi fuel) N fi s off cs b st)"
    if "length s \<le> length (buffer fi)" for s cs b
    using safe_recover_value [OF nom_spec_axioms, of s "find_cells_in_slack N fi fuel"]
      safe_recover_key [OF nom_spec_axioms assms(1), of s "find_cells_in_slack N fi fuel"] that
    by (simp_all add: sc)
  show ?thesis
    unfolding recover_cell_def Let_def
    using read_checked_length read_range_checked_length
    by (auto split: CellType.split option.split intro!: safe_bind_prod v k sc)
qed

lemma safe_unused_cells_loop:
  assumes "hbin_offset_absolute fi < 2 ^ 63" and "length (buffer fi) < fuel"
  shows "safe (unused_cells_loop N fuel fi hbin_max input off st) \<and>
    ensures (\<lambda>(off', _). off \<le> off') (unused_cells_loop N fuel fi hbin_max input off st)"
proof (induction "hbin_max - off" arbitrary: input off st rule: less_induct)
  case less
  have "safe (nom_le_i32 N input)" by (rule safe_nom)
  then show ?case
  proof (cases rule: safe_cases)
    case (Ok a)
    obtain j sz where a: "a = (j, sz)" by fastforce
    let ?off = "off + unat (unsigned_abs sz)"
    show ?thesis
    proof (cases "off < hbin_max \<and> sz \<noteq> 0")
      case True
      have "safe (recover_cell N fuel fi j off (unat (unsigned_abs sz)) st)" by (rule safe_recover_cell [OF assms])
      then show ?thesis
      proof (cases rule: safe_cases)
        case st1: (Ok st1)
        have "hbin_max - ?off < hbin_max - off" using True unsigned_abs_pos [of sz] by linarith
        then have "safe (unused_cells_loop N fuel fi hbin_max d ?off st1) \<and>
            ensures (\<lambda>(off', _). ?off \<le> off') (unused_cells_loop N fuel fi hbin_max d ?off st1)" for d
          by (rule less.hyps)
        then show ?thesis
          using True Ok a st1
          by (subst (1 2) unused_cells_loop.simps)
             (auto simp: Let_def ensures_def split: option.splits dest: add_leD1)
      next
        case (Err e)
        with True Ok a show ?thesis by (subst (1 2) unused_cells_loop.simps) (simp add: Let_def)
      qed
    next
      case False
      with Ok a show ?thesis by (subst (1 2) unused_cells_loop.simps) auto
    qed
  next
    case (Err e)
    then show ?thesis by (subst (1 2) unused_cells_loop.simps) simp
  qed
qed

lemma hbin_header_32:
  "HiveBinHeader_from_bytes N fi i = Ok (j, h) \<Longrightarrow> 32 \<le> length i \<and> j = drop 32 i"
  by (auto simp: HiveBinHeader_from_bytes_def Let_def bindO_eq_Ok tag le_u32 le_u64 tag_doc_eq_Ok le_doc_eq_Ok add.commute)

lemma safe_HiveBinHeader: "safe (HiveBinHeader_from_bytes N fi i)"
  unfolding HiveBinHeader_from_bytes_def Let_def by (intro safe_bind_prod safe_nom safe_Ok)

lemma safe_find_free_in_hbin:
  assumes "hbin_offset_absolute fi < 2 ^ 63" and "length (buffer fi) < fuel"
  shows "safe (find_free_in_hbin N fuel fi off st) \<and> ensures (\<lambda>(off', _). off < off') (find_free_in_hbin N fuel fi off st)"
proof (cases "read_checked (buffer fi) off")
  case None
  then show ?thesis by (simp add: find_free_in_hbin_def)
next
  case (Some sl)
  have "safe (HiveBinHeader_from_bytes N fi sl)" by (rule safe_HiveBinHeader)
  then show ?thesis
  proof (cases rule: safe_cases)
    case (Ok a)
    obtain input h where a: "a = (input, h)" by fastforce
    have "32 \<le> length sl" "input = drop 32 sl" using hbin_header_32 [of fi sl input h] Ok a by simp_all
    moreover have "sl = drop off (buffer fi)"
      using Some by (auto simp: read_checked_def get_from_eq_Some split: if_splits)
    ultimately have off: "get_file_offset fi input = off + 32"
      by (simp add: get_file_offset_def ptr_diff_def)
    have "safe (find_unused_cells_in_hbin N fuel fi (off + 32) m st) \<and>
        ensures (\<lambda>(off', _). off + 32 \<le> off') (find_unused_cells_in_hbin N fuel fi (off + 32) m st)" for m
      using safe_unused_cells_loop [OF assms]
      by (cases "read_checked (buffer fi) (off + 32)") (simp_all add: find_unused_cells_in_hbin_def)
    then show ?thesis
      using Some Ok a off by (fastforce simp: find_free_in_hbin_def ensures_def)
  next
    case (Err e)
    with Some show ?thesis by (simp add: find_free_in_hbin_def)
  qed
qed

lemma safe_free_loop:
  assumes "hbin_offset_absolute fi < 2 ^ 63" and "length (buffer fi) < fuel"
  shows "unat bins - off < rounds \<Longrightarrow> safe (free_keys_and_values_loop N fuel fi bins rounds off st)"
proof (induction rounds arbitrary: off st)
  case 0
  then show ?case by simp
next
  case (Suc rounds)
  have "safe (bindO (find_free_in_hbin N fuel fi off st) (\<lambda>(off, st).
      free_keys_and_values_loop N fuel fi bins rounds off st))" if "off < unat bins"
  proof (rule safe_bind_prod)
    fix off' st'
    assume "find_free_in_hbin N fuel fi off st = Ok (off', st')"
    with safe_find_free_in_hbin [OF assms, of off st] have "off < off'" by (auto dest: ensuresD)
    with Suc.prems that show "safe (free_keys_and_values_loop N fuel fi bins rounds off' st')"
      by (intro Suc.IH) simp
  qed (use safe_find_free_in_hbin [OF assms] in simp)
  then show ?case by simp
qed

end

section \<open>What the recovery adds\<close>

text \<open>The state after a recovery: keys and values marked as deleted were appended under the empty path.\<close>

definition recovered :: "State \<Rightarrow> State \<Rightarrow> bool" where
  "recovered st st' \<longleftrightarrow>
     (\<exists>ks. vec_or_default (deleted_keys st' []) = vec_or_default (deleted_keys st []) @ ks \<and>
           (\<forall>k \<in> set ks. is_deleted_primary_file (kn_cell_state (kn k)) \<and> kn_deleted_keys k = [])) \<and>
     (\<exists>vs. vec_or_default (deleted_values st' []) = vec_or_default (deleted_values st []) @ vs \<and>
           (\<forall>v \<in> set vs. is_deleted_primary_file (kv_cell_state (kv v)))) \<and>
     (\<forall>p. p \<noteq> [] \<longrightarrow> deleted_keys st' p = deleted_keys st p \<and> deleted_values st' p = deleted_values st p) \<and>
     modified_keys st' = modified_keys st \<and> modified_values st' = modified_values st \<and>
     get_full_field_info st' = get_full_field_info st \<and> root_key_path_offset st' = root_key_path_offset st \<and>
     (\<exists>ws. log_entries (info st') = log_entries (info st) @ ws \<and> (\<forall>w \<in> set ws. log_code w = WarningRecovery))"

lemma recovered_refl [simp]: "recovered st st"
  by (simp add: recovered_def)

lemma recovered_trans:
  assumes "recovered a b" and "recovered b c"
  shows "recovered a c"
proof -
  obtain ks vs ws where 1: "vec_or_default (deleted_keys b []) = vec_or_default (deleted_keys a []) @ ks"
    "vec_or_default (deleted_values b []) = vec_or_default (deleted_values a []) @ vs"
    "\<forall>k \<in> set ks. is_deleted_primary_file (kn_cell_state (kn k)) \<and> kn_deleted_keys k = []"
    "\<forall>v \<in> set vs. is_deleted_primary_file (kv_cell_state (kv v))"
    "log_entries (info b) = log_entries (info a) @ ws" "\<forall>w \<in> set ws. log_code w = WarningRecovery"
    using assms(1) unfolding recovered_def by (elim conjE exE)
  obtain ks' vs' ws' where 2: "vec_or_default (deleted_keys c []) = vec_or_default (deleted_keys b []) @ ks'"
    "vec_or_default (deleted_values c []) = vec_or_default (deleted_values b []) @ vs'"
    "\<forall>k \<in> set ks'. is_deleted_primary_file (kn_cell_state (kn k)) \<and> kn_deleted_keys k = []"
    "\<forall>v \<in> set vs'. is_deleted_primary_file (kv_cell_state (kv v))"
    "log_entries (info c) = log_entries (info b) @ ws'" "\<forall>w \<in> set ws'. log_code w = WarningRecovery"
    using assms(2) unfolding recovered_def by (elim conjE exE)
  have "\<exists>xs. vec_or_default (deleted_keys c []) = vec_or_default (deleted_keys a []) @ xs \<and>
      (\<forall>k \<in> set xs. is_deleted_primary_file (kn_cell_state (kn k)) \<and> kn_deleted_keys k = [])"
    using 1(1,3) 2(1,3) by (intro exI [of _ "ks @ ks'"]) auto
  moreover have "\<exists>xs. vec_or_default (deleted_values c []) = vec_or_default (deleted_values a []) @ xs \<and>
      (\<forall>v \<in> set xs. is_deleted_primary_file (kv_cell_state (kv v)))"
    using 1(2,4) 2(2,4) by (intro exI [of _ "vs @ vs'"]) auto
  moreover have "\<exists>xs. log_entries (info c) = log_entries (info a) @ xs \<and> (\<forall>w \<in> set xs. log_code w = WarningRecovery)"
    using 1(5,6) 2(5,6) by (intro exI [of _ "ws @ ws'"]) auto
  ultimately show ?thesis using assms unfolding recovered_def by simp
qed

lemma recovered_add_info [simp]: "recovered st (st_add_info WarningRecovery t st)"
  by (simp add: recovered_def st_add_info_def logs.entries_add)

lemma recovered_add_value:
  "is_deleted_primary_file (kv_cell_state (kv v)) \<Longrightarrow>
     recovered st (st\<lparr>deleted_values := DeletedValueMap_add (deleted_values st) [] v\<rparr>)"
  by (simp add: recovered_def DeletedValueMap_add_def vec_push_get vec_or_default_def)

lemma recovered_add_key:
  "is_deleted_primary_file (kn_cell_state (kn k)) \<Longrightarrow> kn_deleted_keys k = [] \<Longrightarrow>
     recovered st (st\<lparr>deleted_keys := ModifiedDeletedKeyMap_add (deleted_keys st) [] k\<rparr>)"
  by (simp add: recovered_def ModifiedDeletedKeyMap_add_def vec_push_get vec_or_default_def)

lemma recover_value_recovered:
  assumes "is_deleted_primary_file cs" and "\<And>slack so st. ensures (recovered st) (scan slack so st)"
  shows "ensures (\<lambda>(_, st'). recovered st st') (recover_cell_key_value scan N fi input off cs force st)"
proof -
  have "recovered st (st'\<lparr>deleted_values := DeletedValueMap_add (deleted_values st') [] (kv_set_cell_state cs v)\<rparr>)"
    if "recovered st st'" for st' v
    using recovered_trans [OF that recovered_add_value] assms(1) by (simp add: kv_set_cell_state_def)
  then show ?thesis
    using assms(2)
    by (auto simp: recover_cell_key_value_def ensures_def bindO_eq_Ok split: outcome.splits if_splits)
qed

lemma recover_key_recovered:
  assumes "is_deleted_primary_file cs" and "\<And>slack so st. ensures (recovered st) (scan slack so st)"
  shows "ensures (\<lambda>(_, st'). recovered st st') (recover_cell_key_node scan N fi input off cs force st)"
proof -
  have a: "recovered st (st'\<lparr>deleted_keys := ModifiedDeletedKeyMap_add (deleted_keys st') [] (kn_set_cell_state cs k)\<rparr>)"
    if "recovered st st'" "kn_deleted_keys k = []" for st' k
    using recovered_trans [OF that(1) recovered_add_key] assms(1) that(2) by (simp add: kn_set_cell_state_def)
  let ?opts = "\<lparr>ro_offset = off, ro_cur_path = [], ro_filter = None, ro_self_is_filter_match_or_descendent = True,
         ro_sequence_num = None, ro_get_deleted_and_modified = False\<rparr>"
  have r: "st' = st \<and> (\<forall>k. r = Some k \<longrightarrow> kn_deleted_keys k = [])"
    if "read_from_slice N 0 fi st input ?opts = Ok (r, st')" for r st'
    using ensuresD [OF read_plain [of ?opts st N input 0 fi] that] by auto
  have b: "recovered st st'" if "scan slack so st = Ok st'" for slack so st'
    using ensuresD [OF assms(2) that] .
  have c: "ensures (\<lambda>(_, st'). recovered st st')
      (bindO (scan (field_value (knd_slack (kn_detail (kn k)))) (kn_slack_offset_absolute k) st) (\<lambda>st.
         if force \<or> kn_is_free k then
           Ok (kn_get_cell_size k,
               st\<lparr>deleted_keys := ModifiedDeletedKeyMap_add (deleted_keys st) [] (kn_set_cell_state cs k)\<rparr>)
         else Ok (1, st)))" if "kn_deleted_keys k = []" for k
    by (rule ensures_bind) (use a b that in simp)
  show ?thesis
  proof (cases "read_from_slice N 0 fi st input ?opts")
    case (Ok x)
    obtain q st' where x: "x = (q, st')" by (cases x)
    have "st' = st \<and> (\<forall>k. q = Some k \<longrightarrow> kn_deleted_keys k = [])" using r Ok x by simp
    then show ?thesis using Ok x c by (cases q) (simp_all add: recover_cell_key_node_def)
  qed (simp_all add: recover_cell_key_node_def)
qed

lemma slack_recovered:
  "ensures (\<lambda>(_, st'). recovered st st') (find_cells_in_slack_internal N fi fuel input start offset st)"
proof (induction fuel arbitrary: input start offset st)
  case 0
  then show ?case by simp
next
  case (Suc fuel)
  let ?scan = "\<lambda>slack off st. bindO (find_cells_in_slack_internal N fi fuel slack off 0 st) (\<lambda>(_, st). Ok st)"
  have sc: "ensures (recovered st) (?scan slack so st)" for slack so st
    by (rule ensures_bind_prod) (use ensuresD [OF Suc.IH] in force)
  have d: "is_deleted_primary_file DeletedPrimaryFileSlack" by (simp add: is_deleted_primary_file_def)
  have rv: "ensures (\<lambda>(_, st'). recovered st st')
      (recover_cell_key_value ?scan N fi i off DeletedPrimaryFileSlack True st)" for i off st
    by (rule recover_value_recovered [OF d]) (rule sc)
  have rk: "ensures (\<lambda>(_, st'). recovered st st')
      (recover_cell_key_node ?scan N fi i off DeletedPrimaryFileSlack True st)" for i off st
    by (rule recover_key_recovered [OF d]) (rule sc)
  let ?round = "\<lambda>input1. case slack_cell_type N input1 of
      Ok (_, CellVal) \<Rightarrow>
        recover_cell_key_value ?scan N fi (drop offset input) (start + offset) DeletedPrimaryFileSlack True st
    | Ok (_, CellKey) \<Rightarrow>
        recover_cell_key_node ?scan N fi (drop offset input) (start + offset) DeletedPrimaryFileSlack True st
    | Ok _ \<Rightarrow> Ok (1, st) | Err _ \<Rightarrow> Ok (1, st) | Panic \<Rightarrow> Panic | Diverge \<Rightarrow> Diverge"
  have rd: "ensures (\<lambda>(_, st'). recovered st st') (?round input1)" for input1
    using rv rk by (simp split: outcome.split prod.split CellType.split)
  have "ensures (\<lambda>(_, st'). recovered st st')
      (bindO (?round input1) (\<lambda>(inc, st). find_cells_in_slack_internal N fi fuel input start (offset + inc) st))" for input1
  proof (rule ensures_bind_prod)
    fix inc st'
    assume "?round input1 = Ok (inc, st')"
    then have "recovered st st'" using ensuresD [OF rd] by fastforce
    with Suc.IH [of st' input start "offset + inc"]
    show "ensures (\<lambda>(_, st'). recovered st st') (find_cells_in_slack_internal N fi fuel input start (offset + inc) st')"
      by (auto simp: ensures_def split: outcome.splits intro: recovered_trans)
  qed
  then show ?case by (simp add: Let_def split: outcome.split)
qed

lemma scan_recovered: "ensures (recovered st) (find_cells_in_slack N fi fuel input start st)"
  unfolding find_cells_in_slack_def
  by (rule ensures_bind_prod) (use ensuresD [OF slack_recovered] in force)

lemma recover_cell_recovered: "ensures (recovered st) (recover_cell N fuel fi input off sz st)"
proof -
  have d: "is_deleted_primary_file DeletedPrimaryFile" by (simp add: is_deleted_primary_file_def)
  have pair: "ensures (recovered st) (bindO x (\<lambda>(_, st). Ok st))"
    if "ensures (\<lambda>(_, st'). recovered st st') x" for x :: "(usize \<times> State) result"
    by (rule ensures_bind_prod) (use ensuresD [OF that] in force)
  show ?thesis
    unfolding recover_cell_def Let_def
    using pair [OF recover_value_recovered [OF d scan_recovered]] pair [OF recover_key_recovered [OF d scan_recovered]]
      scan_recovered
    by (auto split: CellType.split option.split)
qed

lemma unused_cells_recovered: "ensures (\<lambda>(_, st'). recovered st st') (unused_cells_loop N fuel fi hbin_max input off st)"
proof (induction N fuel fi hbin_max input off st rule: unused_cells_loop.induct)
  case (1 N fuel fi hbin_max input off st)
  have step: "ensures (\<lambda>(_, st'). recovered st st')
      (bindO (recover_cell N fuel fi ict off (unat (unsigned_abs w)) st) (\<lambda>st.
         case read_range_checked (buffer fi) (off + unat (unsigned_abs w)) (unat (unsigned_abs w)) of
           Some data \<Rightarrow> unused_cells_loop N fuel fi hbin_max data (off + unat (unsigned_abs w)) st
         | None \<Rightarrow> Ok (off + unat (unsigned_abs w), st)))"
    if "off < hbin_max" "from_nom (nom_le_i32 N input) = Ok (ict, w)" "w \<noteq> 0" for ict w
  proof (rule ensures_bind)
    fix st'
    assume st': "recover_cell N fuel fi ict off (unat (unsigned_abs w)) st = Ok st'"
    note r = ensuresD [OF recover_cell_recovered st']
    show "ensures (\<lambda>(_, st'). recovered st st')
        (case read_range_checked (buffer fi) (off + unat (unsigned_abs w)) (unat (unsigned_abs w)) of
           Some data \<Rightarrow> unused_cells_loop N fuel fi hbin_max data (off + unat (unsigned_abs w)) st'
         | None \<Rightarrow> Ok (off + unat (unsigned_abs w), st'))"
    proof (cases "read_range_checked (buffer fi) (off + unat (unsigned_abs w)) (unat (unsigned_abs w))")
      case (Some data)
      have "ensures (\<lambda>(_, st''). recovered st' st'') (unused_cells_loop N fuel fi hbin_max data (off + unat (unsigned_abs w)) st')"
        using 1 [OF that(1,2) refl refl that(3) st' Some] .
      then show ?thesis using Some recovered_trans [OF r] by (auto simp: ensures_def)
    qed (use r in simp)
  qed
  show ?case
    by (subst unused_cells_loop.simps, intro ensures_if ensures_bind_prod)
       (use step in \<open>auto simp: Let_def intro!: ensures_if\<close>)
qed

lemma find_free_in_hbin_recovered: "ensures (\<lambda>(_, st'). recovered st st') (find_free_in_hbin N fuel fi off st)"
  unfolding find_free_in_hbin_def find_unused_cells_in_hbin_def
  by (intro ensures_bind ensures_bind_prod unused_cells_recovered)

lemma free_loop_recovered: "ensures (recovered st) (free_keys_and_values_loop N fuel fi bins rounds off st)"
proof (induction rounds arbitrary: off st)
  case (Suc rounds)
  have "ensures (recovered st) (bindO (find_free_in_hbin N fuel fi off st) (\<lambda>(off, st).
      free_keys_and_values_loop N fuel fi bins rounds off st))"
  proof (rule ensures_bind_prod)
    fix off' st'
    assume "find_free_in_hbin N fuel fi off st = Ok (off', st')"
    then have "recovered st st'" using ensuresD [OF find_free_in_hbin_recovered] by fastforce
    then show "ensures (recovered st) (free_keys_and_values_loop N fuel fi bins rounds off' st')"
      using Suc.IH [of st' off'] by (auto simp: ensures_def intro: recovered_trans)
  qed
  then show ?case by simp
qed simp

section \<open>The recovery finds the free cells\<close>

text \<open>
  The cells of a hive bin stand one behind the other.  From the cell at \<open>off\<close> the sizes lead to the cell
  at \<open>c\<close>, below the end \<open>m\<close> of the bin; the cells between have room for a size and a signature.
\<close>

definition cell_size_at :: "bytes \<Rightarrow> usize \<Rightarrow> i32" where
  "cell_size_at buf off = from_le_bytes (take 4 (drop off buf))"

inductive cell_chain :: "bytes \<Rightarrow> usize \<Rightarrow> usize \<Rightarrow> usize \<Rightarrow> bool" for buf m where
  here: "off < m \<Longrightarrow> cell_chain buf m off off"
| further: "off < m \<Longrightarrow> 6 \<le> unat (unsigned_abs (cell_size_at buf off)) \<Longrightarrow>
    cell_chain buf m (off + unat (unsigned_abs (cell_size_at buf off))) c \<Longrightarrow> cell_chain buf m off c"

lemma cell_chain_le: "cell_chain buf m off c \<Longrightarrow> off \<le> c"
  by (induction rule: cell_chain.induct) simp_all

lemma loop_round:
  assumes "nom_spec N" and "off < m" and "off + 6 \<le> length (buffer fi)" and "6 \<le> n"
    and "cell_size_at (buffer fi) off \<noteq> 0"
    and "unused_cells_loop N fuel fi m (take n (drop off (buffer fi))) off st = Ok (off', st')"
  obtains st1 where
    "recover_cell N fuel fi (drop 4 (take n (drop off (buffer fi)))) off (unat (unsigned_abs (cell_size_at (buffer fi) off))) st = Ok st1"
    "(case read_range_checked (buffer fi) (off + unat (unsigned_abs (cell_size_at (buffer fi) off)))
            (unat (unsigned_abs (cell_size_at (buffer fi) off))) of
        Some data \<Rightarrow> unused_cells_loop N fuel fi m data (off + unat (unsigned_abs (cell_size_at (buffer fi) off))) st1
      | None \<Rightarrow> Ok (off + unat (unsigned_abs (cell_size_at (buffer fi) off)), st1)) = Ok (off', st')"
proof -
  define input where "input = take n (drop off (buffer fi))"
  have i: "nom_le_i32 N input = Ok (drop 4 input, cell_size_at (buffer fi) off)"
    using assms(3,4) by (simp add: input_def nom_spec.le_i32 [OF assms(1)] le_doc_eq_Ok cell_size_at_def min_absorb1)
  from assms(6) [folded input_def] i assms(2,5) show ?thesis
    by (subst (asm) unused_cells_loop.simps) (auto simp: Let_def bindO_eq_Ok input_def intro: that)
qed

lemma cell_visited:
  assumes "nom_spec N"
  shows "cell_chain (buffer fi) m off c \<Longrightarrow> c + 6 \<le> length (buffer fi) \<Longrightarrow> cell_size_at (buffer fi) c \<noteq> 0 \<Longrightarrow>
    6 \<le> n \<Longrightarrow> unused_cells_loop N fuel fi m (take n (drop off (buffer fi))) off st = Ok (off', st') \<Longrightarrow>
    \<exists>ict sz st1 st2. take 2 ict = take 2 (drop (c + 4) (buffer fi)) \<and>
      recover_cell N fuel fi ict c sz st1 = Ok st2 \<and> recovered st st1 \<and> recovered st2 st'"
proof (induction arbitrary: n st rule: cell_chain.induct)
  case (here off)
  obtain st1 where r: "recover_cell N fuel fi (drop 4 (take n (drop off (buffer fi)))) off
      (unat (unsigned_abs (cell_size_at (buffer fi) off))) st = Ok st1"
    and l: "(case read_range_checked (buffer fi) (off + unat (unsigned_abs (cell_size_at (buffer fi) off)))
            (unat (unsigned_abs (cell_size_at (buffer fi) off))) of
        Some data \<Rightarrow> unused_cells_loop N fuel fi m data (off + unat (unsigned_abs (cell_size_at (buffer fi) off))) st1
      | None \<Rightarrow> Ok (off + unat (unsigned_abs (cell_size_at (buffer fi) off)), st1)) = Ok (off', st')"
    by (rule loop_round [OF assms here(1,2,4,3,5)])
  have "recovered st1 st'"
    using l ensuresD [OF unused_cells_recovered] by (fastforce split: option.splits)
  moreover have "take 2 (drop 4 (take n (drop off (buffer fi)))) = take 2 (drop (off + 4) (buffer fi))"
    using here(4) by (simp add: drop_take min_absorb1 add.commute)
  ultimately show ?case using r recovered_refl [of st] by blast
next
  case (further off c)
  let ?sz = "unat (unsigned_abs (cell_size_at (buffer fi) off))"
  have o: "off + 6 \<le> length (buffer fi)" "off + ?sz < length (buffer fi)"
    using cell_chain_le [OF further(3)] further(2,5) by linarith+
  have "cell_size_at (buffer fi) off \<noteq> 0" using further(2) by (auto simp: unsigned_abs_def)
  then obtain st1 where r: "recover_cell N fuel fi (drop 4 (take n (drop off (buffer fi)))) off ?sz st = Ok st1"
    and l: "(case read_range_checked (buffer fi) (off + ?sz) ?sz of
        Some data \<Rightarrow> unused_cells_loop N fuel fi m data (off + ?sz) st1 | None \<Rightarrow> Ok (off + ?sz, st1)) = Ok (off', st')"
    by (rule loop_round [OF assms further(1) o(1) further(7) _ further(8)])
  have "read_range_checked (buffer fi) (off + ?sz) ?sz = Some (take ?sz (drop (off + ?sz) (buffer fi)))"
    using o(2) by (simp add: read_range_checked_def get_range_def min_def)
  with l have "unused_cells_loop N fuel fi m (take ?sz (drop (off + ?sz) (buffer fi))) (off + ?sz) st1 = Ok (off', st')"
    by simp
  from further(4) [OF further(5,6,2) this] recovered_trans [OF ensuresD [OF recover_cell_recovered r]]
  show ?case by blast
qed

lemma bin_visited:
  assumes "nom_cell_spec N" and "find_free_in_hbin N fuel fi off st = Ok (off', st')"
    and "HiveBinHeader_from_bytes N fi (drop off (buffer fi)) = Ok (rest, h)"
    and "cell_chain (buffer fi) (off + unat (hbh_size h)) (off + 32) c"
    and "c + 6 \<le> length (buffer fi)" and "cell_size_at (buffer fi) c \<noteq> 0"
  obtains ict sz st1 st2 where "take 2 ict = take 2 (drop (c + 4) (buffer fi))"
    "recover_cell N fuel fi ict c sz st1 = Ok st2" "recovered st st1" "recovered st2 st'"
proof -
  have le: "off + 32 < length (buffer fi)" using cell_chain_le [OF assms(4)] assms(5) by simp
  have r: "rest = drop (off + 32) (buffer fi)"
    using nom_cell_spec.hbin_header_32 [OF assms(1,3)] by (simp add: add.commute)
  have "get_file_offset fi rest = off + 32" using le by (simp add: r get_file_offset_def ptr_diff_def)
  with assms(2,3) le have "unused_cells_loop N fuel fi (off + unat (hbh_size h))
      (take (length (buffer fi)) (drop (off + 32) (buffer fi))) (off + 32) st = Ok (off', st')"
    by (simp add: find_free_in_hbin_def find_unused_cells_in_hbin_def read_checked_def get_from_def)
  with cell_visited [OF _ assms(4,5,6) _ this] assms(1,5) show ?thesis by (auto simp: nom_cell_spec_def intro: that)
qed

lemma deleted_values_kept: "recovered st st' \<Longrightarrow> v \<in> set (vec_or_default (deleted_values st [])) \<Longrightarrow>
    v \<in> set (vec_or_default (deleted_values st' []))"
  by (auto simp: recovered_def)

lemma deleted_keys_kept: "recovered st st' \<Longrightarrow> k \<in> set (vec_or_default (deleted_keys st [])) \<Longrightarrow>
    k \<in> set (vec_or_default (deleted_keys st' []))"
  by (auto simp: recovered_def)

lemma recover_free_value:
  assumes "nom_cell_spec N" and "recover_cell N fuel fi ict c sz st = Ok st'" and "take 2 ict = bytes_of ''vk''"
    and "c < length (buffer fi)" and "CellKeyValue_from_bytes N (drop c (buffer fi)) c None False = Ok (rest, v)"
    and "kv_is_free v" and "CellKeyValue_read_value_bytes N fi v = Ok v'"
  shows "kv_set_cell_state DeletedPrimaryFile v' \<in> set (vec_or_default (deleted_values st' []))"
proof -
  have "read_cell_type N ict = CellVal"
    unfolding nom_cell_spec.read_cell_type_signature [OF assms(1)] assms(3)
    by (simp add: bytes_of_def byte_of_char_def of_char_def)
  with assms(2,4-7) show ?thesis
    by (auto simp: recover_cell_def Let_def read_checked_def get_from_def recover_cell_key_value_def bindO_eq_Ok
        DeletedValueMap_add_def vec_push_get vec_or_default_def)
qed

lemma CellKeyNode_from_bytes_state:
  "get_full_field_info st' = get_full_field_info st \<Longrightarrow>
     CellKeyNode_from_bytes N st' i off cur seq = CellKeyNode_from_bytes N st i off cur seq"
  by (simp add: CellKeyNode_from_bytes_def)

lemma read_values_loop_no_error: "nom_spec N \<Longrightarrow> read_values_loop N fi full seq vs k \<noteq> Err e"
proof (induction vs arbitrary: k)
  case (Cons v vs)
  have "CellKeyValue_read_value_bytes N fi x \<noteq> Err e" for x
    using nom_spec.CellKeyValue_read_value_bytes_total [OF Cons.prems, of fi x] by auto
  with Cons show ?case by (simp add: Let_def bindO_eq_Err split: outcome.split)
qed simp

lemma read_values_no_error: "nom_spec N \<Longrightarrow> read_values N fi st seq k \<noteq> Err e"
  by (simp add: read_values_def Let_def read_values_loop_no_error split: outcome.split)

lemma read_plain_total:
  assumes "nom_spec N" and "hbin_offset_absolute fi < 2 ^ 63" and "CellKeyNode_from_bytes N st sl off [] None = Ok (rest, k0)"
  shows "\<exists>k. read_from_slice N fuel fi st sl \<lparr>ro_offset = off, ro_cur_path = [], ro_filter = None,
      ro_self_is_filter_match_or_descendent = True, ro_sequence_num = None, ro_get_deleted_and_modified = False\<rparr> =
    Ok (Some k, st) \<and> same_key k0 k"
proof -
  let ?opts = "\<lparr>ro_offset = off, ro_cur_path = [], ro_filter = None, ro_self_is_filter_match_or_descendent = True,
      ro_sequence_num = None, ro_get_deleted_and_modified = False\<rparr>"
  have "safe (read_values N fi st None k0)" by (rule nom_spec.safe_read_values [OF assms(1,2)])
  moreover have "read_values N fi st None k0 \<noteq> Err e" for e by (rule read_values_no_error [OF assms(1)])
  ultimately have "\<exists>x. read_from_slice N fuel fi st sl ?opts = Ok x"
    using assms(3)
    by (cases "read_values N fi st None k0")
       (auto simp: read_from_slice_def Let_def flags_contain_def FILTER_ITERATE_KEYS_def FILTER_NO_MATCH_def)
  then obtain r st' where "read_from_slice N fuel fi st sl ?opts = Ok (r, st')" by auto
  with ensuresD [OF read_plain [of ?opts st N sl fuel fi] this] assms(3) show ?thesis by auto
qed

lemma recover_free_key:
  assumes "nom_cell_spec N" and "hbin_offset_absolute fi < 2 ^ 63" and "recover_cell N fuel fi ict c sz st = Ok st'"
    and "take 2 ict = bytes_of ''nk''" and "c < length (buffer fi)"
    and "CellKeyNode_from_bytes N st (drop c (buffer fi)) c [] None = Ok (rest, k0)" and "kn_is_free k0"
  shows "\<exists>k \<in> set (vec_or_default (deleted_keys st' [])).
    same_key (kn_set_cell_state DeletedPrimaryFile k0) k"
proof -
  have t: "read_cell_type N ict = CellKey"
    unfolding nom_cell_spec.read_cell_type_signature [OF assms(1)] assms(4)
    by (simp add: bytes_of_def byte_of_char_def of_char_def)
  have "nom_spec N" using assms(1) by (simp add: nom_cell_spec_def)
  from read_plain_total [OF this assms(2,6)] obtain k where
    k: "read_from_slice N 0 fi st (drop c (buffer fi)) \<lparr>ro_offset = c, ro_cur_path = [], ro_filter = None,
      ro_self_is_filter_match_or_descendent = True, ro_sequence_num = None, ro_get_deleted_and_modified = False\<rparr> =
    Ok (Some k, st)" and same: "same_key k0 k" by blast
  have "kn_is_free k" using same assms(7) by (simp add: kn_is_free_def same_key_def)
  then have "kn_set_cell_state DeletedPrimaryFile k \<in> set (vec_or_default (deleted_keys st' []))"
    using t k assms(3,5)
    by (auto simp: recover_cell_def Let_def read_checked_def get_from_def recover_cell_key_node_def bindO_eq_Ok
        ModifiedDeletedKeyMap_add_def vec_push_get vec_or_default_def)
  moreover have "same_key (kn_set_cell_state DeletedPrimaryFile k0) (kn_set_cell_state DeletedPrimaryFile k)"
    using same by (simp add: same_key_def kn_set_cell_state_def)
  ultimately show ?thesis by blast
qed

section \<open>Properties\<close>

text \<open>
  C4: the recovery of deleted items ends without a panic on every file, whatever its bytes; fuel beyond
  the lengths of the file and of the hive bins is enough.
\<close>

theorem recovery_ends:
  assumes "nom_cell_spec N" and "hbin_offset_absolute (p_file_info p) < 2 ^ 63" and "p_base_block p = Some bb"
    and "length (buffer (p_file_info p)) < fuel" and "unat (hive_bins_data_size (base bb)) < fuel"
  shows "(\<exists>p'. init_recover_deleted N fuel p = Ok p') \<or> (\<exists>e. init_recover_deleted N fuel p = Err e)"
proof -
  have "safe (free_keys_and_values_loop N fuel (p_file_info p) (hive_bins_data_size (base bb)) fuel
      (hbin_offset_absolute (p_file_info p)) (p_state p))"
    using assms(5) by (intro nom_cell_spec.safe_free_loop [OF assms(1,2,4)]) simp
  then show ?thesis
    using assms(3)
    by (cases rule: safe_cases)
       (simp_all add: init_recover_deleted_def find_free_keys_and_values_def expect_base_def)
qed

text \<open>
  C22: the recovery only adds.  Every key and value it adds stands under the empty path, behind what was
  there, and is marked as deleted in the primary file; the log of the parser only gets recovery
  warnings behind its entries; the lists of modified items, the deleted items of every other path,
  the option for full field information, the root path offset and the rest of the parser stay as
  they were.
\<close>

theorem recovery_adds_only_deleted:
  assumes "init_recover_deleted N fuel p = Ok p'"
  shows "(\<exists>ks. vec_or_default (deleted_keys (p_state p') []) = vec_or_default (deleted_keys (p_state p) []) @ ks \<and>
            (\<forall>k \<in> set ks. is_deleted_primary_file (kn_cell_state (kn k)) \<and> kn_deleted_keys k = [])) \<and>
    (\<exists>vs. vec_or_default (deleted_values (p_state p') []) = vec_or_default (deleted_values (p_state p) []) @ vs \<and>
            (\<forall>v \<in> set vs. is_deleted_primary_file (kv_cell_state (kv v)))) \<and>
    (\<forall>path. path \<noteq> [] \<longrightarrow> deleted_keys (p_state p') path = deleted_keys (p_state p) path \<and>
                        deleted_values (p_state p') path = deleted_values (p_state p) path) \<and>
    modified_keys (p_state p') = modified_keys (p_state p) \<and> modified_values (p_state p') = modified_values (p_state p) \<and>
    get_full_field_info (p_state p') = get_full_field_info (p_state p) \<and>
    root_key_path_offset (p_state p') = root_key_path_offset (p_state p) \<and>
    (\<exists>ws. log_entries (info (p_state p')) = log_entries (info (p_state p)) @ ws \<and>
            (\<forall>w \<in> set ws. log_code w = WarningRecovery)) \<and>
    p' = p\<lparr>p_state := p_state p'\<rparr>"
proof -
  obtain b :: BaseBlockBase and st' where b: "free_keys_and_values_loop N fuel (p_file_info p) (hive_bins_data_size b) fuel
      (hbin_offset_absolute (p_file_info p)) (p_state p) = Ok st'" and p': "p' = p\<lparr>p_state := st'\<rparr>"
    using assms by (auto simp: init_recover_deleted_def find_free_keys_and_values_def bindO_eq_Ok)
  from ensuresD [OF free_loop_recovered b] show ?thesis unfolding recovered_def p' by simp
qed

text \<open>
  C5: the scan of a hive bin finds every free key and every free value the sizes of the cells lead to:
  what the parser of such a cell reads is then among the deleted items, marked as deleted.
\<close>

theorem free_cells_recovered:
  assumes "nom_cell_spec N" and "hbin_offset_absolute fi < 2 ^ 63" and "find_free_in_hbin N fuel fi off st = Ok (off', st')"
    and "HiveBinHeader_from_bytes N fi (drop off (buffer fi)) = Ok (rest, h)"
    and "cell_chain (buffer fi) (off + unat (hbh_size h)) (off + 32) c"
    and "c + 6 \<le> length (buffer fi)" and "cell_size_at (buffer fi) c \<noteq> 0"
  shows "(take 2 (drop (c + 4) (buffer fi)) = bytes_of ''vk'' \<longrightarrow>
      CellKeyValue_from_bytes N (drop c (buffer fi)) c None False = Ok (r, v) \<longrightarrow> kv_is_free v \<longrightarrow>
      CellKeyValue_read_value_bytes N fi v = Ok v' \<longrightarrow>
      kv_set_cell_state DeletedPrimaryFile v' \<in> set (vec_or_default (deleted_values st' []))) \<and>
    (take 2 (drop (c + 4) (buffer fi)) = bytes_of ''nk'' \<longrightarrow>
      CellKeyNode_from_bytes N st (drop c (buffer fi)) c [] None = Ok (rk, k0) \<longrightarrow> kn_is_free k0 \<longrightarrow>
      (\<exists>k \<in> set (vec_or_default (deleted_keys st' [])).
         kn_cell_state (kn k) = DeletedPrimaryFile \<and> kn_file_offset_absolute (kn k) = kn_file_offset_absolute (kn k0) \<and>
         kn_key_name (kn k) = kn_key_name (kn k0) \<and> kn_detail (kn k) = kn_detail (kn k0)))"
proof -
  obtain ict sz st1 st2 where t: "take 2 ict = take 2 (drop (c + 4) (buffer fi))"
    and r: "recover_cell N fuel fi ict c sz st1 = Ok st2" "recovered st st1" "recovered st2 st'"
    by (rule bin_visited [OF assms(1,3-7)])
  have c: "c < length (buffer fi)" using assms(6) by simp
  have "CellKeyNode_from_bytes N st1 i o' [] None = CellKeyNode_from_bytes N st i o' [] None" for i o'
    using r(2) by (intro CellKeyNode_from_bytes_state) (simp add: recovered_def)
  then show ?thesis
    using recover_free_value [OF assms(1) r(1) _ c] recover_free_key [OF assms(1,2) r(1) _ c] t
      deleted_values_kept [OF r(3)] deleted_keys_kept [OF r(3)]
    by (fastforce simp: same_key_def kn_set_cell_state_def)
qed

section \<open>Witnesses\<close>

lemma recover_never_fails:
  assumes "nom_spec N" and "\<And>slack so st e. scan slack so st \<noteq> Err e"
  shows "recover_cell_key_value scan N fi i off cs b st \<noteq> Err e" "recover_cell_key_node scan N fi i off cs b st \<noteq> Err e"
proof -
  have "CellKeyValue_read_value_bytes N fi v \<noteq> Err e" for v
    using nom_spec.CellKeyValue_read_value_bytes_total [OF assms(1), of fi v] by auto
  then show "recover_cell_key_value scan N fi i off cs b st \<noteq> Err e"
    by (simp add: recover_cell_key_value_def bindO_eq_Err assms(2) split: outcome.split prod.split)
  show "recover_cell_key_node scan N fi i off cs b st \<noteq> Err e"
    by (simp add: recover_cell_key_node_def bindO_eq_Err assms(2) split: outcome.split prod.split option.split)
qed

lemma slack_never_fails: "nom_spec N \<Longrightarrow> find_cells_in_slack_internal N fi fuel i start off st \<noteq> Err e"
proof (induction fuel arbitrary: i start off st e)
  case (Suc fuel)
  let ?scan = "\<lambda>slack off st. bindO (find_cells_in_slack_internal N fi fuel slack off 0 st) (\<lambda>(_, st). Ok st)"
  have "?scan slack so st \<noteq> Err e" for slack so st e
    using Suc by (auto simp: bindO_eq_Err)
  note r = recover_never_fails [OF Suc.prems this]
  show ?case
    using Suc r by (simp add: Let_def bindO_eq_Err split: outcome.split prod.split CellType.split)
qed simp

lemma recover_cell_total:
  assumes "nom_cell_spec N" and "hbin_offset_absolute fi < 2 ^ 63" and "length (buffer fi) < fuel"
  shows "\<exists>st'. recover_cell N fuel fi i off sz st = Ok st'"
proof -
  have ns: "nom_spec N" using assms(1) by (simp add: nom_cell_spec_def)
  have sc: "find_cells_in_slack N fi fuel slack so st \<noteq> Err e" for slack so st e
    using slack_never_fails [OF ns] by (auto simp: find_cells_in_slack_def bindO_eq_Err)
  have "recover_cell N fuel fi i off sz st \<noteq> Err e" for e
    using recover_never_fails [OF ns, of "find_cells_in_slack N fi fuel"] sc
    by (simp add: recover_cell_def Let_def bindO_eq_Err split: CellType.split option.split)
  with nom_cell_spec.safe_recover_cell [OF assms, of i off sz st] show ?thesis
    by (cases "recover_cell N fuel fi i off sz st") auto
qed

context nom_spec
begin

lemma key_size:
  "ensures (\<lambda>(r, k). \<exists>j. nom_le_i32 N input = Ok (j, field_value (knd_size (kn_detail (kn k)))))
     (CellKeyNode_from_bytes N st input off cur seq)"
  unfolding CellKeyNode_from_bytes_def Let_def case_prod_beta [of _ "KeyNodeFlags_from_bits_checked _ _"]
  apply (rule ensures_bind_prod)
  apply (rule ensures_if, simp)
  apply (rule ensures_bind_prod)+
  apply simp
  done

end

text \<open>A hive bin whose only cell is a free key.\<close>

definition bin_bytes :: bytes where
  "bin_bytes = bytes_of ''hbin'' @ to_le_bytes (0 :: u32) @ to_le_bytes (120 :: u32) @ replicate 20 0"

definition bin_file :: FileInfo where
  "bin_file = \<lparr>hbin_offset_absolute = 0, buffer = bin_bytes @ nk_bytes 88 sample_nk\<rparr>"

lemma length_bin: "length bin_bytes = 32" "length (nk_bytes 88 sample_nk) = 88" "length (buffer bin_file) = 120"
  by (simp_all add: bin_bytes_def bin_file_def length_nk_bytes sample_nk_def lit_len)

lemma bin_offset: "hbin_offset_absolute bin_file = 0"
  by (simp add: bin_file_def)

lemma bin_header:
  "\<exists>h. HiveBinHeader_from_bytes env_cell_ref bin_file (buffer bin_file) = Ok (nk_bytes 88 sample_nk, h) \<and> hbh_size h = 120"
  by (simp add: HiveBinHeader_from_bytes_def bin_file_def bin_bytes_def Let_def ref_nom_cell.tag ref_nom_cell.le_u32
      ref_nom_cell.le_u64 doc_Ok lit_len cong: bindO_weak_cong)

lemma bin_cell: "take 4 (nk_bytes 88 sample_nk) = to_le_bytes (88 :: i32)" "take 2 (drop 4 (nk_bytes 88 sample_nk)) = bytes_of ''nk''"
  "cell_size_at (buffer bin_file) 32 = 88" "drop 32 (buffer bin_file) = nk_bytes 88 sample_nk"
  by (simp_all add: nk_bytes_def cell_size_at_def bin_file_def length_bin)

lemma bin_key:
  "\<exists>k. CellKeyNode_from_bytes env_cell_ref st (drop 32 (buffer bin_file)) 32 [] None = Ok ([], k) \<and> kn_is_free k \<and>
     kn_key_name (kn k) = utf8 (map unat (nk_name sample_nk))"
proof -
  have h: "length (nk_name sample_nk) < 2 ^ 16" "unat (unsigned_abs 88) = 80 + length (nk_name sample_nk) + length (nk_slack sample_nk)"
    "flags_contain (nk_flags sample_nk) KEY_COMP_NAME" "nk_flags sample_nk AND KeyNodeFlags_all = nk_flags sample_nk"
    by (simp_all add: sample_nk_def unsigned_abs_def flags_contain_def KEY_COMP_NAME_def KeyNodeFlags_all_def KEY_HIVE_ENTRY_def)
  obtain k where k: "CellKeyNode_from_bytes env_cell_ref st (nk_bytes 88 sample_nk) 32 [] None = Ok ([], k)"
    and n: "kn_key_name (kn k) = utf8 (map unat (nk_name sample_nk))"
    using nk_parse [OF ref_nom_cell.nom_spec_axioms h, of st "[]" 32 "[]" None] by auto
  have "field_value (knd_size (kn_detail (kn k))) = 88"
    using ensuresD [OF ref_nom_cell.key_size k] by (auto simp: ref_nom_cell.le_i32 le_doc_eq_Ok bin_cell)
  then have "kn_is_free k" by (simp add: kn_is_free_def)
  with k n show ?thesis by (auto simp: bin_cell)
qed

lemma bin_scanned: "\<exists>st'. find_free_in_hbin env_cell_ref 200 bin_file 0 st = Ok (120, st')"
proof -
  obtain st' where "recover_cell env_cell_ref 200 bin_file (drop 4 (nk_bytes 88 sample_nk)) 32 88 st = Ok st'"
    using recover_cell_total [OF ref_nom_cell.nom_cell_spec_axioms, of bin_file 200 "drop 4 (nk_bytes 88 sample_nk)" 32 88 st]
    by (auto simp: length_bin bin_offset)
  moreover have "read_range_checked (buffer bin_file) 120 88 = None"
    by (simp add: read_range_checked_def length_bin)
  moreover have "nom_le_i32 env_cell_ref (nk_bytes 88 sample_nk) = Ok (drop 4 (nk_bytes 88 sample_nk), 88)"
    by (simp add: ref_nom_cell.le_i32 le_doc_eq_Ok bin_cell length_bin)
  ultimately have "unused_cells_loop env_cell_ref 200 bin_file 120 (nk_bytes 88 sample_nk) 32 st = Ok (120, st')"
    by (subst unused_cells_loop.simps) (simp add: unsigned_abs_def)
  with bin_header show ?thesis
    by (auto simp: find_free_in_hbin_def find_unused_cells_in_hbin_def read_checked_def get_from_def length_bin bin_cell
        get_file_offset_def ptr_diff_def)
qed

definition bin_parser :: "BaseBlock \<Rightarrow> Parser" where
  "bin_parser bb = \<lparr>p_file_info = bin_file, p_state = State_default,
     p_base_block = Some (bb\<lparr>base := (base bb)\<lparr>hive_bins_data_size := 120\<rparr>\<rparr>), p_hive_bin_header = None,
     p_cell_key_node_root = None, p_recover_deleted = True, p_update_console = False\<rparr>"

lemma bin_recovered:
  obtains p' where "init_recover_deleted env_cell_ref 200 (bin_parser bb) = Ok p'"
proof -
  obtain st' where "find_free_in_hbin env_cell_ref 200 bin_file 0 State_default = Ok (120, st')"
    using bin_scanned by blast
  then have "free_keys_and_values_loop env_cell_ref 200 bin_file 120 (Suc (Suc n)) 0 State_default = Ok st'" for n
    by simp
  from this [of 198] show ?thesis
    by (intro that) (simp add: init_recover_deleted_def find_free_keys_and_values_def expect_base_def bin_parser_def bin_offset)
qed

theorem recovery_ends_witness:
  "\<forall>bb. (\<exists>p'. init_recover_deleted env_cell_ref 200 (bin_parser bb) = Ok p') \<or>
        (\<exists>e. init_recover_deleted env_cell_ref 200 (bin_parser bb) = Err e)"
proof
  fix bb
  show "(\<exists>p'. init_recover_deleted env_cell_ref 200 (bin_parser bb) = Ok p') \<or>
      (\<exists>e. init_recover_deleted env_cell_ref 200 (bin_parser bb) = Err e)"
    by (rule recovery_ends [OF ref_nom_cell.nom_cell_spec_axioms, of _ "bb\<lparr>base := (base bb)\<lparr>hive_bins_data_size := 120\<rparr>\<rparr>"])
       (simp_all add: bin_parser_def bin_offset length_bin)
qed

theorem recovery_adds_only_deleted_witness:
  "\<forall>bb. \<exists>p'. init_recover_deleted env_cell_ref 200 (bin_parser bb) = Ok p' \<and>
     (\<forall>k \<in> set (vec_or_default (deleted_keys (p_state p') [])). is_deleted_primary_file (kn_cell_state (kn k)))"
proof
  fix bb
  obtain p' where p': "init_recover_deleted env_cell_ref 200 (bin_parser bb) = Ok p'" by (rule bin_recovered)
  from recovery_adds_only_deleted [OF p'] p'
  show "\<exists>p'. init_recover_deleted env_cell_ref 200 (bin_parser bb) = Ok p' \<and>
     (\<forall>k \<in> set (vec_or_default (deleted_keys (p_state p') [])). is_deleted_primary_file (kn_cell_state (kn k)))"
    by (auto simp: bin_parser_def State_default_def vec_or_default_def)
qed

theorem free_cells_recovered_witness:
  "\<exists>st'. find_free_in_hbin env_cell_ref 200 bin_file 0 State_default = Ok (120, st') \<and>
     (\<exists>k \<in> set (vec_or_default (deleted_keys st' [])).
        kn_cell_state (kn k) = DeletedPrimaryFile \<and> kn_key_name (kn k) = utf8 (map unat (nk_name sample_nk)))"
proof -
  obtain st' where s: "find_free_in_hbin env_cell_ref 200 bin_file 0 State_default = Ok (120, st')"
    using bin_scanned by blast
  obtain h where h: "HiveBinHeader_from_bytes env_cell_ref bin_file (drop 0 (buffer bin_file)) = Ok (nk_bytes 88 sample_nk, h)"
    and hs: "hbh_size h = 120"
    using bin_header by auto
  obtain k where k: "CellKeyNode_from_bytes env_cell_ref State_default (drop 32 (buffer bin_file)) 32 [] None = Ok ([], k)"
    "kn_is_free k" "kn_key_name (kn k) = utf8 (map unat (nk_name sample_nk))"
    using bin_key by blast
  have "cell_chain (buffer bin_file) (0 + unat (hbh_size h)) (0 + 32) 32" by (simp add: hs cell_chain.here)
  moreover have "take 2 (drop (32 + 4) (buffer bin_file)) = bytes_of ''nk''"
    using bin_cell(2,4) by (metis add.commute drop_drop)
  ultimately show ?thesis
    using free_cells_recovered [OF ref_nom_cell.nom_cell_spec_axioms _ s h, of 32, THEN conjunct2, of "[]" k] k s
    by (auto simp: bin_offset length_bin bin_cell)
qed

text \<open>
  The loop over the hive bins compares an offset in the file with a size that does not count the base
  block: the last bytes of the hive, and a hive of one bin altogether, are not looked at.
\<close>

lemma single_bin_not_scanned:
  assumes "p_base_block p = Some bb" and "unat (hive_bins_data_size (base bb)) \<le> hbin_offset_absolute (p_file_info p)"
    and "0 < fuel"
  shows "find_free_keys_and_values N fuel p = Ok (True, p)"
  using assms by (cases fuel) (simp_all add: find_free_keys_and_values_def expect_base_def)

end
