(* ===== verification/Log_Facts.thy ===== *)
theory Log_Facts
  imports Apply_Logs Recovery_Facts "HOL-Library.Multiset"
begin

text \<open>
  What holds of the application of transaction logs: which bytes the dirty pages change, which entries of
  a log are applied and with which sequence number it ends, how the analysis sorts the items of the new
  tree, and that a parser never counts an allocated key as deleted.
\<close>

section \<open>Dirty pages\<close>

definition page_start :: "FileInfo \<Rightarrow> DirtyPage \<Rightarrow> nat" where
  "page_start fi pg = unat (dirty_page_ref_offset pg) + hbin_offset_absolute fi"

definition page_covers :: "FileInfo \<Rightarrow> nat \<Rightarrow> DirtyPage \<Rightarrow> bool" where
  "page_covers fi i pg \<longleftrightarrow> page_start fi pg \<le> i \<and> i < page_start fi pg + length (page_bytes pg)"

definition page_fits :: "FileInfo \<Rightarrow> DirtyPage \<Rightarrow> bool" where
  "page_fits fi pg \<longleftrightarrow> page_start fi pg + length (page_bytes pg) \<le> length (buffer fi)"

text \<open>The byte at a place after the pages: that of the last page that covers it.\<close>

definition byte_after :: "FileInfo \<Rightarrow> DirtyPage list \<Rightarrow> nat \<Rightarrow> u8" where
  "byte_after fi pages i =
     (case find (page_covers fi i) (rev pages) of
        Some pg \<Rightarrow> page_bytes pg ! (i - page_start fi pg)
      | None \<Rightarrow> buffer fi ! i)"

lemma find_append: "find P (xs @ ys) = (case find P xs of Some x \<Rightarrow> Some x | None \<Rightarrow> find P ys)"
  by (induction xs) auto

lemma page_cong:
  "hbin_offset_absolute fi' = hbin_offset_absolute fi \<Longrightarrow> page_start fi' = page_start fi"
  "hbin_offset_absolute fi' = hbin_offset_absolute fi \<Longrightarrow> page_covers fi' = page_covers fi"
  by (auto simp: page_start_def page_covers_def fun_eq_iff)

lemma copied_nth:
  assumes "page_fits fi pg" and "i < length (buffer fi)"
  shows "(take (page_start fi pg) (buffer fi) @ page_bytes pg @ drop (page_start fi pg + length (page_bytes pg)) (buffer fi)) ! i =
    byte_after fi [pg] i"
  using assms
  by (auto simp: byte_after_def page_covers_def page_fits_def nth_append min_def)

lemma apply_one_page:
  "apply_dirty_pages (pg # pages) fi =
     (if page_fits fi pg
      then apply_dirty_pages pages (fi\<lparr>buffer := map (byte_after fi [pg]) [0..<length (buffer fi)]\<rparr>)
      else Err (Error_buffer ''update_parser''))"
proof (cases "page_fits fi pg")
  case True
  have "take (page_start fi pg) (buffer fi) @ page_bytes pg @ drop (page_start fi pg + length (page_bytes pg)) (buffer fi) =
      map (byte_after fi [pg]) [0..<length (buffer fi)]"
    using True by (intro nth_equalityI) (auto simp: copied_nth page_fits_def)
  with True show ?thesis
    by (simp add: Let_def page_fits_def page_start_def ok_or_def get_range_def copy_at_def)
next
  case False
  then show ?thesis by (simp add: Let_def page_fits_def page_start_def ok_or_def get_range_def)
qed

lemma byte_after_Cons:
  assumes "i < length (buffer fi)"
  shows "byte_after (fi\<lparr>buffer := map (byte_after fi [pg]) [0..<length (buffer fi)]\<rparr>) pages i = byte_after fi (pg # pages) i"
proof -
  let ?fi = "fi\<lparr>buffer := map (byte_after fi [pg]) [0..<length (buffer fi)]\<rparr>"
  have c: "page_start ?fi = page_start fi" "page_covers ?fi = page_covers fi" by (rule page_cong, simp)+
  show ?thesis
    using assms by (simp add: byte_after_def c find_append split: option.splits)
qed

text \<open>
  C8: the dirty pages of an entry are either all inside the file, and then every byte of the file is that
  of the last page that covers it, or the one it was, and the length stays; or one of them is not, and
  then the log is refused with an error.
\<close>

theorem dirty_pages_applied:
  "apply_dirty_pages pages fi =
     (if \<forall>pg \<in> set pages. page_start fi pg + length (page_bytes pg) \<le> length (buffer fi)
      then Ok (fi\<lparr>buffer := map (byte_after fi pages) [0..<length (buffer fi)]\<rparr>)
      else Err (Error_buffer ''update_parser''))"
proof (induction pages arbitrary: fi)
  case Nil
  have "byte_after fi [] = (!) (buffer fi)" by (simp add: byte_after_def fun_eq_iff)
  then show ?case by (simp add: map_nth)
next
  case (Cons pg pages)
  show ?case
  proof (cases "page_fits fi pg")
    case True
    let ?fi = "fi\<lparr>buffer := map (byte_after fi [pg]) [0..<length (buffer fi)]\<rparr>"
    have c: "page_start ?fi = page_start fi" by (rule page_cong) simp
    have "map (byte_after ?fi pages) [0..<length (buffer fi)] = map (byte_after fi (pg # pages)) [0..<length (buffer fi)]"
      by (rule map_cong) (simp_all add: byte_after_Cons)
    with Cons.IH [of ?fi] True show ?thesis
      by (simp add: apply_one_page c del: apply_dirty_pages.simps) (simp add: page_fits_def)
  next
    case False
    then show ?thesis by (simp add: apply_one_page del: apply_dirty_pages.simps) (simp add: page_fits_def)
  qed
qed

theorem dirty_pages_applied_witness:
  "apply_dirty_pages [\<lparr>dirty_page_ref_offset = 0, page_bytes = [7, 8]\<rparr>, \<lparr>dirty_page_ref_offset = 1, page_bytes = [9]\<rparr>]
     \<lparr>hbin_offset_absolute = 1, buffer = [1, 2, 3, 4]\<rparr> = Ok \<lparr>hbin_offset_absolute = 1, buffer = [1, 7, 9, 4]\<rparr>"
  using dirty_pages_applied [of "[\<lparr>dirty_page_ref_offset = 0, page_bytes = [7, 8]\<rparr>, \<lparr>dirty_page_ref_offset = 1, page_bytes = [9]\<rparr>]"
      "\<lparr>hbin_offset_absolute = 1, buffer = [1, 2, 3, 4]\<rparr>"]
  by (simp add: page_start_def byte_after_def page_covers_def upt_rec)

section \<open>The entries that are applied\<close>

text \<open>The entries of a log that are applied, when \<open>prev\<close> is the last sequence number applied, 0 for none.\<close>

fun applicable :: "u32 \<Rightarrow> u32 \<Rightarrow> LogEntry list \<Rightarrow> LogEntry list" where
  "applicable sec_seq prev [] = []"
| "applicable sec_seq prev (e # es) =
     (if \<not> has_valid_hashes e then []
      else if le_sequence_number e < sec_seq then applicable sec_seq prev es
      else if \<not> is_valid_hive_bin_data_size e \<or> prev \<noteq> 0 \<and> le_sequence_number e \<noteq> prev + 1 then []
      else e # applicable sec_seq (le_sequence_number e) es)"

lemma applicable_props:
  "e \<in> set (applicable sec prev es) \<Longrightarrow>
     e \<in> set es \<and> has_valid_hashes e \<and> sec \<le> le_sequence_number e \<and> is_valid_hive_bin_data_size e"
  by (induction sec prev es rule: applicable.induct) (auto split: if_splits)

lemma applicable_hd: "applicable sec prev es = e # es' \<Longrightarrow> prev \<noteq> 0 \<Longrightarrow> le_sequence_number e = prev + 1"
  by (induction sec prev es rule: applicable.induct) (auto split: if_splits)

lemma applicable_consecutive:
  "Suc i < length (applicable sec prev es) \<Longrightarrow> le_sequence_number (applicable sec prev es ! i) \<noteq> 0 \<Longrightarrow>
     le_sequence_number (applicable sec prev es ! Suc i) = le_sequence_number (applicable sec prev es ! i) + 1"
proof (induction sec prev es arbitrary: i rule: applicable.induct)
  case (2 sec prev e es)
  show ?case
  proof (cases i)
    case 0
    with 2 show ?thesis
      by (cases "applicable sec (le_sequence_number e) es") (auto split: if_splits dest: applicable_hd)
  next
    case (Suc j)
    with 2 show ?thesis by (auto split: if_splits)
  qed
qed simp

text \<open>The file after a list of entries.\<close>

primrec apply_entries :: "u32 \<Rightarrow> LogEntry list \<Rightarrow> FileInfo \<Rightarrow> FileInfo result" where
  "apply_entries bins_size [] fi = Ok fi"
| "apply_entries bins_size (e # es) fi =
     bindO (apply_dirty_pages (dirty_pages e) (resize_buffer bins_size e fi)) (apply_entries bins_size es)"

section \<open>What the analysis keeps\<close>

lemma p_add_info_recover [simp]: "p_recover_deleted (p_add_info c t p) = p_recover_deleted p"
  by (simp add: p_add_info_def)

text \<open>All but the state, the root and the header of the first hive bin.\<close>

definition same_file :: "Parser \<Rightarrow> Parser \<Rightarrow> bool" where
  "same_file p p' \<longleftrightarrow> p_file_info p' = p_file_info p \<and> p_base_block p' = p_base_block p \<and>
     p_recover_deleted p' = p_recover_deleted p"

lemma same_file_simps [simp]:
  "same_file p p" "same_file p (p_add_info c t p') = same_file p p'" "same_file p (p'\<lparr>p_state := st\<rparr>) = same_file p p'"
  "same_file p (p'\<lparr>p_hive_bin_header := h\<rparr>) = same_file p p'" "same_file p (p'\<lparr>p_cell_key_node_root := r\<rparr>) = same_file p p'"
  by (simp_all add: same_file_def p_add_info_def)

lemma same_file_trans: "same_file a b \<Longrightarrow> same_file b c \<Longrightarrow> same_file a c"
  by (simp add: same_file_def)

lemma init_root_same_file: "ensures (same_file p) (init_root N depth p)"
  unfolding init_root_def Let_def by (intro ensures_bind ensures_bind_prod) (simp add: same_file_def)

lemma init_root_failed_same_file [simp]: "same_file p (init_root_failed N p)"
  by (simp add: init_root_failed_def Let_def split: option.split outcome.split)

lemma latest_same_file: "ensures (\<lambda>(m, l, p'). same_file p p') (get_latest_reg_items N depth fuel ta prior logs p)"
  unfolding get_latest_reg_items_def
proof (rule ensures_bind)
  fix q
  assume "init_root N depth p = Ok q"
  then have "same_file p q" by (rule ensuresD [OF init_root_same_file])
  then show "ensures (\<lambda>(m, l, p'). same_file p p')
      (bindO (iter_all N depth fuel (ParserIterator_get_modified_items False (ParserIterator_new q))) (\<lambda>updated_keys.
       bindO (new_keys_loop ta updated_keys \<lparr>prior_reg_items = prior, latest_reg_items = [], prior_keys_needed = [],
                prior_values_needed = [], an_logs = logs\<rparr>) (\<lambda>a.
       bindO (keys_needed_loop N ta (prior_keys_needed a) (p_state q) (an_logs a)) (\<lambda>(st, logs).
       bindO (values_needed_loop N ta (prior_values_needed a) st logs) (\<lambda>(st, logs).
       bindO (deleted_items_loop N ta (hash_map_iter N (prior_reg_items a)) st logs) (\<lambda>(st, logs).
       Ok (latest_reg_items a, logs,
           q\<lparr>p_state := fold remove_from_deleted (hash_map_iter N (latest_reg_items a)) st\<rparr>)))))))"
    by (intro ensures_bind ensures_bind_prod) simp
qed

lemma analyze_same_file: "ensures (\<lambda>(m, p'). same_file p p') (analyze_entry N depth fuel pf s items p)"
proof (cases "get_latest_reg_items N depth fuel \<lparr>prior_file_info = pf, ta_new_sequence_number = s\<rparr> items Logs_default p")
  case (Ok x)
  then show ?thesis
    using ensuresD [OF latest_same_file Ok] by (auto simp: analyze_entry_def split: prod.split)
qed (simp_all add: analyze_entry_def Let_def)

lemma apply_log_entry_file:
  assumes "apply_log_entry N depth fuel bins e items p = Ok (items', p')"
  shows "apply_dirty_pages (dirty_pages e) (resize_buffer bins e (p_file_info p)) = Ok (p_file_info p') \<and>
    p_base_block p' = p_base_block p"
proof -
  obtain fi where fi: "apply_dirty_pages (dirty_pages e) (resize_buffer bins e (p_file_info p)) = Ok fi"
    and r: "(if p_recover_deleted p then analyze_entry N depth fuel (resize_buffer bins e (p_file_info p)) (le_sequence_number e) items
        (p\<lparr>p_file_info := fi\<rparr>) else Ok (items, p\<lparr>p_file_info := fi\<rparr>)) = Ok (items', p')"
    using assms by (auto simp: apply_log_entry_def Let_def bindO_eq_Ok)
  have "same_file (p\<lparr>p_file_info := fi\<rparr>) p'"
    using r ensuresD [OF analyze_same_file] by (fastforce split: if_splits)
  with fi show ?thesis by (simp add: same_file_def)
qed

lemma add_w_Ok: "add_w c a b = Ok x \<Longrightarrow> x = a + b"
  by (simp add: add_w_def split: if_splits)

lemma log_entries_loop_Ok:
  "log_entries_loop N depth fuel sec bins es prev items p = Ok (s, items', p') \<Longrightarrow>
     apply_entries bins (applicable sec prev es) (p_file_info p) = Ok (p_file_info p') \<and>
     p_base_block p' = p_base_block p \<and>
     s = (if applicable sec prev es = [] then prev else le_sequence_number (last (applicable sec prev es)))"
proof (induction es arbitrary: prev items p)
  case (Cons e es)
  show ?case
  proof (cases "has_valid_hashes e \<and> \<not> le_sequence_number e < sec \<and> is_valid_hive_bin_data_size e \<and>
      (prev = 0 \<or> le_sequence_number e = prev + 1)")
    case True
    then obtain items1 p1 where a: "apply_log_entry N depth fuel bins e items p = Ok (items1, p1)"
      and l: "log_entries_loop N depth fuel sec bins es (le_sequence_number e) items1 p1 = Ok (s, items', p')"
      using Cons.prems by (auto simp: bindO_eq_Ok split: if_splits dest!: add_w_Ok)
    from Cons.IH [OF l] apply_log_entry_file [OF a] True show ?thesis by auto
  next
    case False
    consider (skip) "has_valid_hashes e" "le_sequence_number e < sec"
      | (stop) "\<not> has_valid_hashes e \<or> \<not> le_sequence_number e < sec"
      by blast
    then show ?thesis
    proof cases
      case skip
      then obtain t where "log_entries_loop N depth fuel sec bins es prev items (p_add_info WarningTransactionLog t p) = Ok (s, items', p')"
        using Cons.prems by simp
      from Cons.IH [OF this] skip show ?thesis by simp
    next
      case stop
      with False Cons.prems have "s = prev \<and> p_file_info p' = p_file_info p \<and> p_base_block p' = p_base_block p"
        by (auto simp: bindO_eq_Ok split: if_splits dest!: add_w_Ok)
      moreover have "applicable sec prev (e # es) = []" using stop False by auto
      ultimately show ?thesis by simp
    qed
  qed
qed simp

text \<open>
  C2: applying a log applies the entries of a run: entries older than the hive are passed over, and the
  first entry whose hashes do not agree, whose size is not that of whole pages, or which does not follow
  the one before ends it.  The file is that of the entries of the run one after the other, whatever the
  analysis of the changes does, and the sequence number is that of the last of them.
\<close>

theorem log_entries_applied:
  assumes "update_parser N depth fuel log items p = Ok (s, items', p')" and "p_base_block p = Some bb"
    and "es = applicable (secondary_sequence_number (base bb)) 0 (log_file_entries log)"
  shows "apply_entries (hive_bins_data_size (base bb)) es (p_file_info p) = Ok (p_file_info p') \<and>
    p_base_block p' = Some bb \<and> s = (if es = [] then 0 else le_sequence_number (last es)) \<and>
    (\<forall>e \<in> set es. e \<in> set (log_file_entries log) \<and> has_valid_hashes e \<and> is_valid_hive_bin_data_size e \<and>
       secondary_sequence_number (base bb) \<le> le_sequence_number e) \<and>
    (\<forall>i. Suc i < length es \<longrightarrow> le_sequence_number (es ! i) \<noteq> 0 \<longrightarrow>
       le_sequence_number (es ! Suc i) = le_sequence_number (es ! i) + 1)"
proof -
  have "log_entries_loop N depth fuel (secondary_sequence_number (base bb)) (hive_bins_data_size (base bb))
      (log_file_entries log) 0 items p = Ok (s, items', p')"
    using assms(1,2) by (simp add: update_parser_def get_base_block_info_def expect_base_def)
  note r = log_entries_loop_Ok [OF this, folded assms(3)]
  have e: "\<forall>e \<in> set es. e \<in> set (log_file_entries log) \<and> has_valid_hashes e \<and> is_valid_hive_bin_data_size e \<and>
      secondary_sequence_number (base bb) \<le> le_sequence_number e"
    unfolding assms(3) using applicable_props by blast
  have c: "\<forall>i. Suc i < length es \<longrightarrow> le_sequence_number (es ! i) \<noteq> 0 \<longrightarrow>
      le_sequence_number (es ! Suc i) = le_sequence_number (es ! i) + 1"
    unfolding assms(3) using applicable_consecutive by blast
  show ?thesis using r e c assms(2) by simp
qed

section \<open>The items of the new tree\<close>

definition item_key :: "NewItemInfo \<Rightarrow> RegItemMapKey" where
  "item_key i = (nii_key_path i, nii_value_path i)"

text \<open>What is known of an item after an entry, and whether its prior version is wanted.\<close>

definition latest_item :: "u32 \<Rightarrow> RegItemMap \<Rightarrow> NewItemInfo \<Rightarrow> RegItemMapValue" where
  "latest_item s prior i =
     \<lparr>rim_hash = the (nii_hash i), rim_file_offset_absolute = nii_file_offset_absolute i,
      rim_sequence_num =
        (case map_of prior (item_key i) of
           Some old \<Rightarrow> if the (nii_hash i) = rim_hash old then rim_sequence_num old else s
         | None \<Rightarrow> s)\<rparr>"

definition wanted :: "RegItemMap \<Rightarrow> NewItemInfo \<Rightarrow> RegItemNeeded list" where
  "wanted prior i =
     (case map_of prior (item_key i) of
        Some old \<Rightarrow>
          if the (nii_hash i) = rim_hash old then []
          else [\<lparr>rin_key_path = nii_key_path i, rin_file_offset_absolute = rim_file_offset_absolute old,
                 rin_sequence_num = rim_sequence_num old\<rparr>]
      | None \<Rightarrow> [])"

definition unseen :: "RegItemMapKey set \<Rightarrow> RegItemMap \<Rightarrow> RegItemMap" where
  "unseen ks m = filter (\<lambda>e. fst e \<notin> ks) m"

lemma handle_new_item_Ok:
  assumes "handle_new_item ta i prior latest needed logs = Ok (prior', latest', needed', logs')"
  shows "nii_hash i \<noteq> None \<and> prior' = unseen {item_key i} prior \<and>
    latest' = (item_key i, latest_item (ta_new_sequence_number ta) prior i) # unseen {item_key i} latest \<and>
    needed' = needed @ wanted prior i"
  using assms
  by (auto simp: handle_new_item_def Let_def bindO_eq_Ok rim_remove_def rim_insert_def RegItemMapKey_new_def
      RegItemMapValue_new_def RegItemNeeded_new_def item_key_def latest_item_def wanted_def unseen_def
      split: option.splits if_splits)

lemma unseen_simps:
  "unseen {} m = m" "unseen a (unseen b m) = unseen (a \<union> b) m"
  "k \<notin> ks \<Longrightarrow> map_of (unseen ks m) k = map_of m k" "k \<in> ks \<Longrightarrow> map_of (unseen ks m) k = None"
  by (auto simp: unseen_def conj_commute intro: filter_cong) (induction m; auto)+

text \<open>The two nested loops are one loop over the items of the tree.\<close>

definition needed_of :: "NewItemInfo \<Rightarrow> analysis \<Rightarrow> RegItemNeeded list" where
  "needed_of i a = (if nii_value_path i = None then prior_keys_needed a else prior_values_needed a)"

definition set_needed :: "NewItemInfo \<Rightarrow> RegItemNeeded list \<Rightarrow> analysis \<Rightarrow> analysis" where
  "set_needed i needed a =
     (if nii_value_path i = None then a\<lparr>prior_keys_needed := needed\<rparr> else a\<lparr>prior_values_needed := needed\<rparr>)"

primrec items_loop :: "TransactionAnalyzer \<Rightarrow> NewItemInfo list \<Rightarrow> analysis \<Rightarrow> analysis result" where
  "items_loop ta [] a = Ok a"
| "items_loop ta (i # is) a =
     bindO (handle_new_item ta i (prior_reg_items a) (latest_reg_items a) (needed_of i a) (an_logs a))
       (\<lambda>(prior, latest, needed, logs).
     items_loop ta is (set_needed i needed (a\<lparr>prior_reg_items := prior, latest_reg_items := latest, an_logs := logs\<rparr>)))"

lemma items_loop_append: "items_loop ta (is @ js) a = bindO (items_loop ta is a) (items_loop ta js)"
proof (induction "is" arbitrary: a)
  case (Cons i "is")
  then show ?case
    by (cases "handle_new_item ta i (prior_reg_items a) (latest_reg_items a) (needed_of i a) (an_logs a)") auto
qed simp

lemma set_needed_key:
  "nii_value_path i = None \<Longrightarrow> set_needed i needed (a\<lparr>prior_reg_items := x, latest_reg_items := y, an_logs := z\<rparr>) =
     a\<lparr>prior_reg_items := x, latest_reg_items := y, prior_keys_needed := needed, an_logs := z\<rparr>"
  by (simp add: set_needed_def)

lemma set_needed_value:
  "nii_value_path i \<noteq> None \<Longrightarrow> set_needed i needed (a\<lparr>prior_reg_items := x, latest_reg_items := y, an_logs := z\<rparr>) =
     a\<lparr>prior_reg_items := x, latest_reg_items := y, prior_values_needed := needed, an_logs := z\<rparr>"
  by (auto simp: set_needed_def)

lemma new_item_paths [simp]: "nii_value_path (new_key_item k) = None" "nii_value_path (new_value_item k v) \<noteq> None"
  by (simp_all add: new_key_item_def new_value_item_def)

lemma new_values_loop_items: "new_values_loop ta k vs a = items_loop ta (map (new_value_item k) vs) a"
proof (induction vs arbitrary: a)
  case (Cons v vs)
  have "needed_of (new_value_item k v) a = prior_values_needed a" by (simp add: needed_of_def new_value_item_def)
  with Cons show ?case by (simp add: set_needed_value)
qed simp

lemma new_keys_loop_items: "new_keys_loop ta ks a = items_loop ta (concat (map items_of_key ks)) a"
proof (induction ks arbitrary: a)
  case (Cons k ks)
  have n: "needed_of (new_key_item k) a = prior_keys_needed a" by (simp add: needed_of_def)
  have "new_keys_loop ta ks = items_loop ta (concat (map items_of_key ks))" using Cons by (simp add: fun_eq_iff)
  then show ?case
    by (cases "handle_new_item ta (new_key_item k) (prior_reg_items a) (latest_reg_items a) (prior_keys_needed a) (an_logs a)")
       (auto simp: items_of_key_def [of k] items_loop_append new_values_loop_items n set_needed_key)
qed simp

lemma items_loop_Ok:
  "items_loop ta is a = Ok a' \<Longrightarrow> distinct (map item_key is) \<Longrightarrow>
     (\<forall>i \<in> set is. nii_hash i \<noteq> None) \<and>
     prior_reg_items a' = unseen (item_key ` set is) (prior_reg_items a) \<and>
     latest_reg_items a' = rev (map (\<lambda>i. (item_key i, latest_item (ta_new_sequence_number ta) (prior_reg_items a) i)) is) @
       unseen (item_key ` set is) (latest_reg_items a) \<and>
     prior_keys_needed a' = prior_keys_needed a @
       concat (map (wanted (prior_reg_items a)) (filter (\<lambda>i. nii_value_path i = None) is)) \<and>
     prior_values_needed a' = prior_values_needed a @
       concat (map (wanted (prior_reg_items a)) (filter (\<lambda>i. nii_value_path i \<noteq> None) is))"
proof (induction "is" arbitrary: a)
  case Nil
  then show ?case by (simp add: unseen_simps)
next
  case (Cons i "is")
  obtain prior latest needed logs where
    h: "handle_new_item ta i (prior_reg_items a) (latest_reg_items a) (needed_of i a) (an_logs a) =
      Ok (prior, latest, needed, logs)"
    and l: "items_loop ta is (set_needed i needed
      (a\<lparr>prior_reg_items := prior, latest_reg_items := latest, an_logs := logs\<rparr>)) = Ok a'"
    using Cons.prems(1) by (auto simp: bindO_eq_Ok)
  note h' = handle_new_item_Ok [OF h]
  have other: "map_of (unseen {item_key i} (prior_reg_items a)) (item_key j) = map_of (prior_reg_items a) (item_key j)"
    if "j \<in> set is" for j
  proof (rule unseen_simps(3))
    have "item_key i \<notin> item_key ` set is" using Cons.prems(2) by simp
    with that show "item_key j \<notin> {item_key i}" by (metis imageI singletonD)
  qed
  have li: "latest_item s (unseen {item_key i} (prior_reg_items a)) j = latest_item s (prior_reg_items a) j"
    and wa: "wanted (unseen {item_key i} (prior_reg_items a)) j = wanted (prior_reg_items a) j" if "j \<in> set is" for j s
    using other [OF that] by (simp_all add: latest_item_def wanted_def)
  have ms: "map (\<lambda>j. (item_key j, latest_item s (unseen {item_key i} (prior_reg_items a)) j)) is =
      map (\<lambda>j. (item_key j, latest_item s (prior_reg_items a) j)) is"
    "map (wanted (unseen {item_key i} (prior_reg_items a))) (filter P is) = map (wanted (prior_reg_items a)) (filter P is)" for P s
    using li wa by simp_all
  have un: "unseen (item_key ` set is) ((item_key i, x) # unseen {item_key i} (latest_reg_items a)) =
      (item_key i, x) # unseen (item_key ` set (i # is)) (latest_reg_items a)" for x
    using Cons.prems(2) by (auto simp: unseen_def intro: filter_cong)
  have un': "unseen (item_key ` set is) (unseen {item_key i} m) = unseen (item_key ` set (i # is)) m" for m
    by (simp add: unseen_simps)
  have bs: "(\<forall>j \<in> set (i # is). P j) \<longleftrightarrow> P i \<and> (\<forall>j \<in> set is. P j)" for P by simp
  show ?case
    using Cons.IH [OF l] Cons.prems(2) h'
    by (cases "nii_value_path i") (simp_all add: set_needed_def needed_of_def ms un un' bs del: image_insert set_simps)
qed

text \<open>
  C9: how the analysis of an entry sorts the items (keys and values) of the new tree.  Every item is
  recorded with its hash and offset; its sequence number stays when its hash is the one known before and
  becomes that of the entry when the item is new or has changed.  The prior versions wanted are those of
  the changed items, keys and values apart, and the items left over are those of the prior map that the
  new tree does not have.
\<close>

theorem new_items_sorted:
  assumes "new_keys_loop ta ks \<lparr>prior_reg_items = prior, latest_reg_items = [], prior_keys_needed = [],
      prior_values_needed = [], an_logs = logs\<rparr> = Ok a"
    and "is = concat (map items_of_key ks)" and "distinct (map item_key is)"
  shows "(\<forall>i \<in> set is. map_of (latest_reg_items a) (item_key i) =
      Some \<lparr>rim_hash = the (nii_hash i), rim_file_offset_absolute = nii_file_offset_absolute i,
        rim_sequence_num =
          (case map_of prior (item_key i) of
             Some old \<Rightarrow> if the (nii_hash i) = rim_hash old then rim_sequence_num old else ta_new_sequence_number ta
           | None \<Rightarrow> ta_new_sequence_number ta)\<rparr>) \<and>
    fst ` set (latest_reg_items a) = item_key ` set is \<and>
    prior_keys_needed a = concat (map (wanted prior) (filter (\<lambda>i. nii_value_path i = None) is)) \<and>
    prior_values_needed a = concat (map (wanted prior) (filter (\<lambda>i. nii_value_path i \<noteq> None) is)) \<and>
    prior_reg_items a = filter (\<lambda>e. fst e \<notin> item_key ` set is) prior"
proof -
  let ?l = "map (\<lambda>i. (item_key i, latest_item (ta_new_sequence_number ta) prior i)) is"
  note r = items_loop_Ok [OF assms(1) [unfolded new_keys_loop_items, folded assms(2)] assms(3)]
  have l: "latest_reg_items a = rev ?l" using r by (simp add: unseen_def)
  have d: "distinct (map fst (rev ?l))" using assms(3) by (simp add: o_def flip: rev_map)
  have "map_of (rev ?l) (item_key i) = Some (latest_item (ta_new_sequence_number ta) prior i)" if "i \<in> set is" for i
    using d that by (intro map_of_is_SomeI) auto
  moreover have "fst ` set (rev ?l) = item_key ` set is" by force
  ultimately show ?thesis
    using r l by (simp add: latest_item_def unseen_def)
qed

section \<open>Deleted keys are not allocated\<close>

lemma state_deleted_simps [simp]:
  "state_deleted (st\<lparr>modified_keys := mk\<rparr>) = state_deleted st" "state_deleted (st\<lparr>info := l\<rparr>) = state_deleted st"
  "state_deleted (st\<lparr>modified_values := mv\<rparr>) = state_deleted st" "state_deleted (st\<lparr>deleted_values := dv\<rparr>) = state_deleted st"
  by (simp_all add: state_deleted_def)

lemma state_deleted_iff:
  "state_deleted st \<longleftrightarrow> (\<forall>path. \<forall>k \<in> set (vec_or_default (deleted_keys st path)).
     kn_cell_state (kn k) \<noteq> Allocated \<and> deleted_below k)"
proof -
  have "(\<forall>ks k. v = Some ks \<longrightarrow> k \<in> set ks \<longrightarrow> P k) \<longleftrightarrow> (\<forall>k \<in> set (vec_or_default v). P k)"
    for v :: "CellKeyNode list option" and P
    by (cases v) (simp_all add: vec_or_default_def Ball_def)
  then show ?thesis unfolding state_deleted_def by simp
qed

lemma recovered_deleted:
  assumes "recovered st st'" and "state_deleted st"
  shows "state_deleted st'"
  unfolding state_deleted_iff
proof (intro allI ballI)
  fix path k
  assume k: "k \<in> set (vec_or_default (deleted_keys st' path))"
  show "kn_cell_state (kn k) \<noteq> Allocated \<and> deleted_below k"
  proof (cases "path = []")
    case True
    obtain new where "vec_or_default (deleted_keys st' []) = vec_or_default (deleted_keys st []) @ new"
      and new: "\<forall>k \<in> set new. is_deleted_primary_file (kn_cell_state (kn k)) \<and> kn_deleted_keys k = []"
      using assms(1) by (auto simp: recovered_def)
    with k True consider "k \<in> set (vec_or_default (deleted_keys st []))" | "k \<in> set new" by auto
    then show ?thesis
    proof cases
      case 2
      with new have "is_deleted_primary_file (kn_cell_state (kn k))" "kn_deleted_keys k = []" by auto
      then show ?thesis by (auto simp: deleted_below_iff [of k] is_deleted_primary_file_def)
    qed (use assms(2) in \<open>simp add: state_deleted_iff\<close>)
  next
    case False
    then have "deleted_keys st' path = deleted_keys st path" using assms(1) by (simp add: recovered_def)
    with k assms(2) show ?thesis by (simp add: state_deleted_iff)
  qed
qed

lemma push_deleted_key:
  assumes "state_deleted st" and "kn_cell_state (kn k) \<noteq> Allocated" and "deleted_below k"
  shows "state_deleted (st\<lparr>deleted_keys := ModifiedDeletedKeyMap_add (deleted_keys st) path k\<rparr>)"
proof -
  have "vec_or_default (vec_push (deleted_keys st) path k p) =
      vec_or_default (deleted_keys st p) @ (if p = path then [k] else [])" for p
    by (simp add: vec_push_get vec_or_default_def)
  with assms show ?thesis by (auto simp: state_deleted_iff ModifiedDeletedKeyMap_add_def)
qed

lemma remove_first_subset: "remove_first P xs = Some ys \<Longrightarrow> set ys \<subseteq> set xs"
  by (induction xs arbitrary: ys) (auto split: if_splits)

lemma removed_keys: "set (vec_or_default (ModifiedDeletedKeyMap_remove m path h p)) \<subseteq> set (vec_or_default (m p))"
  by (auto simp: ModifiedDeletedKeyMap_remove_def Let_def vec_or_default_def split: option.splits if_splits
      dest!: remove_first_subset)

lemma remove_from_deleted_deleted: "state_deleted st \<Longrightarrow> state_deleted (remove_from_deleted e st)"
  by (auto simp: state_deleted_iff remove_from_deleted_def split: option.split prod.split dest!: subsetD [OF removed_keys])

lemma fold_remove_deleted: "state_deleted st \<Longrightarrow> state_deleted (fold remove_from_deleted es st)"
  by (induction es arbitrary: st) (simp_all add: remove_from_deleted_deleted)

lemma init_root_deleted:
  assumes "state_deleted (p_state p)"
  shows "ensures parser_deleted (init_root N d p)"
  unfolding init_root_def Let_def
proof (rule ensures_bind, rule ensures_bind_prod, rule ensures_bind_prod, goal_cases)
  case (1 sl i hbh root st)
  have "state_deleted st" using state_deleted_same [OF read_state [OF 1(3)] assms] .
  with 1(3) show ?case by (auto simp: parser_deleted_def intro: read_deleted [OF assms])
qed

lemma add_full_key_deleted:
  assumes "state_deleted st"
  shows "ensures state_deleted (add_full_key_to_list N ta path off s t st)"
  unfolding add_full_key_to_list_def
proof (rule ensures_bind_prod)
  fix full_key st'
  assume r: "CellKeyNode_read N 0 (prior_file_info ta) st
       \<lparr>ro_offset = off, ro_cur_path = parent_path path, ro_filter = None,
        ro_self_is_filter_match_or_descendent = False, ro_sequence_num = Some s,
        ro_get_deleted_and_modified = False\<rparr> = Ok (full_key, st')"
  have st': "state_deleted st'" using state_deleted_same [OF read_state [OF r] assms] .
  let ?k = "\<lambda>k. kn_set_cell_state DeletedTransactionLog
      (kn_update (\<lambda>c. c\<lparr>kn_updated_by_sequence_num := Some (ta_new_sequence_number ta), kn_sub_values := []\<rparr>) k)"
  have "deleted_below (?k k) \<and> kn_cell_state (kn (?k k)) \<noteq> Allocated" if "full_key = Some k" for k
  proof -
    have "deleted_below k" using r that by (auto intro: read_deleted [OF assms])
    moreover have "kn_deleted_keys (?k k) = kn_deleted_keys k" by (simp add: kn_set_cell_state_def)
    ultimately have "deleted_below (?k k)" using deleted_below_cong [of "?k k" k] by blast
    then show ?thesis by (simp add: kn_set_cell_state_def)
  qed
  with st' show "ensures state_deleted (case full_key of
       Some k \<Rightarrow>
         let k = kn_update (\<lambda>c. c\<lparr>kn_updated_by_sequence_num := Some (ta_new_sequence_number ta), kn_sub_values := []\<rparr>) k in
         Ok (case t of
               Updated \<Rightarrow> st'\<lparr>modified_keys := ModifiedDeletedKeyMap_add (modified_keys st') path
                              (kn_set_cell_state ModifiedTransactionLog k)\<rparr>
             | Deleted \<Rightarrow> st'\<lparr>deleted_keys := ModifiedDeletedKeyMap_add (deleted_keys st') (parent_path path)
                              (kn_set_cell_state DeletedTransactionLog k)\<rparr>)
     | None \<Rightarrow> Ok st')"
    by (cases full_key; cases t) (simp_all add: Let_def push_deleted_key)
qed

lemma add_full_value_deleted:
  assumes "state_deleted st"
  shows "ensures state_deleted (add_full_value_to_list N ta path off s t st)"
  unfolding add_full_value_to_list_def Let_def
  by (rule ensures_bind, rule ensures_bind_prod, rule ensures_bind) (cases t; simp add: assms)

lemma or_warn_deleted:
  "ensures state_deleted r \<Longrightarrow> state_deleted st \<Longrightarrow> ensures (\<lambda>(st', _). state_deleted st') (or_warn r msg st logs)"
  by (cases r) (simp_all add: or_warn_def)

text \<open>The loops of the analysis: each is a chain of such steps.\<close>

lemma loop_step_deleted:
  assumes "ensures (\<lambda>(st', _). state_deleted st') r"
    and "\<And>st' l. state_deleted st' \<Longrightarrow> ensures (\<lambda>(st', _). state_deleted st') (f st' l)"
  shows "ensures (\<lambda>(st', _). state_deleted st') (bindO r (\<lambda>(st, logs). f st logs))"
  by (rule ensures_bind_prod) (use ensuresD [OF assms(1)] assms(2) in fastforce)

lemma keys_needed_deleted:
  "state_deleted st \<Longrightarrow> ensures (\<lambda>(st', _). state_deleted st') (keys_needed_loop N ta rs st logs)"
proof (induction rs arbitrary: st logs)
  case (Cons r rs)
  show ?case unfolding keys_needed_loop.simps
    by (intro loop_step_deleted or_warn_deleted add_full_key_deleted Cons)
qed simp

lemma values_needed_deleted:
  "state_deleted st \<Longrightarrow> ensures (\<lambda>(st', _). state_deleted st') (values_needed_loop N ta rs st logs)"
proof (induction rs arbitrary: st logs)
  case (Cons r rs)
  show ?case unfolding values_needed_loop.simps
    by (intro loop_step_deleted or_warn_deleted add_full_value_deleted Cons)
qed simp

lemma deleted_items_deleted:
  "state_deleted st \<Longrightarrow> ensures (\<lambda>(st', _). state_deleted st') (deleted_items_loop N ta es st logs)"
proof (induction es arbitrary: st logs)
  case (Cons e es)
  obtain key item where e: "e = (key, item)" by fastforce
  show ?case unfolding e deleted_items_loop.simps prod.case
    by (rule loop_step_deleted)
       (auto split: option.split intro!: or_warn_deleted add_full_value_deleted add_full_key_deleted Cons)
qed simp

lemma latest_deleted:
  assumes "state_deleted (p_state p)"
  shows "ensures (\<lambda>(m, l, p'). parser_deleted p') (get_latest_reg_items N depth fuel ta prior logs p)"
  unfolding get_latest_reg_items_def
proof (rule ensures_bind, rule ensures_bind, rule ensures_bind, rule ensures_bind_prod, rule ensures_bind_prod,
    rule ensures_bind_prod, goal_cases)
  case (1 q ks a st1 l1 st2 l2 st3 l3)
  have q: "parser_deleted q" using 1(1) by (rule ensuresD [OF init_root_deleted [OF assms]])
  then have "state_deleted (p_state q)" by (simp add: parser_deleted_def)
  then have "state_deleted st1" using ensuresD [OF keys_needed_deleted 1(4)] by simp
  then have "state_deleted st2" using ensuresD [OF values_needed_deleted 1(5)] by simp
  then have "state_deleted st3" using ensuresD [OF deleted_items_deleted 1(6)] by simp
  with q show ?case by (simp add: parser_deleted_def fold_remove_deleted)
qed

lemma parser_deleted_simps [simp]:
  "parser_deleted (p_add_info c t p) = parser_deleted p" "parser_deleted (p\<lparr>p_file_info := fi\<rparr>) = parser_deleted p"
  "parser_deleted (p\<lparr>p_base_block := bb\<rparr>) = parser_deleted p" "parser_deleted (p\<lparr>p_hive_bin_header := h\<rparr>) = parser_deleted p"
  "parser_deleted (p\<lparr>p_state := (p_state p)\<lparr>info := l\<rparr>\<rparr>) = parser_deleted p"
  by (simp_all add: parser_deleted_def p_add_info_def)

lemma parser_deleted_state: "parser_deleted p \<Longrightarrow> state_deleted (p_state p)"
  by (simp add: parser_deleted_def)

lemma analyze_deleted:
  assumes "parser_deleted p"
  shows "ensures (\<lambda>(m, p'). parser_deleted p') (analyze_entry N depth fuel pf s items p)"
proof (cases "get_latest_reg_items N depth fuel \<lparr>prior_file_info = pf, ta_new_sequence_number = s\<rparr> items Logs_default p")
  case (Ok x)
  then show ?thesis
    using ensuresD [OF latest_deleted [OF parser_deleted_state [OF assms]] Ok] by (auto simp: analyze_entry_def)
next
  case (Err e)
  have "parser_deleted (init_root_failed N p)"
    using assms by (simp add: init_root_failed_def Let_def split: option.split outcome.split)
  then have "parser_deleted (q\<lparr>p_state := (p_state q)\<lparr>info := l\<rparr>\<rparr>)"
    if "q = p_add_info WarningTransactionLog t (init_root_failed N p)" for q t l
    using that by (simp add: parser_deleted_def p_add_info_def)
  with Err show ?thesis by (simp add: analyze_entry_def Let_def del: append.simps)
qed (simp_all add: analyze_entry_def)

lemma apply_log_entry_deleted:
  assumes "parser_deleted p"
  shows "ensures (\<lambda>(m, p'). parser_deleted p') (apply_log_entry N depth fuel bins e items p)"
  unfolding apply_log_entry_def Let_def
  by (intro ensures_bind ensures_if analyze_deleted) (use assms in simp_all)

lemma log_entries_deleted:
  "parser_deleted p \<Longrightarrow> ensures (\<lambda>(s, m, p'). parser_deleted p') (log_entries_loop N depth fuel sec bins es prev items p)"
proof (induction es arbitrary: prev items p)
  case (Cons e es)
  have step: "ensures (\<lambda>(s, m, p'). parser_deleted p') (bindO (apply_log_entry N depth fuel bins e items p) (\<lambda>(items, p).
      log_entries_loop N depth fuel sec bins es (le_sequence_number e) items p))"
  proof (rule ensures_bind_prod)
    fix items' p'
    assume "apply_log_entry N depth fuel bins e items p = Ok (items', p')"
    then have "parser_deleted p'" using ensuresD [OF apply_log_entry_deleted [OF Cons.prems]] by fastforce
    then show "ensures (\<lambda>(s, m, p'). parser_deleted p') (log_entries_loop N depth fuel sec bins es (le_sequence_number e) items' p')"
      by (rule Cons.IH)
  qed
  show ?case
    unfolding log_entries_loop.simps
    by (intro ensures_if ensures_bind step Cons.IH) (simp_all add: Cons.prems)
qed simp

lemma update_parser_deleted:
  "parser_deleted p \<Longrightarrow> ensures (\<lambda>(s, m, p'). parser_deleted p') (update_parser N depth fuel log items p)"
  unfolding update_parser_def by (rule ensures_bind_prod) (rule log_entries_deleted)

lemma transaction_logs_deleted:
  "parser_deleted p \<Longrightarrow> ensures (\<lambda>(s, p'). parser_deleted p') (transaction_logs_loop N depth fuel sec logs prev items p)"
proof (induction logs arbitrary: prev items p)
  case (Cons log logs)
  have step: "ensures (\<lambda>(s, p'). parser_deleted p') (bindO (update_parser N depth fuel log items p) (\<lambda>(new_seq, items, p).
      transaction_logs_loop N depth fuel sec logs new_seq items p))"
  proof (rule ensures_bind_prod, clarify)
    fix s items' p'
    assume "update_parser N depth fuel log items p = Ok (s, items', p')"
    then have "parser_deleted p'" using ensuresD [OF update_parser_deleted [OF Cons.prems]] by fastforce
    then show "ensures (\<lambda>(s, p'). parser_deleted p') (transaction_logs_loop N depth fuel sec logs s items' p')"
      by (rule Cons.IH)
  qed
  show ?case
    unfolding transaction_logs_loop.simps
    by (intro ensures_if ensures_bind step Cons.IH) (simp_all add: Cons.prems)
qed simp

lemma check_base_block_deleted:
  "parser_deleted p \<Longrightarrow> ensures (\<lambda>(r, p'). parser_deleted p') (check_base_block p)"
  unfolding check_base_block_def Let_def by (intro ensures_bind ensures_if) simp_all

lemma init_base_block_deleted:
  "parser_deleted p \<Longrightarrow> ensures (\<lambda>(r, p'). parser_deleted p') (init_base_block N p)"
  unfolding init_base_block_def Let_def by (rule ensures_bind_prod, rule check_base_block_deleted) simp

lemma base_block_then_deleted:
  assumes "parser_deleted q" and "\<And>r p'. parser_deleted p' \<Longrightarrow> ensures P (f r p')"
  shows "ensures P (bindO (init_base_block N q) (\<lambda>(r, p). f r p))"
  by (rule ensures_bind_prod) (use ensuresD [OF init_base_block_deleted [OF assms(1)]] assms(2) in fastforce)

lemma prepare_logs_deleted:
  assumes "parser_deleted p"
  shows "ensures (\<lambda>(b, l, p'). parser_deleted p') (prepare_transaction_logs N bad logs p)"
proof -
  have h: "ensures (\<lambda>(l, p'). parser_deleted p') (handle_bad_checksum N logs p)"
    unfolding handle_bad_checksum_def Let_def
    by (intro ensures_if ensures_bind base_block_then_deleted) (simp_all add: assms)
  show ?thesis
    unfolding prepare_transaction_logs_def
  proof (rule ensures_bind_prod)
    fix logs' p'
    assume "(if bad then handle_bad_checksum N logs p else Ok (logs, p)) = Ok (logs', p')"
    then have "parser_deleted p'" using ensuresD [OF h] assms by (fastforce split: if_splits)
    then show "ensures (\<lambda>(b, l, p'). parser_deleted p') (bindO (expect_base p') (\<lambda>b.
        if primary_sequence_number b = secondary_sequence_number b
        then Ok (False, logs', p_add_info WarningTransactionLog
            ''Skipping transaction logs because the primary file's primary_sequence_number matches the secondary_sequence_number'' p')
        else Ok (True, logs', p')))"
      by (intro ensures_bind ensures_if) simp_all
  qed
qed

lemma update_header_deleted:
  "parser_deleted p \<Longrightarrow> ensures parser_deleted (update_header_after_transaction_logs N s p)"
  unfolding update_header_after_transaction_logs_def Let_def
  by (intro ensures_bind base_block_then_deleted) simp_all

lemma get_reg_items_deleted:
  assumes "parser_deleted p"
  shows "ensures (\<lambda>(m, p'). parser_deleted p') (get_reg_items N depth fuel s p)"
proof -
  have "ensures (\<lambda>(m, p'). parser_deleted p') (bindO (init_root N depth p) (\<lambda>p.
      bindO (iter_all N depth fuel (ParserIterator_new p)) (\<lambda>keys.
      bindO (reg_items_loop s (concat (map items_of_key keys)) []) (\<lambda>m. Ok (m, p)))))"
    by (intro ensures_bind) (simp add: ensuresD [OF init_root_deleted [OF parser_deleted_state [OF assms]]])
  with assms show ?thesis by (simp add: get_reg_items_def)
qed

lemma apply_logs_deleted:
  assumes "parser_deleted p"
  shows "ensures parser_deleted (apply_transaction_logs N depth fuel bad logs p)"
proof -
  have rest: "ensures parser_deleted (bindO (get_reg_items N depth fuel 0 q) (\<lambda>(original_items, p).
          bindO (get_base_block_info p) (\<lambda>(sec_seq, _).
          bindO (transaction_logs_loop N depth fuel sec_seq logs' 0 original_items p) (\<lambda>(new_seq, p).
          update_header_after_transaction_logs N new_seq p))))" if "parser_deleted q" for q logs'
  proof (rule ensures_bind_prod, rule ensures_bind_prod, rule ensures_bind_prod, goal_cases)
    case (1 m q1 sec b s q2)
    have "parser_deleted q1" using ensuresD [OF get_reg_items_deleted [OF that] 1(1)] by simp
    then have "parser_deleted q2" using ensuresD [OF transaction_logs_deleted 1(3)] by simp
    then show ?case by (rule update_header_deleted)
  qed
  have "ensures parser_deleted (bindO (prepare_transaction_logs N bad logs p) (\<lambda>(go_on, logs, p).
        if go_on then
          bindO (get_reg_items N depth fuel 0 p) (\<lambda>(original_items, p).
          bindO (get_base_block_info p) (\<lambda>(sec_seq, _).
          bindO (transaction_logs_loop N depth fuel sec_seq logs 0 original_items p) (\<lambda>(new_seq, p).
          update_header_after_transaction_logs N new_seq p)))
        else Ok p))"
    by (rule ensures_bind_prod, clarify, rule ensures_if)
       (use ensuresD [OF prepare_logs_deleted [OF assms]] rest in fastforce)+
  with assms show ?thesis by (simp add: apply_transaction_logs_def)
qed

lemma recover_deleted:
  assumes "parser_deleted p"
  shows "ensures parser_deleted (init_recover_deleted N fuel p)"
  unfolding init_recover_deleted_def find_free_keys_and_values_def
proof (rule ensures_bind_prod)
  fix b p'
  assume "bindO (expect_base p) (\<lambda>b. bindO (free_keys_and_values_loop N fuel (p_file_info p) (hive_bins_data_size b) fuel
      (hbin_offset_absolute (p_file_info p)) (p_state p)) (\<lambda>st. Ok (True, p\<lparr>p_state := st\<rparr>))) = Ok (b, p')"
  then obtain bins st where "free_keys_and_values_loop N fuel (p_file_info p) bins fuel
      (hbin_offset_absolute (p_file_info p)) (p_state p) = Ok st" and p': "p' = p\<lparr>p_state := st\<rparr>"
    by (auto simp: bindO_eq_Ok)
  then have "state_deleted st"
    using recovered_deleted [OF ensuresD [OF free_loop_recovered]] parser_deleted_state [OF assms] by blast
  with assms p' show "ensures parser_deleted (Ok p')" by (simp add: parser_deleted_def)
qed

lemma Parser_init_deleted:
  assumes "parser_deleted p"
  shows "ensures parser_deleted (Parser_init N depth fuel rec logs p)"
  unfolding Parser_init_def
proof (rule base_block_then_deleted [OF assms], clarify, rule ensures_if, goal_cases)
  case (1 sup bad q)
  have r: "ensures parser_deleted (if rec then init_recover_deleted N fuel q else Ok q)"
    using 1(1) recover_deleted [OF 1(1), of N fuel] by simp
  show ?case
  proof (rule ensures_bind, rule ensures_bind)
    fix q1 q2
    assume "(if rec then init_recover_deleted N fuel q else Ok q) = Ok q1"
      and 2: "apply_transaction_logs N depth fuel bad logs q1 = Ok q2"
    then have "parser_deleted q1" using ensuresD [OF r] by blast
    then have "parser_deleted q2" using ensuresD [OF apply_logs_deleted 2] by blast
    then show "ensures parser_deleted (init_root N depth q2)" by (intro init_root_deleted parser_deleted_state)
  qed
qed simp

lemma build_deleted: "ensures parser_deleted (ParserBuilder_build N depth fuel fi b logs)"
proof -
  let ?p = "\<lparr>p_file_info = fi, p_state = State_default\<lparr>get_full_field_info := pb_get_full_field_info b\<rparr>,
        p_base_block = None, p_hive_bin_header = None, p_cell_key_node_root = None,
        p_recover_deleted = pb_recover_deleted b, p_update_console = pb_update_console b\<rparr>"
  have p: "parser_deleted ?p" by (simp add: parser_deleted_def state_deleted_def State_default_def)
  show ?thesis
    unfolding ParserBuilder_build_def
  proof (rule ensures_bind_prod, rule ensures_bind)
    fix parsed warnings q
    assume "Parser_init N depth fuel (pb_recover_deleted b) parsed ?p = Ok q"
    then have "parser_deleted q" by (rule ensuresD [OF Parser_init_deleted [OF p]])
    then show "ensures parser_deleted (Ok (case warnings of
        Some w \<Rightarrow> q\<lparr>p_state := (p_state q)\<lparr>info := Logs_extend (info (p_state q)) w\<rparr>\<rparr> | None \<Rightarrow> q))"
      by (cases warnings) simp_all
  qed
qed

section \<open>Vanished values\<close>

text \<open>What is documented of walking a \<open>HashMap\<close>: every entry is visited once, in some order.\<close>

locale nom_apply_spec = nom_log_spec N for N :: "'z env_apply_scheme" +
  assumes hash_map_iter_perm: "mset (hash_map_iter N m) = mset m"
begin

lemma set_hash_map_iter [simp]: "set (hash_map_iter N m) = set m"
  using hash_map_iter_perm [of m] by (metis set_mset_mset)

end

text \<open>Without any condition on the items: what is left of the prior map, and the keys of the new one.\<close>

lemma items_loop_maps:
  "items_loop ta is a = Ok a' \<Longrightarrow>
     prior_reg_items a' = unseen (item_key ` set is) (prior_reg_items a) \<and>
     fst ` set (latest_reg_items a') = item_key ` set is \<union> fst ` set (latest_reg_items a)"
proof (induction "is" arbitrary: a)
  case Nil
  then show ?case by (simp add: unseen_simps)
next
  case (Cons i "is")
  obtain prior latest needed logs where
    h: "handle_new_item ta i (prior_reg_items a) (latest_reg_items a) (needed_of i a) (an_logs a) =
      Ok (prior, latest, needed, logs)"
    and l: "items_loop ta is (set_needed i needed
      (a\<lparr>prior_reg_items := prior, latest_reg_items := latest, an_logs := logs\<rparr>)) = Ok a'"
    using Cons.prems by (auto simp: bindO_eq_Ok)
  have u: "fst ` set (unseen {item_key i} m) = fst ` set m - {item_key i}" for m
    by (auto simp: unseen_def image_iff)
  from Cons.IH [OF l] handle_new_item_Ok [OF h] show ?case
    by (cases "nii_value_path i") (auto simp: set_needed_def unseen_simps u)
qed

text \<open>The loops only add to the deleted values.\<close>

definition values_grow :: "State \<Rightarrow> State \<Rightarrow> bool" where
  "values_grow st st' \<longleftrightarrow> get_full_field_info st' = get_full_field_info st \<and>
     (\<forall>path. set (vec_or_default (deleted_values st path)) \<subseteq> set (vec_or_default (deleted_values st' path)))"

lemma values_grow_refl [simp]: "values_grow st st"
  by (simp add: values_grow_def)

lemma values_grow_trans: "values_grow a b \<Longrightarrow> values_grow b c \<Longrightarrow> values_grow a c"
  unfolding values_grow_def by (metis subset_trans)

lemma values_grow_same: "same_but_root st st' \<Longrightarrow> values_grow st st'"
  by (cases st; cases st') (simp add: same_but_root_def values_grow_def)

lemma add_full_key_grows: "ensures (values_grow st) (add_full_key_to_list N ta path off s t st)"
  unfolding add_full_key_to_list_def
proof (rule ensures_bind_prod, goal_cases)
  case (1 k st')
  have "values_grow st st'" by (rule values_grow_same [OF read_state [OF 1]])
  then show ?case by (cases k; cases t) (simp_all add: Let_def values_grow_def)
qed

lemma vec_push_in: "vec_or_default (vec_push m k v k') = vec_or_default (m k') @ (if k' = k then [v] else [])"
  by (simp add: vec_push_get vec_or_default_def)

lemma add_full_value_grows: "ensures (values_grow st) (add_full_value_to_list N ta path off s t st)"
  unfolding add_full_value_to_list_def Let_def
  by (rule ensures_bind, rule ensures_bind_prod, rule ensures_bind)
     (cases t; simp add: values_grow_def DeletedValueMap_add_def vec_push_in)

lemma or_warn_grows: "ensures (values_grow st) r \<Longrightarrow> ensures (\<lambda>(st', _). values_grow st st') (or_warn r msg st logs)"
  by (cases r) (simp_all add: or_warn_def)

lemma loop_step_grows:
  assumes "ensures (\<lambda>(st', _). values_grow st st') r"
    and "\<And>st' l. ensures (\<lambda>(st'', _). values_grow st' st'') (f st' l)"
  shows "ensures (\<lambda>(st', _). values_grow st st') (bindO r (\<lambda>(st, logs). f st logs))"
proof (rule ensures_bind_prod)
  fix st' l
  assume "r = Ok (st', l)"
  then have "values_grow st st'" using ensuresD [OF assms(1)] by fastforce
  with assms(2) [of st' l] show "ensures (\<lambda>(st', _). values_grow st st') (f st' l)"
    by (auto simp: ensures_def intro: values_grow_trans)
qed

lemma keys_needed_grows: "ensures (\<lambda>(st', _). values_grow st st') (keys_needed_loop N ta rs st logs)"
proof (induction rs arbitrary: st logs)
  case (Cons r rs)
  show ?case unfolding keys_needed_loop.simps
    by (intro loop_step_grows or_warn_grows add_full_key_grows Cons)
qed simp

lemma values_needed_grows: "ensures (\<lambda>(st', _). values_grow st st') (values_needed_loop N ta rs st logs)"
proof (induction rs arbitrary: st logs)
  case (Cons r rs)
  show ?case unfolding values_needed_loop.simps
    by (intro loop_step_grows or_warn_grows add_full_value_grows Cons)
qed simp

lemma deleted_items_grows: "ensures (\<lambda>(st', _). values_grow st st') (deleted_items_loop N ta es st logs)"
proof (induction es arbitrary: st logs)
  case (Cons e es)
  obtain key item where e: "e = (key, item)" by fastforce
  show ?case unfolding e deleted_items_loop.simps prod.case
    by (rule loop_step_grows)
       (auto split: option.split intro!: or_warn_grows add_full_value_grows add_full_key_grows Cons)
qed simp

text \<open>An item that is gone is added when the loop comes to it, if its prior cell can be read.\<close>

lemma deleted_value_added:
  assumes "nom_spec N" and "e = ((path, Some n), item)" and "e \<in> set es"
    and "get_from (buffer (prior_file_info ta)) (rim_file_offset_absolute item) = Some sl"
    and "CellKeyValue_from_bytes N sl (rim_file_offset_absolute item) (Some (rim_sequence_num item)) (get_full_field_info st) = Ok (rest, v)"
    and "CellKeyValue_read_value_bytes N (prior_file_info ta) v = Ok v'"
  shows "deleted_items_loop N ta es st logs = Ok (st', logs') \<Longrightarrow>
    kv_set_cell_state DeletedTransactionLog (CellKeyValue ((kv v')\<lparr>kv_updated_by_sequence_num := Some (ta_new_sequence_number ta)\<rparr>)
      (kv_versions v')) \<in> set (vec_or_default (deleted_values st' path))"
  using assms(3,5)
proof (induction es arbitrary: st logs)
  case (Cons x es)
  obtain key it where x: "x = (key, it)" by fastforce
  let ?r = "\<lambda>st logs. case snd key of
      Some _ \<Rightarrow> or_warn (add_full_value_to_list N ta (fst key) (rim_file_offset_absolute it) (rim_sequence_num it) Deleted st)
        (''Error adding value '' @ fmt_item_debug N key @ '' to deleted list for sequence num: '' @
         show_nat (unat (rim_sequence_num it)) @ '' ('') st logs
    | None \<Rightarrow> or_warn (add_full_key_to_list N ta (fst key) (rim_file_offset_absolute it) (rim_sequence_num it) Deleted st)
        (''Error adding key '' @ fst key @ '' to deleted list for sequence num: '' @
         show_nat (unat (rim_sequence_num it)) @ '' ('') st logs"
  obtain st1 l1 where r: "?r st logs = Ok (st1, l1)" and l: "deleted_items_loop N ta es st1 l1 = Ok (st', logs')"
    using Cons.prems(1) unfolding x deleted_items_loop.simps prod.case bindO_eq_Ok by fastforce
  have "ensures (\<lambda>(st', _). values_grow st st') (?r st logs)"
    by (auto split: option.split intro!: or_warn_grows add_full_value_grows add_full_key_grows)
  from ensuresD [OF this r] have g: "values_grow st st1" by simp
  show ?case
  proof (cases "x = e")
    case True
    then have "key = (path, Some n)" "it = item" using assms(2) x by simp_all
    with r assms(4,6) Cons.prems(3) have "st1 = st\<lparr>deleted_values := DeletedValueMap_add (deleted_values st) path
        (kv_set_cell_state DeletedTransactionLog (CellKeyValue ((kv v')\<lparr>kv_updated_by_sequence_num := Some (ta_new_sequence_number ta)\<rparr>)
          (kv_versions v')))\<rparr>"
      by (simp add: or_warn_def add_full_value_to_list_def Let_def ok_or_def)
    then have "kv_set_cell_state DeletedTransactionLog (CellKeyValue ((kv v')\<lparr>kv_updated_by_sequence_num := Some (ta_new_sequence_number ta)\<rparr>)
        (kv_versions v')) \<in> set (vec_or_default (deleted_values st1 path))"
      by (simp add: DeletedValueMap_add_def vec_push_in)
    moreover have "values_grow st1 st'" using ensuresD [OF deleted_items_grows l] by simp
    ultimately show ?thesis unfolding values_grow_def by blast
  next
    case False
    then have "e \<in> set es" using Cons.prems(2) by simp
    moreover have "get_full_field_info st1 = get_full_field_info st" using g by (simp add: values_grow_def)
    ultimately show ?thesis using Cons.IH [OF l] Cons.prems(3) by simp
  qed
qed simp

text \<open>Removing the items of the new tree removes no value of another name.\<close>

lemma remove_first_keeps: "remove_first P xs = Some ys \<Longrightarrow> x \<in> set xs \<Longrightarrow> \<not> P x \<Longrightarrow> x \<in> set ys"
  by (induction xs arbitrary: ys) (auto split: if_splits)

lemma remove_keeps_value:
  assumes "v \<in> set (vec_or_default (deleted_values st path))" and "(path, Some (value_name_of v)) \<noteq> fst e"
  shows "v \<in> set (vec_or_default (deleted_values (remove_from_deleted e st) path))"
proof -
  obtain p n item where e: "e = ((p, n), item)" by (metis surj_pair)
  show ?thesis
  proof (cases "n = None \<or> p \<noteq> path")
    case True
    have "DeletedValueMap_remove m p name h path = m path" if "p \<noteq> path" for m name h
      using that by (simp add: DeletedValueMap_remove_def split: option.split)
    with True assms(1) show ?thesis by (auto simp: e remove_from_deleted_def split: option.split)
  next
    case False
    then obtain name where n: "n = Some name" and p: "p = path" by auto
    then have "\<not> value_matches name (rim_hash item) v" using assms(2) by (auto simp: e value_matches_def value_name_of_def)
    moreover obtain vs where "deleted_values st path = Some vs" "v \<in> set vs"
      using assms(1) by (cases "deleted_values st path") (simp_all add: vec_or_default_def)
    ultimately show ?thesis
      by (auto simp: e n p remove_from_deleted_def DeletedValueMap_remove_def vec_or_default_def split: option.splits
          dest: remove_first_keeps)
  qed
qed

lemma fold_remove_keeps_value:
  "v \<in> set (vec_or_default (deleted_values st path)) \<Longrightarrow> (path, Some (value_name_of v)) \<notin> fst ` set es \<Longrightarrow>
     v \<in> set (vec_or_default (deleted_values (fold remove_from_deleted es st) path))"
  by (induction es arbitrary: st) (simp_all add: remove_keeps_value)

lemma read_value_bytes_keeps:
  assumes "CellKeyValue_read_value_bytes N fi v = Ok v'"
  shows "value_name_of v' = value_name_of v \<and> kv_file_offset_absolute (kv v') = kv_file_offset_absolute (kv v) \<and>
    kv_sequence_num (kv v') = kv_sequence_num (kv v)"
  using assms by (auto simp: CellKeyValue_read_value_bytes_def Let_def bindO_eq_Ok value_name_of_def)

lemma init_root_grows: "ensures (\<lambda>p'. values_grow (p_state p) (p_state p')) (init_root N depth p)"
  unfolding init_root_def Let_def
proof (rule ensures_bind, rule ensures_bind_prod, rule ensures_bind_prod, goal_cases)
  case (1 sl i hbh root st)
  show ?case using values_grow_same [OF read_state [OF 1(3)]] by simp
qed

text \<open>
  C7: a value that was known before an entry and is not in the tree after it is not lost: when its cell
  can be read in the file as it was before the entry, it is among the deleted values of its key, marked
  as deleted by a transaction log, with the number of the entry that deleted it and the one that wrote it.
\<close>

theorem vanished_values_kept:
  assumes "nom_apply_spec N" and "get_latest_reg_items N depth fuel ta prior logs p = Ok (latest, logs', p')"
    and "((path, Some n), item) \<in> set prior" and "(path, Some n) \<notin> fst ` set latest"
    and "get_from (buffer (prior_file_info ta)) (rim_file_offset_absolute item) = Some sl"
    and "CellKeyValue_from_bytes N sl (rim_file_offset_absolute item) (Some (rim_sequence_num item))
      (get_full_field_info (p_state p)) = Ok (rest, v)"
    and "value_name_of v = n"
  shows "\<exists>v' \<in> set (vec_or_default (deleted_values (p_state p') path)).
    kv_cell_state (kv v') = DeletedTransactionLog \<and> value_name_of v' = n \<and>
    kv_file_offset_absolute (kv v') = kv_file_offset_absolute (kv v) \<and> kv_sequence_num (kv v') = kv_sequence_num (kv v) \<and>
    kv_updated_by_sequence_num (kv v') = Some (ta_new_sequence_number ta)"
proof -
  have ns: "nom_spec N"
    using assms(1) by (simp add: nom_apply_spec_def nom_log_spec_def nom_list_spec_def nom_cell_spec_def)
  obtain q ks a st1 l1 st2 l2 st3 l3 where
    q: "init_root N depth p = Ok q"
    and a: "new_keys_loop ta ks \<lparr>prior_reg_items = prior, latest_reg_items = [], prior_keys_needed = [],
      prior_values_needed = [], an_logs = logs\<rparr> = Ok a"
    and l: "keys_needed_loop N ta (prior_keys_needed a) (p_state q) (an_logs a) = Ok (st1, l1)"
      "values_needed_loop N ta (prior_values_needed a) st1 l1 = Ok (st2, l2)"
      "deleted_items_loop N ta (hash_map_iter N (prior_reg_items a)) st2 l2 = Ok (st3, l3)"
    and r: "latest = latest_reg_items a"
      "p' = q\<lparr>p_state := fold remove_from_deleted (hash_map_iter N (latest_reg_items a)) st3\<rparr>"
    using assms(2) by (auto simp: get_latest_reg_items_def bindO_eq_Ok)
  have "values_grow (p_state p) st2"
    using ensuresD [OF init_root_grows q] ensuresD [OF keys_needed_grows l(1)] ensuresD [OF values_needed_grows l(2)]
    by (auto intro: values_grow_trans)
  then have full: "get_full_field_info st2 = get_full_field_info (p_state p)" by (simp add: values_grow_def)
  note m = items_loop_maps [OF a [unfolded new_keys_loop_items]]
  have "((path, Some n), item) \<in> set (prior_reg_items a)"
    using m assms(3,4) r(1) by (auto simp: unseen_def)
  then have e: "((path, Some n), item) \<in> set (hash_map_iter N (prior_reg_items a))"
    by (simp add: nom_apply_spec.set_hash_map_iter [OF assms(1)])
  obtain v' where v': "CellKeyValue_read_value_bytes N (prior_file_info ta) v = Ok v'"
    using nom_spec.CellKeyValue_read_value_bytes_total [OF ns] by blast
  let ?v = "kv_set_cell_state DeletedTransactionLog (CellKeyValue ((kv v')\<lparr>kv_updated_by_sequence_num := Some (ta_new_sequence_number ta)\<rparr>)
      (kv_versions v'))"
  have in3: "?v \<in> set (vec_or_default (deleted_values st3 path))"
    by (rule deleted_value_added [OF ns refl e assms(5) assms(6) [folded full] v' l(3)])
  have nm: "value_name_of ?v = n"
    using read_value_bytes_keeps [OF v'] assms(7) by (simp add: value_name_of_def kv_set_cell_state_def)
  have "(path, Some (value_name_of ?v)) \<notin> fst ` set (hash_map_iter N (latest_reg_items a))"
    using assms(4) r(1) nm by (simp add: nom_apply_spec.set_hash_map_iter [OF assms(1)])
  from fold_remove_keeps_value [OF in3 this] have "?v \<in> set (vec_or_default (deleted_values (p_state p') path))"
    by (simp add: r(2))
  with nm read_value_bytes_keeps [OF v'] show ?thesis
    by (intro bexI [of _ ?v]) (simp_all add: kv_set_cell_state_def)
qed

section \<open>What the code does not do\<close>

text \<open>
  When a key is taken from the deleted keys of its parent and was the last of them, the entry that is
  removed from the map is the one under the path of the key itself: its own deleted sub keys are lost.
\<close>

lemma removed_key_loses_deleted_sub_keys:
  assumes "m (parent_path path) = Some [k]" and "key_matches path h k" and "m path = Some ks"
  shows "ModifiedDeletedKeyMap_remove m path h path = None"
  using assms by (simp add: ModifiedDeletedKeyMap_remove_def)

text \<open>
  A log that is applied but has no entry to apply gives the sequence number 0, also after a log that
  had some: the header is then written with 0.
\<close>

lemma empty_log_resets_sequence_number:
  assumes "p_base_block p = Some bb" and "log_file_entries log = []"
  shows "update_parser N depth fuel log items p = Ok (0, items, p)"
  using assms by (simp add: update_parser_def get_base_block_info_def expect_base_def)

text \<open>Every entry of a grown hive makes the file longer by the whole growth, not only the first.\<close>

lemma every_entry_grows_the_file:
  assumes "bins < le_hive_bins_data_size e"
  shows "length (buffer (resize_buffer bins e (resize_buffer bins e fi))) =
    length (buffer fi) + 2 * unat (le_hive_bins_data_size e - bins)"
  using assms by (simp add: resize_buffer_def)

text \<open>An entry with the sequence number 0 is followed by any other: 0 stands for no entry.\<close>

lemma entry_zero_is_followed_by_any:
  assumes "has_valid_hashes e" and "le_sequence_number e = 0" and "is_valid_hive_bin_data_size e"
    and "has_valid_hashes e'" and "is_valid_hive_bin_data_size e'"
  shows "applicable 0 0 [e, e'] = [e, e']"
  using assms by simp

end
