(* ===== verification/Key_Order.thy ===== *)
theory Key_Order
  imports Key_Walk "HOL-Library.Multiset"
begin

text \<open>
  The orders of an iteration: on keys that form a tree, the two stack machines of \<open>parser.rs\<close> return the
  preorder and the postorder of that tree.
\<close>

section \<open>The tree of keys of a file\<close>

datatype ktree = KTree CellKeyNode "ktree list"

fun preorder_of :: "ktree \<Rightarrow> CellKeyNode list" where
  "preorder_of (KTree k ts) = k # concat (map preorder_of ts)"

text \<open>A key that is returned in postorder has counted all its sub keys as returned.\<close>

definition all_returned :: "CellKeyNode \<Rightarrow> CellKeyNode" where
  "all_returned = kn_update (\<lambda>c. c\<lparr>iteration_state := (iteration_state c)
     \<lparr>track_returned := to_return (iteration_state c)\<rparr>\<rparr>)"

fun postorder_of :: "ktree \<Rightarrow> CellKeyNode list" where
  "postorder_of (KTree k ts) = concat (map postorder_of ts) @ [all_returned k]"

definition sub_keys_of ::
  "'z env_list_scheme \<Rightarrow> nat \<Rightarrow> FileInfo \<Rightarrow> State \<Rightarrow> bool \<Rightarrow> CellKeyNode \<Rightarrow> (CellKeyNode list \<times> CellKeyNode) result" where
  "sub_keys_of N d fi st modified k =
     (if field_value (knd_number_of_sub_keys (kn_detail (kn k))) > 0
      then bindO (read_sub_keys_internal N d fi st Filter_new None modified k) (\<lambda>(cs, _, k', _). Ok (cs, k'))
      else Ok ([], k))"

definition set_to_return :: "nat \<Rightarrow> CellKeyNode \<Rightarrow> CellKeyNode" where
  "set_to_return n = kn_update (\<lambda>c. c\<lparr>iteration_state := (iteration_state c)\<lparr>to_return := of_nat n\<rparr>\<rparr>)"

text \<open>A key without deleted keys is the root of the tree of its sub keys, as the parser reads them.\<close>

inductive key_tree ::
  "'z env_list_scheme \<Rightarrow> nat \<Rightarrow> FileInfo \<Rightarrow> State \<Rightarrow> bool \<Rightarrow> CellKeyNode \<Rightarrow> ktree \<Rightarrow> bool"
  for N d fi st modified where
  node: "iteration_state (kn k) = CellKeyNodeIteration_default \<Longrightarrow> kn_deleted_keys k = [] \<Longrightarrow>
    sub_keys_of N d fi st modified k = Ok (cs, k') \<Longrightarrow> list_all2 (key_tree N d fi st modified) cs ts \<Longrightarrow>
    key_tree N d fi st modified k (KTree (set_to_return (length cs) k') ts)"

inductive_cases key_treeE: "key_tree N d fi st modified k t"

section \<open>Without a filter the state stays\<close>

lemma check_no_filter: "flt = None \<or> flt = Some Filter_new \<Longrightarrow>
    (case flt of Some f \<Rightarrow> check_cell N f st k | None \<Rightarrow> Ok (FILTER_ITERATE_KEYS, st)) = Ok (FILTER_ITERATE_KEYS, st)"
  by (auto simp: check_cell_def Filter_new_def Filter_is_valid_def)

lemma read_no_filter_state:
  assumes "ro_filter opts = None \<or> ro_filter opts = Some Filter_new"
    and "CellKeyNode_read N fuel fi st opts = Ok (r, st')"
  shows "st' = st"
proof -
  have "ensures (\<lambda>(r, st'). st' = st) (CellKeyNode_read N fuel fi st opts)"
    unfolding CellKeyNode_read_def read_from_slice_def check_no_filter [OF assms(1)] Let_def bindO.simps prod.case
    by (intro ensures_bind ensures_bind_prod ensures_if) auto
  from ensuresD [OF this assms(2)] show ?thesis by simp
qed

lemma sub_keys_loop_no_filter_state:
  "sf = None \<or> sf = Some Filter_new \<Longrightarrow>
     sub_keys_loop N fuel fi flt m sf seq dm vs k st cs fk = Ok (r, b, k', st') \<Longrightarrow> st' = st"
proof (induction vs arbitrary: k st cs fk)
  case Nil
  then show ?case by simp
next
  case (Cons v vs)
  let ?opts = "\<lparr>ro_offset = unat v, ro_cur_path = kn_path (kn k), ro_filter = sf,
      ro_self_is_filter_match_or_descendent = m, ro_sequence_num = seq, ro_get_deleted_and_modified = dm\<rparr>"
  have rd: "st1 = st" if "CellKeyNode_read N fuel fi st ?opts = Ok (c, st1)" for c st1
    using read_no_filter_state [OF _ that] Cons.prems(1) by simp
  show ?case
    using Cons.prems(2) Cons.IH [OF Cons.prems(1)]
    by (auto simp: case_prod_beta Let_def split: outcome.splits option.splits prod.splits dest!: rd)
qed

lemma read_sub_keys_no_filter_state:
  "read_sub_keys_internal N fuel fi st Filter_new seq dm k = Ok (cs, b, k', st') \<Longrightarrow> st' = st"
  by (auto simp: read_sub_keys_internal_def Let_def bindO_eq_Ok split: if_splits outcome.splits
      dest!: sub_keys_loop_no_filter_state [rotated])

section \<open>One key\<close>

definition no_filter :: "State \<Rightarrow> bool \<Rightarrow> ParserIteratorContext \<Rightarrow> bool" where
  "no_filter st modified ctx \<longleftrightarrow>
     ic_filter ctx = Filter_new \<and> ic_state ctx = st \<and> ic_get_modified_items ctx = modified"

lemma no_filter_simps [simp]:
  "no_filter st m (ctx\<lparr>stack_to_traverse := t\<rparr>) = no_filter st m ctx"
  "no_filter st m (ctx\<lparr>stack_to_return := r\<rparr>) = no_filter st m ctx"
  "no_filter st m (ctx\<lparr>stack_file_offsets := s\<rparr>) = no_filter st m ctx"
  by (simp_all add: no_filter_def)

lemma mark_deleted_none: "kn_deleted_keys k = [] \<Longrightarrow> mark_deleted k = k"
  by (cases k) (simp add: mark_deleted_def)

lemma set_to_return_0: "iteration_state (kn k) = CellKeyNodeIteration_default \<Longrightarrow> set_to_return 0 k = k"
  by (cases k) (simp add: set_to_return_def kn_update_def CellKeyNodeIteration_default_def)

lemma expand_tree_node:
  assumes "no_filter st modified ctx" and "iteration_state (kn k) = CellKeyNodeIteration_default"
    and "kn_deleted_keys k = []" and "sub_keys_of N d fi st modified k = Ok (cs, k')"
    and "distinct (map key_offset cs)" and "key_offset ` set cs \<inter> stack_file_offsets ctx = {}"
  shows "expand_node N d fi k ctx = Ok (set_to_return (length cs) k',
    ctx\<lparr>stack_to_traverse := cs @ stack_to_traverse ctx, stack_file_offsets := stack_file_offsets ctx \<union> key_offset ` set cs\<rparr>)"
proof (cases "field_value (knd_number_of_sub_keys (kn_detail (kn k))) > 0")
  case True
  then obtain b st' where r: "read_sub_keys_internal N d fi st Filter_new None modified k = Ok (cs, b, k', st')"
    using assms(4) by (auto simp: sub_keys_of_def bindO_eq_Ok)
  have "st' = st" using r by (rule read_sub_keys_no_filter_state)
  moreover have "kn_deleted_keys (set_to_return (length cs) k') = []"
    using read_sub_keys_children [OF r] assms(3) by (simp add: set_to_return_def)
  ultimately show ?thesis
    using True r assms(1) accepted_all [OF assms(5,6)]
    by (simp add: expand_node_def no_filter_def push_children_eq Let_def push_deleted_def mark_deleted_none
        set_to_return_def [symmetric])
next
  case False
  then have "cs = []" "k' = k" using assms(4) by (simp_all add: sub_keys_of_def)
  with False assms(2,3) show ?thesis
    by (simp add: expand_node_def Let_def push_deleted_def mark_deleted_none set_to_return_0)
qed

lemma sub_keys_of_same:
  assumes "sub_keys_of N d fi st modified k = Ok (cs, k')"
  shows "same_key k k' \<and> (\<forall>c \<in> set cs. child_of fi k c) \<and> iteration_state (kn k') = iteration_state (kn k)"
  using assms by (auto simp: sub_keys_of_def bindO_eq_Ok split: if_splits dest!: read_sub_keys_children)

lemma set_to_return_offset [simp]: "key_offset (set_to_return n k) = key_offset k"
  by (simp add: set_to_return_def)

lemma key_tree_offset: "key_tree N d fi st modified k t \<Longrightarrow> key_offset (hd (preorder_of t)) = key_offset k"
  by (elim key_treeE) (auto dest!: sub_keys_of_same simp: same_key_def)

section \<open>Preorder\<close>

abbreviation forest_offsets :: "ktree list \<Rightarrow> usize list" where
  "forest_offsets ts \<equiv> map key_offset (concat (map preorder_of ts))"

lemma forest_roots:
  "list_all2 (key_tree N d fi st modified) ks ts \<Longrightarrow>
     map key_offset ks = map (\<lambda>t. key_offset (hd (preorder_of t))) ts"
  by (induction rule: list_all2_induct) (auto simp: key_tree_offset)

text \<open>The keys of a forest are its roots and the keys below them.\<close>

fun below :: "ktree \<Rightarrow> CellKeyNode list" where
  "below (KTree k ts) = concat (map preorder_of ts)"

abbreviation root_offsets :: "ktree list \<Rightarrow> usize list" where
  "root_offsets ts \<equiv> map (\<lambda>t. key_offset (hd (preorder_of t))) ts"

abbreviation below_offsets :: "ktree list \<Rightarrow> usize list" where
  "below_offsets ts \<equiv> map key_offset (concat (map below ts))"

lemma forest_split: "mset (forest_offsets ts) = mset (root_offsets ts @ below_offsets ts)"
proof (induction ts)
  case Nil
  then show ?case by simp
next
  case (Cons t ts)
  then show ?case by (cases t) simp
qed

lemma forest_set: "set (forest_offsets ts) = set (root_offsets ts) \<union> set (below_offsets ts)"
  using mset_eq_setD [OF forest_split, of ts] by simp

lemma forest_distinct:
  "distinct (forest_offsets ts) \<longleftrightarrow>
     distinct (root_offsets ts) \<and> distinct (below_offsets ts) \<and> set (root_offsets ts) \<inter> set (below_offsets ts) = {}"
  using mset_eq_imp_distinct_iff [OF forest_split, of ts] by (simp add: distinct_append)

definition unvisited :: "ktree list \<Rightarrow> usize set \<Rightarrow> bool" where
  "unvisited ts seen \<longleftrightarrow> distinct (forest_offsets ts) \<and> set (below_offsets ts) \<inter> seen = {}"

lemma unvisited_expand:
  assumes "unvisited (KTree k us # ts) seen"
  shows "distinct (root_offsets us)" and "set (root_offsets us) \<inter> seen = {}"
    and "unvisited (us @ ts) (seen \<union> set (root_offsets us))"
proof -
  have d: "distinct (forest_offsets us @ forest_offsets ts)" and b: "(set (forest_offsets us) \<union> set (below_offsets ts)) \<inter> seen = {}"
    using assms by (auto simp: unvisited_def)
  then show "distinct (root_offsets us)" by (simp add: forest_distinct)
  show "set (root_offsets us) \<inter> seen = {}" using b unfolding forest_set by blast
  have "set (below_offsets us) \<inter> set (root_offsets us) = {}" using d forest_distinct [of us] by auto
  moreover have "set (below_offsets ts) \<inter> set (root_offsets us) = {}"
    using d unfolding distinct_append forest_set by blast
  moreover have "set (below_offsets (us @ ts)) = set (below_offsets us) \<union> set (below_offsets ts)" by (simp add: image_Un)
  moreover have "distinct (forest_offsets (us @ ts))" using d by simp
  ultimately show "unvisited (us @ ts) (seen \<union> set (root_offsets us))"
    using b unfolding forest_set unvisited_def by blast
qed

lemma preorder_collect:
  "no_filter st modified ctx \<Longrightarrow> list_all2 (key_tree N d fi st modified) (stack_to_traverse ctx) ts \<Longrightarrow>
     unvisited ts (stack_file_offsets ctx) \<Longrightarrow> length (concat (map preorder_of ts)) < n \<Longrightarrow>
     collect_iter (\<lambda>n. next_key_preorder N d n fi) n ctx = Ok (concat (map preorder_of ts))"
proof (induction n arbitrary: ctx ts)
  case 0
  then show ?case by simp
next
  case (Suc n)
  show ?case
  proof (cases ts)
    case Nil
    with Suc.prems(2) show ?thesis by (simp add: pop_stack_to_traverse_def)
  next
    case (Cons t ts')
    then obtain k rest where s: "stack_to_traverse ctx = k # rest" and k: "key_tree N d fi st modified k t"
      and rest: "list_all2 (key_tree N d fi st modified) rest ts'"
      using Suc.prems(2) by (auto simp: list_all2_Cons2)
    from k obtain cs k' us where t: "t = KTree (set_to_return (length cs) k') us"
      and it: "iteration_state (kn k) = CellKeyNodeIteration_default" and dk: "kn_deleted_keys k = []"
      and sk: "sub_keys_of N d fi st modified k = Ok (cs, k')"
      and us: "list_all2 (key_tree N d fi st modified) cs us"
      by (elim key_treeE) blast
    have uv: "unvisited (KTree (set_to_return (length cs) k') us # ts') (stack_file_offsets ctx)"
      using Suc.prems(3) by (simp add: Cons t)
    have r: "map key_offset cs = root_offsets us" using us by (rule forest_roots)
    then have rs: "key_offset ` set cs = set (root_offsets us)" by (metis list.set_map)
    let ?ctx1 = "ctx\<lparr>stack_to_traverse := rest\<rparr>"
    let ?ctx2 = "?ctx1\<lparr>stack_to_traverse := cs @ rest, stack_file_offsets := stack_file_offsets ctx \<union> key_offset ` set cs\<rparr>"
    have e: "expand_node N d fi k ?ctx1 = Ok (set_to_return (length cs) k', ?ctx2)"
      using expand_tree_node [OF _ it dk sk, of ?ctx1] Suc.prems(1) unvisited_expand(1,2) [OF uv] r rs by simp
    have nf: "\<not> Filter_is_valid (ic_filter ?ctx2)"
      using Suc.prems(1) by (simp add: no_filter_def Filter_new_def Filter_is_valid_def)
    have "collect_iter (\<lambda>n. next_key_preorder N d n fi) n ?ctx2 = Ok (concat (map preorder_of (us @ ts')))"
    proof (rule Suc.IH)
      show "unvisited (us @ ts') (stack_file_offsets ?ctx2)" using unvisited_expand(3) [OF uv] rs by simp
    qed (use Suc.prems us rest t Cons in \<open>simp_all add: list_all2_appendI\<close>)
    with e nf show ?thesis
      by (simp add: s pop_stack_to_traverse_def Cons t)
  qed
qed

lemma collect_context:
  "collect_iter (ParserIterator_next N d) n it =
     collect_iter (\<lambda>n. (if it_postorder_iteration it then next_key_postorder else next_key_preorder)
        N d n (p_file_info (it_parser it))) n (it_context it)"
proof (induction n arbitrary: it)
  case 0
  then show ?case by simp
next
  case (Suc n)
  show ?case
    using Suc.IH
    by (cases "(if it_postorder_iteration it then next_key_postorder else next_key_preorder) N d (Suc n)
        (p_file_info (it_parser it)) (it_context it)")
       (auto simp: ParserIterator_next_def split: option.splits if_splits)
qed

section \<open>Postorder\<close>

text \<open>The postorder machine: a round that takes a key from the stack, or the return of the top key.\<close>

inductive post_run ::
  "'z env_list_scheme \<Rightarrow> nat \<Rightarrow> FileInfo \<Rightarrow> ParserIteratorContext \<Rightarrow> CellKeyNode list \<Rightarrow> ParserIteratorContext \<Rightarrow> bool"
  for N d fi where
  stop: "post_run N d fi ctx [] ctx"
| round: "stack_to_traverse ctx \<noteq> [] \<Longrightarrow> \<not> last_is_done (stack_to_return ctx) \<Longrightarrow>
    postorder_round N d fi ctx = Ok ctx1 \<Longrightarrow> post_run N d fi ctx1 ks ctx' \<Longrightarrow> post_run N d fi ctx ks ctx'"
| emit: "stack_to_return ctx = k # ret \<Longrightarrow> last_is_done (k # ret) \<Longrightarrow>
    filter_state (iteration_state (kn k)) = None \<Longrightarrow> post_run N d fi (ctx\<lparr>stack_to_return := ret\<rparr>) ks ctx' \<Longrightarrow>
    post_run N d fi ctx (k # ks) ctx'"

lemma post_run_append:
  "post_run N d fi a ks b \<Longrightarrow> post_run N d fi b ls c \<Longrightarrow> post_run N d fi a (ks @ ls) c"
  by (induction rule: post_run.induct) (auto intro: post_run.intros)

abbreviation collect_post :: "'z env_list_scheme \<Rightarrow> nat \<Rightarrow> FileInfo \<Rightarrow> nat \<Rightarrow> ParserIteratorContext \<Rightarrow> CellKeyNode list result" where
  "collect_post N d fi \<equiv> collect_iter (\<lambda>n. next_key_postorder N d n fi)"

lemma collect_post_round:
  assumes "stack_to_traverse ctx \<noteq> []" and "\<not> last_is_done (stack_to_return ctx)"
    and "postorder_round N d fi ctx = Ok ctx1" and "collect_post N d fi m ctx1 = Ok ks"
  shows "collect_post N d fi (Suc m) ctx = Ok ks"
proof -
  have n: "next_key_postorder N d m fi ctx1 \<noteq> Diverge"
    using assms(4) by (cases m) auto
  have "next_key_postorder N d (Suc m) fi ctx = next_key_postorder N d (Suc m) fi ctx1"
    using assms(1-3) postorder_more_fuel [OF n, of "Suc m"] by (simp add: postorder_Suc)
  then have "collect_post N d fi (Suc m) ctx = collect_post N d fi (Suc m) ctx1" by simp
  also have "\<dots> = Ok ks" using postorder.collect_more_fuel [of N d fi m ctx1 "Suc m"] assms(4) by simp
  finally show ?thesis .
qed

lemma collect_post_emit:
  assumes "stack_to_return ctx = k # ret" and "last_is_done (k # ret)" and "filter_state (iteration_state (kn k)) = None"
    and "collect_post N d fi m (ctx\<lparr>stack_to_return := ret\<rparr>) = Ok ks"
  shows "collect_post N d fi (Suc m) ctx = Ok (k # ks)"
proof -
  have "next_key_postorder N d (Suc m) fi ctx = Ok (Some k, ctx\<lparr>stack_to_return := ret\<rparr>)"
    using assms(1-3) by (simp add: postorder_Suc postorder_remaining_def)
  with assms(4) show ?thesis by simp
qed

lemma post_run_collect:
  "post_run N d fi ctx ks ctx' \<Longrightarrow> stack_to_traverse ctx' = [] \<Longrightarrow> stack_to_return ctx' = [] \<Longrightarrow>
     \<exists>n. \<forall>m \<ge> n. collect_post N d fi m ctx = Ok ks"
proof (induction rule: post_run.induct)
  case (stop ctx)
  then have "collect_post N d fi (Suc 0) ctx = Ok []" by (simp add: postorder_Suc postorder_remaining_def)
  then show ?case using postorder.collect_more_fuel by (metis outcome.distinct(5))
next
  case (round ctx ctx1 ks ctx')
  then obtain n where "collect_post N d fi n ctx1 = Ok ks" by blast
  then have "collect_post N d fi (Suc n) ctx = Ok ks" using round by (intro collect_post_round)
  then show ?case using postorder.collect_more_fuel by (metis outcome.distinct(5))
next
  case (emit ctx k ret ks ctx')
  then obtain n where "collect_post N d fi n (ctx\<lparr>stack_to_return := ret\<rparr>) = Ok ks" by auto
  then have "collect_post N d fi (Suc n) ctx = Ok (k # ks)" using emit by (intro collect_post_emit)
  then show ?case using postorder.collect_more_fuel by (metis outcome.distinct(5))
qed

text \<open>A stack whose top key waits for sub keys, and the stack after one of them was taken up.\<close>

definition add_track :: "nat \<Rightarrow> CellKeyNode \<Rightarrow> CellKeyNode" where
  "add_track n = kn_update (\<lambda>c. c\<lparr>iteration_state := (iteration_state c)
     \<lparr>track_returned := track_returned (iteration_state c) + of_nat n\<rparr>\<rparr>)"

definition waits_for :: "nat \<Rightarrow> CellKeyNode list \<Rightarrow> bool" where
  "waits_for n ret =
     (case ret of
        [] \<Rightarrow> True
      | r # _ \<Rightarrow> unat (track_returned (iteration_state (kn r))) + n \<le> unat (to_return (iteration_state (kn r))))"

definition after_children :: "nat \<Rightarrow> CellKeyNode list \<Rightarrow> CellKeyNode list" where
  "after_children n ret = (case ret of [] \<Rightarrow> [] | r # rs \<Rightarrow> add_track n r # rs)"

lemma kn_update_id: "f (kn k) = kn k \<Longrightarrow> kn_update f k = k"
  by (cases k) (simp add: kn_update_def)

lemma kn_update_comp: "kn_update f (kn_update g k) = kn_update (\<lambda>c. f (g c)) k"
  by (simp add: kn_update_def)

lemma add_track_simps [simp]:
  "add_track 0 k = k" "add_track m (add_track n k) = add_track (n + m) k"
  by (simp_all add: add_track_def kn_update_id kn_update_comp add.assoc)

lemma after_children_simps [simp]:
  "after_children 0 ret = ret" "after_children m (after_children n ret) = after_children (n + m) ret"
  by (simp_all add: after_children_def split: list.splits)

lemma waits_for_mono: "waits_for n ret \<Longrightarrow> m \<le> n \<Longrightarrow> waits_for m ret"
  by (auto simp: waits_for_def split: list.splits)

lemma unat_add_track:
  assumes "unat (track_returned (iteration_state (kn r))) + n \<le> unat (to_return (iteration_state (kn r)))"
  shows "unat (track_returned (iteration_state (kn r)) + of_nat n) = unat (track_returned (iteration_state (kn r))) + n"
proof -
  have "unat (to_return (iteration_state (kn r))) < 2 ^ 32" using unat_less [of "to_return (iteration_state (kn r))"] by simp
  with assms have "unat (track_returned (iteration_state (kn r))) + n < 2 ^ 32" by linarith
  then have "unat (of_nat (unat (track_returned (iteration_state (kn r))) + n) :: u32) = unat (track_returned (iteration_state (kn r))) + n"
    by (intro unat_of_nat_less) simp
  then show ?thesis by simp
qed

lemma waits_for_after: "waits_for (m + n) ret \<Longrightarrow> waits_for n (after_children m ret)"
proof (cases ret)
  case (Cons r rs)
  assume "waits_for (m + n) ret"
  with Cons unat_add_track [of r m] show ?thesis
    by (simp add: waits_for_def after_children_def add_track_def)
qed (simp add: after_children_def waits_for_def)

lemma not_done: "waits_for (Suc n) ret \<Longrightarrow> \<not> last_is_done ret"
  by (auto simp: waits_for_def last_is_done_def split: list.splits)

lemma count_returned_waits: "waits_for (Suc n) ret \<Longrightarrow> count_returned N ret = Ok (after_children 1 ret)"
proof (cases ret)
  case (Cons r rs)
  assume "waits_for (Suc n) ret"
  then have "unat (track_returned (iteration_state (kn r))) + 1 < 2 ^ 32"
    using Cons unat_less [of "to_return (iteration_state (kn r))"] by (simp add: waits_for_def)
  then show ?thesis
    by (simp add: Cons count_returned_def after_children_def add_track_def kn_update_def)
qed (simp add: count_returned_def after_children_def)

lemma unvisited_Cons:
  assumes "unvisited (t # ts) seen"
  shows "unvisited [t] seen" and "unvisited ts (seen \<union> set (below_offsets [t]))"
proof -
  have d: "distinct (forest_offsets [t] @ forest_offsets ts)"
    and b: "(set (below_offsets [t]) \<union> set (below_offsets ts)) \<inter> seen = {}"
    using assms by (auto simp: unvisited_def)
  then show "unvisited [t] seen" unfolding unvisited_def distinct_append by blast
  have "set (below_offsets [t]) \<inter> set (below_offsets ts) = {}"
    using d unfolding distinct_append forest_set by blast
  with d b show "unvisited ts (seen \<union> set (below_offsets [t]))"
    unfolding unvisited_def distinct_append by blast
qed

text \<open>What a run over a tree, and over the trees of the sub keys of the top key, returns and leaves.\<close>

definition runs_tree ::
  "'z env_list_scheme \<Rightarrow> nat \<Rightarrow> FileInfo \<Rightarrow> State \<Rightarrow> bool \<Rightarrow> CellKeyNode \<Rightarrow> ktree \<Rightarrow> bool" where
  "runs_tree N d fi st modified k t \<longleftrightarrow>
     (\<forall>ctx rest. no_filter st modified ctx \<longrightarrow> stack_to_traverse ctx = k # rest \<longrightarrow> waits_for 1 (stack_to_return ctx) \<longrightarrow>
        unvisited [t] (stack_file_offsets ctx) \<longrightarrow>
        post_run N d fi ctx (postorder_of t)
          (ctx\<lparr>stack_to_traverse := rest, stack_to_return := after_children 1 (stack_to_return ctx),
               stack_file_offsets := stack_file_offsets ctx \<union> set (below_offsets [t])\<rparr>))"

lemma runs_forest:
  "list_all2 (runs_tree N d fi st modified) ks ts \<Longrightarrow> no_filter st modified ctx \<Longrightarrow> stack_to_traverse ctx = ks @ rest \<Longrightarrow>
     waits_for (length ks) (stack_to_return ctx) \<Longrightarrow> unvisited ts (stack_file_offsets ctx) \<Longrightarrow>
     post_run N d fi ctx (concat (map postorder_of ts))
       (ctx\<lparr>stack_to_traverse := rest, stack_to_return := after_children (length ks) (stack_to_return ctx),
            stack_file_offsets := stack_file_offsets ctx \<union> set (below_offsets ts)\<rparr>)"
proof (induction ks ts arbitrary: ctx rule: list_all2_induct)
  case Nil
  then have "rest = stack_to_traverse ctx" by simp
  then show ?case using post_run.stop [of N d fi ctx] by simp
next
  case (Cons k ks t ts)
  let ?ctx1 = "ctx\<lparr>stack_to_traverse := ks @ rest, stack_to_return := after_children 1 (stack_to_return ctx),
      stack_file_offsets := stack_file_offsets ctx \<union> set (below_offsets [t])\<rparr>"
  have w: "waits_for (1 + length ks) (stack_to_return ctx)" using Cons.prems(3) by simp
  have "post_run N d fi ctx (postorder_of t) ?ctx1"
    using Cons.hyps(1) Cons.prems(1,2) waits_for_mono [OF w] unvisited_Cons(1) [OF Cons.prems(4)]
    by (simp add: runs_tree_def)
  moreover have "post_run N d fi ?ctx1 (concat (map postorder_of ts))
       (?ctx1\<lparr>stack_to_traverse := rest, stack_to_return := after_children (length ks) (stack_to_return ?ctx1),
            stack_file_offsets := stack_file_offsets ?ctx1 \<union> set (below_offsets ts)\<rparr>)"
    using Cons.prems(1) waits_for_after [OF w] unvisited_Cons(2) [OF Cons.prems(4)]
    by (intro Cons.IH) simp_all
  ultimately have "post_run N d fi ctx (postorder_of t @ concat (map postorder_of ts))
       (?ctx1\<lparr>stack_to_traverse := rest, stack_to_return := after_children (length ks) (stack_to_return ?ctx1),
            stack_file_offsets := stack_file_offsets ?ctx1 \<union> set (below_offsets ts)\<rparr>)"
    by (rule post_run_append)
  then show ?case by (simp add: Un_assoc image_Un)
qed

lemma children_bound:
  assumes "sub_keys_of N d fi st modified k = Ok (cs, k')" and "distinct (map key_offset cs)"
    and "length (buffer fi) + 1 < 2 ^ 32"
  shows "length cs < 2 ^ 32"
proof -
  have "set (map key_offset cs) \<subseteq> {..length (buffer fi)}"
    using sub_keys_of_same [OF assms(1)] by (auto simp: child_of_def)
  then have "card (set (map key_offset cs)) \<le> length (buffer fi) + 1"
    using card_mono [of "{..length (buffer fi)}" "set (map key_offset cs)"] by simp
  moreover have "card (set (map key_offset cs)) = length cs" using distinct_card [OF assms(2)] by simp
  ultimately show ?thesis using assms(3) by linarith
qed

lemma runs_node:
  assumes "length (buffer fi) + 1 < 2 ^ 32" and "iteration_state (kn k) = CellKeyNodeIteration_default"
    and "kn_deleted_keys k = []" and "sub_keys_of N d fi st modified k = Ok (cs, k')"
    and "list_all2 (runs_tree N d fi st modified) cs us" and "map key_offset cs = root_offsets us"
  shows "runs_tree N d fi st modified k (KTree (set_to_return (length cs) k') us)"
  unfolding runs_tree_def
proof (intro allI impI)
  fix ctx rest
  assume nf: "no_filter st modified ctx" and t: "stack_to_traverse ctx = k # rest"
    and w: "waits_for 1 (stack_to_return ctx)"
    and u: "unvisited [KTree (set_to_return (length cs) k') us] (stack_file_offsets ctx)"
  let ?n = "set_to_return (length cs) k'" and ?ret = "after_children 1 (stack_to_return ctx)"
  have rs: "key_offset ` set cs = set (root_offsets us)" using assms(6) by (metis list.set_map)
  have d: "distinct (map key_offset cs)" using unvisited_expand(1) [OF u] assms(6) by simp
  have len: "unat (of_nat (length cs) :: u32) = length cs"
    using children_bound [OF assms(4) d assms(1)] by (intro unat_of_nat_less) simp
  let ?ctx2 = "ctx\<lparr>stack_to_traverse := cs @ rest, stack_to_return := ?n # ?ret,
      stack_file_offsets := stack_file_offsets ctx \<union> set (root_offsets us)\<rparr>"
  have "expand_node N d fi k (ctx\<lparr>stack_to_traverse := rest\<rparr>) = Ok (?n, ctx\<lparr>stack_to_traverse := cs @ rest,
      stack_file_offsets := stack_file_offsets ctx \<union> set (root_offsets us)\<rparr>)"
    using expand_tree_node [OF _ assms(2,3,4) d, of "ctx\<lparr>stack_to_traverse := rest\<rparr>"] nf
      unvisited_expand(2) [OF u] rs by simp
  then have r: "postorder_round N d fi ctx = Ok ?ctx2"
    using w count_returned_waits [of 0 "stack_to_return ctx" N] by (simp add: postorder_round_def t)
  have top: "iteration_state (kn ?n) = CellKeyNodeIteration_default\<lparr>to_return := of_nat (length cs)\<rparr>"
    using sub_keys_of_same [OF assms(4)] assms(2) by (simp add: set_to_return_def)
  let ?ctx3 = "?ctx2\<lparr>stack_to_traverse := rest, stack_to_return := after_children (length cs) (?n # ?ret),
      stack_file_offsets := stack_file_offsets ctx \<union> set (root_offsets us) \<union> set (below_offsets us)\<rparr>"
  have "waits_for (length cs) (?n # ?ret)"
    by (simp add: waits_for_def top len CellKeyNodeIteration_default_def)
  then have f: "post_run N d fi ?ctx2 (concat (map postorder_of us)) ?ctx3"
    using runs_forest [OF assms(5), of ?ctx2 rest] nf unvisited_expand(3) [OF u] by simp
  have "add_track (length cs) ?n = all_returned ?n"
    using top by (simp add: add_track_def all_returned_def kn_update_def CellKeyNodeIteration_default_def)
  then have e: "post_run N d fi ?ctx3 [all_returned ?n] (?ctx3\<lparr>stack_to_return := ?ret\<rparr>)"
    using top post_run.stop [of N d fi "?ctx3\<lparr>stack_to_return := ?ret\<rparr>"] by (intro post_run.emit [of _ _ ?ret])
      (simp_all add: after_children_def [of "length cs"] last_is_done_def all_returned_def CellKeyNodeIteration_default_def)
  have "post_run N d fi ctx (concat (map postorder_of us) @ [all_returned ?n]) (?ctx3\<lparr>stack_to_return := ?ret\<rparr>)"
    using t not_done [of 0] w r post_run_append [OF f e] by (intro post_run.round [of ctx]) simp_all
  then show "post_run N d fi ctx (postorder_of (KTree ?n us))
          (ctx\<lparr>stack_to_traverse := rest, stack_to_return := ?ret,
               stack_file_offsets := stack_file_offsets ctx \<union> set (below_offsets [KTree ?n us])\<rparr>)"
  proof -
    have "?ctx3\<lparr>stack_to_return := ?ret\<rparr> = ctx\<lparr>stack_to_traverse := rest, stack_to_return := ?ret,
               stack_file_offsets := stack_file_offsets ctx \<union> set (below_offsets [KTree ?n us])\<rparr>"
      using forest_set [of us] by (cases ctx) (simp add: Un_assoc)
    with \<open>post_run N d fi ctx (concat (map postorder_of us) @ [all_returned ?n]) (?ctx3\<lparr>stack_to_return := ?ret\<rparr>)\<close>
    show ?thesis by simp
  qed
qed

lemma runs_key_tree:
  assumes "length (buffer fi) + 1 < 2 ^ 32"
  shows "key_tree N d fi st modified k t \<Longrightarrow> runs_tree N d fi st modified k t"
proof (induction rule: key_tree.induct)
  case (node k cs k' ts)
  have "list_all2 (runs_tree N d fi st modified) cs ts" and "list_all2 (key_tree N d fi st modified) cs ts"
    using node.IH by (auto elim: list_all2_mono)
  then show ?case using node.hyps assms by (intro runs_node forest_roots)
qed

section \<open>The start of an iteration\<close>

lemma start_of_tree:
  fixes p modified ancestors
  defines "ctx \<equiv> ParserIteratorContext_from_parser p modified (Some (Filter_new, ancestors))"
  assumes "p_cell_key_node_root p = Some root" and "key_tree N d (p_file_info p) (p_state p) modified root t"
    and "distinct (map kn_file_offset_absolute (map kn (preorder_of t)))"
  shows "no_filter (p_state p) modified ctx" "stack_to_traverse ctx = [root]" "stack_to_return ctx = []"
    "unvisited [t] (stack_file_offsets ctx)"
proof -
  have c: "stack_file_offsets ctx = {key_offset root}"
    by (simp add: ctx_def ParserIteratorContext_from_parser_def Let_def assms(2))
  show "no_filter (p_state p) modified ctx" "stack_to_traverse ctx = [root]" "stack_to_return ctx = []"
    by (simp_all add: ctx_def ParserIteratorContext_from_parser_def Let_def assms(2) no_filter_def)
  have d: "distinct (forest_offsets [t])" using assms(4) by (simp add: o_def)
  have "set (below_offsets [t]) \<inter> {key_offset root} = {}"
    using d key_tree_offset [OF assms(3)] unfolding forest_distinct by simp
  with d show "unvisited [t] (stack_file_offsets ctx)" by (simp only: unvisited_def c simp_thms)
qed

lemma preorder_walk:
  assumes "p_cell_key_node_root p = Some root" and "key_tree N d (p_file_info p) (p_state p) modified root t"
    and "distinct (map kn_file_offset_absolute (map kn (preorder_of t)))" and "length (preorder_of t) < m"
  shows "iter_all N d m (key_iterator_for p False ancestors modified Filter_new) = Ok (preorder_of t)"
proof -
  note start = start_of_tree [OF assms(1-3), of ancestors]
  have "collect_iter (\<lambda>n. next_key_preorder N d n (p_file_info p)) m
      (ParserIteratorContext_from_parser p modified (Some (Filter_new, ancestors))) = Ok (preorder_of t)"
    using preorder_collect [OF start(1) _ start(4), of N d "p_file_info p" m] assms(2,4) by (simp add: start(2))
  then show ?thesis by (simp add: iter_all_def collect_context key_iterator_for_simps)
qed

section \<open>Properties\<close>

text \<open>
  C3: when the keys below the root form a tree (no filter, no deleted keys, no offset twice), the iterator
  returns them in preorder, or in postorder when it is set to: each key before, or after, all the
  keys below it, and sub keys in the order of their list.
\<close>

theorem iteration_orders:
  assumes "p_cell_key_node_root p = Some root"
    and "key_tree N d (p_file_info p) (p_state p) modified root t"
    and "distinct (map kn_file_offset_absolute (map kn (preorder_of t)))"
    and "length (buffer (p_file_info p)) + 1 < 2 ^ 32"
  shows "\<exists>n. \<forall>m \<ge> n.
      iter_all N d m (key_iterator_for p False ancestors modified Filter_new) = Ok (preorder_of t) \<and>
      iter_all N d m (key_iterator_for p True ancestors modified Filter_new) = Ok (postorder_of t)"
proof -
  let ?ctx = "ParserIteratorContext_from_parser p modified (Some (Filter_new, ancestors))"
  note start = start_of_tree [OF assms(1-3), of ancestors]
  have "post_run N d (p_file_info p) ?ctx (postorder_of t)
      (?ctx\<lparr>stack_to_traverse := [], stack_to_return := [],
           stack_file_offsets := stack_file_offsets ?ctx \<union> set (below_offsets [t])\<rparr>)"
  proof -
    have "waits_for 1 (stack_to_return ?ctx)" and a: "after_children 1 (stack_to_return ?ctx) = []"
      by (simp_all add: start(3) waits_for_def after_children_def)
    then show ?thesis
      using runs_key_tree [OF assms(4,2), unfolded runs_tree_def, rule_format, OF start(1,2) _ start(4)]
      unfolding a by blast
  qed
  then obtain n where post: "\<forall>m \<ge> n. collect_post N d (p_file_info p) m ?ctx = Ok (postorder_of t)"
    using post_run_collect by fastforce
  show ?thesis
  proof (intro exI allI impI conjI)
    fix m assume m: "max n (Suc (length (preorder_of t))) \<le> m"
    then show "iter_all N d m (key_iterator_for p False ancestors modified Filter_new) = Ok (preorder_of t)"
      by (intro preorder_walk [OF assms(1-3)]) simp
    from m post show "iter_all N d m (key_iterator_for p True ancestors modified Filter_new) = Ok (postorder_of t)"
      by (simp add: iter_all_def collect_context key_iterator_for_simps)
  qed
qed

section \<open>Postorder with a filter\<close>

text \<open>
  When all keys are expanded and the next one to return does not match the filter, the iteration in
  postorder says that it is over, whatever keys are left behind it.
\<close>

lemma postorder_stops_at_unmatched_key:
  assumes "stack_to_traverse ctx = []" and "stack_to_return ctx = node # rest" and "\<not> ic_filter_include_ancestors ctx"
    and "filter_state (iteration_state (kn node)) = Some FMS_None"
  shows "next_key_postorder N d (Suc n) fi ctx = Ok (None, ctx\<lparr>stack_to_return := rest\<rparr>)"
  using assms by (simp add: next_key_postorder.simps(2) postorder_remaining_def)

text \<open>While keys are left to expand, a key whose sub keys are returned is returned whatever the filter says of it.\<close>

lemma postorder_returns_unmatched_key:
  assumes "stack_to_traverse ctx \<noteq> []" and "stack_to_return ctx = node # rest"
    and "track_returned (iteration_state (kn node)) = to_return (iteration_state (kn node))"
  shows "next_key_postorder N d (Suc n) fi ctx = Ok (Some node, ctx\<lparr>stack_to_return := rest\<rparr>)"
  using assms by (simp add: next_key_postorder.simps(2) last_is_done_def)

section \<open>Witnesses\<close>

text \<open>A root whose list, at 0, names one key, at 12.\<close>

definition walk_list :: bytes where
  "walk_list = [0xF4, 0xFF, 0xFF, 0xFF, 0x6C, 0x69, 1, 0, 12, 0, 0, 0]"

definition walk_file :: FileInfo where
  "walk_file = \<lparr>hbin_offset_absolute = 0, buffer = walk_list @ nk_bytes (- 88) sample_nk\<rparr>"

definition walk_root :: CellKeyNode where
  "walk_root = kn_update (\<lambda>c. c\<lparr>kn_file_offset_absolute := 1000,
     kn_detail := (kn_detail c)\<lparr>knd_number_of_sub_keys := Field_init False 1\<rparr>\<rparr>) CellKeyNode_default"

definition walk_parser :: Parser where
  "walk_parser = \<lparr>p_file_info = walk_file, p_state = State_default, p_base_block = None, p_hive_bin_header = None,
     p_cell_key_node_root = Some walk_root, p_recover_deleted = False, p_update_console = False\<rparr>"

lemma walk_file_length: "length (buffer walk_file) = 100"
  by (simp add: walk_file_def walk_list_def length_nk_bytes sample_nk_def)

lemma walk_list_cell:
  "list_cell ''ri'' 4 (walk_list @ rest) = None" "leaf_cell (walk_list @ rest) = Some [12]"
proof -
  define s where "s = walk_list @ rest"
  have c: "list_count s = 1" "take 2 (drop 4 s) = [0x6C, 0x69]" "length s = 12 + length rest"
    "take 4 (drop 8 s) = [12, 0, 0, 0]"
    by (simp_all add: s_def list_count_def walk_list_def from_le_bytes_def)
  have "list_cell ''ri'' 4 s = None" "leaf_cell s = Some [12]"
    by (simp_all add: list_cell_def leaf_cell_def c bytes_of_def byte_of_char_def of_char_def from_le_bytes_def)
  then show "list_cell ''ri'' 4 (walk_list @ rest) = None" "leaf_cell (walk_list @ rest) = Some [12]"
    by (simp_all add: s_def)
qed

lemma walk_file_list: "\<exists>d. parse_sub_key_list env_list_ref (Suc d) walk_file 0 = Ok [12]"
proof -
  have "sub_keys walk_file 0 [12]"
    by (rule sub_keys.leaf [OF _ walk_list_cell]) (simp add: cell_at_def walk_file_def get_from_def)
  then obtain f where f: "parse_sub_key_list env_list_ref f walk_file 0 = Ok (absolute walk_file [12])"
    using ref_nom_list.parse_complete [of walk_file 0 "[12]"] by (auto simp: walk_file_def offsets_fit_def)
  then show ?thesis
    by (cases f) (auto simp: absolute_def walk_file_def)
qed

lemma walk_file_key:
  "\<exists>k. CellKeyNode_read env_list_ref d walk_file State_default
      \<lparr>ro_offset = 12, ro_cur_path = cur, ro_filter = Some Filter_new, ro_self_is_filter_match_or_descendent = False,
       ro_sequence_num = None, ro_get_deleted_and_modified = False\<rparr> = Ok (Some k, State_default) \<and>
    field_value (knd_number_of_sub_keys (kn_detail (kn k))) = 0 \<and> kn_deleted_keys k = [] \<and>
    iteration_state (kn k) = CellKeyNodeIteration_default \<and> key_offset k = 12"
proof -
  have h: "length (nk_name sample_nk) < 2 ^ 16" "unat (unsigned_abs (- 88)) = 80 + length (nk_name sample_nk) + length (nk_slack sample_nk)"
    "flags_contain (nk_flags sample_nk) KEY_COMP_NAME" "nk_flags sample_nk AND KeyNodeFlags_all = nk_flags sample_nk"
    by (simp_all add: sample_nk_def unsigned_abs_def flags_contain_def KEY_COMP_NAME_def KeyNodeFlags_all_def KEY_HIVE_ENTRY_def)
  obtain k where k: "CellKeyNode_from_bytes env_list_ref State_default (nk_bytes (- 88) sample_nk) 12 cur None = Ok ([], k)"
    and n: "field_value (knd_number_of_sub_keys (kn_detail (kn k))) = 0" "field_value (knd_number_of_key_values (kn_detail (kn k))) = 0"
    using nk_parse [OF ref_nom_list.nom_spec_axioms h, of State_default "[]" 12 cur None] by (auto simp: sample_nk_def)
  have s: "get_from (buffer walk_file) 12 = Some (nk_bytes (- 88) sample_nk)"
    by (simp add: walk_file_def walk_list_def get_from_def)
  show ?thesis
    using k n ensuresD [OF from_bytes_fresh k]
    by (intro exI [of _ k])
       (auto simp: CellKeyNode_read_def s read_from_slice_def check_cell_def Filter_new_def Filter_is_valid_def Let_def
         flags_contain_def FILTER_ITERATE_KEYS_def FILTER_NO_MATCH_def FILTER_KEY_MATCH_def fresh_key_def)
qed

lemma walk_root_simps:
  "field_value (knd_number_of_sub_keys (kn_detail (kn walk_root))) = 1" "kn_cell_state (kn walk_root) = Allocated"
  "field_value (knd_sub_keys_list_offset_relative (kn_detail (kn walk_root))) = 0" "kn_deleted_keys walk_root = []"
  "iteration_state (kn walk_root) = CellKeyNodeIteration_default" "key_offset walk_root = 1000"
  "\<not> is_filter_match_or_descendent walk_root"
  by (simp_all add: walk_root_def CellKeyNode_default_def CellKeyNodeDetail_default_def Field_init_def FieldLight_new_def
      is_filter_match_or_descendent_def CellKeyNodeIteration_default_def)

lemma walk_tree:
  "\<exists>d root k. key_tree env_list_ref d walk_file State_default False walk_root (KTree root [KTree k []]) \<and>
     key_offset root = 1000 \<and> key_offset k = 12"
proof -
  obtain d where d: "parse_sub_key_list env_list_ref (Suc d) walk_file 0 = Ok [12]" using walk_file_list by blast
  obtain k where k: "CellKeyNode_read env_list_ref (Suc d) walk_file State_default
      \<lparr>ro_offset = 12, ro_cur_path = kn_path (kn walk_root), ro_filter = Some Filter_new,
       ro_self_is_filter_match_or_descendent = False, ro_sequence_num = None,
       ro_get_deleted_and_modified = False\<rparr> = Ok (Some k, State_default)"
    and kp: "field_value (knd_number_of_sub_keys (kn_detail (kn k))) = 0" "kn_deleted_keys k = []"
      "iteration_state (kn k) = CellKeyNodeIteration_default" "key_offset k = 12"
    using walk_file_key by blast
  have m: "mark_child False Filter_new k = (k, False)"
    by (simp add: mark_child_def Let_def kp CellKeyNodeIteration_default_def Filter_new_def Filter_is_valid_def)
  obtain root where s: "sub_keys_of env_list_ref (Suc d) walk_file State_default False walk_root = Ok ([k], root)"
    using d k m
    by (simp add: sub_keys_of_def read_sub_keys_internal_def Let_def walk_root_simps del: parse_sub_key_list.simps)
  have "key_tree env_list_ref (Suc d) walk_file State_default False k (KTree (set_to_return (length ([] :: CellKeyNode list)) k) [])"
    by (rule key_tree.node) (simp_all add: kp sub_keys_of_def)
  then have t: "key_tree env_list_ref (Suc d) walk_file State_default False k (KTree k [])"
    by (simp add: set_to_return_0 kp)
  have "key_tree env_list_ref (Suc d) walk_file State_default False walk_root
      (KTree (set_to_return (length [k]) root) [KTree k []])"
    by (rule key_tree.node [OF _ _ s]) (simp_all add: walk_root_simps t)
  moreover have "key_offset (set_to_return (length [k]) root) = 1000"
    using sub_keys_of_same [OF s] by (simp add: same_key_def walk_root_simps)
  ultimately show ?thesis using kp(4) by blast
qed

theorem iteration_orders_witness:
  "\<exists>d root k n. \<forall>m \<ge> n.
     iter_all env_list_ref d m (key_iterator_for walk_parser False False False Filter_new) = Ok [root, k] \<and>
     iter_all env_list_ref d m (key_iterator_for walk_parser True False False Filter_new) = Ok [all_returned k, all_returned root]"
proof -
  obtain d root k where t: "key_tree env_list_ref d walk_file State_default False walk_root (KTree root [KTree k []])"
    and o: "key_offset root = 1000" "key_offset k = 12"
    using walk_tree by blast
  have "\<exists>n. \<forall>m \<ge> n.
      iter_all env_list_ref d m (key_iterator_for walk_parser False False False Filter_new) = Ok (preorder_of (KTree root [KTree k []])) \<and>
      iter_all env_list_ref d m (key_iterator_for walk_parser True False False Filter_new) = Ok (postorder_of (KTree root [KTree k []]))"
    by (rule iteration_orders [of walk_parser walk_root])
       (simp_all add: walk_parser_def t o walk_file_length)
  then show ?thesis by auto
qed

lemma walk_parser_deleted: "parser_deleted walk_parser"
  by (simp add: parser_deleted_def walk_parser_def state_deleted_def State_default_def deleted_below_iff [of walk_root] walk_root_simps)

theorem no_key_is_returned_twice_witness:
  "\<exists>d n ks. iter_all env_list_ref d n (key_iterator_for walk_parser False False False Filter_new) = Ok ks \<and> length ks = 2 \<and>
     distinct (map kn_file_offset_absolute (map kn (filter (\<lambda>k. kn_cell_state (kn k) = Allocated) ks)))"
proof -
  let ?ctx = "ParserIteratorContext_from_parser walk_parser False (Some (Filter_new, False))"
  obtain d root k where t: "key_tree env_list_ref d walk_file State_default False walk_root (KTree root [KTree k []])"
    and o: "key_offset root = 1000" "key_offset k = 12"
    using walk_tree by blast
  have "collect_iter (\<lambda>n. next_key_preorder env_list_ref d n walk_file) 3 ?ctx = Ok (concat (map preorder_of [KTree root [KTree k []]]))"
    by (rule preorder_collect [of State_default False])
       (simp_all add: ParserIteratorContext_from_parser_def walk_parser_def no_filter_def t unvisited_def o walk_root_simps)
  then have r: "iter_all env_list_ref d 3 (key_iterator_for walk_parser False False False Filter_new) = Ok [root, k]"
    by (simp add: iter_all_def collect_context key_iterator_for_simps walk_parser_def)
  from no_key_is_returned_twice [OF walk_parser_deleted r] r show ?thesis
    by (intro exI [of _ d] exI [of _ 3] exI [of _ "[root, k]"]) simp
qed

text \<open>A file without the bytes of an index root has no sub key list that leads to another.\<close>

lemma no_index_root:
  assumes "0x72 \<notin> set (buffer fi)" and "cell_at fi rel = Some s"
  shows "list_cell ''ri'' 4 s = None"
proof -
  have "set s \<subseteq> set (buffer fi)"
    using assms(2) by (auto simp: cell_at_def get_from_eq_Some dest: in_set_dropD)
  moreover have "(0x72 :: u8) \<in> set s" if "take 2 (drop 4 s) = bytes_of ''ri''"
  proof -
    have "(0x72 :: u8) \<in> set (take 2 (drop 4 s))"
      unfolding that by (simp add: bytes_of_def byte_of_char_def of_char_def)
    then show ?thesis by (meson in_set_dropD in_set_takeD)
  qed
  ultimately show ?thesis using assms(1) by (auto simp: list_cell_def)
qed

lemma reads_end_flat:
  assumes "nom_list_spec N" and "0x72 \<notin> set (buffer fi)" and "hbin_offset_absolute fi < 2 ^ 63"
  shows "read_sub_keys_internal N (Suc d) fi st Filter_new None False k \<noteq> Diverge"
proof -
  have ns: "nom_spec N" using assms(1) by (simp add: nom_list_spec_def nom_cell_spec_def)
  have p: "parse_sub_key_list N (Suc d) fi rel \<noteq> Diverge" for rel
  proof (cases "cell_at fi rel")
    case None
    then show ?thesis using nom_list_spec.parse_list_none [OF assms(1), of fi rel d] by auto
  next
    case (Some s)
    note nr = no_index_root [OF assms(2) Some]
    show ?thesis
    proof (cases "leaf_cell s")
      case None
      then show ?thesis using nom_list_spec.parse_list_none [OF assms(1), of fi rel d] Some nr by auto
    next
      case (Some rels)
      then show ?thesis
        using nom_list_spec.parse_list_leaf [OF assms(1) \<open>cell_at fi rel = Some s\<close> nr Some, of d] dyn.offsets_no_error(2)
        by fastforce
    qed
  qed
  have r: "CellKeyNode_read N fuel fi st opts \<noteq> Diverge"
    if "ro_filter opts = None \<or> ro_filter opts = Some Filter_new" "\<not> ro_get_deleted_and_modified opts" for fuel st opts
  proof -
    have "safe (CellKeyNode_read N fuel fi st opts)"
      unfolding CellKeyNode_read_def
      by (intro safe_bind safe_ok_or nom_spec.safe_read_from_slice [OF ns assms(3)])
         (use that in \<open>auto simp: Filter_new_def Filter_is_valid_def\<close>)
    then show ?thesis by (simp add: safe_def)
  qed
  have l: "sub_keys_loop N fuel fi Filter_new m sf None False vs k st cs fk \<noteq> Diverge"
    if "sf = None \<or> sf = Some Filter_new" for fuel m sf vs k st cs fk
  proof (induction vs arbitrary: k st cs fk)
    case (Cons v vs)
    show ?case
      using Cons r [of "\<lparr>ro_offset = unat v, ro_cur_path = kn_path (kn k), ro_filter = sf,
         ro_self_is_filter_match_or_descendent = m, ro_sequence_num = None, ro_get_deleted_and_modified = False\<rparr>" fuel st] that
      by (auto simp: case_prod_beta Let_def split: outcome.splits option.splits prod.splits)
  qed simp
  show ?thesis
    using p l [of "if is_filter_match_or_descendent k \<and> return_sub_keys Filter_new then None else Some Filter_new"]
    by (auto simp: read_sub_keys_internal_def Let_def bindO_eq_Diverge split: outcome.splits
        simp del: parse_sub_key_list.simps sub_keys_loop.simps)
qed

theorem every_iteration_ends_witness:
  "\<exists>n. \<forall>m \<ge> n. iter_all env_list_ref 1 m (key_iterator_for walk_parser True False False Filter_new) \<noteq> Diverge"
proof (rule every_iteration_ends)
  have "(0x72 :: u8) \<notin> set (buffer walk_file)"
    by (simp add: walk_file_def walk_list_def nk_bytes_def sample_nk_def to_le_bytes_def bytes_of_def byte_of_char_def of_char_def)
  moreover have "hbin_offset_absolute walk_file < 2 ^ 63" by (simp add: walk_file_def)
  ultimately show "read_sub_keys_internal env_list_ref 1 (p_file_info walk_parser) st Filter_new None False k \<noteq> Diverge" for st k
    using reads_end_flat [OF ref_nom_list.nom_list_spec_axioms, of walk_file 0] by (simp add: walk_parser_def)
qed

end
