(* ===== verification/Build_Facts.thy ===== *)
theory Build_Facts
  imports Log_Facts Key_Order
begin

text \<open>
  Parsers as they come out of the builder, and a hive of one key on which the properties of the
  application of logs and of the builder are instantiated.
\<close>

section \<open>An environment\<close>

definition env_apply_ref :: env_apply where
  "env_apply_ref = env_log.extend env_log_ref
     \<lparr>fmt_error_debug = Error_to_string, fmt_item_debug = fst, hash_map_iter = rev\<rparr>"

interpretation ref_nom_apply: nom_apply_spec env_apply_ref
  by unfold_locales (simp_all add: env_apply_ref_def env_log_ref_def env_list_ref_def env_cell_ref_def env_ref_def
      env.defs env_cell.defs env_list.defs env_log.defs)

lemma env_apply_ref_guid: "guid_total env_apply_ref"
  using env_ref_guid_total
  by (simp add: guid_total_def env_apply_ref_def env_log_ref_def env_list_ref_def env_cell_ref_def
      env.defs env_cell.defs env_list.defs env_log.defs)

section \<open>A hive of one key\<close>

text \<open>A file that has the first hive bin at its offset, and in it the root key and nothing else.\<close>

definition root_bin :: bytes where
  "root_bin = bin_bytes @ nk_bytes (- 88) sample_nk"

definition holds_root :: "FileInfo \<Rightarrow> bool" where
  "holds_root fi \<longleftrightarrow> drop (hbin_offset_absolute fi) (buffer fi) = root_bin"

definition no_items :: "State \<Rightarrow> bool" where
  "no_items st \<longleftrightarrow> deleted_keys st = Map.empty \<and> modified_keys st = Map.empty \<and> deleted_values st = Map.empty \<and>
     modified_values st = Map.empty"

lemma root_bin_length: "length root_bin = 120"
  by (simp add: root_bin_def length_bin length_nk_bytes sample_nk_def)

lemma holds_root_facts:
  assumes "holds_root fi"
  shows "get_from (buffer fi) (hbin_offset_absolute fi) = Some root_bin"
    "get_from (buffer fi) (hbin_offset_absolute fi + 32) = Some (nk_bytes (- 88) sample_nk)"
    "get_file_offset fi (nk_bytes (- 88) sample_nk) = hbin_offset_absolute fi + 32"
    "length (buffer fi) = hbin_offset_absolute fi + 120"
proof -
  have d: "drop (hbin_offset_absolute fi) (buffer fi) = root_bin" using assms by (simp add: holds_root_def)
  from arg_cong [OF d, of length] show l: "length (buffer fi) = hbin_offset_absolute fi + 120"
    by (simp add: root_bin_length)
  from d l show "get_from (buffer fi) (hbin_offset_absolute fi) = Some root_bin" by (simp add: get_from_def)
  have "drop (hbin_offset_absolute fi + 32) (buffer fi) = drop 32 root_bin"
    using d by (metis add.commute drop_drop)
  then show "get_from (buffer fi) (hbin_offset_absolute fi + 32) = Some (nk_bytes (- 88) sample_nk)"
    using l by (simp add: get_from_def root_bin_def length_bin)
  show "get_file_offset fi (nk_bytes (- 88) sample_nk) = hbin_offset_absolute fi + 32"
    using l by (simp add: get_file_offset_def ptr_diff_def length_nk_bytes sample_nk_def)
qed

lemma root_header:
  assumes "nom_spec N"
  shows "\<exists>h. HiveBinHeader_from_bytes N fi root_bin = Ok (nk_bytes (- 88) sample_nk, h)"
  by (simp add: HiveBinHeader_from_bytes_def root_bin_def bin_bytes_def Let_def nom_spec.tag [OF assms]
      nom_spec.le_u32 [OF assms] nom_spec.le_u64 [OF assms] doc_Ok lit_len cong: bindO_weak_cong)

lemma char_a: "char_of (97 :: nat) = CHR ''a''"
  by code_simp

lemma root_read:
  assumes "nom_spec N" and "holds_root fi" and "no_items st"
  shows "\<exists>k. CellKeyNode_read N (Suc d) fi st
      \<lparr>ro_offset = hbin_offset_absolute fi + 32, ro_cur_path = [], ro_filter = None,
       ro_self_is_filter_match_or_descendent = True, ro_sequence_num = None,
       ro_get_deleted_and_modified = True\<rparr> = Ok (Some k, st) \<and>
    field_value (knd_number_of_sub_keys (kn_detail (kn k))) = 0 \<and> kn_deleted_keys k = [] \<and> kn_sub_values (kn k) = [] \<and>
    kn_hash (kn k) \<noteq> None \<and> kn_cell_state (kn k) = Allocated \<and> kn_path (kn k) = backslash # ''a''"
proof -
  have h: "length (nk_name sample_nk) < 2 ^ 16" "unat (unsigned_abs (- 88)) = 80 + length (nk_name sample_nk) + length (nk_slack sample_nk)"
    "flags_contain (nk_flags sample_nk) KEY_COMP_NAME" "nk_flags sample_nk AND KeyNodeFlags_all = nk_flags sample_nk"
    by (simp_all add: sample_nk_def unsigned_abs_def flags_contain_def KEY_COMP_NAME_def KeyNodeFlags_all_def KEY_HIVE_ENTRY_def)
  obtain k where k: "CellKeyNode_from_bytes N st (nk_bytes (- 88) sample_nk) (hbin_offset_absolute fi + 32) [] None = Ok ([], k)"
    and n: "field_value (knd_number_of_sub_keys (kn_detail (kn k))) = 0"
      "field_value (knd_number_of_key_values (kn_detail (kn k))) = 0" "kn_hash (kn k) \<noteq> None"
      "kn_path (kn k) = backslash # ''a''"
    using nk_parse [OF assms(1) h, of st "[]" "hbin_offset_absolute fi + 32" "[]" None]
    by (auto simp: sample_nk_def utf8_def utf8_char_def char_a)
  have f: "kn_sub_values (kn k) = []" "kn_deleted_keys k = []" "kn_cell_state (kn k) = Allocated"
    using ensuresD [OF from_bytes_fresh k] by (simp_all add: fresh_key_def)
  let ?k = "CellKeyNode ((kn k)\<lparr>kn_sub_values := []\<rparr>) (kn_versions k) []"
  have "update_modified_lists (Suc d) st k = Ok ?k"
    using assms(3) f
    by (simp add: no_items_def Let_def is_deleted_primary_file_def ModifiedDeletedKeyMap_get_def DeletedValueMap_get_def)
  then have "CellKeyNode_read N (Suc d) fi st
      \<lparr>ro_offset = hbin_offset_absolute fi + 32, ro_cur_path = [], ro_filter = None,
       ro_self_is_filter_match_or_descendent = True, ro_sequence_num = None,
       ro_get_deleted_and_modified = True\<rparr> = Ok (Some ?k, st)"
    using k n(2)
    by (simp add: CellKeyNode_read_def holds_root_facts(2) [OF assms(2)] read_from_slice_def Let_def flags_contain_def
        FILTER_ITERATE_KEYS_def FILTER_NO_MATCH_def FILTER_KEY_MATCH_def del: update_modified_lists.simps)
  with n f show ?thesis by (intro exI [of _ ?k]) simp
qed

lemma root_init:
  assumes "nom_spec N" and "holds_root (p_file_info p)" and "no_items (p_state p)"
  obtains h k where "init_root N (Suc d) p = Ok (p\<lparr>p_hive_bin_header := Some h, p_cell_key_node_root := Some k\<rparr>)"
    "field_value (knd_number_of_sub_keys (kn_detail (kn k))) = 0" "kn_deleted_keys k = []" "kn_sub_values (kn k) = []"
    "kn_hash (kn k) \<noteq> None" "kn_cell_state (kn k) = Allocated"
proof -
  obtain h where h: "HiveBinHeader_from_bytes N (p_file_info p) root_bin = Ok (nk_bytes (- 88) sample_nk, h)"
    using root_header [OF assms(1)] by blast
  obtain k where k: "CellKeyNode_read N (Suc d) (p_file_info p) (p_state p)
      \<lparr>ro_offset = hbin_offset_absolute (p_file_info p) + 32, ro_cur_path = [], ro_filter = None,
       ro_self_is_filter_match_or_descendent = True, ro_sequence_num = None,
       ro_get_deleted_and_modified = True\<rparr> = Ok (Some k, p_state p)"
    "field_value (knd_number_of_sub_keys (kn_detail (kn k))) = 0" "kn_deleted_keys k = []" "kn_sub_values (kn k) = []"
    "kn_hash (kn k) \<noteq> None" "kn_cell_state (kn k) = Allocated"
    using root_read [OF assms] by blast
  have "init_root N (Suc d) p = Ok (p\<lparr>p_hive_bin_header := Some h, p_cell_key_node_root := Some k\<rparr>)"
    using h k(1) by (simp add: init_root_def Let_def holds_root_facts(1,3) [OF assms(2)] ok_or_def)
  with k(2-) show ?thesis by (rule that [rotated])
qed

text \<open>The iteration over such a hive returns the root.\<close>

lemma root_walk:
  assumes "p_cell_key_node_root p = Some k" and "field_value (knd_number_of_sub_keys (kn_detail (kn k))) = 0"
    and "kn_deleted_keys k = []"
  shows "iter_all N d (Suc (Suc n)) (key_iterator_for p False False modified Filter_new) = Ok [k]"
proof -
  have m: "mark_deleted k = k" using assms(3) by (cases k) (simp add: mark_deleted_def)
  have "\<not> Filter_is_valid Filter_new" by (simp add: Filter_new_def Filter_is_valid_def)
  then show ?thesis
    using assms unfolding iter_all_def collect_context
    by (simp add: key_iterator_for_simps ParserIteratorContext_from_parser_def Let_def pop_stack_to_traverse_def
        expand_node_def m push_deleted_def)
qed

section \<open>Parsers that were built\<close>

text \<open>
  C1: on a parser that a builder has built, from any primary file and logs, with or without the recovery
  of deleted items, no iteration returns an allocated key twice: the deleted keys that the recovery
  and the logs leave in the state are never marked as allocated.
\<close>

theorem built_parser_walks_once:
  assumes "ParserBuilderFromPath_build N depth fuel b = Ok p \<or> ParserBuilderFromFile_build N depth fuel b' = Ok p"
    and "iter_all N d n (key_iterator_for p post ancestors modified flt) = Ok ks"
  shows "distinct (map kn_file_offset_absolute (map kn (filter (\<lambda>k. kn_cell_state (kn k) = Allocated) ks)))"
proof -
  have "parser_deleted p"
    using assms(1) ensuresD [OF build_deleted [of N depth fuel]]
    by (auto simp: ParserBuilderFromPath_build_def ParserBuilderFromFile_build_def bindO_eq_Ok)
  from allocated_keys_distinct [OF this assms(2)] show ?thesis .
qed

section \<open>Witnesses\<close>

definition one_key_hive :: bytes where
  "one_key_hive = base_block_sample @ root_bin"

lemma one_key_hive_facts:
  "4096 \<le> length one_key_hive" "take 4 one_key_hive = bytes_of ''regf''" "supported_type one_key_hive"
  "drop 4096 one_key_hive = root_bin"
proof -
  have d: "drop 28 one_key_hive = drop 28 base_block_sample @ root_bin"
    by (simp add: one_key_hive_def base_block_sample_props)
  have "take 4 (drop 28 one_key_hive) = take 4 (drop 28 base_block_sample)"
    unfolding d by (simp add: base_block_sample_props)
  then show "supported_type one_key_hive"
    using base_block_sample_type by (simp add: supported_type_def word32_def)
qed (simp_all add: one_key_hive_def base_block_sample_props)

lemma one_key_built:
  "\<exists>p k. ParserBuilderFromFile_build env_apply_ref 1 1 (ParserBuilder_from_file (Inr one_key_hive)) = Ok p \<and>
     p_cell_key_node_root p = Some k \<and> field_value (knd_number_of_sub_keys (kn_detail (kn k))) = 0 \<and>
     kn_deleted_keys k = [] \<and> kn_cell_state (kn k) = Allocated"
proof -
  let ?p = "\<lparr>p_file_info = FileInfo_from_read_seek one_key_hive, p_state = State_default\<lparr>get_full_field_info := False\<rparr>,
        p_base_block = None, p_hive_bin_header = None, p_cell_key_node_root = None,
        p_recover_deleted = False, p_update_console = False\<rparr>"
  have b: "buffer (p_file_info ?p) = one_key_hive" by (simp add: FileInfo_from_read_seek_def)
  obtain q bad where q: "init_base_block env_apply_ref ?p = Ok ((True, bad), q)"
    and fi: "p_file_info q = (p_file_info ?p)\<lparr>hbin_offset_absolute := 4096\<rparr>"
    and st: "p_state q = (p_state ?p)\<lparr>info := info (p_state q)\<rparr>"
    using nom_spec.init_base_block_Ok [OF ref_nom_apply.nom_spec_axioms env_apply_ref_guid, of ?p] one_key_hive_facts
    unfolding b by auto
  have "holds_root (p_file_info q)" by (simp add: fi holds_root_def one_key_hive_facts FileInfo_from_read_seek_def)
  moreover have "no_items (p_state q)" by (subst st) (simp add: no_items_def State_default_def)
  ultimately obtain h k where i: "init_root env_apply_ref (Suc 0) q = Ok (q\<lparr>p_hive_bin_header := Some h, p_cell_key_node_root := Some k\<rparr>)"
    and k: "field_value (knd_number_of_sub_keys (kn_detail (kn k))) = 0" "kn_deleted_keys k = []" "kn_cell_state (kn k) = Allocated"
    by (rule root_init [OF ref_nom_apply.nom_spec_axioms])
  have "ParserBuilderFromFile_build env_apply_ref 1 1 (ParserBuilder_from_file (Inr one_key_hive)) =
      Ok (q\<lparr>p_hive_bin_header := Some h, p_cell_key_node_root := Some k\<rparr>)"
    using q i
    by (simp add: ParserBuilderFromFile_build_def ParserBuilder_from_file_def read_primary_def ParserBuilder_build_def
        TransactionLog_parse_def Logs_get_option_def Logs_default_def ParserBuilderBase_default_def Parser_init_def
        apply_transaction_logs_def)
  with k show ?thesis by simp
qed

theorem built_parser_walks_once_witness:
  "\<exists>p k. ParserBuilderFromFile_build env_apply_ref 1 1 (ParserBuilder_from_file (Inr one_key_hive)) = Ok p \<and>
     iter_all env_apply_ref 1 2 (key_iterator_for p False False True Filter_new) = Ok [k] \<and>
     distinct (map kn_file_offset_absolute (map kn (filter (\<lambda>k. kn_cell_state (kn k) = Allocated) [k])))"
proof -
  obtain p k where p: "ParserBuilderFromFile_build env_apply_ref 1 1 (ParserBuilder_from_file (Inr one_key_hive)) = Ok p"
    and k: "p_cell_key_node_root p = Some k" "field_value (knd_number_of_sub_keys (kn_detail (kn k))) = 0" "kn_deleted_keys k = []"
    using one_key_built by blast
  have w: "iter_all env_apply_ref 1 (Suc (Suc 0)) (key_iterator_for p False False True Filter_new) = Ok [k]"
    by (rule root_walk [OF k])
  from built_parser_walks_once [OF disjI2 [OF p] w] p w show ?thesis by (auto simp: numeral_2_eq_2)
qed

text \<open>A log of one entry, on a file of two bytes behind its base block.\<close>

definition one_entry_log :: "BaseBlockBase \<Rightarrow> TransactionLog" where
  "one_entry_log b = \<lparr>tl_base_block = b, base_block_bytes = [], log_file_entries =
     [\<lparr>le_file_offset_absolute = 512, le_size = 52, le_flags = 0, le_sequence_number = 7, le_hive_bins_data_size = 4096,
       dirty_pages_count = 1, hash1 = 0, hash2 = 0, dirty_pages = [\<lparr>dirty_page_ref_offset = 1, page_bytes = [9]\<rparr>],
       has_valid_hashes = True\<rparr>]\<rparr>"

definition two_byte_parser :: "BaseBlock \<Rightarrow> Parser" where
  "two_byte_parser bb = \<lparr>p_file_info = \<lparr>hbin_offset_absolute = 0, buffer = [1, 2]\<rparr>, p_state = State_default,
     p_base_block = Some (bb\<lparr>base := (base bb)\<lparr>secondary_sequence_number := 5, hive_bins_data_size := 4096\<rparr>\<rparr>),
     p_hive_bin_header = None, p_cell_key_node_root = None, p_recover_deleted = False, p_update_console = False\<rparr>"

lemma one_entry_applied:
  "update_parser N depth fuel (one_entry_log b) [] (two_byte_parser bb) =
     Ok (7, [], (two_byte_parser bb)\<lparr>p_file_info := \<lparr>hbin_offset_absolute = 0, buffer = [1, 9]\<rparr>\<rparr>)"
  by (simp add: update_parser_def get_base_block_info_def expect_base_def two_byte_parser_def one_entry_log_def
      is_valid_hive_bin_data_size_def apply_log_entry_def resize_buffer_def Let_def ok_or_def get_range_def copy_at_def)

theorem log_entries_applied_witness:
  "\<forall>b bb. apply_entries 4096 (applicable 5 0 (log_file_entries (one_entry_log b))) \<lparr>hbin_offset_absolute = 0, buffer = [1, 2]\<rparr> =
     Ok \<lparr>hbin_offset_absolute = 0, buffer = [1, 9]\<rparr> \<and>
     update_parser env_apply_ref 0 0 (one_entry_log b) [] (two_byte_parser bb) =
       Ok (7, [], (two_byte_parser bb)\<lparr>p_file_info := \<lparr>hbin_offset_absolute = 0, buffer = [1, 9]\<rparr>\<rparr>)"
proof (intro allI)
  fix b :: BaseBlockBase and bb :: BaseBlock
  let ?bb = "bb\<lparr>base := (base bb)\<lparr>secondary_sequence_number := 5, hive_bins_data_size := 4096\<rparr>\<rparr>"
  have "p_base_block (two_byte_parser bb) = Some ?bb" by (simp add: two_byte_parser_def)
  from log_entries_applied [OF one_entry_applied [of env_apply_ref 0 0 b bb] this refl]
  show "apply_entries 4096 (applicable 5 0 (log_file_entries (one_entry_log b))) \<lparr>hbin_offset_absolute = 0, buffer = [1, 2]\<rparr> =
     Ok \<lparr>hbin_offset_absolute = 0, buffer = [1, 9]\<rparr> \<and>
     update_parser env_apply_ref 0 0 (one_entry_log b) [] (two_byte_parser bb) =
       Ok (7, [], (two_byte_parser bb)\<lparr>p_file_info := \<lparr>hbin_offset_absolute = 0, buffer = [1, 9]\<rparr>\<rparr>)"
    using one_entry_applied [of env_apply_ref 0 0 b bb] by (simp add: two_byte_parser_def)
qed

text \<open>A key whose hash has changed.\<close>

definition changed_key :: CellKeyNode where
  "changed_key = kn_update (\<lambda>c. c\<lparr>kn_path := ''k'', kn_hash := Some [1], kn_file_offset_absolute := 40\<rparr>) CellKeyNode_default"

lemma changed_key_items: "items_of_key changed_key =
    [\<lparr>nii_key_path = ''k'', nii_value_path = None, nii_hash = Some [1], nii_file_offset_absolute = 40, nii_logs = Logs_default\<rparr>]"
  by (simp add: items_of_key_def new_key_item_def changed_key_def CellKeyNode_default_def)

theorem new_items_sorted_witness:
  "\<exists>a. new_keys_loop \<lparr>prior_file_info = \<lparr>hbin_offset_absolute = 0, buffer = []\<rparr>, ta_new_sequence_number = 9\<rparr> [changed_key]
      \<lparr>prior_reg_items = [((''k'', None), \<lparr>rim_hash = [2], rim_file_offset_absolute = 40, rim_sequence_num = 3\<rparr>)],
       latest_reg_items = [], prior_keys_needed = [], prior_values_needed = [], an_logs = Logs_default\<rparr> = Ok a \<and>
     prior_keys_needed a = [\<lparr>rin_key_path = ''k'', rin_file_offset_absolute = 40, rin_sequence_num = 3\<rparr>]"
proof -
  let ?ta = "\<lparr>prior_file_info = \<lparr>hbin_offset_absolute = 0, buffer = []\<rparr>, ta_new_sequence_number = 9\<rparr>"
  let ?prior = "[((''k'', None), \<lparr>rim_hash = [2], rim_file_offset_absolute = 40, rim_sequence_num = 3\<rparr>)]"
  let ?a = "\<lparr>prior_reg_items = ?prior, latest_reg_items = [], prior_keys_needed = [], prior_values_needed = [], an_logs = Logs_default\<rparr>"
  have i: "concat (map items_of_key [changed_key]) = [\<lparr>nii_key_path = ''k'', nii_value_path = None, nii_hash = Some [1],
      nii_file_offset_absolute = 40, nii_logs = Logs_default\<rparr>]"
    by (simp add: changed_key_items)
  obtain a where a: "new_keys_loop ?ta [changed_key] ?a = Ok a"
    unfolding new_keys_loop_items i by (simp add: handle_new_item_def Let_def case_prod_beta)
  have "prior_keys_needed a = [\<lparr>rin_key_path = ''k'', rin_file_offset_absolute = 40, rin_sequence_num = 3\<rparr>]"
    using new_items_sorted [OF a i [symmetric]] by (simp add: wanted_def item_key_def)
  with a show ?thesis by blast
qed

text \<open>A value that the tree of one key no longer has.\<close>

definition value_file :: FileInfo where
  "value_file = \<lparr>hbin_offset_absolute = 0, buffer = vk_bytes (- 32) [0x61] 0x80000000 0 4 0 [0, 0, 0, 0, 0, 0, 0]\<rparr>"

definition root_parser :: Parser where
  "root_parser = \<lparr>p_file_info = \<lparr>hbin_offset_absolute = 0, buffer = root_bin\<rparr>, p_state = State_default, p_base_block = None,
     p_hive_bin_header = None, p_cell_key_node_root = None, p_recover_deleted = True, p_update_console = False\<rparr>"

definition value_entry :: RegItemMap where
  "value_entry = [((''k'', Some ''a''), \<lparr>rim_hash = [2], rim_file_offset_absolute = 0, rim_sequence_num = 3\<rparr>)]"

lemma value_file_value:
  "\<exists>v. CellKeyValue_from_bytes env_apply_ref (buffer value_file) 0 (Some 3) False = Ok ([], v) \<and> value_name_of v = ''a'' \<and>
     kv_sequence_num (kv v) = Some 3"
proof -
  have "char_of (97 :: nat) = CHR ''a''" by code_simp
  then have "utf8 (map unat [0x61 :: u8]) = ''a''" by (simp add: utf8_def utf8_char_def)
  then show ?thesis
    using vk_parse [OF ref_nom_apply.nom_spec_axioms, of "[0x61]" "- 32" "[0, 0, 0, 0, 0, 0, 0]" "0x80000000" 0 4 0 "[]" 0 "Some 3" False]
    by (auto simp: unsigned_abs_def value_file_def value_name_of_def)
qed

lemma root_iterator: "ParserIterator_get_modified_items False (ParserIterator_new p) = key_iterator_for p False False False Filter_new"
  by (simp add: key_iterator_for_def ParserIterator_get_modified_items_def ParserIterator_new_def ParserIterator_with_filter_def
      ParserIterator_filter_include_ancestors_def ParserIterator_postorder_iteration_def ParserIteratorContext_from_parser_def Let_def)

theorem vanished_values_kept_witness:
  "\<exists>latest logs p'. get_latest_reg_items env_apply_ref 1 2 \<lparr>prior_file_info = value_file, ta_new_sequence_number = 9\<rparr>
      value_entry Logs_default root_parser = Ok (latest, logs, p') \<and>
    (\<exists>v \<in> set (vec_or_default (deleted_values (p_state p') ''k'')). kv_cell_state (kv v) = DeletedTransactionLog \<and>
       value_name_of v = ''a'' \<and> kv_sequence_num (kv v) = Some 3 \<and> kv_updated_by_sequence_num (kv v) = Some 9)"
proof -
  let ?ta = "\<lparr>prior_file_info = value_file, ta_new_sequence_number = 9\<rparr>"
  obtain h k where i: "init_root env_apply_ref (Suc 0) root_parser = Ok (root_parser\<lparr>p_hive_bin_header := Some h, p_cell_key_node_root := Some k\<rparr>)"
    and k: "field_value (knd_number_of_sub_keys (kn_detail (kn k))) = 0" "kn_deleted_keys k = []" "kn_sub_values (kn k) = []" "kn_hash (kn k) \<noteq> None"
    by (rule root_init [OF ref_nom_apply.nom_spec_axioms, of root_parser 0])
       (simp_all add: root_parser_def holds_root_def no_items_def State_default_def)
  let ?q = "root_parser\<lparr>p_hive_bin_header := Some h, p_cell_key_node_root := Some k\<rparr>"
  have w: "iter_all env_apply_ref (Suc 0) (Suc (Suc 0)) (key_iterator_for ?q False False False Filter_new) = Ok [k]"
    by (rule root_walk) (simp_all add: k)
  obtain v where v: "CellKeyValue_from_bytes env_apply_ref (buffer value_file) 0 (Some 3) False = Ok ([], v)"
    "value_name_of v = ''a''" "kv_sequence_num (kv v) = Some 3"
    using value_file_value by blast
  have g: "get_from (buffer value_file) 0 = Some (buffer value_file)" by (simp add: get_from_def)
  obtain v' where v': "CellKeyValue_read_value_bytes env_apply_ref value_file v = Ok v'"
    using ref_nom_apply.CellKeyValue_read_value_bytes_total by blast
  obtain a where a: "new_keys_loop ?ta [k] \<lparr>prior_reg_items = value_entry, latest_reg_items = [], prior_keys_needed = [],
      prior_values_needed = [], an_logs = Logs_default\<rparr> = Ok a"
    using k(3,4) by (auto simp: handle_new_item_def new_key_item_def Let_def case_prod_beta)
  have m: "prior_reg_items a = unseen {(kn_path (kn k), None)} value_entry" "fst ` set (latest_reg_items a) = {(kn_path (kn k), None)}"
    using items_loop_maps [OF a [unfolded new_keys_loop_items]] k(3)
    by (simp_all add: items_of_key_def item_key_def new_key_item_def)
  have n: "prior_keys_needed a = []" "prior_values_needed a = []"
    using items_loop_Ok [OF a [unfolded new_keys_loop_items]] k(3)
    by (simp_all add: items_of_key_def wanted_def item_key_def new_key_item_def value_entry_def)
  have p: "prior_reg_items a = value_entry" by (simp add: m unseen_def value_entry_def)
  have it: "hash_map_iter env_apply_ref value_entry = value_entry"
    by (simp add: env_apply_ref_def env_log.defs value_entry_def)
  have "\<exists>st l. deleted_items_loop env_apply_ref ?ta value_entry State_default l0 = Ok (st, l)" for l0
    using v v' g
    by (simp add: value_entry_def or_warn_def add_full_value_to_list_def State_default_def ok_or_def Let_def)
  then obtain st l where d: "deleted_items_loop env_apply_ref ?ta value_entry State_default (an_logs a) = Ok (st, l)" by blast
  have r: "get_latest_reg_items env_apply_ref (Suc 0) (Suc (Suc 0)) ?ta value_entry Logs_default root_parser =
      Ok (latest_reg_items a, l, ?q\<lparr>p_state := fold remove_from_deleted (hash_map_iter env_apply_ref (latest_reg_items a)) st\<rparr>)"
    using i w a d by (simp add: get_latest_reg_items_def root_iterator n p it) (simp add: root_parser_def)
  have e: "((''k'', Some ''a''), \<lparr>rim_hash = [2], rim_file_offset_absolute = 0, rim_sequence_num = 3\<rparr>) \<in> set value_entry"
    by (simp add: value_entry_def)
  have "(''k'', Some ''a'') \<notin> fst ` set (latest_reg_items a)" by (simp add: m)
  from vanished_values_kept [OF ref_nom_apply.nom_apply_spec_axioms r e this, of "buffer value_file" "[]" v] g v
  show ?thesis using r by (fastforce simp: root_parser_def State_default_def numeral_2_eq_2)
qed

end
