(* ===== verification/Compare_Facts.thy ===== *)
theory Compare_Facts
  imports Reg_Compare Build_Facts
begin

text \<open>
  What the comparison of two hives finds and what it prints: the items of the two hives are divided
  exactly into those that were added, modified, deleted or left alone, and the unified diff is read
  back into the sections it was made of, with line numbers that follow each other.
\<close>

section \<open>Hash maps as association lists\<close>

lemma hm_insert_new: "key \<notin> fst ` set m \<Longrightarrow> hm_insert key v m = (key, v) # m"
proof -
  assume "key \<notin> fst ` set m"
  then have "filter (\<lambda>e. fst e \<noteq> key) m = m" by (intro filter_True) force
  then show ?thesis by (simp add: hm_insert_def)
qed

lemma fold_hm_insert:
  "distinct (map fst es) \<Longrightarrow> fst ` set es \<inter> fst ` set m = {} \<Longrightarrow>
     foldl (\<lambda>m e. hm_insert (fst e) (snd e) m) m es = rev es @ m"
proof (induction es arbitrary: m)
  case Nil
  then show ?case by simp
next
  case (Cons e es)
  from Cons.prems have "hm_insert (fst e) (snd e) m = e # m" by (simp add: hm_insert_new)
  with Cons.prems show ?case by (simp add: Cons.IH [of "e # m"])
qed

lemma map_of_remove: "map_of (filter (\<lambda>e. fst e \<noteq> key) m) x = (if x = key then None else map_of m x)"
  by (induction m) auto

section \<open>The items of a hive\<close>

lemma value_iter_from_drop: "value_iter_from k i = drop i (kn_sub_values (kn k))"
proof (induction k i rule: value_iter_from.induct)
  case (1 k i)
  show ?case
  proof (cases "i < length (kn_sub_values (kn k))")
    case True
    then have n: "next_value k i = Some (kn_sub_values (kn k) ! i, i + 1)" by (simp add: next_value_def)
    with 1 [OF n refl] True show ?thesis
      by (simp add: value_iter_from.simps [of k i] Cons_nth_drop_Suc)
  next
    case False
    then show ?thesis by (simp add: value_iter_from.simps [of k i] next_value_def)
  qed
qed

lemma value_iter [simp]: "value_iter_from k 0 = kn_sub_values (kn k)"
  by (simp add: value_iter_from_drop)

text \<open>The items of a list of keys in the order in which they are visited, each with its name.\<close>

type_synonym item = "CellKeyNode \<times> CellKeyValue option"

definition key_items :: "CellKeyNode \<Rightarrow> item list" where
  "key_items k = (k, None) # map (\<lambda>v. (k, Some v)) (kn_sub_values (kn k))"

definition hive_items :: "CellKeyNode list \<Rightarrow> item list" where
  "hive_items ks = concat (map key_items ks)"

definition item_name :: "item \<Rightarrow> compare_key" where
  "item_name i = (kn_path (kn (fst i)), map_option value_name_of (snd i))"

definition item_hash :: "item \<Rightarrow> Hash option" where
  "item_hash i = (case snd i of None \<Rightarrow> kn_hash (kn (fst i)) | Some v \<Rightarrow> kv_hash (kv v))"

definition named :: "CellKeyNode list \<Rightarrow> compare_key \<Rightarrow> Hash option option" where
  "named ks = map_of (map (\<lambda>i. (item_name i, item_hash i)) (hive_items ks))"

definition distinct_items :: "CellKeyNode list \<Rightarrow> bool" where
  "distinct_items ks \<longleftrightarrow> distinct (map item_name (hive_items ks))"

lemma insert_items_entries:
  "insert_items k m = foldl (\<lambda>m e. hm_insert (fst e) (snd e) m) m (map (\<lambda>i. (item_name i, item_hash i)) (key_items k))"
  by (simp add: insert_items_def key_items_def item_name_def item_hash_def Let_def foldl_map comp_def)

lemma foldO_insert_items:
  "foldO (\<lambda>k m. Ok (insert_items k m)) ks m =
     Ok (foldl (\<lambda>m e. hm_insert (fst e) (snd e) m) m (map (\<lambda>i. (item_name i, item_hash i)) (hive_items ks)))"
  by (induction ks arbitrary: m) (simp_all add: hive_items_def insert_items_entries)

lemma base_map:
  assumes "distinct_items ks"
  shows "foldO (\<lambda>k m. Ok (insert_items k m)) ks [] = Ok (rev (map (\<lambda>i. (item_name i, item_hash i)) (hive_items ks)))"
  using assms by (simp add: foldO_insert_items fold_hm_insert distinct_items_def comp_def)

section \<open>One item after the other\<close>

definition compare_item ::
  "'z env_list_scheme \<Rightarrow> nat \<Rightarrow> item \<Rightarrow> comparison \<Rightarrow> comparison result" where
  "compare_item N depth i =
     (case snd i of None \<Rightarrow> compare_key_itself N depth (fst i) | Some v \<Rightarrow> compare_value N depth (fst i) v)"

lemma foldO_map: "foldO f (map g xs) a = foldO (\<lambda>x. f (g x)) xs a"
  by (induction xs arbitrary: a) (auto intro: bindO_cong)

lemma compare_key_items: "compare_key N depth k c = foldO (compare_item N depth) (key_items k) c"
  by (auto simp: compare_key_def key_items_def compare_item_def foldO_map intro: bindO_cong)

lemma compare_keys_items: "foldO (compare_key N depth) ks c = foldO (compare_item N depth) (hive_items ks) c"
proof -
  have "compare_key N depth = (\<lambda>k. foldO (compare_item N depth) (key_items k))"
    by (intro ext) (rule compare_key_items)
  then show ?thesis by (simp add: hive_items_def foldO_concat)
qed

text \<open>The keys and the values among items.\<close>

definition keys_of :: "item list \<Rightarrow> CellKeyNode list" where
  "keys_of is = map fst (filter (\<lambda>i. snd i = None) is)"

definition values_of :: "item list \<Rightarrow> (string \<times> CellKeyValue) list" where
  "values_of is = concat (map (\<lambda>i. case snd i of None \<Rightarrow> [] | Some v \<Rightarrow> [(kn_path (kn (fst i)), v)]) is)"

lemma of_items_simps [simp]:
  "keys_of [] = []" "keys_of ((k, None) # is) = k # keys_of is" "keys_of ((k, Some v) # is) = keys_of is"
  "values_of [] = []" "values_of ((k, None) # is) = values_of is"
  "values_of ((k, Some v) # is) = (kn_path (kn k), v) # values_of is"
  by (simp_all add: keys_of_def values_of_def)

text \<open>The items that a map of names does not have, and those that it has with another hash.\<close>

definition not_in :: "(compare_key \<Rightarrow> Hash option option) \<Rightarrow> item list \<Rightarrow> item list" where
  "not_in old is = filter (\<lambda>i. old (item_name i) = None) is"

definition other_hash :: "(compare_key \<Rightarrow> Hash option option) \<Rightarrow> item list \<Rightarrow> item list" where
  "other_hash old is = filter (\<lambda>i. old (item_name i) \<noteq> None \<and> old (item_name i) \<noteq> Some (item_hash i)) is"

lemma not_in_cong: "(\<And>i. i \<in> set is \<Longrightarrow> old (item_name i) = old' (item_name i)) \<Longrightarrow> not_in old is = not_in old' is"
  unfolding not_in_def by (rule filter_cong) auto

lemma other_hash_cong: "(\<And>i. i \<in> set is \<Longrightarrow> old (item_name i) = old' (item_name i)) \<Longrightarrow> other_hash old is = other_hash old' is"
  unfolding other_hash_def by (rule filter_cong) auto

text \<open>
  What the comparison needs of the base hive: as long as the parser is in a state that satisfies \<open>ok\<close>,
  a key is found again under its path, with its values.
\<close>

definition finds_items :: "'z env_list_scheme \<Rightarrow> nat \<Rightarrow> (Parser \<Rightarrow> bool) \<Rightarrow> compare_key set \<Rightarrow> bool" where
  "finds_items N depth ok names \<longleftrightarrow>
     (\<forall>p path name. ok p \<longrightarrow> (path, name) \<in> names \<longrightarrow>
        (\<exists>k p'. original_key N depth path p = Ok (k, p') \<and> ok p' \<and> kn_path (kn k) = path \<and>
                (\<forall>n. name = Some n \<longrightarrow> get_value k n \<noteq> None)))"

lemma finds_mono:
  assumes "finds_items N depth ok names" and "names' \<subseteq> names"
  shows "finds_items N depth ok names'"
  unfolding finds_items_def
proof (intro allI impI)
  fix p path name
  assume "ok p" and "(path, name) \<in> names'"
  with assms(2) have "ok p" and "(path, name) \<in> names" by auto
  then show "\<exists>k p'. original_key N depth path p = Ok (k, p') \<and> ok p' \<and> kn_path (kn k) = path \<and>
      (\<forall>n. name = Some n \<longrightarrow> get_value k n \<noteq> None)"
    by (rule assms(1) [unfolded finds_items_def, rule_format])
qed

lemma finds_key:
  assumes "finds_items N depth ok names" and "ok p" and "(path, None) \<in> names"
  obtains k p' where "original_key N depth path p = Ok (k, p')" "ok p'" "kn_path (kn k) = path"
  using assms(1) [unfolded finds_items_def, rule_format, OF assms(2,3)] by auto

lemma find_Some_holds: "find P xs = Some x \<Longrightarrow> P x"
  by (induction xs) (auto split: if_splits)

lemma get_value_name:
  "get_value k n = Some v \<Longrightarrow> to_ascii_lowercase (value_name_of v) = to_ascii_lowercase n"
  unfolding get_value_def by (rule find_Some_holds)

lemma finds_value:
  assumes "finds_items N depth ok names" and "ok p" and "(path, Some n) \<in> names"
  obtains k v p' where "original_value N depth path n p = Ok ((k, v), p')" "ok p'" "kn_path (kn k) = path"
    "to_ascii_lowercase (value_name_of v) = to_ascii_lowercase n"
proof -
  from assms(1) [unfolded finds_items_def, rule_format, OF assms(2,3)]
  obtain k p' where k: "original_key N depth path p = Ok (k, p')" "ok p'" "kn_path (kn k) = path" "get_value k n \<noteq> None"
    by auto
  then obtain v where "get_value k n = Some v" by blast
  with k get_value_name [of k n v] that show ?thesis by (simp add: original_value_def)
qed

text \<open>What a list of items does to the state of the comparison.\<close>

definition same_paths :: "comparison \<Rightarrow> bool" where
  "same_paths c \<longleftrightarrow>
     (\<forall>x\<in>set (keys_modified c). kn_path (kn (fst x)) = kn_path (kn (snd x))) \<and>
     (\<forall>x\<in>set (values_modified c).
        to_ascii_lowercase (value_name_of (fst (snd x))) = to_ascii_lowercase (value_name_of (snd (snd x))))"

definition compared :: "(Parser \<Rightarrow> bool) \<Rightarrow> comparison \<Rightarrow> item list \<Rightarrow> comparison \<Rightarrow> bool" where
  "compared ok c is c' \<longleftrightarrow>
     (let old = map_of (cmp_map c) in
      cmp_map c' = filter (\<lambda>e. fst e \<notin> item_name ` set is) (cmp_map c) \<and> ok (cmp_parser1 c') \<and>
      keys_added c' = keys_added c @ keys_of (not_in old is) \<and>
      values_added c' = values_added c @ values_of (not_in old is) \<and>
      map snd (keys_modified c') = map snd (keys_modified c) @ keys_of (other_hash old is) \<and>
      map (\<lambda>x. (fst x, snd (snd x))) (values_modified c') =
        map (\<lambda>x. (fst x, snd (snd x))) (values_modified c) @ values_of (other_hash old is) \<and>
      (same_paths c \<longrightarrow> same_paths c'))"

lemma compare_item_compared:
  assumes f: "finds_items N depth ok (fst ` set (cmp_map c))" and ok: "ok (cmp_parser1 c)"
  shows "\<exists>c'. compare_item N depth i c = Ok c' \<and> compared ok c [i] c'"
proof (cases "map_of (cmp_map c) (item_name i)")
  case None
  then show ?thesis
    using ok by (cases i; cases "snd i")
      (simp_all add: compare_item_def compare_key_itself_def compare_value_def hm_remove_def item_name_def Let_def
        compared_def not_in_def other_hash_def same_paths_def)
next
  case (Some h)
  then have m: "item_name i \<in> fst ` set (cmp_map c)" by (metis (no_types) map_of_SomeD image_eqI fst_conv)
  obtain k ov where i: "i = (k, ov)" by (cases i)
  show ?thesis
  proof (cases "h = item_hash i")
    case True
    with Some ok show ?thesis
      by (cases ov) (simp_all add: i compare_item_def compare_key_itself_def compare_value_def hm_remove_def item_name_def
          item_hash_def Let_def compared_def not_in_def other_hash_def same_paths_def)
  next
    case False
    show ?thesis
    proof (cases ov)
      case None
      with m i have "(kn_path (kn k), None) \<in> fst ` set (cmp_map c)" by (simp add: item_name_def)
      from finds_key [OF f ok this] obtain k' p' where "original_key N depth (kn_path (kn k)) (cmp_parser1 c) = Ok (k', p')"
        "ok p'" "kn_path (kn k') = kn_path (kn k)" by blast
      with None False Some i show ?thesis
        by (simp add: compare_item_def compare_key_itself_def hm_remove_def item_name_def item_hash_def Let_def
            compared_def not_in_def other_hash_def same_paths_def)
    next
      case (Some v)
      with m i have "(kn_path (kn k), Some (value_name_of v)) \<in> fst ` set (cmp_map c)" by (simp add: item_name_def)
      from finds_value [OF f ok this] obtain k' v' p' where
        "original_value N depth (kn_path (kn k)) (value_name_of v) (cmp_parser1 c) = Ok ((k', v'), p')" "ok p'"
        "to_ascii_lowercase (value_name_of v') = to_ascii_lowercase (value_name_of v)" by blast
      with Some False \<open>map_of (cmp_map c) (item_name i) = Some h\<close> i show ?thesis
        by (simp add: compare_item_def compare_value_def hm_remove_def item_name_def item_hash_def Let_def
            compared_def not_in_def other_hash_def same_paths_def)
    qed
  qed
qed

lemma of_items_append [simp]:
  "keys_of (xs @ ys) = keys_of xs @ keys_of ys" "values_of (xs @ ys) = values_of xs @ values_of ys"
  by (simp_all add: keys_of_def values_of_def)

lemma select_Cons:
  "not_in old (i # is) = not_in old [i] @ not_in old is" "other_hash old (i # is) = other_hash old [i] @ other_hash old is"
  by (simp_all add: not_in_def other_hash_def)

lemma compared_Cons:
  assumes "compared ok c [i] c'" and "compared ok c' is c''" and "item_name i \<notin> item_name ` set is"
  shows "compared ok c (i # is) c''"
proof -
  have m: "cmp_map c' = filter (\<lambda>e. fst e \<noteq> item_name i) (cmp_map c)"
    using assms(1) by (simp add: compared_def Let_def)
  have e: "map_of (cmp_map c') (item_name j) = map_of (cmp_map c) (item_name j)" if "j \<in> set is" for j
  proof -
    have "item_name j \<noteq> item_name i" using that assms(3) by (metis image_eqI)
    then show ?thesis by (simp add: m map_of_remove)
  qed
  have s: "not_in (map_of (cmp_map c')) is = not_in (map_of (cmp_map c)) is"
    "other_hash (map_of (cmp_map c')) is = other_hash (map_of (cmp_map c)) is"
    by (rule not_in_cong other_hash_cong, erule e)+
  show ?thesis
    using assms(1,2) unfolding compared_def Let_def s m
      select_Cons [of "map_of (cmp_map c)" i "is"] of_items_append
    by (simp add: conj_commute s [unfolded m])
qed

lemma foldO_compare_item:
  assumes "finds_items N depth ok (fst ` set (cmp_map c))" and "ok (cmp_parser1 c)" and "distinct (map item_name is)"
  shows "\<exists>c'. foldO (compare_item N depth) is c = Ok c' \<and> compared ok c is c'"
  using assms
proof (induction "is" arbitrary: c)
  case Nil
  then show ?case by (simp add: compared_def not_in_def other_hash_def)
next
  case (Cons i "is")
  obtain c1 where c1: "compare_item N depth i c = Ok c1" "compared ok c [i] c1"
    using compare_item_compared [OF Cons.prems(1,2)] by blast
  then have "fst ` set (cmp_map c1) \<subseteq> fst ` set (cmp_map c)" "ok (cmp_parser1 c1)"
    by (auto simp: compared_def Let_def)
  then have "finds_items N depth ok (fst ` set (cmp_map c1))"
    using Cons.prems(1) finds_mono by blast
  with Cons.IH [of c1] Cons.prems(3) \<open>ok (cmp_parser1 c1)\<close> obtain c2 where
    c2: "foldO (compare_item N depth) is c1 = Ok c2" "compared ok c1 is c2" by auto
  have "compared ok c (i # is) c2" using compared_Cons [OF c1(2) c2(2)] Cons.prems(3) by simp
  with c1(1) c2(1) show ?case by simp
qed

section \<open>What is left in the map\<close>

lemma foldO_compare_deleted:
  assumes "finds_items N depth ok (fst ` set es)" and "ok (del_parser1 d)"
  shows "\<exists>d'. foldO (compare_deleted N depth) es d = Ok d' \<and>
    map (\<lambda>k. kn_path (kn k)) (keys_deleted d') =
      map (\<lambda>k. kn_path (kn k)) (keys_deleted d) @ map fst (filter (\<lambda>n. snd n = None) (map fst es)) \<and>
    map (\<lambda>(path, v). (path, to_ascii_lowercase (value_name_of v))) (values_deleted d') =
      map (\<lambda>(path, v). (path, to_ascii_lowercase (value_name_of v))) (values_deleted d) @
      map (\<lambda>(path, n). (path, to_ascii_lowercase (the n))) (filter (\<lambda>n. snd n \<noteq> None) (map fst es))"
  using assms
proof (induction es arbitrary: d)
  case Nil
  then show ?case by simp
next
  case (Cons e es)
  obtain path n h where e: "e = ((path, n), h)" by (cases e) auto
  have f: "finds_items N depth ok (fst ` set es)"
    by (rule finds_mono [OF Cons.prems(1)]) auto
  show ?case
  proof (cases n)
    case None
    with e have "(path, None) \<in> fst ` set (e # es)" by simp
    from finds_key [OF Cons.prems(1,2) this] obtain k p' where
      k: "original_key N depth path (del_parser1 d) = Ok (k, p')" "ok p'" "kn_path (kn k) = path" by blast
    let ?d = "d\<lparr>del_parser1 := p', keys_deleted := keys_deleted d @ [k]\<rparr>"
    have "compare_deleted N depth e d = Ok ?d" by (simp add: compare_deleted_def e None k)
    with Cons.IH [OF f, of ?d] k show ?thesis by (auto simp: e None)
  next
    case (Some x)
    with e have "(path, Some x) \<in> fst ` set (e # es)" by simp
    from finds_value [OF Cons.prems(1,2) this] obtain k v p' where
      k: "original_value N depth path x (del_parser1 d) = Ok ((k, v), p')" "ok p'" "kn_path (kn k) = path"
        "to_ascii_lowercase (value_name_of v) = to_ascii_lowercase x" by blast
    let ?d = "d\<lparr>del_parser1 := p', values_deleted := values_deleted d @ [(path, v)]\<rparr>"
    have "compare_deleted N depth e d = Ok ?d" by (simp add: compare_deleted_def e Some k)
    with Cons.IH [OF f, of ?d] k show ?thesis by (auto simp: e Some)
  qed
qed

section \<open>The two hives are divided exactly\<close>

locale hash_map_order =
  fixes N :: "'z env_compare_scheme"
  assumes original_map_iter_perm: "mset (original_map_iter N m) = mset m"
begin

lemma original_map_iter_set: "set (original_map_iter N m) = set m"
  using original_map_iter_perm [of m] by (metis set_mset_mset)

end

lemma map_of_rev:
  assumes "distinct (map fst xs)"
  shows "map_of (rev xs) = map_of xs"
proof (rule map_of_eqI)
  show "\<forall>k\<in>set (map fst (rev xs)). map_of (rev xs) k = map_of xs k"
  proof
    fix k
    assume "k \<in> set (map fst (rev xs))"
    then obtain v where v: "(k, v) \<in> set xs" by auto
    have "distinct (map fst (rev xs))" using assms by (simp add: rev_map [symmetric])
    with v assms show "map_of (rev xs) k = map_of xs k" by (simp add: map_of_is_SomeI)
  qed
qed (simp add: rev_map [symmetric])

lemma named_None: "named ks n = None \<longleftrightarrow> n \<notin> item_name ` set (hive_items ks)"
  by (simp add: named_def map_of_eq_None_iff image_image)

lemma key_names: "map fst (filter (\<lambda>n. snd n = None) (map item_name is)) = map (\<lambda>k. kn_path (kn k)) (keys_of is)"
  by (induction "is") (auto simp: item_name_def keys_of_def)

lemma value_names:
  "map (\<lambda>(path, n). (path, to_ascii_lowercase (the n))) (filter (\<lambda>n. snd n \<noteq> None) (map item_name is)) =
     map (\<lambda>(path, v). (path, to_ascii_lowercase (value_name_of v))) (values_of is)"
  by (induction "is") (auto simp: item_name_def values_of_def split: option.splits)

text \<open>The entries that are left when the items of the second hive are taken away.\<close>

lemma left_entries:
  "mset (map fst (filter (\<lambda>e. fst e \<notin> item_name ` set (hive_items ks2))
      (rev (map (\<lambda>i. (item_name i, item_hash i)) (hive_items ks1))))) =
     mset (map item_name (not_in (named ks2) (hive_items ks1)))"
  by (simp add: rev_filter [symmetric] not_in_def named_None filter_map comp_def image_mset.compositionality)

definition same_items :: "(string \<times> CellKeyValue) list \<Rightarrow> (string \<times> CellKeyValue) list \<Rightarrow> bool" where
  "same_items vs ws \<longleftrightarrow>
     mset (map (\<lambda>(path, v). (path, to_ascii_lowercase (value_name_of v))) vs) =
     mset (map (\<lambda>(path, v). (path, to_ascii_lowercase (value_name_of v))) ws)"

lemma count_after_iter:
  "iter_all N depth fuel (new_iter p flt) = Ok ks \<Longrightarrow> \<exists>n. count_all_keys_and_values N depth fuel p flt = Ok n"
  by (auto simp: count_all_keys_and_values_def new_iter_def Let_def split: option.splits)

text \<open>
  The comparison of two hives whose iterations end and whose items have distinct names returns a
  result when the keys of the first hive are found again under their paths.  The items of the second
  hive that the first has not are exactly the added ones, in the order of the iteration; those that it
  has with another hash are exactly the modified ones, each with a key of the same path (a value of
  the same name up to case) of the first hive; the items of the first hive that the second has not are
  exactly the deleted ones, in some order.
\<close>

theorem comparison_divides_items:
  assumes "hash_map_order N"
    and "iter_all N depth fuel (new_iter p1 flt) = Ok ks1" and "iter_all N depth fuel (new_iter p2 flt) = Ok ks2"
    and "distinct_items ks1" and "distinct_items ks2"
    and "finds_items N depth ok (item_name ` set (hive_items ks1))" and "ok p1"
  shows "\<exists>c d. compare_parsers N depth fuel flt p1 (Ok p2) = Ok (c, d) \<and>
    keys_added c = keys_of (not_in (named ks1) (hive_items ks2)) \<and>
    values_added c = values_of (not_in (named ks1) (hive_items ks2)) \<and>
    map snd (keys_modified c) = keys_of (other_hash (named ks1) (hive_items ks2)) \<and>
    map (\<lambda>x. (fst x, snd (snd x))) (values_modified c) = values_of (other_hash (named ks1) (hive_items ks2)) \<and>
    same_paths c \<and>
    mset (map (\<lambda>k. kn_path (kn k)) (keys_deleted d)) =
      mset (map (\<lambda>k. kn_path (kn k)) (keys_of (not_in (named ks2) (hive_items ks1)))) \<and>
    same_items (values_deleted d) (values_of (not_in (named ks2) (hive_items ks1)))"
proof -
  let ?es = "map (\<lambda>i. (item_name i, item_hash i)) (hive_items ks1)"
  let ?c = "\<lparr>cmp_map = rev ?es, cmp_parser1 = p1, keys_added = [], keys_modified = [], values_added = [],
        values_modified = []\<rparr>"
  have d1: "distinct (map fst ?es)" using assms(4) by (simp add: distinct_items_def comp_def)
  have old: "map_of (rev ?es) = named ks1" using map_of_rev [OF d1] by (simp add: named_def)
  have n: "fst ` set (rev ?es) = item_name ` set (hive_items ks1)" by (simp add: image_image)
  obtain c where c: "foldO (compare_item N depth) (hive_items ks2) ?c = Ok c" "compared ok ?c (hive_items ks2) c"
    using foldO_compare_item [of N depth ok ?c "hive_items ks2"] assms(5,6,7) n by (auto simp: distinct_items_def)
  let ?left = "original_map_iter N (cmp_map c)"
  have left: "cmp_map c = filter (\<lambda>e. fst e \<notin> item_name ` set (hive_items ks2)) (rev ?es)" and ok: "ok (cmp_parser1 c)"
    using c(2) by (simp_all add: compared_def Let_def)
  have f: "finds_items N depth ok (fst ` set ?left)"
    by (rule finds_mono [OF assms(6)]) (auto simp: hash_map_order.original_map_iter_set [OF assms(1)] left)
  obtain d where d: "foldO (compare_deleted N depth) ?left \<lparr>del_parser1 = cmp_parser1 c, keys_deleted = [], values_deleted = []\<rparr> = Ok d"
    and dk: "map (\<lambda>k. kn_path (kn k)) (keys_deleted d) = map fst (filter (\<lambda>n. snd n = None) (map fst ?left))"
    and dv: "map (\<lambda>(path, v). (path, to_ascii_lowercase (value_name_of v))) (values_deleted d) =
      map (\<lambda>(path, n). (path, to_ascii_lowercase (the n))) (filter (\<lambda>n. snd n \<noteq> None) (map fst ?left))"
    using foldO_compare_deleted [OF f, of "\<lparr>del_parser1 = cmp_parser1 c, keys_deleted = [], values_deleted = []\<rparr>"] ok by auto
  have perm: "mset (map fst ?left) = mset (map item_name (not_in (named ks2) (hive_items ks1)))"
    using hash_map_order.original_map_iter_perm [OF assms(1), of "cmp_map c"] left_entries [of ks2 ks1] by (simp add: left)
  have keys: "mset (map (\<lambda>k. kn_path (kn k)) (keys_deleted d)) =
      mset (map (\<lambda>k. kn_path (kn k)) (keys_of (not_in (named ks2) (hive_items ks1))))"
    unfolding dk key_names [symmetric] mset_map mset_filter perm [unfolded mset_map] ..
  have vals: "same_items (values_deleted d) (values_of (not_in (named ks2) (hive_items ks1)))"
    unfolding same_items_def dv value_names [symmetric] mset_map mset_filter perm [unfolded mset_map] ..
  have "compare_parsers N depth fuel flt p1 (Ok p2) = Ok (c, d)"
    using count_after_iter [OF assms(2)] count_after_iter [OF assms(3)] c(1) d
    by (auto simp: compare_parsers_def for_keys_fold [OF assms(2)] for_keys_fold [OF assms(3)] base_map [OF assms(4)]
        compare_keys_items)
  with c(2) keys vals show ?thesis by (auto simp: compared_def Let_def old same_paths_def)
qed

section \<open>Witnesses\<close>

definition env_out_ref :: env_out where
  "env_out_ref = env_apply.extend env_apply_ref
     \<lparr>io_write_error = (\<lambda>_ _. None), chrono_format = (\<lambda>_ _. []), chrono_rfc3339_nanos = (\<lambda>_. ''1970''),
      fmt_key_node_flags = (\<lambda>f. show_nat (unat f)), fmt_access_flags = (\<lambda>f. show_nat (unat f)),
      fmt_cell_value_debug = CellValue_get_type, fmt_strings_debug = concat\<rparr>"

definition env_compare_ref :: env_compare where
  "env_compare_ref = env_out.extend env_out_ref
     \<lparr>fs_open = (\<lambda>_. Opened (Inr one_key_hive)), fs_create_error = (\<lambda>_. None), fmt_str_debug = debug_str,
      fmt_path_debug = debug_str, fmt_paths_debug = concat, original_map_iter = rev\<rparr>"

lemmas compare_ref_defs = env_compare_ref_def env_out_ref_def env_apply_ref_def env_log_ref_def env_list_ref_def
  env_cell_ref_def env_ref_def env.defs env_cell.defs env_list.defs env_log.defs env_apply.defs env_out.defs

lemma show_nat_separators: "set (show_nat n) \<inter> {CHR 9, CHR 10, CHR 0x22, CHR 0x2C} = {}"
  using show_nat_digits [of n] by (auto simp: list_all_iff is_digit_def)

interpretation ref_output: reliable_output env_compare_ref
  using show_nat_separators by unfold_locales (simp_all add: compare_ref_defs)

interpretation ref_order: hash_map_order env_compare_ref
  by unfold_locales (simp add: compare_ref_defs)

interpretation ref_compare_nom: nom_spec env_compare_ref
  by unfold_locales (simp_all add: compare_ref_defs)

text \<open>A hive whose root key is found again, and a hive whose root key has the same path and no hash.\<close>

definition base_parser :: "BaseBlock \<Rightarrow> CellKeyNode \<Rightarrow> Parser" where
  "base_parser bb k = \<lparr>p_file_info = \<lparr>hbin_offset_absolute = 0, buffer = root_bin\<rparr>, p_state = State_default,
     p_base_block = Some (bb\<lparr>base := (base bb)\<lparr>root_cell_offset_relative := 32\<rparr>\<rparr>), p_hive_bin_header = None,
     p_cell_key_node_root = Some k, p_recover_deleted = False, p_update_console = False\<rparr>"

lemma base_parser_key:
  assumes "nom_spec N"
  shows "\<exists>k. original_key N (Suc d) (backslash # ''a'') (base_parser bb r) = Ok (k, base_parser bb r) \<and>
    field_value (knd_number_of_sub_keys (kn_detail (kn k))) = 0 \<and> kn_deleted_keys k = [] \<and> kn_sub_values (kn k) = [] \<and>
    kn_hash (kn k) \<noteq> None \<and> kn_path (kn k) = backslash # ''a''"
proof -
  let ?p = "base_parser bb r"
  have h: "holds_root (p_file_info ?p)" "no_items (p_state ?p)"
    by (simp_all add: holds_root_def base_parser_def no_items_def State_default_def)
  obtain k where k: "CellKeyNode_read N (Suc d) (p_file_info ?p) (p_state ?p)
      \<lparr>ro_offset = hbin_offset_absolute (p_file_info ?p) + 32, ro_cur_path = [], ro_filter = None,
       ro_self_is_filter_match_or_descendent = True, ro_sequence_num = None,
       ro_get_deleted_and_modified = True\<rparr> = Ok (Some k, p_state ?p)"
    "field_value (knd_number_of_sub_keys (kn_detail (kn k))) = 0" "kn_deleted_keys k = []" "kn_sub_values (kn k) = []"
    "kn_hash (kn k) \<noteq> None" "kn_path (kn k) = backslash # ''a''"
    using root_read [OF assms h, of d] by blast
  have "get_root_key N (Suc d) ?p = Ok (Some k, ?p)"
    using k(1) by (simp add: get_root_key_def base_parser_def usize_of_i32_def)
  moreover have "strip_root (backslash # ''a'') True = []"
    by (simp add: strip_root_def trim_start_char_def backslash_def)
  ultimately have "original_key N (Suc d) (backslash # ''a'') ?p = Ok (k, ?p)"
    by (simp add: original_key_def get_key_def get_sub_key_by_path_def)
  with k(2-) show ?thesis by blast
qed

lemma new_iter_plain: "new_iter p None = key_iterator_for p False False True Filter_new"
  by (simp add: new_iter_def key_iterator_for_def ParserIterator_new_def ParserIterator_with_filter_def ParserIterator_get_modified_items_def
      ParserIterator_filter_include_ancestors_def ParserIterator_postorder_iteration_def ParserIteratorContext_from_parser_def Let_def)

lemma base_parser_walk:
  assumes "field_value (knd_number_of_sub_keys (kn_detail (kn k))) = 0" and "kn_deleted_keys k = []"
  shows "iter_all N d 2 (new_iter (base_parser bb k) None) = Ok [k]"
  using root_walk [of "base_parser bb k" k N d 0 True] assms by (simp add: new_iter_plain base_parser_def numeral_2_eq_2)

theorem comparison_divides_items_witness:
  "\<forall>bb r. \<exists>k c d. original_key env_compare_ref 1 (backslash # ''a'') (base_parser bb r) = Ok (k, base_parser bb r) \<and>
     compare_parsers env_compare_ref 1 2 None (base_parser bb k)
       (Ok (base_parser bb (kn_update (\<lambda>c. c\<lparr>kn_hash := None\<rparr>) k))) = Ok (c, d) \<and>
     keys_added c = [] \<and> map snd (keys_modified c) = [kn_update (\<lambda>c. c\<lparr>kn_hash := None\<rparr>) k]"
proof (intro allI)
  fix bb :: BaseBlock and r :: CellKeyNode
  obtain k where k: "original_key env_compare_ref (Suc 0) (backslash # ''a'') (base_parser bb r) = Ok (k, base_parser bb r)"
    "field_value (knd_number_of_sub_keys (kn_detail (kn k))) = 0" "kn_deleted_keys k = []" "kn_sub_values (kn k) = []"
    "kn_hash (kn k) \<noteq> None" "kn_path (kn k) = backslash # ''a''"
    using base_parser_key [OF ref_compare_nom.nom_spec_axioms] by blast
  let ?k = "kn_update (\<lambda>c. c\<lparr>kn_hash := None\<rparr>) k"
  have items: "hive_items [k] = [(k, None)]" "hive_items [?k] = [(?k, None)]"
    using k(4) by (simp_all add: hive_items_def key_items_def kn_update_def)
  have f: "finds_items env_compare_ref 1 (\<lambda>p. p = base_parser bb k) (item_name ` set (hive_items [k]))"
    unfolding finds_items_def items
  proof (intro allI impI)
    fix p path name
    assume p: "p = base_parser bb k" and "(path, name) \<in> item_name ` set [(k, None :: CellKeyValue option)]"
    then have n: "path = backslash # ''a''" "name = None" by (simp_all add: item_name_def k(6))
    from base_parser_key [OF ref_compare_nom.nom_spec_axioms, of 0 bb k] show "\<exists>k' p'. original_key env_compare_ref 1 path p = Ok (k', p') \<and>
        p' = base_parser bb k \<and> kn_path (kn k') = path \<and> (\<forall>n. name = Some n \<longrightarrow> get_value k' n \<noteq> None)"
      by (auto simp: n p)
  qed
  have w: "iter_all env_compare_ref 1 2 (new_iter (base_parser bb k) None) = Ok [k]"
    "iter_all env_compare_ref 1 2 (new_iter (base_parser bb ?k) None) = Ok [?k]"
    using k(2,3) by (auto intro!: base_parser_walk simp: kn_update_def)
  have d: "distinct_items [k]" "distinct_items [?k]" by (simp_all add: distinct_items_def items)
  have n: "named [k] (backslash # ''a'', None) = Some (kn_hash (kn k))" by (simp add: named_def items item_name_def item_hash_def k(6))
  have q: "keys_of (not_in (named [k]) (hive_items [?k])) = []" "keys_of (other_hash (named [k]) (hive_items [?k])) = [?k]"
    unfolding items(2) using k(5,6) n by (auto simp: not_in_def other_hash_def item_name_def item_hash_def kn_update_def)
  from comparison_divides_items [OF ref_order.hash_map_order_axioms w d f refl]
  show "\<exists>k c d. original_key env_compare_ref 1 (backslash # ''a'') (base_parser bb r) = Ok (k, base_parser bb r) \<and>
     compare_parsers env_compare_ref 1 2 None (base_parser bb k)
       (Ok (base_parser bb (kn_update (\<lambda>c. c\<lparr>kn_hash := None\<rparr>) k))) = Ok (c, d) \<and>
     keys_added c = [] \<and> map snd (keys_modified c) = [kn_update (\<lambda>c. c\<lparr>kn_hash := None\<rparr>) k]"
    unfolding q using k(1) by auto
qed

end
