(* ===== verification/Key_Lookup.thy ===== *)
theory Key_Lookup
  imports Build_Facts
begin

text \<open>
  The search for a key by its path (\<open>get_key\<close> of \<open>parser.rs\<close>, \<open>get_sub_key_by_path\<close> and
  \<open>get_sub_key_internal\<close> of \<open>cell_key_node.rs\<close>): the filtered reading of sub keys, level by level, is the
  lookup of the names in the tree of keys.
\<close>

section \<open>Lookup in a tree of keys\<close>

fun tree_key :: "ktree \<Rightarrow> CellKeyNode" where
  "tree_key (KTree k ts) = k"

fun sub_trees :: "ktree \<Rightarrow> ktree list" where
  "sub_trees (KTree k ts) = ts"

primrec first_some :: "'a option list \<Rightarrow> 'a option" where
  "first_some [] = None"
| "first_some (x # xs) = (case x of Some y \<Rightarrow> Some y | None \<Rightarrow> first_some xs)"

definition same_name :: "string \<Rightarrow> CellKeyNode \<Rightarrow> bool" where
  "same_name s k \<longleftrightarrow> to_ascii_lowercase (kn_key_name (kn k)) = to_ascii_lowercase s"

primrec lookup :: "string list \<Rightarrow> ktree \<Rightarrow> CellKeyNode option" where
  "lookup [] t = Some (tree_key t)"
| "lookup (s # ss) t = first_some (map (\<lambda>u. if same_name s (tree_key u) then lookup ss u else None) (sub_trees t))"

lemma first_some_filter: "first_some (map (\<lambda>u. if P u then f u else None) ts) = first_some (map f (filter P ts))"
  by (induction ts) (auto split: option.splits)

section \<open>Paths and filters\<close>

definition plain :: "string \<Rightarrow> bool" where
  "plain s \<longleftrightarrow> s \<noteq> [] \<and> backslash \<notin> set s"

lemma ascii_lower_backslash [simp]: "ascii_lower c = backslash \<longleftrightarrow> c = backslash"
proof -
  have "of_char c < (256 :: nat)" by (rule of_char_less_256)
  then show ?thesis
    by (auto simp: ascii_lower_def Let_def backslash_def of_char_def char_of_eq_iff take_bit_eq_mod)
qed

lemma lower_split: "split_char backslash (to_ascii_lowercase s) = map to_ascii_lowercase (split_char backslash s)"
  by (induction s) (auto simp: to_ascii_lowercase_def split: list.splits)

lemma bs_path_simps [simp]:
  "bs_path [] = []" "bs_path (n # ns) = backslash # n @ bs_path ns" "bs_path (ns @ ms) = bs_path ns @ bs_path ms"
  by (simp_all add: bs_path_def)

lemma split_bs_path: "\<forall>n \<in> set ns. backslash \<notin> set n \<Longrightarrow> split_char backslash (bs_path ns) = [] # ns"
proof (induction ns)
  case (Cons n ns)
  have "split_char backslash (n @ bs_path ns) = n # ns"
    using Cons by (cases ns) (simp_all add: split_char_no_sep split_char_append)
  then show ?case by simp
qed simp

definition path_filter :: "string list \<Rightarrow> Filter" where
  "path_filter ns = \<lparr>reg_query = Some \<lparr>rq_key_path = map (\<lambda>s. ComponentString (to_ascii_lowercase s)) ([] # ns),
     rq_key_path_has_root = True, rq_children = False\<rparr>\<rparr>"

lemma path_filter_simps [simp]: "Filter_is_valid (path_filter ns)" "\<not> return_sub_keys (path_filter ns)"
  by (simp_all add: path_filter_def Filter_is_valid_def return_sub_keys_def)

text \<open>What the filter of a path says of a key: its names against those of the path, without regard to case.\<close>

definition path_flags :: "string list \<Rightarrow> string list \<Rightarrow> FilterFlags" where
  "path_flags ns ks =
     (if map to_ascii_lowercase ks = map to_ascii_lowercase ns then FILTER_ITERATE_KEYS OR FILTER_KEY_MATCH
      else if strict_prefix (map to_ascii_lowercase ks) (map to_ascii_lowercase ns) then FILTER_ITERATE_KEYS
      else FILTER_NO_MATCH)"

lemma check_path_filter:
  assumes "kn_path (kn k) = bs_path ks" and "\<forall>n \<in> set ks. backslash \<notin> set n" and "same_but_root st0 st"
  shows "\<exists>st'. same_but_root st0 st' \<and> check_cell N (path_filter ns) st k = Ok (path_flags ns ks, st')"
proof -
  have "split_char backslash (kn_lowercase k) = map to_ascii_lowercase ([] # ks)"
    using split_bs_path [OF assms(2)] by (simp only: kn_lowercase_def assms(1) lower_split)
  then have m: "check_key_match N (the (reg_query (path_filter ns))) (kn_lowercase k) off = Ok (path_flags ns ks)" for off
    using literal_prefix [where segs = "map to_ascii_lowercase ks" and ps = ns and N = N]
    unfolding path_filter_def path_flags_def check_key_match_def Let_def
    by (auto simp add: str_from_def is_char_boundary_def match_segments_spec literal_components literal_prefix
        to_ascii_lowercase_def [of "[]"] comp_def del: list_all2_Cons strict_prefix_simps)
  define st' where "st' = snd (State_get_root_path_offset st (kn_lowercase k))"
  have "same_but_root st st'" by (simp add: st'_def State_get_root_path_offset_def Let_def same_but_root_def)
  moreover have "check_cell N (path_filter ns) st k = Ok (path_flags ns ks, st')"
    using m by (simp add: check_cell_def match_cell_def match_key_def st'_def case_prod_beta path_filter_def Filter_is_valid_def)
  ultimately show ?thesis using same_but_root_trans [OF assms(3)] by blast
qed

section \<open>Reading one key\<close>

text \<open>The values of a key as reading it adds them.\<close>

definition with_values :: "'z env_scheme \<Rightarrow> FileInfo \<Rightarrow> State \<Rightarrow> CellKeyNode \<Rightarrow> CellKeyNode result" where
  "with_values N fi st k =
     (if field_value (knd_number_of_key_values (kn_detail (kn k))) > 0 then
        bindO (read_values N fi st None k) (\<lambda>(k, err).
        Ok (if err = None then k
            else kn_add_log WarningParse
              (''Unable to parse values for cell key node '' @ kn_path (kn k) @ '' (offset: '' @
               show_nat (kn_file_offset_absolute (kn k)) @ '')'') k))
      else Ok k)"

lemma same_full: "same_but_root st0 st \<Longrightarrow> get_full_field_info st = get_full_field_info st0"
  unfolding same_but_root_def by (drule arg_cong [of _ _ get_full_field_info]) simp

lemma from_bytes_state:
  assumes "same_but_root st0 st"
  shows "CellKeyNode_from_bytes N st = CellKeyNode_from_bytes N st0"
  by (intro ext) (simp only: CellKeyNode_from_bytes_def same_full [OF assms])

lemma with_values_state:
  assumes "same_but_root st0 st"
  shows "with_values N fi st = with_values N fi st0"
proof -
  have "read_values N fi st None k = read_values N fi st0 None k" for k
    by (simp only: read_values_def same_full [OF assms])
  then show ?thesis by (intro ext) (simp only: with_values_def)
qed

lemma with_values_keeps:
  "with_values N fi st k = Ok k' \<Longrightarrow> same_key k k' \<and> iteration_state (kn k') = iteration_state (kn k) \<and>
     kn_versions k' = kn_versions k \<and> kn_deleted_keys k' = kn_deleted_keys k"
  by (auto simp: with_values_def bindO_eq_Ok split: if_splits dest!: read_values_keeps)

lemma no_items_update:
  assumes "no_items st" and "kn_versions k = []" and "kn_deleted_keys k = []" and "kn_cell_state (kn k) = Allocated"
  shows "update_modified_lists (Suc d) st k = Ok k"
proof -
  have "update_value_versions st path = (\<lambda>v. v)" for path
    using assms(1) by (intro ext) (simp add: update_value_versions_def no_items_def ModifiedValueMap_get_def)
  then show ?thesis
    using assms by (cases k)
      (simp add: no_items_def Let_def is_deleted_primary_file_def ModifiedDeletedKeyMap_get_def DeletedValueMap_get_def)
qed

text \<open>A key read without a filter, when nothing is recovered.\<close>

definition key_cell :: "'z env_scheme \<Rightarrow> FileInfo \<Rightarrow> State \<Rightarrow> usize \<Rightarrow> string \<Rightarrow> CellKeyNode result" where
  "key_cell N fi st offset cur_path =
     bindO (ok_or (Error_buffer ''cell_key_node::read'') (get_from (buffer fi) offset)) (\<lambda>sl.
     bindO (from_nom (CellKeyNode_from_bytes N st sl offset cur_path None)) (\<lambda>(_, k). Ok k))"

lemma key_cell_fresh:
  assumes "key_cell N fi st offset cur_path = Ok k"
  shows "fresh_key offset cur_path None k \<and> kn_sub_values (kn k) = [] \<and> kn_versions k = [] \<and> kn_deleted_keys k = [] \<and>
    iteration_state (kn k) = CellKeyNodeIteration_default"
  using assms ensuresD [OF from_bytes_fresh] by (fastforce simp: key_cell_def bindO_eq_Ok from_nom_eq)

lemma unfiltered_read:
  assumes "no_items st" and "flt = None \<or> flt = Some Filter_new"
  shows "CellKeyNode_read N (Suc d) fi st \<lparr>ro_offset = off, ro_cur_path = cur, ro_filter = flt,
       ro_self_is_filter_match_or_descendent = b, ro_sequence_num = None, ro_get_deleted_and_modified = dm\<rparr> =
     bindO (key_cell N fi st off cur) (\<lambda>k. bindO (with_values N fi st k) (\<lambda>k. Ok (Some k, st)))"
proof -
  have u: "bindO (if dm then update_modified_lists (Suc d) st k' else Ok k') (\<lambda>k. Ok (Some k, st)) = Ok (Some k', st)"
    if "key_cell N fi st off cur = Ok k" "with_values N fi st k = Ok k'" for k k'
    using key_cell_fresh [OF that(1)] with_values_keeps [OF that(2)] no_items_update [OF assms(1), of k' d]
    by (auto simp: fresh_key_def same_key_def simp del: update_modified_lists.simps)
  have s: "should_read_values flt FILTER_ITERATE_KEYS b"
    using assms(2) by (auto simp: should_read_values_def Filter_new_def Filter_is_valid_def)
  let ?opts = "\<lparr>ro_offset = off, ro_cur_path = cur, ro_filter = flt, ro_self_is_filter_match_or_descendent = b,
       ro_sequence_num = None, ro_get_deleted_and_modified = dm\<rparr>"
  let ?upd = "\<lambda>k. bindO (if dm then update_modified_lists (Suc d) st k else Ok k) (\<lambda>k. Ok (Some k, st))"
  have r: "read_from_slice N (Suc d) fi st sl ?opts =
     bindO (from_nom (CellKeyNode_from_bytes N st sl off cur None)) (\<lambda>(_, k). bindO (with_values N fi st k) ?upd)" for sl
    unfolding read_from_slice_def CellKeyNodeReadOptions.select_convs check_no_filter [OF assms(2)] bindO.simps prod.case
      with_values_def
    by (simp only: s simp_thms flags_distinct if_False if_True Let_def)
  have "CellKeyNode_read N (Suc d) fi st ?opts = bindO (key_cell N fi st off cur) (\<lambda>k. bindO (with_values N fi st k) ?upd)"
    unfolding CellKeyNode_read_def CellKeyNodeReadOptions.select_convs r key_cell_def bindO_assoc
    by (simp add: bindO_assoc split_def del: update_modified_lists.simps)
  also have "\<dots> = bindO (key_cell N fi st off cur) (\<lambda>k. bindO (with_values N fi st k) (\<lambda>k. Ok (Some k, st)))"
    using u by (cases "key_cell N fi st off cur")
      (auto intro: bindO_cong simp del: update_modified_lists.simps)
  finally show ?thesis .
qed

text \<open>The same key read with the filter of a path.\<close>

definition exact_match :: "CellKeyNode \<Rightarrow> CellKeyNode" where
  "exact_match = kn_update (\<lambda>c. c\<lparr>iteration_state := (iteration_state c)\<lparr>filter_state := Some FMS_Exact\<rparr>\<rparr>)"

lemma filtered_read:
  assumes "key_cell N fi st0 off cur = Ok k" and "same_but_root st0 st" and "with_values N fi st0 k = Ok k'"
    and "kn_path (kn k) = bs_path ks" and "\<forall>n \<in> set ks. backslash \<notin> set n"
  shows "\<exists>st'. same_but_root st0 st' \<and>
    CellKeyNode_read N d fi st \<lparr>ro_offset = off, ro_cur_path = cur, ro_filter = Some (path_filter ns),
       ro_self_is_filter_match_or_descendent = False, ro_sequence_num = None, ro_get_deleted_and_modified = False\<rparr> =
     Ok (if map to_ascii_lowercase ks = map to_ascii_lowercase ns then Some (exact_match k')
         else if strict_prefix (map to_ascii_lowercase ks) (map to_ascii_lowercase ns) then Some k else None, st')"
proof -
  obtain st' where st': "same_but_root st0 st'" and c: "check_cell N (path_filter ns) st k = Ok (path_flags ns ks, st')"
    using check_path_filter [OF assms(4,5,2)] by blast
  have v: "bindO (read_values N fi st' None k) (\<lambda>(k, err).
        Ok (if err = None then k
            else kn_add_log WarningParse
              (''Unable to parse values for cell key node '' @ kn_path (kn k) @ '' (offset: '' @
               show_nat (kn_file_offset_absolute (kn k)) @ '')'') k)) = Ok k'"
    if "field_value (knd_number_of_key_values (kn_detail (kn k))) > 0"
    using assms(3) that by (simp only: with_values_state [OF st', symmetric] with_values_def if_True)
  have nv: "k' = k" if "\<not> field_value (knd_number_of_key_values (kn_detail (kn k))) > 0"
    using assms(3) that by (simp add: with_values_def)
  obtain sl rest where sl: "get_from (buffer fi) off = Some sl" "CellKeyNode_from_bytes N st0 sl off cur None = Ok (rest, k)"
    using assms(1) by (auto simp: key_cell_def bindO_eq_Ok ok_or_eq_Ok from_nom_eq)
  have s: "should_read_values (Some (path_filter ns)) fl False \<longleftrightarrow> flags_contain fl FILTER_KEY_MATCH" for fl
    by (simp add: should_read_values_def)
  have "CellKeyNode_read N d fi st \<lparr>ro_offset = off, ro_cur_path = cur, ro_filter = Some (path_filter ns),
       ro_self_is_filter_match_or_descendent = False, ro_sequence_num = None, ro_get_deleted_and_modified = False\<rparr> =
     Ok (if map to_ascii_lowercase ks = map to_ascii_lowercase ns then Some (exact_match k')
         else if strict_prefix (map to_ascii_lowercase ks) (map to_ascii_lowercase ns) then Some k else None, st')"
    unfolding CellKeyNode_read_def read_from_slice_def CellKeyNodeReadOptions.select_convs sl(1) from_bytes_state [OF assms(2)]
    by (cases "field_value (knd_number_of_key_values (kn_detail (kn k))) > 0")
      (simp_all add: sl(2) c s v nv path_flags_def exact_match_def Let_def)
  with st' show ?thesis by blast
qed

lemma filtered_read_error:
  assumes "key_cell N fi st0 off cur = Err e" and "same_but_root st0 st"
  shows "CellKeyNode_read N d fi st \<lparr>ro_offset = off, ro_cur_path = cur, ro_filter = flt,
       ro_self_is_filter_match_or_descendent = b, ro_sequence_num = None, ro_get_deleted_and_modified = dm\<rparr> = Err e"
  using assms(1) from_bytes_state [OF assms(2), of N]
  by (auto simp: key_cell_def CellKeyNode_read_def read_from_slice_def bindO_eq_Err)

section \<open>Sub keys\<close>

text \<open>Reading the values of a key always comes to an end with a key, whatever the bytes are.\<close>

lemma with_values_total:
  assumes "nom_spec N" and "hbin_offset_absolute fi < 2 ^ 63"
  shows "\<exists>k'. with_values N fi st k = Ok k'"
proof -
  have "safe (read_values N fi st None k)" using nom_spec.safe_read_values [OF assms] .
  moreover have "read_values N fi st None k \<noteq> Err e" for e by (rule read_values_no_error [OF assms(1)])
  ultimately obtain r where "read_values N fi st None k = Ok r" by (cases "read_values N fi st None k") auto
  then show ?thesis by (cases r) (auto simp: with_values_def)
qed

lemma key_cell_safe: "nom_spec N \<Longrightarrow> safe (key_cell N fi st off cur)"
  by (auto simp: key_cell_def intro!: safe_bind safe_bind_prod nom_spec.safe_CellKeyNode_from_bytes)

definition child_at :: "'z env_scheme \<Rightarrow> FileInfo \<Rightarrow> State \<Rightarrow> string \<Rightarrow> u32 \<Rightarrow> CellKeyNode option" where
  "child_at N fi st cur v =
     (case bindO (key_cell N fi st (unat v) cur) (with_values N fi st) of Ok c \<Rightarrow> Some c | _ \<Rightarrow> None)"

lemma child_at_cases:
  assumes "nom_spec N" and "hbin_offset_absolute fi < 2 ^ 63"
  obtains (Child) k c where "key_cell N fi st (unat v) cur = Ok k" "with_values N fi st k = Ok c" "child_at N fi st cur v = Some c"
  | (None) e where "key_cell N fi st (unat v) cur = Err e" "child_at N fi st cur v = None"
proof (cases "key_cell N fi st (unat v) cur")
  case (Ok k)
  obtain c where "with_values N fi st k = Ok c" using with_values_total [OF assms] by blast
  with Ok show ?thesis by (intro Child) (simp_all add: child_at_def)
next
  case (Err e)
  then show ?thesis by (intro None) (simp_all add: child_at_def)
qed (use key_cell_safe [OF assms(1), of fi st "unat v" cur] in \<open>simp_all add: safe_def\<close>)

lemma child_fresh:
  assumes "child_at N fi st cur v = Some c"
  shows "fresh_key (unat v) cur None c \<and> iteration_state (kn c) = CellKeyNodeIteration_default"
  using assms unfolding child_at_def
  by (auto simp: bindO_eq_Ok fresh_key_def same_key_def split: outcome.splits dest!: key_cell_fresh with_values_keeps)

lemma unfiltered_loop:
  assumes "nom_spec N" and "hbin_offset_absolute fi < 2 ^ 63" and "no_items st"
  shows "\<exists>k'. sub_keys_loop N (Suc d) fi Filter_new False (Some Filter_new) None dm vs k st cs b =
      Ok (cs @ List.map_filter (child_at N fi st (kn_path (kn k))) vs, b, k', st)"
proof (induction vs arbitrary: k cs)
  case (Cons v vs)
  note read = unfiltered_read [OF assms(3), of "Some Filter_new" N d fi]
  from assms(1,2) show ?case
  proof (cases rule: child_at_cases [where st = st and v = v and cur = "kn_path (kn k)"])
    case (Child k0 c)
    have "mark_child False Filter_new c = (c, False)"
      using child_fresh [OF Child(3)]
      by (simp add: mark_child_def CellKeyNodeIteration_default_def Filter_new_def Filter_is_valid_def)
    with Child read Cons.IH [of k "cs @ [c]"] show ?thesis by (simp add: List.map_filter_simps)
  next
    case (None e)
    with read Cons.IH [of "kn_add_log WarningParse (kn_path (kn k) @ '': Unable to parse sub_key at offset '' @ show_nat (unat v)) k" cs]
    show ?thesis by (simp add: List.map_filter_simps)
  qed
qed (simp add: List.map_filter_simps)

text \<open>
  With the filter of a path only the sub keys with the next name are left; at the last name they are
  exact matches with their values, before it they are gone through.
\<close>

definition hit :: "bool \<Rightarrow> CellKeyNode \<Rightarrow> CellKeyNode \<Rightarrow> bool" where
  "hit at_end c c' \<longleftrightarrow>
     (if at_end then c' = exact_match c else same_key c c' \<and> \<not> is_filter_match_or_descendent c')"

lemma prefix_next:
  assumes "map f ks = map f pre"
  shows "map f (ks @ [n]) = map f (pre @ s # ss) \<longleftrightarrow> f n = f s \<and> ss = []"
    "strict_prefix (map f (ks @ [n])) (map f (pre @ s # ss)) \<longleftrightarrow> f n = f s \<and> ss \<noteq> []"
  using assms by (auto simp: strict_prefix_def)

lemma mark_hit:
  "mark_child False (path_filter ns) (exact_match c) = (exact_match c, True)"
  "iteration_state (kn c) = CellKeyNodeIteration_default \<Longrightarrow> same_key c0 c \<Longrightarrow>
     \<exists>c'. mark_child False (path_filter ns) c = (c', False) \<and> hit False c0 c'"
  by (simp_all add: mark_child_def exact_match_def Let_def CellKeyNodeIteration_default_def hit_def
      is_filter_match_or_descendent_def same_key_def)

lemma filtered_loop:
  assumes "nom_spec N" and "hbin_offset_absolute fi < 2 ^ 63"
    and "\<forall>n \<in> set ks. backslash \<notin> set n" and "map to_ascii_lowercase ks = map to_ascii_lowercase pre"
  shows "kn_path (kn k) = bs_path ks \<Longrightarrow> same_but_root st0 st \<Longrightarrow>
    \<forall>c \<in> set (List.map_filter (child_at N fi st0 (bs_path ks)) vs). backslash \<notin> set (kn_key_name (kn c)) \<Longrightarrow>
    \<exists>new k' st'. same_but_root st0 st' \<and>
      list_all2 (hit (ss = [])) (filter (same_name s) (List.map_filter (child_at N fi st0 (bs_path ks)) vs)) new \<and>
      sub_keys_loop N d fi (path_filter (pre @ s # ss)) False (Some (path_filter (pre @ s # ss))) None False vs k st cs b =
        Ok (cs @ new, b \<or> ss = [] \<and> new \<noteq> [], k', st')"
proof (induction vs arbitrary: k st cs b)
  case (Cons v vs)
  let ?F = "path_filter (pre @ s # ss)"
  let ?opts = "\<lparr>ro_offset = unat v, ro_cur_path = kn_path (kn k), ro_filter = Some ?F,
         ro_self_is_filter_match_or_descendent = False, ro_sequence_num = None, ro_get_deleted_and_modified = False\<rparr>"
  from assms(1,2) show ?case
  proof (cases rule: child_at_cases [where st = st0 and v = v and cur = "bs_path ks"])
    case (Child k0 c)
    have n: "backslash \<notin> set (kn_key_name (kn c))" using Cons.prems(3) Child(3) by (simp add: List.map_filter_simps)
    have c: "kn_path (kn k0) = bs_path (ks @ [kn_key_name (kn c)])" "same_key c k0"
      "iteration_state (kn k0) = CellKeyNodeIteration_default"
      using key_cell_fresh [OF Child(1)] with_values_keeps [OF Child(2)] by (simp_all add: fresh_key_def same_key_def)
    obtain st1 where st1: "same_but_root st0 st1" and r: "CellKeyNode_read N d fi st ?opts =
        Ok (if same_name s c \<and> ss = [] then Some (exact_match c) else if same_name s c \<and> ss \<noteq> [] then Some k0 else None, st1)"
      using filtered_read [OF Child(1) Cons.prems(2) Child(2) c(1), of d "pre @ s # ss"] assms(3) n
      unfolding prefix_next [OF assms(4)] same_name_def Cons.prems(1) by auto
    note IH = Cons.IH [OF Cons.prems(1) st1]
    have ns: "\<forall>c \<in> set (List.map_filter (child_at N fi st0 (bs_path ks)) vs). backslash \<notin> set (kn_key_name (kn c))"
      using Cons.prems(3) by (auto simp: List.map_filter_simps split: option.splits)
    show ?thesis
    proof (cases "same_name s c")
      case True
      obtain c' where c': "mark_child False ?F (if ss = [] then exact_match c else k0) = (c', ss = [])" "hit (ss = []) c c'"
        using mark_hit(1) [of "pre @ s # ss" c] mark_hit(2) [OF c(3,2), of "pre @ s # ss"] by (cases "ss = []") (auto simp: hit_def)
      from IH [OF ns, of "cs @ [c']" "b \<or> ss = []"] obtain new k' st' where "same_but_root st0 st'"
        "list_all2 (hit (ss = [])) (filter (same_name s) (List.map_filter (child_at N fi st0 (bs_path ks)) vs)) new"
        "sub_keys_loop N d fi ?F False (Some ?F) None False vs k st1 (cs @ [c']) (b \<or> ss = []) =
          Ok ((cs @ [c']) @ new, (b \<or> ss = []) \<or> ss = [] \<and> new \<noteq> [], k', st')"
        by blast
      with True r c' Child(3) show ?thesis
        by (intro exI [of _ "c' # new"] exI [of _ k'] exI [of _ st']) (auto simp: List.map_filter_simps)
    next
      case False
      with IH [OF ns, of cs b] r Child(3) show ?thesis by (simp add: List.map_filter_simps)
    qed
  next
    case (None e)
    let ?k = "kn_add_log WarningParse (kn_path (kn k) @ '': Unable to parse sub_key at offset '' @ show_nat (unat v)) k"
    have "CellKeyNode_read N d fi st ?opts = Err e"
      using filtered_read_error [OF None(1) Cons.prems(2)] by (simp add: Cons.prems(1))
    moreover have "kn_path (kn ?k) = bs_path ks" by (simp add: Cons.prems(1))
    ultimately show ?thesis
      using Cons.IH [of ?k st cs b] Cons.prems None(2) by (simp add: List.map_filter_simps)
  qed
qed (auto simp: List.map_filter_simps)

text \<open>More fuel changes nothing in what has been read from a list.\<close>

lemma parse_offsets_loop_stable:
  assumes "\<And>x. P x \<noteq> Diverge \<Longrightarrow> Q x = P x"
  shows "SubKeyListRi_parse_offsets_loop P items lst \<noteq> Diverge \<Longrightarrow>
    SubKeyListRi_parse_offsets_loop Q items lst = SubKeyListRi_parse_offsets_loop P items lst"
proof (induction items arbitrary: lst)
  case (Cons item items)
  have "P (ri_sub_key_list_offset_relative item) \<noteq> Diverge" using Cons.prems by auto
  from assms [OF this] Cons show ?case by (cases "P (ri_sub_key_list_offset_relative item)") auto
qed simp

lemma parse_sub_key_list_stable:
  "parse_sub_key_list N f fi rel \<noteq> Diverge \<Longrightarrow> f \<le> g \<Longrightarrow> parse_sub_key_list N g fi rel = parse_sub_key_list N f fi rel"
proof (induction f arbitrary: g rel)
  case (Suc f)
  from Suc.prems(2) obtain h where g: "g = Suc h" and h: "f \<le> h" by (cases g) auto
  have "SubKeyListRi_parse_offsets (parse_sub_key_list N h fi) l = SubKeyListRi_parse_offsets (parse_sub_key_list N f fi) l"
    if "SubKeyListRi_parse_offsets (parse_sub_key_list N f fi) l \<noteq> Diverge" for l
    using that unfolding SubKeyListRi_parse_offsets_def
    by (intro parse_offsets_loop_stable) (rule Suc.IH [OF _ h])
  with Suc.prems(1) show ?case
    by (cases "get_from (buffer fi) (unat rel + hbin_offset_absolute fi)") (auto simp: g split: outcome.splits)
qed simp

lemma sub_keys_with_filter:
  assumes "nom_spec N" and "hbin_offset_absolute fi < 2 ^ 63" and "no_items st0"
    and "sub_keys_of N (Suc d) fi st0 m k = Ok (cs, k1)" and "iteration_state (kn k) = CellKeyNodeIteration_default"
    and "same_key k kk" and "\<not> is_filter_match_or_descendent kk" and "same_but_root st0 st" and "Suc d \<le> d'"
    and "kn_path (kn k) = bs_path ks" and "\<forall>n \<in> set ks. backslash \<notin> set n"
    and "map to_ascii_lowercase ks = map to_ascii_lowercase pre" and "\<forall>c \<in> set cs. backslash \<notin> set (kn_key_name (kn c))"
  shows "\<exists>new kk' st'. same_but_root st0 st' \<and> list_all2 (hit (ss = [])) (filter (same_name s) cs) new \<and>
      read_sub_keys_internal N d' fi st (path_filter (pre @ s # ss)) None False kk = Ok (new, ss = [] \<and> new \<noteq> [], kk', st')"
proof -
  let ?n = "field_value (knd_number_of_sub_keys (kn_detail (kn k)))"
  let ?list = "field_value (knd_sub_keys_list_offset_relative (kn_detail (kn k)))"
  have kk: "kn_detail (kn kk) = kn_detail (kn k)" "kn_cell_state (kn kk) = kn_cell_state (kn k)" "kn_path (kn kk) = bs_path ks"
    using assms(6,10) by (simp_all add: same_key_def)
  have m: "\<not> is_filter_match_or_descendent k"
    using assms(5) by (simp add: is_filter_match_or_descendent_def CellKeyNodeIteration_default_def)
  show ?thesis
  proof (cases "kn_cell_state (kn k) = Allocated \<and> \<not> ?n > 1024 * 1024 \<and> ?n > 0")
    case False
    then have "cs = []"
      using assms(4) by (auto simp: sub_keys_of_def read_sub_keys_internal_def Let_def split: if_splits)
    moreover have "\<exists>kk'. read_sub_keys_internal N d' fi st (path_filter (pre @ s # ss)) None False kk = Ok ([], False, kk', st)"
      using False by (auto simp: read_sub_keys_internal_def Let_def kk)
    ultimately show ?thesis using assms(8) by auto
  next
    case True
    then have p: "parse_sub_key_list N d' fi ?list = parse_sub_key_list N (Suc d) fi ?list"
      using assms(4) by (intro parse_sub_key_list_stable [OF _ assms(9)])
        (auto simp: sub_keys_of_def read_sub_keys_internal_def Let_def simp del: parse_sub_key_list.simps)
    show ?thesis
    proof (cases "parse_sub_key_list N (Suc d) fi ?list")
      case (Ok offs)
      obtain k2 where u: "sub_keys_loop N (Suc d) fi Filter_new False (Some Filter_new) None m offs k st0 [] False =
          Ok (List.map_filter (child_at N fi st0 (bs_path ks)) offs, False, k2, st0)"
        using unfiltered_loop [OF assms(1-3), of d m offs k "[]" False] assms(10) by auto
      then have cs: "cs = List.map_filter (child_at N fi st0 (bs_path ks)) offs"
        using assms(4) True m Ok
        by (auto simp: sub_keys_of_def read_sub_keys_internal_def Let_def simp del: parse_sub_key_list.simps)
      from filtered_loop [OF assms(1,2,11,12) kk(3) assms(8) assms(13) [unfolded cs], where ss = ss and s = s and d = d'
          and cs = "[]" and b = False]
      obtain new kk' st' where "same_but_root st0 st'" "list_all2 (hit (ss = [])) (filter (same_name s) cs) new"
        "sub_keys_loop N d' fi (path_filter (pre @ s # ss)) False (Some (path_filter (pre @ s # ss))) None False offs kk st [] False =
          Ok (new, ss = [] \<and> new \<noteq> [], kk', st')"
        unfolding cs by auto
      with True assms(7) p Ok show ?thesis
        by (intro exI [of _ new] exI [of _ "kn_update (\<lambda>c. c\<lparr>cell_sub_key_offsets_absolute := offs\<rparr>) kk'"] exI [of _ st'])
          (auto simp: read_sub_keys_internal_def Let_def kk simp del: parse_sub_key_list.simps)
    next
      case (Err e)
      then have "cs = []"
        using assms(4) True
        by (auto simp: sub_keys_of_def read_sub_keys_internal_def Let_def simp del: parse_sub_key_list.simps)
      moreover have "\<exists>kk'. read_sub_keys_internal N d' fi st (path_filter (pre @ s # ss)) None False kk = Ok ([], False, kk', st)"
        using True p Err by (simp add: read_sub_keys_internal_def Let_def kk)
      ultimately show ?thesis using assms(8) by auto
    qed (use assms(4) True in \<open>auto simp: sub_keys_of_def read_sub_keys_internal_def Let_def simp del: parse_sub_key_list.simps\<close>)
  qed
qed

lemma sub_keys_loop_values:
  "sub_keys_loop N fuel fi flt m sf seq dm vs k st cs fk = Ok (r, b, k', st') \<Longrightarrow> kn_sub_values (kn k') = kn_sub_values (kn k)"
  by (induction vs arbitrary: k st cs fk)
    (fastforce simp: case_prod_beta Let_def split: outcome.splits option.splits prod.splits)+

lemma sub_keys_of_values: "sub_keys_of N d fi st m k = Ok (cs, k') \<Longrightarrow> kn_sub_values (kn k') = kn_sub_values (kn k)"
  by (auto simp: sub_keys_of_def read_sub_keys_internal_def Let_def bindO_eq_Ok split: if_splits outcome.splits
      dest!: sub_keys_loop_values)

lemma sub_keys_of_children:
  "sub_keys_of N d fi st m k = Ok (cs, k') \<Longrightarrow> c \<in> set cs \<Longrightarrow> kn_path (kn c) = kn_path (kn k) @ backslash # kn_key_name (kn c)"
  by (auto simp: sub_keys_of_def bindO_eq_Ok child_of_def split: if_splits dest!: read_sub_keys_children)

section \<open>The search\<close>

text \<open>A key found is the key of the tree: its cell, its path and its values, in the state of a search.\<close>

definition found_as :: "CellKeyNode \<Rightarrow> CellKeyNode \<Rightarrow> bool" where
  "found_as k r \<longleftrightarrow> same_key k r \<and> kn_sub_values (kn r) = kn_sub_values (kn k)"

fun names_plain :: "ktree \<Rightarrow> bool" where
  "names_plain (KTree k ts) \<longleftrightarrow> (\<forall>t \<in> set ts. plain (kn_key_name (kn (tree_key t))) \<and> names_plain t)"

lemma found_as_exact: "found_as k c \<Longrightarrow> found_as k (exact_match c)"
  by (simp add: found_as_def exact_match_def same_key_def)

lemma key_tree_root:
  assumes "key_tree N d fi st m k t"
  shows "found_as (tree_key t) k" "iteration_state (kn k) = CellKeyNodeIteration_default"
proof -
  from assms obtain cs k' ts where t: "t = KTree (set_to_return (length cs) k') ts"
    and k: "iteration_state (kn k) = CellKeyNodeIteration_default" and r: "sub_keys_of N d fi st m k = Ok (cs, k')"
    by (elim key_treeE) blast
  from k show "iteration_state (kn k) = CellKeyNodeIteration_default" .
  show "found_as (tree_key t) k"
    using sub_keys_of_same [OF r] sub_keys_of_values [OF r] by (simp add: t found_as_def same_key_def set_to_return_def)
qed

lemma list_all2_filter:
  assumes "\<And>x y. R x y \<Longrightarrow> P x \<longleftrightarrow> Q y"
  shows "list_all2 R xs ys \<Longrightarrow> list_all2 R (filter P xs) (filter Q ys)"
  by (induction rule: list_all2_induct) (auto simp: assms)

definition finds ::
  "'z env_list_scheme \<Rightarrow> nat \<Rightarrow> FileInfo \<Rightarrow> State \<Rightarrow> Filter \<Rightarrow> CellKeyNode option \<Rightarrow> CellKeyNode \<Rightarrow> bool" where
  "finds N fuel fi st0 flt r0 k \<longleftrightarrow>
     (\<forall>st. same_but_root st0 st \<longrightarrow>
        (\<exists>r k' st'. same_but_root st0 st' \<and> rel_option found_as r0 r \<and>
           get_sub_key_internal N fuel fi st flt None k = Ok (r, k', st')))"

lemma search_loop:
  "list_all2 (\<lambda>t. finds N fuel fi st0 flt (f t)) ts ks \<Longrightarrow> same_but_root st0 st \<Longrightarrow>
     \<exists>r st'. same_but_root st0 st' \<and> rel_option found_as (first_some (map f ts)) r \<and>
       get_sub_key_loop N fuel fi st flt None ks = Ok (r, st')"
proof (induction arbitrary: st rule: list_all2_induct)
  case (Cons t ts k ks)
  from Cons.hyps(1) Cons.prems obtain r k' st1 where st1: "same_but_root st0 st1" and r: "rel_option found_as (f t) r"
    and g: "get_sub_key_internal N fuel fi st flt None k = Ok (r, k', st1)"
    unfolding finds_def by blast
  from Cons.IH [OF st1] st1 r g show ?case by (cases r; cases "f t") auto
qed simp

lemma search_step:
  assumes "nom_spec N" and "hbin_offset_absolute fi < 2 ^ 63" and "no_items st0"
    and "key_tree N (Suc d) fi st0 m k t" and "names_plain t" and "same_key k kk" and "\<not> is_filter_match_or_descendent kk"
    and "Suc d \<le> fuel" and "kn_path (kn k) = bs_path ks" and "\<forall>n \<in> set ks. backslash \<notin> set n"
    and "map to_ascii_lowercase ks = map to_ascii_lowercase pre"
    and below: "\<And>u c c'. ss \<noteq> [] \<Longrightarrow> key_tree N (Suc d) fi st0 m c u \<Longrightarrow> names_plain u \<Longrightarrow> hit False c c' \<Longrightarrow> same_name s c \<Longrightarrow>
      kn_path (kn c) = bs_path (ks @ [kn_key_name (kn c)]) \<Longrightarrow> backslash \<notin> set (kn_key_name (kn c)) \<Longrightarrow>
      finds N fuel fi st0 (path_filter (pre @ s # ss)) (lookup ss u) c'"
  shows "finds N (Suc fuel) fi st0 (path_filter (pre @ s # ss)) (lookup (s # ss) t) kk"
  unfolding finds_def
proof (intro allI impI)
  fix st
  assume st: "same_but_root st0 st"
  let ?F = "path_filter (pre @ s # ss)"
  from assms(4) obtain cs k1 ts where t: "t = KTree (set_to_return (length cs) k1) ts"
    and r: "sub_keys_of N (Suc d) fi st0 m k = Ok (cs, k1)" and ts: "list_all2 (key_tree N (Suc d) fi st0 m) cs ts"
    by (elim key_treeE) blast
  define cs' ts' where "cs' = filter (same_name s) cs" and "ts' = filter (\<lambda>u. same_name s (tree_key u)) ts"
  have same: "same_name s c \<longleftrightarrow> same_name s (tree_key u)" "kn_key_name (kn c) = kn_key_name (kn (tree_key u))"
    if "key_tree N (Suc d) fi st0 m c u" for c u
    using key_tree_root(1) [OF that] by (auto simp: found_as_def same_key_def same_name_def)
  have cts: "list_all2 (key_tree N (Suc d) fi st0 m) cs' ts'"
    unfolding cs'_def ts'_def by (rule list_all2_filter [OF same(1) ts])
  have plain: "plain (kn_key_name (kn c)) \<and> (\<exists>u \<in> set ts. key_tree N (Suc d) fi st0 m c u)" if "c \<in> set cs" for c
    using ts that assms(5) same(2) by (fastforce simp: t list_all2_conv_all_nth in_set_conv_nth)
  have lk: "lookup (s # ss) t = first_some (map (lookup ss) ts')" by (simp add: t ts'_def first_some_filter)
  from plain have nb: "\<forall>c \<in> set cs. backslash \<notin> set (kn_key_name (kn c))" by (auto simp: plain_def)
  from sub_keys_with_filter [OF assms(1-3) r key_tree_root(2) [OF assms(4)] assms(6,7) st assms(8-11) nb, where s = s and ss = ss]
  obtain new kk' st1 where st1: "same_but_root st0 st1" and new: "list_all2 (hit (ss = [])) cs' new"
    and rd: "read_sub_keys_internal N fuel fi st ?F None False kk = Ok (new, ss = [] \<and> new \<noteq> [], kk', st1)"
    unfolding cs'_def by blast
  show "\<exists>r k' st'. same_but_root st0 st' \<and> rel_option found_as (lookup (s # ss) t) r \<and>
      get_sub_key_internal N (Suc fuel) fi st ?F None kk = Ok (r, k', st')"
  proof (cases "ss = []")
    case True
    then have "new = map exact_match cs'"
      using new by (auto simp: hit_def list_all2_conv_all_nth intro: nth_equalityI)
    moreover have "rel_option found_as (first_some (map (lookup []) ts')) (case map exact_match cs' of c # _ \<Rightarrow> Some c | [] \<Rightarrow> None)"
      using cts found_as_exact [OF key_tree_root(1)] by (cases cs'; cases ts') auto
    ultimately show ?thesis
      using st1 rd True unfolding lk by (cases cs') auto
  next
    case False
    have "list_all2 (\<lambda>u. finds N fuel fi st0 ?F (lookup ss u)) ts' new"
      unfolding list_all2_conv_all_nth
    proof (intro conjI allI impI)
      show "length ts' = length new" using cts new by (auto dest!: list_all2_lengthD)
    next
      fix i assume i: "i < length ts'"
      then have l: "i < length cs'" using cts by (auto dest: list_all2_lengthD)
      have c: "cs' ! i \<in> set cs" "same_name s (cs' ! i)" using nth_mem [OF l] by (auto simp: cs'_def)
      have "ts' ! i \<in> set ts" using nth_mem [OF i] by (simp add: ts'_def)
      then have "names_plain (ts' ! i)" using assms(5) by (simp add: t)
      moreover have "kn_path (kn (cs' ! i)) = bs_path (ks @ [kn_key_name (kn (cs' ! i))])"
        using sub_keys_of_children [OF r c(1)] assms(9) by simp
      ultimately show "finds N fuel fi st0 ?F (lookup ss (ts' ! i)) (new ! i)"
        using cts new i l c False nb by (intro below) (auto simp: list_all2_conv_all_nth)
    qed
    from search_loop [OF this st1] False rd show ?thesis unfolding lk by auto
  qed
qed

lemma search_tree:
  assumes "nom_spec N" and "hbin_offset_absolute fi < 2 ^ 63" and "no_items st0"
  shows "key_tree N (Suc d) fi st0 m k t \<Longrightarrow> names_plain t \<Longrightarrow> same_key k kk \<Longrightarrow> \<not> is_filter_match_or_descendent kk \<Longrightarrow>
    Suc d + length ss < fuel \<Longrightarrow> kn_path (kn k) = bs_path ks \<Longrightarrow> \<forall>n \<in> set ks. backslash \<notin> set n \<Longrightarrow>
    map to_ascii_lowercase ks = map to_ascii_lowercase pre \<Longrightarrow>
    finds N fuel fi st0 (path_filter (pre @ s # ss)) (lookup (s # ss) t) kk"
proof (induction ss arbitrary: s t k kk fuel ks pre)
  case Nil
  then obtain f where "fuel = Suc f" "Suc d \<le> f" by (cases fuel) auto
  with Nil show ?case using search_step [OF assms Nil(1-4) _ Nil(6-8), of f "[]" s] by simp
next
  case (Cons s' ss)
  then obtain f where f: "fuel = Suc f" "Suc d + length ss < f" "Suc d \<le> f" by (cases fuel) auto
  show ?case unfolding f(1)
  proof (rule search_step [OF assms Cons.prems(1-4) f(3) Cons.prems(6-8)])
    fix u c c'
    assume "key_tree N (Suc d) fi st0 m c u" "names_plain u" "hit False c c'" "same_name s c"
      "kn_path (kn c) = bs_path (ks @ [kn_key_name (kn c)])" "backslash \<notin> set (kn_key_name (kn c))"
    then have "finds N f fi st0 (path_filter ((pre @ [s]) @ s' # ss)) (lookup (s' # ss) u) c'"
      using Cons.prems(7,8) f(2)
      by (intro Cons.IH [where k = c and ks = "ks @ [kn_key_name (kn c)]"]) (auto simp: hit_def same_name_def)
    then show "finds N f fi st0 (path_filter (pre @ s # s' # ss)) (lookup (s' # ss) u) c'" by simp
  qed
qed

section \<open>The path of a key\<close>

lemma join_bs_path: "segs \<noteq> [] \<Longrightarrow> backslash # join_strings [backslash] segs = bs_path segs"
  by (induction segs) auto

lemma trim_end_last: "s \<noteq> [] \<Longrightarrow> last s \<noteq> c \<Longrightarrow> trim_end_char c s = s"
  by (cases s rule: rev_cases) (simp_all add: trim_end_char_def)

lemma last_bs_path: "ns \<noteq> [] \<Longrightarrow> plain (last ns) \<Longrightarrow> bs_path ns \<noteq> [] \<and> last (bs_path ns) \<noteq> backslash"
  by (cases ns rule: rev_cases) (auto simp: plain_def dest: last_in_set)

lemma strip_bs_path:
  assumes "plain rn"
  shows "strip_root (bs_path (rn # segs)) True = join_strings [backslash] segs"
proof -
  have "trim_start_char backslash (bs_path (rn # segs)) = rn @ bs_path segs"
    using assms by (cases rn) (auto simp: trim_start_char_def plain_def)
  then show ?thesis
    using assms join_bs_path [of segs, symmetric]
    by (cases "segs = []") (simp_all add: strip_root_def find_char_append find_char_None [THEN iffD2] plain_def)
qed

lemma by_path_filter:
  assumes "plain rn" and "\<forall>s \<in> set segs. plain s" and "segs \<noteq> []"
  shows "FilterBuilder_build (fb_set_key_path_has_root
      (add_key_path FilterBuilder_new (bs_path [rn] @ backslash # join_strings [backslash] segs)) True) = Ok (path_filter (rn # segs))"
proof -
  have p: "bs_path [rn] @ backslash # join_strings [backslash] segs = bs_path (rn # segs)"
    using join_bs_path [OF assms(3)] by simp
  have "last (rn # segs) \<in> set (rn # segs)" by (rule last_in_set) simp
  then have "plain (last (rn # segs))" using assms(1,2) by auto
  then have t: "trim_end_char backslash (bs_path (rn # segs)) = bs_path (rn # segs)"
    using last_bs_path [of "rn # segs"] by (intro trim_end_last) auto
  have "split_char backslash (bs_path (rn # segs)) = [] # rn # segs"
    using assms(1,2) by (intro split_bs_path) (auto simp: plain_def)
  then show ?thesis unfolding p
    by (simp only: add_key_path_def t)
      (simp add: FilterBuilder_build_def fb_set_key_path_has_root_def FilterBuilder_new_def foldl_add_literal path_filter_def
        add_literal_segment_internal_def)
qed

section \<open>Looking up a key\<close>

lemma key_cell_state:
  assumes "same_but_root st0 st"
  shows "key_cell N fi st = key_cell N fi st0"
  by (intro ext) (simp only: key_cell_def from_bytes_state [OF assms])

lemma no_items_same:
  assumes "same_but_root st0 st" and "no_items st0"
  shows "no_items st"
proof -
  have "no_items (st0\<lparr>root_key_path_offset := x\<rparr>)" for x using assms(2) by (simp add: no_items_def)
  then show ?thesis by (metis assms(1) same_but_root_def)
qed

text \<open>The root key is found whatever the state has noted of the root path.\<close>

lemma root_key_state:
  assumes "no_items (p_state p)" and "same_but_root (p_state p) st" and "get_root_key N (Suc f) p = Ok (Some root, p')"
  shows "get_root_key N (Suc g) (p\<lparr>p_state := st\<rparr>) = Ok (Some root, p\<lparr>p_state := st\<rparr>)"
    "kn_path (kn root) = bs_path [kn_key_name (kn root)]"
proof -
  obtain bb off where bb: "p_base_block p = Some bb"
    and off: "usize_add (overflow_checks N) (usize_of_i32 (root_cell_offset_relative (base bb))) (hbin_offset_absolute (p_file_info p)) =
      (Ok off :: (Error, usize) outcome)"
    using assms(3) by (auto simp: get_root_key_def bindO_eq_Ok split: option.splits)
  then obtain k where k: "key_cell N (p_file_info p) (p_state p) off [] = Ok k" "with_values N (p_file_info p) (p_state p) k = Ok root"
    using assms(3) unfiltered_read [OF assms(1), of None N f "p_file_info p" off "[]" True True]
    by (auto simp: get_root_key_def bindO_eq_Ok)
  then show "kn_path (kn root) = bs_path [kn_key_name (kn root)]"
    by (auto dest!: key_cell_fresh with_values_keeps simp: fresh_key_def same_key_def)
  show "get_root_key N (Suc g) (p\<lparr>p_state := st\<rparr>) = Ok (Some root, p\<lparr>p_state := st\<rparr>)"
    using k bb off unfiltered_read [OF no_items_same [OF assms(2,1)], of None N g "p_file_info p" off "[]" True True]
    by (simp add: get_root_key_def key_cell_state [OF assms(2)] with_values_state [OF assms(2)])
qed

lemma get_key_state:
  assumes "nom_spec N" and "hbin_offset_absolute (p_file_info p) < 2 ^ 63" and "no_items (p_state p)"
    and "get_root_key N fuel p = Ok (Some root, p')" and "key_tree N (Suc d) (p_file_info p) (p_state p) m root t"
    and "names_plain t" and "plain (kn_key_name (kn root))" and "\<forall>s \<in> set segs. plain s"
    and "Suc d + length segs \<le> fuel" and "same_but_root (p_state p) st"
  shows "\<exists>r st'. get_key N fuel (bs_path (kn_key_name (kn root) # segs)) True (p\<lparr>p_state := st\<rparr>) = Ok (r, p\<lparr>p_state := st'\<rparr>) \<and>
    rel_option found_as (lookup segs t) r \<and> same_but_root (p_state p) st'"
proof -
  let ?rn = "kn_key_name (kn root)"
  obtain f where f: "fuel = Suc f" using assms(9) by (cases fuel) auto
  note root = root_key_state [OF assms(3,10) assms(4) [unfolded f]]
  show ?thesis
  proof (cases segs)
    case Nil
    with root(1) assms(5,10) strip_bs_path [OF assms(7), of "[]"] show ?thesis
      by (auto simp: get_key_def get_sub_key_by_path_def f dest!: key_tree_root(1))
  next
    case (Cons s ss)
    have "\<not> is_filter_match_or_descendent root"
      using key_tree_root(2) [OF assms(5)] by (simp add: is_filter_match_or_descendent_def CellKeyNodeIteration_default_def)
    then have "finds N fuel (p_file_info p) (p_state p) (path_filter ([?rn] @ s # ss)) (lookup (s # ss) t) root"
      using assms(5-7,9) root(2) by (intro search_tree [OF assms(1-3), where ks = "[?rn]"]) (auto simp: Cons plain_def)
    with assms(10) obtain r k' st' where "same_but_root (p_state p) st'" "rel_option found_as (lookup (s # ss) t) r"
      "get_sub_key_internal N fuel (p_file_info p) st (path_filter (?rn # s # ss)) None root = Ok (r, k', st')"
      unfolding finds_def by auto
    moreover have "get_sub_key_by_path N fuel (p_file_info p) st (join_strings [backslash] segs) root =
        get_sub_key_internal N fuel (p_file_info p) st (path_filter (?rn # segs)) None root"
    proof -
      have "join_strings [backslash] segs \<noteq> []" using assms(8) by (auto simp: Cons plain_def)
      then show ?thesis
        using by_path_filter [OF assms(7,8)] by (simp only: get_sub_key_by_path_def root(2) Cons) simp
    qed
    ultimately have "get_sub_key_by_path N fuel (p_file_info p) st (join_strings [backslash] segs) root = Ok (r, k', st')"
      by (simp only: Cons)
    with root(1) have "get_key N fuel (bs_path (?rn # segs)) True (p\<lparr>p_state := st\<rparr>) = Ok (r, p\<lparr>p_state := st'\<rparr>)"
      unfolding get_key_def strip_bs_path [OF assms(7)] f by simp
    with \<open>same_but_root (p_state p) st'\<close> \<open>rel_option found_as (lookup (s # ss) t) r\<close> show ?thesis
      by (intro exI [of _ r] exI [of _ st']) (simp only: Cons simp_thms)
  qed
qed

section \<open>Every key of a tree is found under its path\<close>

fun siblings_distinct :: "ktree \<Rightarrow> bool" where
  "siblings_distinct (KTree k ts) \<longleftrightarrow>
     distinct (map (\<lambda>t. to_ascii_lowercase (kn_key_name (kn (tree_key t)))) ts) \<and> (\<forall>t \<in> set ts. siblings_distinct t)"

lemma first_some_distinct:
  assumes "distinct (map f ts)" and "u \<in> set ts" and "g u = Some x"
  shows "first_some (map (\<lambda>t. if f t = f u then g t else None) ts) = Some x"
  using assms
proof (induction ts)
  case (Cons t ts)
  then show ?case by (cases "t = u") (auto simp: image_iff)
qed simp

lemma own_path:
  "key_tree N d fi st m k t \<Longrightarrow> names_plain t \<Longrightarrow> siblings_distinct t \<Longrightarrow> x \<in> set (preorder_of t) \<Longrightarrow>
     \<exists>segs. (\<forall>s \<in> set segs. plain s) \<and> kn_path (kn x) = kn_path (kn k) @ bs_path segs \<and> lookup segs t = Some x \<and>
       length segs < length (preorder_of t)"
proof (induction arbitrary: x rule: key_tree.induct)
  case (node k cs k' ts)
  let ?t = "KTree (set_to_return (length cs) k') ts"
  show ?case
  proof (cases "x = tree_key ?t")
    case True
    then show ?thesis
      using sub_keys_of_same [OF node.hyps(3)] by (intro exI [of _ "[]"]) (simp add: same_key_def set_to_return_def)
  next
    case False
    then obtain u where u: "u \<in> set ts" "x \<in> set (preorder_of u)" using node.prems(3) by auto
    then obtain c where c: "c \<in> set cs" "key_tree N d fi st m c u"
      and IH: "\<And>x. names_plain u \<Longrightarrow> siblings_distinct u \<Longrightarrow> x \<in> set (preorder_of u) \<Longrightarrow>
        \<exists>segs. (\<forall>s \<in> set segs. plain s) \<and> kn_path (kn x) = kn_path (kn c) @ bs_path segs \<and> lookup segs u = Some x \<and>
          length segs < length (preorder_of u)"
      using node.IH by (fastforce simp: list_all2_conv_all_nth in_set_conv_nth)
    have "names_plain u" "siblings_distinct u" using u(1) node.prems(1,2) by auto
    from IH [OF this u(2)] obtain segs where segs: "\<forall>s \<in> set segs. plain s" "kn_path (kn x) = kn_path (kn c) @ bs_path segs"
      "lookup segs u = Some x" "length segs < length (preorder_of u)"
      by blast
    let ?s = "kn_key_name (kn (tree_key u))"
    have s: "kn_key_name (kn c) = ?s" using key_tree_root(1) [OF c(2)] by (simp add: found_as_def same_key_def)
    have "lookup (?s # segs) ?t = Some x"
      using first_some_distinct [OF _ u(1), where f = "\<lambda>t. to_ascii_lowercase (kn_key_name (kn (tree_key t)))" and g = "lookup segs"]
        node.prems(2) segs(3) by (simp add: same_name_def)
    moreover have "length (preorder_of u) \<le> length (concat (map preorder_of ts))"
      using u(1) by (simp add: length_concat comp_def member_le_sum_list)
    moreover have "kn_path (kn x) = kn_path (kn k) @ bs_path (?s # segs)"
      using sub_keys_of_children [OF node.hyps(3) c(1)] segs(2) s by simp
    moreover have "plain ?s" using node.prems(1) u(1) by simp
    ultimately show ?thesis using segs(1,4) by (intro exI [of _ "?s # segs"]) simp
  qed
qed

text \<open>More depth for the recursion over lists changes nothing in a tree that has been read.\<close>

lemma loop_depth:
  assumes "no_items st"
  shows "sub_keys_loop N (Suc d) fi Filter_new b (Some Filter_new) None m vs k st cs fk =
    sub_keys_loop N (Suc d') fi Filter_new b (Some Filter_new) None m vs k st cs fk"
proof (induction vs arbitrary: k cs fk)
  case (Cons v vs)
  then show ?case
    by (auto simp: unfiltered_read [OF assms] case_prod_beta bindO_eq_Ok Let_def split: outcome.splits option.splits)
qed simp

lemma key_tree_deeper:
  assumes "no_items st" and "Suc d \<le> D"
  shows "key_tree N (Suc d) fi st m k t \<Longrightarrow> key_tree N D fi st m k t"
proof (induction rule: key_tree.induct)
  case (node k cs k' ts)
  obtain e where D: "D = Suc e" using assms(2) by (cases D) auto
  let ?list = "field_value (knd_sub_keys_list_offset_relative (kn_detail (kn k)))"
  have m: "\<not> is_filter_match_or_descendent k"
    using node.hyps(1) by (simp add: is_filter_match_or_descendent_def CellKeyNodeIteration_default_def)
  have "sub_keys_of N D fi st m k = Ok (cs, k')"
  proof (cases "parse_sub_key_list N (Suc d) fi ?list = Diverge")
    case True
    with node.hyps(3) show ?thesis
      by (auto simp: sub_keys_of_def read_sub_keys_internal_def Let_def simp del: parse_sub_key_list.simps split: if_splits)
  next
    case False
    have l: "sub_keys_loop N (Suc e) fi Filter_new False (Some Filter_new) None m vs k st [] False =
        sub_keys_loop N (Suc d) fi Filter_new False (Some Filter_new) None m vs k st [] False" for vs
      by (rule loop_depth [OF assms(1)])
    have "read_sub_keys_internal N (Suc e) fi st Filter_new None m k = read_sub_keys_internal N (Suc d) fi st Filter_new None m k"
      using m by (simp only: read_sub_keys_internal_def Let_def parse_sub_key_list_stable [OF False assms(2), unfolded D]
          simp_thms if_False l)
    with node.hyps(3) show ?thesis by (simp only: sub_keys_of_def D)
  qed
  moreover have "list_all2 (key_tree N D fi st m) cs ts" using node.IH by (auto elim: list_all2_mono)
  ultimately show ?case using node.hyps(1,2) by (intro key_tree.node)
qed

section \<open>Properties\<close>

text \<open>
  C11: looking up a key by its path, with the name of the root first, is the lookup of the names in the
  tree of keys: the key found is the first whose names agree without regard to the case of ASCII
  letters, with its values, and nothing is found exactly when there is none; the parser stays as it
  is but for the note of where the root name ends.  A depth of recursion of that of the lists and the number of
  names is enough.
\<close>

theorem keys_found_by_path:
  assumes "nom_spec N" and "hbin_offset_absolute (p_file_info p) < 2 ^ 63" and "no_items (p_state p)"
    and "get_root_key N depth p = Ok (Some root, p')" and "key_tree N (Suc d) (p_file_info p) (p_state p) m root t"
    and "names_plain t" and "plain (kn_key_name (kn root))" and "\<forall>s \<in> set segs. plain s"
    and "Suc d + length segs \<le> depth"
  shows "\<exists>r q. get_key N depth (bs_path (kn_key_name (kn root) # segs)) True p = Ok (r, q) \<and>
    rel_option found_as (lookup segs t) r \<and> same_but_root (p_state p) (p_state q) \<and> q = p\<lparr>p_state := p_state q\<rparr>"
proof -
  have p: "p\<lparr>p_state := p_state p\<rparr> = p" by simp
  from get_key_state [OF assms same_but_root_refl, unfolded p] obtain r st where
    "get_key N depth (bs_path (kn_key_name (kn root) # segs)) True p = Ok (r, p\<lparr>p_state := st\<rparr>)"
    "rel_option found_as (lookup segs t) r" "same_but_root (p_state p) st"
    by blast
  then show ?thesis by (intro exI [of _ r] exI [of _ "p\<lparr>p_state := st\<rparr>"]) simp
qed

section \<open>Witnesses\<close>

text \<open>A hive with a list at 0, the key \<open>a\<close> at 12 and its parent, the root \<open>r\<close>, at 100.\<close>

definition root_nk :: nk_data where
  "root_nk = sample_nk\<lparr>nk_n_sub := 1, nk_name := [0x72]\<rparr>"

definition two_file :: FileInfo where
  "two_file = \<lparr>hbin_offset_absolute = 0, buffer = walk_list @ nk_bytes (- 88) sample_nk @ nk_bytes (- 88) root_nk\<rparr>"

definition two_parser :: "BaseBlock \<Rightarrow> CellKeyNode \<Rightarrow> Parser" where
  "two_parser bb k = \<lparr>p_file_info = two_file, p_state = State_default,
     p_base_block = Some (bb\<lparr>base := (base bb)\<lparr>root_cell_offset_relative := 100\<rparr>\<rparr>), p_hive_bin_header = None,
     p_cell_key_node_root = Some k, p_recover_deleted = False, p_update_console = False\<rparr>"

lemma two_file_list:
  assumes "nom_list_spec N"
  shows "\<exists>d. parse_sub_key_list N (Suc d) two_file 0 = Ok [12]"
proof -
  have "sub_keys two_file 0 [12]"
    by (rule sub_keys.leaf [OF _ walk_list_cell]) (simp add: cell_at_def two_file_def get_from_def)
  then obtain f where f: "parse_sub_key_list N f two_file 0 = Ok (absolute two_file [12])"
    using nom_list_spec.parse_complete [OF assms, of two_file 0 "[12]"] by (auto simp: two_file_def offsets_fit_def)
  then show ?thesis by (cases f) (auto simp: absolute_def two_file_def)
qed

lemma char_r: "char_of (114 :: nat) = CHR ''r''"
  by code_simp

lemma nk_hypotheses:
  assumes "d \<in> {sample_nk, root_nk}"
  shows "length (nk_name d) < 2 ^ 16" "unat (unsigned_abs (- 88)) = 80 + length (nk_name d) + length (nk_slack d)"
    "flags_contain (nk_flags d) KEY_COMP_NAME" "nk_flags d AND KeyNodeFlags_all = nk_flags d"
  using assms
  by (auto simp: sample_nk_def root_nk_def unsigned_abs_def flags_contain_def KEY_COMP_NAME_def KeyNodeFlags_all_def KEY_HIVE_ENTRY_def)

lemma two_file_keys:
  assumes "nom_spec N"
  shows "\<exists>k. key_cell N two_file st 12 cur = Ok k \<and> with_values N two_file st k = Ok k \<and> kn_key_name (kn k) = ''a'' \<and>
      field_value (knd_number_of_sub_keys (kn_detail (kn k))) = 0"
    "\<exists>k. key_cell N two_file st 100 cur = Ok k \<and> with_values N two_file st k = Ok k \<and> kn_key_name (kn k) = ''r'' \<and>
      field_value (knd_number_of_sub_keys (kn_detail (kn k))) = 1 \<and>
      field_value (knd_sub_keys_list_offset_relative (kn_detail (kn k))) = 0"
proof -
  have s: "get_from (buffer two_file) 12 = Some (nk_bytes (- 88) sample_nk @ nk_bytes (- 88) root_nk)"
    "get_from (buffer two_file) 100 = Some (nk_bytes (- 88) root_nk @ [])"
    by (simp_all add: two_file_def walk_list_def get_from_def length_nk_bytes sample_nk_def root_nk_def)
  show "\<exists>k. key_cell N two_file st 12 cur = Ok k \<and> with_values N two_file st k = Ok k \<and> kn_key_name (kn k) = ''a'' \<and>
      field_value (knd_number_of_sub_keys (kn_detail (kn k))) = 0"
    using nk_parse [OF assms nk_hypotheses [of sample_nk], of st "nk_bytes (- 88) root_nk" 12 cur None]
    by (auto simp: key_cell_def s(1) with_values_def sample_nk_def utf8_def utf8_char_def char_a)
  show "\<exists>k. key_cell N two_file st 100 cur = Ok k \<and> with_values N two_file st k = Ok k \<and> kn_key_name (kn k) = ''r'' \<and>
      field_value (knd_number_of_sub_keys (kn_detail (kn k))) = 1 \<and>
      field_value (knd_sub_keys_list_offset_relative (kn_detail (kn k))) = 0"
    using nk_parse [OF assms nk_hypotheses [of root_nk], of st "[]" 100 cur None]
    by (auto simp: key_cell_def s(2) with_values_def root_nk_def sample_nk_def utf8_def utf8_char_def char_r)
qed

lemma two_tree:
  assumes "nom_list_spec N"
  shows "\<exists>d root r k. (\<forall>f x. get_root_key N (Suc f) (two_parser bb x) = Ok (Some root, two_parser bb x)) \<and>
    key_tree N (Suc d) two_file State_default m root (KTree r [KTree k []]) \<and> kn_key_name (kn root) = ''r'' \<and>
    kn_key_name (kn k) = ''a'' \<and> key_offset r = 100 \<and> key_offset k = 12 \<and> kn_sub_values (kn r) = [] \<and> kn_sub_values (kn k) = [] \<and>
    kn_path (kn r) = bs_path [''r''] \<and> kn_path (kn k) = bs_path [''r'', ''a'']"
proof -
  have N: "nom_spec N" using assms nom_list_spec.axioms(1) nom_cell_spec.axioms(1) by blast
  have ni: "no_items State_default" by (simp add: no_items_def State_default_def)
  obtain root where root: "key_cell N two_file State_default 100 [] = Ok root" "with_values N two_file State_default root = Ok root"
    "kn_key_name (kn root) = ''r''" "field_value (knd_number_of_sub_keys (kn_detail (kn root))) = 1"
    "field_value (knd_sub_keys_list_offset_relative (kn_detail (kn root))) = 0"
    using two_file_keys(2) [OF N] by blast
  obtain k where k: "key_cell N two_file State_default 12 (kn_path (kn root)) = Ok k" "with_values N two_file State_default k = Ok k"
    "kn_key_name (kn k) = ''a''" "field_value (knd_number_of_sub_keys (kn_detail (kn k))) = 0"
    using two_file_keys(1) [OF N] by blast
  note fresh = key_cell_fresh [OF root(1), unfolded fresh_key_def] key_cell_fresh [OF k(1), unfolded fresh_key_def]
  obtain d where d: "parse_sub_key_list N (Suc d) two_file 0 = Ok [12]" using two_file_list [OF assms] by blast
  have "\<not> is_filter_match_or_descendent root"
    using fresh by (simp add: is_filter_match_or_descendent_def CellKeyNodeIteration_default_def)
  moreover obtain r0 where "sub_keys_loop N (Suc d) two_file Filter_new False (Some Filter_new) None m [12] root State_default [] False =
      Ok ([k], False, r0, State_default)"
    using unfiltered_loop [OF N _ ni, of two_file d m "[12]" root "[]" False] k
    by (auto simp: List.map_filter_simps child_at_def two_file_def)
  ultimately obtain r1 where s: "sub_keys_of N (Suc d) two_file State_default m root = Ok ([k], r1)"
    using d root fresh(1) by (simp add: sub_keys_of_def read_sub_keys_internal_def Let_def del: parse_sub_key_list.simps sub_keys_loop.simps)
  have "key_tree N (Suc d) two_file State_default m k (KTree (set_to_return (length ([] :: CellKeyNode list)) k) [])"
    by (rule key_tree.node) (use fresh(2) k in \<open>simp_all add: sub_keys_of_def\<close>)
  then have "key_tree N (Suc d) two_file State_default m k (KTree k [])"
    using fresh(2) by (simp add: set_to_return_0)
  then have "key_tree N (Suc d) two_file State_default m root (KTree (set_to_return (length [k]) r1) [KTree k []])"
    using fresh(1) by (intro key_tree.node [OF _ _ s]) simp_all
  moreover have "get_root_key N (Suc f) (two_parser bb x) = Ok (Some root, two_parser bb x)" for f x
    using root(1,2) unfiltered_read [OF ni, of None N f two_file 100 "[]" True True]
    by (simp add: get_root_key_def two_parser_def usize_of_i32_def two_file_def)
  moreover have "same_key root r1" "kn_sub_values (kn r1) = []"
    using sub_keys_of_same [OF s] sub_keys_of_values [OF s] fresh(1) by simp_all
  ultimately show ?thesis
    using fresh root(3) k(3)
    by (intro exI [of _ d] exI [of _ root] exI [of _ "set_to_return (length [k]) r1"] exI [of _ k])
      (simp add: same_key_def set_to_return_def)
qed

theorem keys_found_by_path_witness:
  "\<forall>bb x. \<exists>depth k q. get_key env_list_ref depth (bs_path [''r'', ''A'']) True (two_parser bb x) = Ok (Some k, q) \<and>
     kn_path (kn k) = bs_path [''r'', ''a'']"
proof (intro allI)
  fix bb x
  obtain d root r k where root: "\<And>f. get_root_key env_list_ref (Suc f) (two_parser bb x) = Ok (Some root, two_parser bb x)"
    and t: "key_tree env_list_ref (Suc d) two_file State_default True root (KTree r [KTree k []])"
    and n: "kn_key_name (kn root) = ''r''" "kn_key_name (kn k) = ''a''" "kn_path (kn k) = bs_path [''r'', ''a'']"
    using two_tree [OF ref_nom_list.nom_list_spec_axioms, of bb True] by blast
  have l: "lookup [''A''] (KTree r [KTree k []]) = Some k"
    by (simp add: same_name_def n to_ascii_lowercase_def ascii_lower_def of_char_def char_of_def bit_Suc_0_iff)
  have "\<exists>r' q. get_key env_list_ref (Suc (Suc d)) (bs_path (kn_key_name (kn root) # [''A''])) True (two_parser bb x) = Ok (r', q) \<and>
      rel_option found_as (lookup [''A''] (KTree r [KTree k []])) r' \<and> same_but_root (p_state (two_parser bb x)) (p_state q) \<and>
      q = (two_parser bb x)\<lparr>p_state := p_state q\<rparr>"
    by (rule keys_found_by_path [OF ref_nom_list.nom_spec_axioms _ _ root])
      (use t n in \<open>auto simp: two_parser_def two_file_def no_items_def State_default_def plain_def backslash_def\<close>)
  then obtain r' q where g: "get_key env_list_ref (Suc (Suc d)) (bs_path [''r'', ''A'']) True (two_parser bb x) = Ok (r', q)"
    and "rel_option found_as (Some k) r'"
    unfolding l n(1) by blast
  then obtain k' where "r' = Some k'" "found_as k k'" by (cases r') auto
  with g n(3) show "\<exists>depth k q. get_key env_list_ref depth (bs_path [''r'', ''A'']) True (two_parser bb x) = Ok (Some k, q) \<and>
      kn_path (kn k) = bs_path [''r'', ''a'']"
    by (auto simp: found_as_def same_key_def)
qed

end
