(* ===== verification/Compare_Trees.thy ===== *)
theory Compare_Trees
  imports Compare_Facts Key_Lookup
begin

text \<open>
  The comparison of two hives whose keys form trees: the keys that are compared are those of the trees
  in preorder, and every key of the base hive is found again under its path, so that the comparison
  returns the differences.
\<close>

section \<open>Hives that are trees\<close>

text \<open>
  What an undamaged hive without recovered items has: its keys form a tree, no cell in it twice; names
  are not empty and have no separator; sub keys of a key differ in their names, not only in case; so do
  the values of a key in their names.
\<close>

definition plain_hive :: "'z env_list_scheme \<Rightarrow> nat \<Rightarrow> Parser \<Rightarrow> ktree \<Rightarrow> bool" where
  "plain_hive N d p t \<longleftrightarrow>
     no_items (p_state p) \<and> hbin_offset_absolute (p_file_info p) < 2 ^ 63 \<and> names_plain t \<and> siblings_distinct t \<and>
     distinct (map kn_file_offset_absolute (map kn (preorder_of t))) \<and>
     (\<forall>k \<in> set (preorder_of t). distinct (map value_name_of (kn_sub_values (kn k)))) \<and>
     (\<exists>root. p_cell_key_node_root p = Some root \<and> get_root_key N 1 p = Ok (Some root, p) \<and> plain (kn_key_name (kn root)) \<and>
        key_tree N (Suc d) (p_file_info p) (p_state p) True root t)"

lemma plain_hive_root:
  assumes "plain_hive N d p t"
  obtains root where "p_cell_key_node_root p = Some root" "plain (kn_key_name (kn root))"
    "key_tree N (Suc d) (p_file_info p) (p_state p) True root t" "kn_path (kn root) = bs_path [kn_key_name (kn root)]"
    "\<forall>f. get_root_key N (Suc f) p = Ok (Some root, p)"
proof -
  from assms obtain root where r: "p_cell_key_node_root p = Some root" "get_root_key N (Suc 0) p = Ok (Some root, p)"
    "plain (kn_key_name (kn root))" "key_tree N (Suc d) (p_file_info p) (p_state p) True root t" and n: "no_items (p_state p)"
    by (auto simp: plain_hive_def)
  have "get_root_key N (Suc f) (p\<lparr>p_state := p_state p\<rparr>) = Ok (Some root, p\<lparr>p_state := p_state p\<rparr>)" for f
    by (rule root_key_state(1) [OF n same_but_root_refl r(2)])
  with r root_key_state(2) [OF n same_but_root_refl r(2)] show ?thesis by (intro that) simp_all
qed

lemma plain_hive_walk:
  assumes "plain_hive N d p t" and "Suc d \<le> depth" and "length (preorder_of t) < fuel"
  shows "iter_all N depth fuel (new_iter p None) = Ok (preorder_of t)"
proof -
  from assms(1) obtain root where r: "p_cell_key_node_root p = Some root" "key_tree N (Suc d) (p_file_info p) (p_state p) True root t"
    by (rule plain_hive_root)
  have "key_tree N depth (p_file_info p) (p_state p) True root t"
    using key_tree_deeper [OF _ assms(2) r(2)] assms(1) by (simp add: plain_hive_def)
  moreover have "distinct (map kn_file_offset_absolute (map kn (preorder_of t)))" using assms(1) by (simp only: plain_hive_def)
  ultimately show ?thesis unfolding new_iter_plain by (rule preorder_walk [OF r(1) _ _ assms(3)])
qed

section \<open>The names of the items\<close>

lemma distinct_items_iff:
  "distinct_items ks \<longleftrightarrow> distinct (map (\<lambda>k. kn_path (kn k)) ks) \<and> (\<forall>k \<in> set ks. distinct (map value_name_of (kn_sub_values (kn k))))"
proof (induction ks)
  case (Cons k ks)
  have names: "map item_name (key_items k) = map (Pair (kn_path (kn k))) (None # map (\<lambda>v. Some (value_name_of v)) (kn_sub_values (kn k)))" for k
    by (simp add: key_items_def item_name_def comp_def)
  have "distinct (map (\<lambda>v. Some (value_name_of v)) vs) \<longleftrightarrow> distinct (map value_name_of vs)" for vs
    by (simp add: distinct_map inj_on_def)
  then have "distinct (map item_name (key_items k)) \<longleftrightarrow> distinct (map value_name_of (kn_sub_values (kn k)))"
    unfolding names by (auto simp: distinct_map inj_on_def comp_def)
  moreover have "item_name ` set (hive_items ks) \<inter> item_name ` set (key_items k) = {} \<longleftrightarrow> kn_path (kn k) \<notin> (\<lambda>k. kn_path (kn k)) ` set ks"
    by (auto simp: hive_items_def key_items_def item_name_def image_iff)
  ultimately show ?case
    using Cons.IH by (auto simp: distinct_items_def hive_items_def Int_commute)
qed (simp add: distinct_items_def hive_items_def)

lemma plain_hive_path:
  assumes "plain_hive N d p t" and "key_tree N (Suc d) (p_file_info p) (p_state p) True root t"
    and "kn_path (kn root) = bs_path [kn_key_name (kn root)]" and "x \<in> set (preorder_of t)"
  obtains segs where "\<forall>s \<in> set segs. plain s" "kn_path (kn x) = bs_path (kn_key_name (kn root) # segs)" "lookup segs t = Some x"
    "length segs < length (preorder_of t)"
proof -
  have "names_plain t" "siblings_distinct t" using assms(1) by (simp_all only: plain_hive_def)
  from own_path [OF assms(2) this assms(4)] show ?thesis using that assms(3) by auto
qed

lemma plain_hive_items:
  assumes "plain_hive N d p t"
  shows "distinct_items (preorder_of t)"
proof -
  from assms obtain root where r: "plain (kn_key_name (kn root))" and k: "key_tree N (Suc d) (p_file_info p) (p_state p) True root t"
    "kn_path (kn root) = bs_path [kn_key_name (kn root)]"
    by (rule plain_hive_root)
  have "x = y" if xy: "x \<in> set (preorder_of t)" "y \<in> set (preorder_of t)" "kn_path (kn x) = kn_path (kn y)" for x y
  proof -
    obtain segs where x: "\<forall>s \<in> set segs. plain s" "kn_path (kn x) = bs_path (kn_key_name (kn root) # segs)" "lookup segs t = Some x"
      by (rule plain_hive_path [OF assms k xy(1)])
    obtain segs' where y: "\<forall>s \<in> set segs'. plain s" "kn_path (kn y) = bs_path (kn_key_name (kn root) # segs')" "lookup segs' t = Some y"
      by (rule plain_hive_path [OF assms k xy(2)])
    have "split_char backslash (kn_path (kn x)) = [] # kn_key_name (kn root) # segs"
      unfolding x(2) by (rule split_bs_path) (use x(1) r in \<open>auto simp: plain_def\<close>)
    moreover have "split_char backslash (kn_path (kn y)) = [] # kn_key_name (kn root) # segs'"
      unfolding y(2) by (rule split_bs_path) (use y(1) r in \<open>auto simp: plain_def\<close>)
    ultimately have "segs = segs'" using xy(3) by simp
    with x(3) y(3) show ?thesis by simp
  qed
  moreover have "distinct (preorder_of t)" using assms by (simp add: plain_hive_def distinct_map)
  moreover have "\<forall>k \<in> set (preorder_of t). distinct (map value_name_of (kn_sub_values (kn k)))"
    using assms unfolding plain_hive_def by blast
  ultimately show ?thesis by (simp add: distinct_items_iff distinct_map [of "\<lambda>k. kn_path (kn k)"] inj_on_def)
qed

section \<open>The base hive\<close>

definition base_states :: "Parser \<Rightarrow> Parser \<Rightarrow> bool" where
  "base_states p q \<longleftrightarrow> (\<exists>st. same_but_root (p_state p) st \<and> q = p\<lparr>p_state := st\<rparr>)"

lemma plain_hive_finds:
  assumes "nom_spec N" and "plain_hive N d p t" and "d + length (preorder_of t) \<le> depth"
  shows "finds_items N depth (base_states p) (item_name ` set (hive_items (preorder_of t)))"
  unfolding finds_items_def
proof (intro allI impI)
  fix q path name
  assume q: "base_states p q" and i: "(path, name) \<in> item_name ` set (hive_items (preorder_of t))"
  from q obtain st where st: "same_but_root (p_state p) st" "q = p\<lparr>p_state := st\<rparr>" by (auto simp: base_states_def)
  from i obtain x v where xv: "(x, v) \<in> set (hive_items (preorder_of t))" "(path, name) = item_name (x, v)" by auto
  then have x: "x \<in> set (preorder_of t)" "path = kn_path (kn x)"
    "name = None \<or> (\<exists>v \<in> set (kn_sub_values (kn x)). name = Some (value_name_of v))"
    by (auto simp: hive_items_def key_items_def item_name_def)
  have h: "no_items (p_state p)" "hbin_offset_absolute (p_file_info p) < 2 ^ 63" "names_plain t"
    using assms(2) by (simp_all only: plain_hive_def)
  from assms(2) obtain root where r: "plain (kn_key_name (kn root))" "key_tree N (Suc d) (p_file_info p) (p_state p) True root t"
    "kn_path (kn root) = bs_path [kn_key_name (kn root)]" and root: "\<forall>f. get_root_key N (Suc f) p = Ok (Some root, p)"
    by (rule plain_hive_root)
  obtain f where f: "depth = Suc f" using assms(3) x(1) by (cases depth) (auto simp: length_pos_if_in_set)
  obtain segs where
    segs: "\<forall>s \<in> set segs. plain s" "kn_path (kn x) = bs_path (kn_key_name (kn root) # segs)" "lookup segs t = Some x"
      "length segs < length (preorder_of t)"
    by (rule plain_hive_path [OF assms(2) r(2,3) x(1)])
  have "Suc d + length segs \<le> Suc f" using segs(4) assms(3) by (simp add: f)
  from get_key_state [OF assms(1) h(2,1) root [rule_format] r(2) h(3) r(1) segs(1) this st(1)]
  obtain o' st' where g: "get_key N depth path True q = Ok (o', p\<lparr>p_state := st'\<rparr>)" and o': "rel_option found_as (Some x) o'"
    and st': "same_but_root (p_state p) st'"
    unfolding segs(3) x(2) segs(2) st(2) f by blast
  from o' obtain k where k: "o' = Some k" "found_as x k" by (cases o') auto
  have "get_value k n \<noteq> None" if "name = Some n" for n
    using x(3) that k(2) by (auto simp: get_value_def found_as_def find_None_iff)
  with g k st' x(2) show "\<exists>k p'. original_key N depth path q = Ok (k, p') \<and> base_states p p' \<and> kn_path (kn k) = path \<and>
      (\<forall>n. name = Some n \<longrightarrow> get_value k n \<noteq> None)"
    by (auto simp: original_key_def base_states_def found_as_def same_key_def)
qed

section \<open>Properties\<close>

text \<open>
  C10: the comparison of two hives that are trees returns a result: the items of the second hive that the
  first has not are exactly the added ones, in the order of the iteration; those that it has with
  another hash are exactly the modified ones, each with a key of the same path (a value of the same
  name up to case) of the first hive; the items of the first hive that the second has not are
  exactly the deleted ones, in some order.
\<close>

theorem hives_compared:
  assumes "hash_map_order N" and "nom_spec N" and "plain_hive N d p1 t1" and "plain_hive N d p2 t2"
    and "d + length (preorder_of t1) \<le> depth" and "length (preorder_of t1) < fuel" and "length (preorder_of t2) < fuel"
  shows "\<exists>c d. compare_parsers N depth fuel None p1 (Ok p2) = Ok (c, d) \<and>
    keys_added c = keys_of (not_in (named (preorder_of t1)) (hive_items (preorder_of t2))) \<and>
    values_added c = values_of (not_in (named (preorder_of t1)) (hive_items (preorder_of t2))) \<and>
    map snd (keys_modified c) = keys_of (other_hash (named (preorder_of t1)) (hive_items (preorder_of t2))) \<and>
    map (\<lambda>x. (fst x, snd (snd x))) (values_modified c) = values_of (other_hash (named (preorder_of t1)) (hive_items (preorder_of t2))) \<and>
    same_paths c \<and>
    mset (map (\<lambda>k. kn_path (kn k)) (keys_deleted d)) =
      mset (map (\<lambda>k. kn_path (kn k)) (keys_of (not_in (named (preorder_of t2)) (hive_items (preorder_of t1))))) \<and>
    same_items (values_deleted d) (values_of (not_in (named (preorder_of t2)) (hive_items (preorder_of t1))))"
proof -
  have "preorder_of t1 \<noteq> []" by (cases t1) simp
  then have "Suc d \<le> d + length (preorder_of t1)" by (cases "preorder_of t1") simp_all
  then have "Suc d \<le> depth" using assms(5) by simp
  then show ?thesis
    by (intro comparison_divides_items [OF assms(1) plain_hive_walk [OF assms(3) _ assms(6)] plain_hive_walk [OF assms(4) _ assms(7)]
          plain_hive_items [OF assms(3)] plain_hive_items [OF assms(4)] plain_hive_finds [OF assms(2,3,5)]])
      (simp_all add: base_states_def exI [of _ "p_state p1"])
qed

section \<open>Witnesses\<close>

interpretation ref_compare_list: nom_list_spec env_compare_ref
  by unfold_locales (simp_all add: compare_ref_defs)

text \<open>The hive of two keys, and a hive whose root is the lower of them.\<close>

definition leaf_parser :: "BaseBlock \<Rightarrow> CellKeyNode \<Rightarrow> Parser" where
  "leaf_parser bb k = (two_parser bb k)\<lparr>p_base_block := Some (bb\<lparr>base := (base bb)\<lparr>root_cell_offset_relative := 12\<rparr>\<rparr>)\<rparr>"

lemma no_items_default: "no_items State_default"
  by (simp add: no_items_def State_default_def)

lemma two_hive:
  assumes "nom_list_spec N"
  shows "\<exists>d root r k. plain_hive N d (two_parser bb root) (KTree r [KTree k []]) \<and> kn_sub_values (kn r) = [] \<and> kn_sub_values (kn k) = [] \<and>
    kn_path (kn r) = bs_path [''r''] \<and> kn_path (kn k) = bs_path [''r'', ''a''] \<and> kn_key_name (kn k) = ''a''"
proof -
  from two_tree [OF assms, of bb True] obtain d root r k where
    "\<And>f x. get_root_key N (Suc f) (two_parser bb x) = Ok (Some root, two_parser bb x)"
    "key_tree N (Suc d) two_file State_default True root (KTree r [KTree k []])" "kn_key_name (kn root) = ''r''"
    "kn_key_name (kn k) = ''a''" "key_offset r = 100" "key_offset k = 12" "kn_sub_values (kn r) = []" "kn_sub_values (kn k) = []"
    "kn_path (kn r) = bs_path [''r'']" "kn_path (kn k) = bs_path [''r'', ''a'']"
    by blast
  then show ?thesis
    by (intro exI [of _ d] exI [of _ root] exI [of _ r] exI [of _ k])
      (simp add: plain_hive_def two_parser_def two_file_def no_items_default plain_def backslash_def)
qed

lemma leaf_hive:
  assumes "nom_spec N"
  shows "\<exists>k. plain_hive N d (leaf_parser bb k) (KTree k []) \<and> kn_sub_values (kn k) = [] \<and> kn_path (kn k) = bs_path [''a'']"
proof -
  obtain k where k: "key_cell N two_file State_default 12 [] = Ok k" "with_values N two_file State_default k = Ok k"
    "kn_key_name (kn k) = ''a''" "field_value (knd_number_of_sub_keys (kn_detail (kn k))) = 0"
    using two_file_keys(1) [OF assms] by blast
  note fresh = key_cell_fresh [OF k(1), unfolded fresh_key_def]
  have "key_tree N (Suc d) two_file State_default True k (KTree (set_to_return (length ([] :: CellKeyNode list)) k) [])"
    by (rule key_tree.node) (use fresh k in \<open>simp_all add: sub_keys_of_def\<close>)
  then have "key_tree N (Suc d) two_file State_default True k (KTree k [])" using fresh by (simp add: set_to_return_0)
  moreover have "get_root_key N (Suc 0) (leaf_parser bb k) = Ok (Some k, leaf_parser bb k)"
    using k(1,2) unfiltered_read [OF no_items_default, of None N 0 two_file 12 "[]" True True]
    by (simp add: get_root_key_def leaf_parser_def two_parser_def usize_of_i32_def two_file_def)
  ultimately show ?thesis
    using fresh k(3)
    by (intro exI [of _ k]) (simp add: plain_hive_def leaf_parser_def two_parser_def two_file_def no_items_default plain_def backslash_def)
qed

theorem hives_compared_witness:
  "\<forall>bb. \<exists>depth fuel p1 p2 c d. compare_parsers env_compare_ref depth fuel None p1 (Ok p2) = Ok (c, d) \<and>
     map (\<lambda>k. kn_path (kn k)) (keys_added c) = [bs_path [''a'']] \<and>
     mset (map (\<lambda>k. kn_path (kn k)) (keys_deleted d)) = {#bs_path [''r''], bs_path [''r'', ''a'']#}"
proof
  fix bb
  obtain d root r k where two: "plain_hive env_compare_ref d (two_parser bb root) (KTree r [KTree k []])"
    and rk: "kn_sub_values (kn r) = []" "kn_sub_values (kn k) = []" "kn_path (kn r) = bs_path [''r'']" "kn_path (kn k) = bs_path [''r'', ''a'']"
    using two_hive [OF ref_compare_list.nom_list_spec_axioms] by blast
  obtain l where leaf: "plain_hive env_compare_ref d (leaf_parser bb l) (KTree l [])"
    and l: "kn_sub_values (kn l) = []" "kn_path (kn l) = bs_path [''a'']"
    using leaf_hive [OF ref_compare_nom.nom_spec_axioms] by blast
  have items: "hive_items (preorder_of (KTree r [KTree k []])) = [(r, None), (k, None)]" "hive_items (preorder_of (KTree l [])) = [(l, None)]"
    by (simp_all add: hive_items_def key_items_def rk(1,2) l(1))
  have a: "keys_of (not_in (named (preorder_of (KTree r [KTree k []]))) (hive_items (preorder_of (KTree l [])))) = [l]"
    "keys_of (not_in (named (preorder_of (KTree l []))) (hive_items (preorder_of (KTree r [KTree k []])))) = [r, k]"
    unfolding named_def items by (simp_all add: not_in_def item_name_def rk(3,4) l(2) backslash_def)
  from hives_compared [OF ref_order.hash_map_order_axioms ref_compare_nom.nom_spec_axioms two leaf order_refl, of 3]
  obtain c e where "compare_parsers env_compare_ref (d + length (preorder_of (KTree r [KTree k []]))) 3 None (two_parser bb root)
      (Ok (leaf_parser bb l)) = Ok (c, e)" "keys_added c = [l]"
    "mset (map (\<lambda>k. kn_path (kn k)) (keys_deleted e)) = mset (map (\<lambda>k. kn_path (kn k)) [r, k])"
    unfolding a by (auto simp: numeral_3_eq_3)
  then show "\<exists>depth fuel p1 p2 c d. compare_parsers env_compare_ref depth fuel None p1 (Ok p2) = Ok (c, d) \<and>
     map (\<lambda>k. kn_path (kn k)) (keys_added c) = [bs_path [''a'']] \<and>
     mset (map (\<lambda>k. kn_path (kn k)) (keys_deleted d)) = {#bs_path [''r''], bs_path [''r'', ''a'']#}"
    using rk(3,4) l(2)
    by (intro exI [of _ "d + length (preorder_of (KTree r [KTree k []]))"] exI [of _ 3] exI [of _ "two_parser bb root"]
        exI [of _ "leaf_parser bb l"] exI [of _ c] exI [of _ e]) simp
qed

end
