(* ===== verification/Python_Facts.thy ===== *)
theory Python_Facts
  imports Python_Bindings Compare_Trees
begin

text \<open>
  What a Python program gets from the bindings: contents of the type that the data type of a value
  asks for, the date of a key rounded to microseconds, the keys of the hive in the order of the crate's
  own iteration, and keys by their paths.
\<close>

section \<open>The libraries\<close>

text \<open>
  A date of \<open>chrono\<close> is its nanoseconds since 1970: the seconds are rounded down and the nanoseconds within
  the second count up; seconds and nanoseconds give a date back, within a quarter of a million years.
\<close>

locale chrono_spec =
  fixes N :: "'z env_py_scheme"
  assumes timestamp: "dt_timestamp N date = date div 1000000000"
    and subsec_nanos: "dt_subsec_nanos N date = word_of_int (date mod 1000000000)"
    and subsec_micros: "dt_subsec_micros N date = word_of_int (date mod 1000000000 div 1000)"
    and from_timestamp: "\<bar>secs\<bar> < 8000000000000 \<Longrightarrow> uint nanos < 1000000000 \<Longrightarrow>
      dt_from_timestamp_opt N secs nanos = Some (secs * 1000000000 + uint nanos)"

text \<open>Python has memory for the objects of the module, and its own dates reach from year 1 to year 9999.\<close>

locale python_spec = chrono_spec +
  assumes alloc: "py_alloc N c = None"
    and datetime: "- 62135596800000000000 \<le> date \<Longrightarrow> date < 253402300800000000000 \<Longrightarrow>
      py_datetime_new N (datetime_of N date) = None"

section \<open>Dates\<close>

text \<open>The nearest number of microseconds, read off the digit of the hundreds; five goes to the even one.\<close>

definition micros_near :: "int \<Rightarrow> int" where
  "micros_near n =
     (let q = n div 1000; h = n mod 1000 div 100 in
      if h > 5 then q + 1 else if h < 5 then q else q + q mod 2)"

lemma digit_div: "0 < b \<Longrightarrow> a mod (b * c) div b = a div b mod c"
  for a b c :: nat
  by (simp add: mod_mult2_eq)

lemma micros_near_digits:
  fixes n :: nat
  defines "q \<equiv> n div 1000" and "h \<equiv> n mod 1000 div 100"
  shows "int (let e = n mod 10000 div 1000; m = n div 10000 * 10 in
    if h > 5 then m + (e + 1) else if h < 5 then m + e else m + (e + e mod 2)) = micros_near (int n)"
proof -
  have e: "n mod 10000 div 1000 = q mod 10" "n div 10000 = q div 10"
    using digit_div [of 1000 n 10] div_mult2_eq [of n 1000 10] unfolding q_def by simp_all
  have q: "q div 10 * 10 + q mod 10 = q" by (rule div_mult_mod_eq)
  have "q mod 10 mod 2 = q mod 2" by (rule mod_mod_cancel) simp
  moreover have "int n div 1000 = int q" "int n mod 1000 div 100 = int h" "int q mod 2 = int (q mod 2)"
    unfolding q_def h_def by (simp_all only: zdiv_int zmod_int of_nat_numeral)
  ultimately show ?thesis
    unfolding micros_near_def e Let_def using q by (simp only: flip: add.assoc) simp
qed

lemma micros_near_bound:
  assumes "0 \<le> n" and "n < 1000000000"
  shows "0 \<le> micros_near n" and "micros_near n \<le> 1000000"
proof -
  have "n div 1000 \<le> 999999999 div 1000" using assms(2) by (intro zdiv_mono1) simp_all
  then have "n div 1000 \<le> 999999" by simp
  moreover have "0 \<le> n div 1000" using assms(1) by (simp add: pos_imp_zdiv_nonneg_iff)
  moreover have "0 \<le> n div 1000 mod 2" "n div 1000 mod 2 \<le> 1" by simp_all
  ultimately show "0 \<le> micros_near n" "micros_near n \<le> 1000000" unfolding micros_near_def Let_def by (auto simp del: mod_div_trivial)
qed

lemma unat_plus_small: "unat x + unat y < 2 ^ 32 \<Longrightarrow> unat (x + y) = unat x + unat y"
  for x y :: u32
  by (simp add: unat_word_ariths)

lemma nanos_to_micros:
  assumes "uint n < 1000000000"
  shows "uint (nanos_to_micros_round_half_even n) = micros_near (uint n)"
proof -
  have n: "unat n < 1000000000" using assms by (simp only: uint_nat)
  define h e t where w: "h = n mod 1000 div 100" "e = n mod 10000 div 1000" "t = n div 10000"
  have u: "unat h = unat n mod 1000 div 100" "unat e = unat n mod 10000 div 1000" "unat t = unat n div 10000"
    unfolding w by (simp_all only: unat_div unat_mod) simp_all
  have "unat n div 10000 \<le> 999999999 div 10000" using n by (intro div_le_mono) simp
  then have t: "unat t \<le> 99999" by (simp add: u)
  have "unat n mod 10000 div 1000 < 10" by (intro less_mult_imp_div_less) simp
  then have e: "unat e < 10" by (simp only: u)
  have "unat (t * 10) = unat t * 10" using t by (simp add: unat_word_ariths)
  moreover have "unat (e + 1) = unat e + 1" "unat (e mod 2) = unat e mod 2" "unat (e + e mod 2) = unat e + unat e mod 2"
    using e by (simp_all add: unat_word_ariths unat_mod)
  ultimately have "unat (nanos_to_micros_round_half_even n) =
      (if unat h > 5 then unat t * 10 + (unat e + 1) else if unat h < 5 then unat t * 10 + unat e else unat t * 10 + (unat e + unat e mod 2))"
    unfolding nanos_to_micros_round_half_even_def w [symmetric] Let_def using t e
    by (simp add: unat_plus_small word_less_nat_alt)
  then show ?thesis
    using micros_near_digits [of "unat n"] unfolding Let_def u by (simp only: uint_nat)
qed

text \<open>The date on the whole microsecond.\<close>

definition rounded :: "DateTime \<Rightarrow> DateTime" where
  "rounded date = 1000 * micros_near date"

text \<open>A date and a rounding of it to microseconds: the nearest one, and the even one of two.\<close>

definition half_even :: "DateTime \<Rightarrow> DateTime \<Rightarrow> bool" where
  "half_even date r \<longleftrightarrow> \<bar>r - date\<bar> \<le> 500 \<and> (\<bar>r - date\<bar> = 500 \<longrightarrow> even (r div 1000))"

lemma micros_near_split: "micros_near (s * 1000000000 + n) = s * 1000000 + micros_near n"
proof -
  have s: "s * 1000000000 + n = n + s * 1000000 * 1000" by simp
  have "(n + s * 1000000 * 1000) div 1000 = s * 1000000 + n div 1000" "(n + s * 1000000 * 1000) mod 1000 = n mod 1000"
    by (simp_all only: div_mult_self1 mod_mult_self1)
  moreover have "(s * 1000000 + x) mod 2 = x mod 2" for x :: int
    using mod_mult_self1 [of x "s * 500000" 2] by (simp add: ac_simps)
  ultimately show ?thesis unfolding micros_near_def s Let_def by simp
qed

lemma rounded_near: "\<bar>rounded date - date\<bar> < 600"
  and rounded_half_even: "100 dvd date \<Longrightarrow> half_even date (rounded date)"
proof -
  define q r where qr: "q = date div 1000" "r = date mod 1000"
  have d: "date = 1000 * q + r" and r: "0 \<le> r" "r < 1000" by (simp_all add: qr)
  define b where "b = q mod 2"
  then have m: "micros_near date = (if r div 100 > 5 then q + 1 else if r div 100 < 5 then q else q + b)"
    by (simp add: micros_near_def Let_def qr)
  have b: "b = 0 \<or> b = 1" unfolding b_def by presburger
  show "\<bar>rounded date - date\<bar> < 600" unfolding rounded_def m using r b by (auto simp: d)
  have e: "even (q + b)" unfolding b_def by presburger
  assume "100 dvd date"
  then have "100 dvd r" unfolding qr by (simp add: dvd_mod)
  then obtain c where c: "r = 100 * c" ..
  show "half_even date (rounded date)" unfolding half_even_def rounded_def m using r b e by (auto simp: d c)
qed

text \<open>What the crate gives as a date fits into 64 bits.\<close>

lemma written_date_range: "\<bar>last_key_written_date_and_time k\<bar> \<le> 9223372036854775808"
proof -
  have "- (2 ^ 63) \<le> sint w" "sint w < 2 ^ 63" for w :: u64
    using sint_greater_eq [of w] sint_less [of w] by simp_all
  then show ?thesis
    unfolding last_key_written_date_and_time_def get_date_time_from_filetime_def Let_def by (simp add: abs_le_iff) (smt (verit))
qed

context chrono_spec
begin

lemma split_date:
  "date_splitter N date = (micros_near date div 1000000, word_of_int (micros_near date mod 1000000))"
proof -
  define s n where sn: "s = date div 1000000000" "n = date mod 1000000000"
  have n: "0 \<le> n" "n < 1000000000" by (simp_all add: sn)
  have d: "date = s * 1000000000 + n" unfolding sn by simp
  have un: "uint (word_of_int n :: u32) = n" using n by (simp add: uint_word_of_int_eq take_bit_eq_mod)
  define w where "w = nanos_to_micros_round_half_even (word_of_int n)"
  have w: "uint w = micros_near n" using nanos_to_micros [of "word_of_int n"] n un by (simp add: w_def)
  have "uint (w mod 1000000) = micros_near n mod 1000000" by (simp add: uint_mod flip: w)
  then have "w mod 1000000 = word_of_int (micros_near n mod 1000000)" by (metis word_of_int_uint)
  moreover have "uint (w div 1000000) = micros_near n div 1000000" by (simp add: uint_div flip: w)
  moreover have "micros_near date = s * 1000000 + micros_near n" unfolding d by (rule micros_near_split)
  ultimately show ?thesis
    unfolding date_splitter_def Let_def timestamp subsec_nanos sn [symmetric] w_def [symmetric] by simp
qed

lemma round_date:
  assumes "\<bar>date\<bar> \<le> 9223372036854775808"
  shows "round_to_usec_half_even N date = Ok (rounded date)"
proof -
  define m where "m = micros_near date"
  have "\<bar>1000 * m\<bar> \<le> 9223372036854775808 + 600" using rounded_near [of date] assms by (simp add: rounded_def m_def)
  then have "- 9300000000 * 1000000 \<le> m" "m \<le> 9300000000 * 1000000" by (simp_all add: abs_le_iff)
  then have "- 9300000000 * 1000000 div 1000000 \<le> m div 1000000" "m div 1000000 \<le> 9300000000 * 1000000 div 1000000"
    by (simp_all only: zdiv_mono1 zero_less_numeral)
  then have s: "\<bar>m div 1000000\<bar> < 8000000000000" by simp
  have r: "0 \<le> m mod 1000000" "m mod 1000000 < 1000000" by simp_all
  then have "uint (word_of_int (m mod 1000000) * 1000 :: u32) = m mod 1000000 * 1000"
    by (simp add: uint_word_ariths uint_word_of_int_eq take_bit_eq_mod)
  moreover have "m div 1000000 * 1000000000 + m mod 1000000 * 1000 = 1000 * m" using div_mult_mod_eq [of m 1000000] by linarith
  ultimately have "dt_from_timestamp_opt N (m div 1000000) (word_of_int (m mod 1000000) * 1000) = Some (1000 * m)"
    using from_timestamp [OF s, of "word_of_int (m mod 1000000) * 1000"] r by (simp only:)
  then show ?thesis by (simp add: round_to_usec_half_even_def split_date m_def rounded_def)
qed

lemma date_to_pyobject_rounded:
  assumes "\<bar>date\<bar> \<le> 9223372036854775808"
  shows "date_to_pyobject N date =
    (case py_datetime_new N (datetime_of N (rounded date)) of None \<Rightarrow> Ok (datetime_of N (rounded date)) | Some e \<Rightarrow> Err e)"
  by (simp add: date_to_pyobject_def round_date [OF assms] Let_def)

end

section \<open>Keys and values as objects\<close>

definition key_object :: "'z env_py_scheme \<Rightarrow> CellKeyNode \<Rightarrow> PyNotatinKey" where
  "key_object N k =
     \<lparr>pk_inner = k, pk_last_key_written_date_and_time = datetime_of N (rounded (last_key_written_date_and_time k))\<rparr>"

context python_spec
begin

lemma Py_new_Ok [simp]: "Py_new N c x = Ok x"
  by (simp add: Py_new_def alloc)

lemma key_from_node [simp]: "PyNotatinKey_from_cell_key_node N k = Ok (key_object N k)"
proof -
  let ?d = "last_key_written_date_and_time k"
  have "\<bar>rounded ?d\<bar> \<le> 9223372036854775808 + 600" using rounded_near [of ?d] written_date_range [of k] by linarith
  then have "py_datetime_new N (datetime_of N (rounded ?d)) = None" by (intro datetime) (simp_all add: abs_le_iff)
  then show ?thesis
    by (simp add: PyNotatinKey_from_cell_key_node_def date_to_pyobject_rounded [OF written_date_range] key_object_def)
qed

lemma objects_made [simp]:
  "key_made N k = Ok (Some (key_object N k))" "reg_key_to_pyobject N k = Ok (PyKey (key_object N k))"
  "reg_value_to_pyobject N v = Ok (PyValue \<lparr>pv_inner = v\<rparr>)"
  by (simp_all add: key_made_def reg_key_to_pyobject_def reg_value_to_pyobject_def PyNotatinValue_from_cell_key_value_def)

end

section \<open>Loops in Python\<close>

text \<open>The objects that a \<open>for\<close> loop of Python goes through: those that \<open>__next__\<close> returns before it returns nothing.\<close>

primrec py_list :: "(nat \<Rightarrow> 's \<Rightarrow> ('k option \<times> 's) py_result) \<Rightarrow> nat \<Rightarrow> 's \<Rightarrow> 'k list py_result" where
  "py_list nxt 0 s = Diverge"
| "py_list nxt (Suc fuel) s =
     bindO (nxt (Suc fuel) s) (\<lambda>(item, s).
       case item of
         None \<Rightarrow> Ok []
       | Some k \<Rightarrow> bindO (py_list nxt fuel s) (\<lambda>ks. Ok (k # ks)))"

lemma infallible_bind: "infallible (bindO x f) = bindO (infallible x) (\<lambda>a. infallible (f a))"
  by (cases x) simp_all

context python_spec
begin

lemma keys_collected:
  "py_list (keys_py_next N depth) fuel \<lparr>ki_inner = p, ki_iterator_context = ctx\<rparr> =
   bindO (infallible (collect_iter (\<lambda>n. next_key_preorder N depth n (p_file_info p)) fuel ctx))
     (\<lambda>ks. Ok (map (\<lambda>k. PyKey (key_object N k)) ks))"
proof (induction fuel arbitrary: ctx)
  case (Suc fuel)
  show ?case
  proof (cases "next_key_preorder N depth (Suc fuel) (p_file_info p) ctx")
    case (Ok r)
    obtain key ctx' where r: "r = (key, ctx')" by (cases r)
    show ?thesis
    proof (cases key)
      case (Some k)
      then show ?thesis
        using Suc.IH [of ctx'] Ok r
        by (simp add: keys_py_next_def keys_next_def infallible_bind bindO_assoc del: next_key_preorder.simps)
    qed (use Ok r in \<open>simp add: keys_py_next_def keys_next_def del: next_key_preorder.simps\<close>)
  qed (simp_all add: keys_py_next_def keys_next_def del: next_key_preorder.simps)
qed simp

end

text \<open>
  An iterator over a list: \<open>items\<close> is what it still has, and each call takes the first of them.
\<close>

locale list_iterator =
  fixes nxt :: "'s \<Rightarrow> ('k option \<times> 's) py_result" and items :: "'s \<Rightarrow> 'k list"
  assumes at_end: "items s = [] \<Longrightarrow> nxt s = Ok (None, s)"
    and step: "items s = x # xs \<Longrightarrow> \<exists>s'. nxt s = Ok (Some x, s') \<and> items s' = xs"
begin

lemma listed: "length (items s) < fuel \<Longrightarrow> py_list (\<lambda>_. nxt) fuel s = Ok (items s)"
proof (induction fuel arbitrary: s)
  case (Suc fuel)
  show ?case
  proof (cases "items s")
    case (Cons x xs)
    then obtain s' where "nxt s = Ok (Some x, s')" "items s' = xs" using step by blast
    with Suc.IH [of s'] Suc.prems Cons show ?thesis by simp
  qed (simp add: at_end)
qed simp

end

lemma drop_step: "map f (drop i xs) = y # ys \<Longrightarrow> i < length xs \<and> f (xs ! i) = y \<and> map f (drop (Suc i) xs) = ys"
  by (cases "i < length xs") (auto simp: Cons_nth_drop_Suc [symmetric])

sublocale python_spec \<subseteq> values_of_key: list_iterator "values_py_next N"
  "\<lambda>it. map (\<lambda>v. PyValue \<lparr>pv_inner = v\<rparr>) (drop (vi_sub_values_iter_index it) (kn_sub_values (kn (vi_inner it))))"
  by unfold_locales (auto simp: values_py_next_def values_next_def next_value_def dest!: drop_step)

sublocale python_spec \<subseteq> sub_keys_of_key: list_iterator "sub_keys_py_next N"
  "\<lambda>it. map (\<lambda>k. PyKey (key_object N k)) (drop (ski_index it) (ski_sub_keys it))"
  by unfold_locales (auto simp: sub_keys_py_next_def sub_keys_next_def vec_get_def dest!: drop_step)

sublocale python_spec \<subseteq> versions_of_value: list_iterator "versions_py_next N"
  "\<lambda>it. map (\<lambda>v. PyValue \<lparr>pv_inner = v\<rparr>) (drop (vv_index it) (vv_versions it))"
  by unfold_locales (auto simp: versions_py_next_def versions_next_def vec_get_def dest!: drop_step)

context python_spec
begin

lemma values_listed:
  "length (kn_sub_values (kn (pk_inner key))) < fuel \<Longrightarrow>
   bindO (PyNotatinKey_values N key) (py_list (\<lambda>_. values_py_next N) fuel) =
     Ok (map (\<lambda>v. PyValue \<lparr>pv_inner = v\<rparr>) (kn_sub_values (kn (pk_inner key))))"
  using values_of_key.listed [of "\<lparr>vi_inner = pk_inner key, vi_sub_values_iter_index = 0\<rparr>" fuel]
  by (simp add: PyNotatinKey_values_def reg_values_iterator_def)

lemma sub_keys_listed:
  "read_sub_keys N depth (p_file_info p) (p_state p) (init_sub_key_iter (pk_inner key)) = Ok (ks, k', st) \<Longrightarrow> length ks < fuel \<Longrightarrow>
   bindO (PyNotatinKey_subkeys N depth \<lparr>pn_inner = Some p\<rparr> key) (\<lambda>(it, _). py_list (\<lambda>_. sub_keys_py_next N) fuel it) =
     Ok (map (\<lambda>k. PyKey (key_object N k)) ks)"
  using sub_keys_of_key.listed [of "\<lparr>ski_index = 0, ski_sub_keys = ks\<rparr>" fuel]
  by (simp add: PyNotatinKey_subkeys_def sub_keys_iterator_def Let_def)

lemma versions_listed:
  "length (kv_versions (pv_inner v)) < fuel \<Longrightarrow>
   bindO (PyNotatinValue_versions N v) (py_list (\<lambda>_. versions_py_next N) fuel) =
     Ok (map (\<lambda>v. PyValue \<lparr>pv_inner = v\<rparr>) (kv_versions (pv_inner v)))"
  using versions_of_value.listed [of "\<lparr>vv_index = 0, vv_versions = kv_versions (pv_inner v)\<rparr>" fuel]
  by (simp add: PyNotatinValue_versions_def versions_iterator_def)

end

section \<open>Contents\<close>

text \<open>The data types that are numbers, with the bytes they take and the numbers they can be.\<close>

definition number_type :: "CellKeyValueDataTypes \<Rightarrow> (nat \<times> int \<times> int) option" where
  "number_type ty =
     (if ty \<in> {REG_COMPOSITE_UINT8, REG_COMPOSITE_BOOLEAN} then Some (1, 0, 2 ^ 8)
      else if ty = REG_COMPOSITE_INT16 then Some (2, - (2 ^ 15), 2 ^ 15)
      else if ty = REG_COMPOSITE_UINT16 then Some (2, 0, 2 ^ 16)
      else if ty \<in> {REG_DWORD, REG_COMPOSITE_UINT32, REG_DWORD_BIG_ENDIAN} then Some (4, 0, 2 ^ 32)
      else if ty = REG_COMPOSITE_INT32 then Some (4, - (2 ^ 31), 2 ^ 31)
      else if ty = REG_COMPOSITE_INT64 then Some (8, - (2 ^ 63), 2 ^ 63)
      else if ty \<in> {REG_QWORD, REG_COMPOSITE_UINT64, REG_FILETIME} then Some (8, 0, 2 ^ 64)
      else None)"

text \<open>The object that a program may expect for a data type and the bytes of a value.\<close>

definition int_or_bytes :: "nat \<Rightarrow> int \<Rightarrow> int \<Rightarrow> bytes \<Rightarrow> py_object \<Rightarrow> bool" where
  "int_or_bytes n lo hi b obj \<longleftrightarrow> (if n \<le> length b then \<exists>i. obj = PyInt i \<and> lo \<le> i \<and> i < hi else obj = PyBytes b)"

definition content_typed :: "CellKeyValueDataTypes \<Rightarrow> bytes \<Rightarrow> py_object \<Rightarrow> bool" where
  "content_typed ty b obj \<longleftrightarrow>
     (case number_type ty of
        Some (n, lo, hi) \<Rightarrow> int_or_bytes n lo hi b obj
      | None \<Rightarrow>
          if ty \<in> {REG_SZ, REG_EXPAND_SZ, REG_LINK} then \<exists>s. obj = PyStr s
          else if ty = REG_MULTI_SZ then \<exists>ss. obj = PyStrList ss
          else obj = PyBytes b)"

definition content_gives :: "(CellValue \<times> Logs) result \<Rightarrow> (py_object \<Rightarrow> bool) \<Rightarrow> bool" where
  "content_gives r P \<longleftrightarrow> (\<exists>c l. r = Ok (c, l) \<and> (\<exists>obj. prepare_content c = Some obj \<and> P obj))"

lemma number_content_typed:
  assumes "\<And>v. length v = n \<Longrightarrow> \<exists>i. prepare_content (conv v) = Some (PyInt i) \<and> lo \<le> i \<and> i < hi"
  shows "content_gives (number_content n conv b logs) (int_or_bytes n lo hi b)"
  using assms [of "take n b"] by (auto simp: content_gives_def number_content_def get_range_def handle_invalid_input_def int_or_bytes_def)

lemma number_bounds:
  "\<exists>i. prepare_content (CV_U32 (ucast (a :: u8))) = Some (PyInt i) \<and> 0 \<le> i \<and> i < 2 ^ 8"
  "\<exists>i. prepare_content (CV_I32 (scast (c :: u16))) = Some (PyInt i) \<and> - (2 ^ 15) \<le> i \<and> i < 2 ^ 15"
  "\<exists>i. prepare_content (CV_U32 (ucast (c :: u16))) = Some (PyInt i) \<and> 0 \<le> i \<and> i < 2 ^ 16"
  "\<exists>i. prepare_content (CV_U32 d) = Some (PyInt i) \<and> 0 \<le> i \<and> i < 2 ^ 32"
  "\<exists>i. prepare_content (CV_I32 d) = Some (PyInt i) \<and> - (2 ^ 31) \<le> i \<and> i < 2 ^ 31"
  "\<exists>i. prepare_content (CV_U64 e) = Some (PyInt i) \<and> 0 \<le> i \<and> i < 2 ^ 64"
  "\<exists>i. prepare_content (CV_I64 e) = Some (PyInt i) \<and> - (2 ^ 63) \<le> i \<and> i < 2 ^ 63"
proof -
  have u: "uint (ucast a :: u32) = uint a" "uint (ucast c :: u32) = uint c" "sint (scast c :: u32) = sint c"
    by (simp_all add: uint_up_ucast sint_up_scast is_up)
  show "\<exists>i. prepare_content (CV_U32 (ucast (a :: u8))) = Some (PyInt i) \<and> 0 \<le> i \<and> i < 2 ^ 8"
    "\<exists>i. prepare_content (CV_I32 (scast (c :: u16))) = Some (PyInt i) \<and> - (2 ^ 15) \<le> i \<and> i < 2 ^ 15"
    "\<exists>i. prepare_content (CV_U32 (ucast (c :: u16))) = Some (PyInt i) \<and> 0 \<le> i \<and> i < 2 ^ 16"
    "\<exists>i. prepare_content (CV_U32 d) = Some (PyInt i) \<and> 0 \<le> i \<and> i < 2 ^ 32"
    "\<exists>i. prepare_content (CV_I32 d) = Some (PyInt i) \<and> - (2 ^ 31) \<le> i \<and> i < 2 ^ 31"
    "\<exists>i. prepare_content (CV_U64 e) = Some (PyInt i) \<and> 0 \<le> i \<and> i < 2 ^ 64"
    "\<exists>i. prepare_content (CV_I64 e) = Some (PyInt i) \<and> - (2 ^ 63) \<le> i \<and> i < 2 ^ 63"
    using uint_lt2p [of a] uint_lt2p [of c] uint_lt2p [of d] uint_lt2p [of e]
      sint_greater_eq [of c] sint_less [of c] sint_greater_eq [of d] sint_less [of d] sint_greater_eq [of e] sint_less [of e]
    by (simp_all add: u)
qed

lemmas number_contents_typed = number_bounds [THEN number_content_typed]

lemma bytes_typed: "content_gives (get_value_content ty (Some b) logs) (content_typed ty b)"
proof (cases "number_type ty")
  case None
  then have n: "ty \<notin> {REG_COMPOSITE_UINT8, REG_COMPOSITE_BOOLEAN, REG_COMPOSITE_INT16, REG_COMPOSITE_UINT16, REG_DWORD, REG_COMPOSITE_UINT32,
      REG_DWORD_BIG_ENDIAN, REG_COMPOSITE_INT32, REG_COMPOSITE_INT64, REG_QWORD, REG_COMPOSITE_UINT64, REG_FILETIME}"
    by (auto simp: number_type_def split: if_splits)
  obtain s l where s: "from_utf16_le_string b (length b) logs ''Get value content'' = Ok (s, l)"
    using utf16_string_total [of "length b" b logs] by blast
  obtain ss l' where ss: "from_utf16_le_strings b (length b) logs ''Get value content'' = Ok (ss, l')"
    using utf16_strings_total [of "length b" b] unfolding from_utf16_le_strings_def by blast
  show ?thesis using n None s ss by (auto simp: content_gives_def get_value_content_def content_typed_def)
next
  case (Some x)
  then have "content_typed ty b = (case x of (n, lo, hi) \<Rightarrow> int_or_bytes n lo hi b)"
    by (simp add: content_typed_def fun_eq_iff split: prod.split)
  with Some show ?thesis
    unfolding number_type_def get_value_content_def
    by (auto simp: number_contents_typed [simplified] split: if_splits)
qed

section \<open>Keys by path\<close>

lemma strip_relative:
  assumes "\<forall>s \<in> set segs. plain s"
  shows "strip_root (join_strings [backslash] segs) False = join_strings [backslash] segs"
proof (cases segs)
  case (Cons s ss)
  then obtain c cs where c: "s = c # cs" "c \<noteq> backslash" using assms by (cases s) (auto simp: plain_def)
  then have "hd (join_strings [backslash] segs) = c" "join_strings [backslash] segs \<noteq> []" unfolding Cons by (cases ss; simp)+
  then show ?thesis using c(2) by (cases "join_strings [backslash] segs") (auto simp: strip_root_def trim_start_char_def)
qed (simp add: strip_root_def trim_start_char_def)

lemma get_key_relative:
  assumes "plain rn" and "\<forall>s \<in> set segs. plain s"
  shows "get_key N fuel (join_strings [backslash] segs) False p = get_key N fuel (bs_path (rn # segs)) True p"
  unfolding get_key_def strip_relative [OF assms(2)] strip_bs_path [OF assms(1)] ..

section \<open>Properties\<close>

text \<open>
  C39: the content that a value has in Python never fails and is absent exactly for a value without data;
  otherwise it has the type that the data type asks for: an integer in the range of the data type,
  a text, a list of texts, or the bytes as they are, also when they are too few for a number.
\<close>

theorem content_has_python_type:
  "\<exists>r. PyNotatinValue_content v = Ok r \<and>
     (case field_value (kvd_value_bytes (kv_detail (kv (pv_inner v)))) of
        None \<Rightarrow> r = None
      | Some b \<Rightarrow> \<exists>obj. r = Some obj \<and> content_typed (kv_data_type (kv (pv_inner v))) b obj)"
proof (cases "field_value (kvd_value_bytes (kv_detail (kv (pv_inner v))))")
  case None
  then show ?thesis by (simp add: PyNotatinValue_content_def CellKeyValue_get_content_def get_value_content_def)
next
  case (Some b)
  from bytes_typed [of "kv_data_type (kv (pv_inner v))" b Logs_default] Some show ?thesis
    by (auto simp: content_gives_def PyNotatinValue_content_def CellKeyValue_get_content_def)
qed

text \<open>
  C13: the date of a key in Python is that of the crate rounded to microseconds, with the parts that
  \<open>chrono\<close> gives it, whatever date the file has: it is less than 600 nanoseconds away; a date of whole
  hundreds of nanoseconds, as a FILETIME has them, goes to the nearest microsecond and to the even one
  of two that are as near.
\<close>

theorem written_date_rounded:
  assumes "chrono_spec N"
  shows "\<exists>r. date_to_pyobject N (last_key_written_date_and_time k) =
      (case py_datetime_new N (datetime_of N r) of None \<Rightarrow> Ok (datetime_of N r) | Some e \<Rightarrow> Err e) \<and>
    py_microsecond (datetime_of N r) = word_of_int (r div 1000 mod 1000000) \<and>
    1000 dvd r \<and> \<bar>r - last_key_written_date_and_time k\<bar> < 600 \<and>
    (100 dvd last_key_written_date_and_time k \<longrightarrow> half_even (last_key_written_date_and_time k) r)"
proof -
  let ?d = "last_key_written_date_and_time k"
  have "1000 * m mod 1000000000 div 1000 = (1000 * m div 1000) mod 1000000" for m :: int
    using mod_mult_mult1 [of 1000 m 1000000] by simp
  then have "py_microsecond (datetime_of N (rounded ?d)) = word_of_int (rounded ?d div 1000 mod 1000000)"
    by (simp add: datetime_of_def chrono_spec.subsec_micros [OF assms] rounded_def)
  then show ?thesis
    using chrono_spec.date_to_pyobject_rounded [OF assms written_date_range, of k] rounded_near [of ?d] rounded_half_even [of ?d]
    by (intro exI [of _ "rounded ?d"]) (simp add: rounded_def)
qed

text \<open>
  C12: a loop in Python over the keys of a parser gets the keys of the crate's own iteration, in its order
  and each with its date, and ends, panics or goes on as it does; the parser is then used up: it gives
  no second iteration and finds no key any more.
\<close>

theorem python_iterates_all_keys:
  assumes "python_spec N"
  shows "\<exists>it. PyNotatinParser_reg_keys N \<lparr>pn_inner = Some p\<rparr> = (Ok it, \<lparr>pn_inner = None\<rparr>) \<and>
    py_list (keys_py_next N depth) fuel it =
      bindO (infallible (iter_all N depth fuel (ParserIterator_new p))) (\<lambda>ks. Ok (map (\<lambda>k. PyKey (key_object N k)) ks)) \<and>
    fst (PyNotatinParser_reg_keys N \<lparr>pn_inner = None\<rparr>) = Err (PyRuntimeError ''PyNotatinParser can only be used once'') \<and>
    PyNotatinParser_open N depth path \<lparr>pn_inner = None\<rparr> = Ok (None, \<lparr>pn_inner = None\<rparr>)"
proof -
  note new = python_spec.Py_new_Ok [OF assms]
  have "iter_all N depth fuel (ParserIterator_new p) =
      collect_iter (\<lambda>n. next_key_preorder N depth n (p_file_info p)) fuel (ParserIteratorContext_from_parser p True None)"
    unfolding iter_all_def ParserIterator_new_def by (subst collect_context) simp_all
  then show ?thesis
    using python_spec.keys_collected [OF assms, of depth fuel p "ParserIteratorContext_from_parser p True None"]
    by (simp add: PyNotatinParser_reg_keys_def reg_keys_iterator_def Let_def new PyNotatinParser_open_def key_for_def)
qed

text \<open>
  C40: opening a key in Python by its path below the root is the lookup of the names in the tree of keys:
  the key comes with its values and its date, there is none exactly when no key has the names, and
  the parser stays as it is but for the note of where the root name ends.
\<close>

theorem python_opens_keys:
  assumes "python_spec N" and "nom_spec N" and "plain_hive N d p t" and "\<forall>s \<in> set segs. plain s" and "Suc d + length segs \<le> depth"
  shows "\<exists>r q. PyNotatinParser_open N depth (join_strings [backslash] segs) \<lparr>pn_inner = Some p\<rparr> = Ok (r, \<lparr>pn_inner = Some q\<rparr>) \<and>
    rel_option (\<lambda>k key. \<exists>k'. found_as k k' \<and> key = key_object N k') (lookup segs t) r \<and>
    same_but_root (p_state p) (p_state q) \<and> q = p\<lparr>p_state := p_state q\<rparr>"
proof -
  obtain root where r: "plain (kn_key_name (kn root))" "key_tree N (Suc d) (p_file_info p) (p_state p) True root t"
    "\<forall>f. get_root_key N (Suc f) p = Ok (Some root, p)"
    using plain_hive_root [OF assms(3)] by blast
  obtain f where f: "depth = Suc f" using assms(5) by (cases depth) auto
  have h: "no_items (p_state p)" "hbin_offset_absolute (p_file_info p) < 2 ^ 63" "names_plain t"
    using assms(3) by (simp_all only: plain_hive_def)
  have p: "p\<lparr>p_state := p_state p\<rparr> = p" by simp
  from get_key_state [OF assms(2) h(2,1) _ r(2) h(3) r(1) assms(4,5) same_but_root_refl, of p, unfolded p]
  obtain o' st where g: "get_key N depth (join_strings [backslash] segs) False p = Ok (o', p\<lparr>p_state := st\<rparr>)"
    and o': "rel_option found_as (lookup segs t) o'" "same_but_root (p_state p) st"
    using r(3) unfolding get_key_relative [OF r(1) assms(4)] f by blast
  then show ?thesis
    by (cases o'; cases "lookup segs t")
      (auto simp: PyNotatinParser_open_def key_for_def python_spec.objects_made [OF assms(1)])
qed

text \<open>
  The loops of Python over the values of a key, over its sub keys and over the versions of a value get
  all of them, once and in their order; the sub keys are those that the crate reads.
\<close>

theorem python_lists_parts:
  assumes "python_spec N" and "read_sub_keys N depth (p_file_info p) (p_state p) (init_sub_key_iter (pk_inner key)) = Ok (ks, k', st)"
    and "length (kn_sub_values (kn (pk_inner key))) < fuel" and "length ks < fuel" and "length (kv_versions (pv_inner v)) < fuel"
  shows "bindO (PyNotatinKey_values N key) (py_list (\<lambda>_. values_py_next N) fuel) =
      Ok (map (\<lambda>v. PyValue \<lparr>pv_inner = v\<rparr>) (kn_sub_values (kn (pk_inner key)))) \<and>
    bindO (PyNotatinKey_subkeys N depth \<lparr>pn_inner = Some p\<rparr> key) (\<lambda>(it, _). py_list (\<lambda>_. sub_keys_py_next N) fuel it) =
      Ok (map (\<lambda>k. PyKey (key_object N k)) ks) \<and>
    bindO (PyNotatinValue_versions N v) (py_list (\<lambda>_. versions_py_next N) fuel) =
      Ok (map (\<lambda>v. PyValue \<lparr>pv_inner = v\<rparr>) (kv_versions (pv_inner v)))"
  using python_spec.values_listed [OF assms(1,3)] python_spec.sub_keys_listed [OF assms(1,2,4)] python_spec.versions_listed [OF assms(1,5)]
  by blast

section \<open>The builder and the warnings\<close>

lemma add_transaction_logs_Ok:
  "mapO (to_read_seek N) logs = Ok readers \<Longrightarrow>
   add_transaction_logs N logs b = Ok (b\<lparr>pf_transaction_logs := pf_transaction_logs b @ readers\<rparr>)"
  by (induction logs arbitrary: b readers) (auto simp: bindO_eq_Ok pf_with_transaction_log_def)

text \<open>A parser is built in Python as in the crate, from the files in the order they were given.\<close>

lemma python_builds_like_crate:
  assumes "to_read_seek N (pnb_primary_file b) = Ok primary" and "mapO (to_read_seek N) (pnb_transaction_logs b) = Ok logs"
  shows "PyNotatinParserBuilder_build N depth fuel b =
    bindO (map_err PyNotatinError (ParserBuilderFromFile_build N depth fuel
      \<lparr>pf_primary = primary, pf_transaction_logs = logs,
       pf_base = ParserBuilderBase_default\<lparr>pb_recover_deleted := pnb_recover_deleted b\<rparr>\<rparr>)) (\<lambda>p. Ok \<lparr>pn_inner = Some p\<rparr>)"
  using assms
  by (simp add: PyNotatinParserBuilder_build_def add_transaction_logs_Ok ParserBuilder_from_file_def pf_recover_deleted_def)

text \<open>The logger hands on warnings and errors, and nothing of a lower level.\<close>

lemma warnings_handed_on:
  "lg_level lg = LevelWarn \<Longrightarrow>
   length (lg_warnings (PyLogger_log r lg)) = length (lg_warnings lg) + (if rec_level r \<in> {LevelError, LevelWarn} then 1 else 0)"
  by (cases "rec_level r") (simp_all add: PyLogger_log_def PyLogger_enabled_def Let_def)

section \<open>Rounding of other dates\<close>

text \<open>
  550 nanoseconds are rounded to no microsecond, although one is nearer: only the digit of the hundreds
  is looked at.
\<close>

lemma rounding_looks_at_one_digit: "nanos_to_micros_round_half_even 550 = 0" "nanos_to_micros_round_half_even 1550 = 2"
  by (simp_all add: nanos_to_micros_round_half_even_def Let_def)

section \<open>Witnesses\<close>

text \<open>The proleptic Gregorian calendar: year, month and day of a day since 1970.\<close>

definition civil :: "int \<Rightarrow> int \<times> int \<times> int" where
  "civil days =
     (let z = days + 719468; era = z div 146097; doe = z mod 146097;
          yoe = (doe - doe div 1460 + doe div 36524 - doe div 146096) div 365;
          doy = doe - (365 * yoe + yoe div 4 - yoe div 100); mp = (5 * doy + 2) div 153;
          m = (if mp < 10 then mp + 3 else mp - 9)
      in (yoe + era * 400 + (if m \<le> 2 then 1 else 0), m, doy - (153 * mp + 2) div 5 + 1))"

definition env_py_ref :: "env_py" where
  "env_py_ref = env_apply.extend env_apply_ref
     \<lparr>dt_timestamp = (\<lambda>d. d div 1000000000), dt_subsec_nanos = (\<lambda>d. word_of_int (d mod 1000000000)),
      dt_subsec_micros = (\<lambda>d. word_of_int (d mod 1000000000 div 1000)),
      dt_from_timestamp_opt = (\<lambda>s n. if \<bar>s\<bar> < 8000000000000 \<and> uint n < 2000000000 then Some (s * 1000000000 + uint n) else None),
      dt_year = (\<lambda>d. fst (civil (d div 86400000000000))),
      dt_month = (\<lambda>d. word_of_int (fst (snd (civil (d div 86400000000000))))),
      dt_day = (\<lambda>d. word_of_int (snd (snd (civil (d div 86400000000000))))),
      dt_hour = (\<lambda>d. word_of_int (d div 3600000000000 mod 24)), dt_minute = (\<lambda>d. word_of_int (d div 60000000000 mod 60)),
      dt_second = (\<lambda>d. word_of_int (d div 1000000000 mod 60)),
      py_alloc = (\<lambda>_. None), py_datetime_new = (\<lambda>_. None), py_add_class = (\<lambda>_. None),
      py_extract_path = (\<lambda>_. None), py_file_like = (\<lambda>_. Inl (PyOtherError [])), py_open = (\<lambda>s. OpenFails s),
      py_has_warnings = True, py_logger_set = False\<rparr>"

lemmas py_ref_defs = env_py_ref_def env_apply_ref_def env_log_ref_def env_list_ref_def env_cell_ref_def env_ref_def
  env.defs env_cell.defs env_list.defs env_log.defs env_apply.defs

interpretation ref_python: python_spec env_py_ref
  by unfold_locales (simp_all add: py_ref_defs)

interpretation ref_py_nom: nom_list_spec env_py_ref
  by unfold_locales (simp_all add: py_ref_defs)

text \<open>A key written 2500 nanoseconds after the start of 1970, which is halfway between two microseconds.\<close>

definition half_key :: CellKeyNode where
  "half_key = kn_update (\<lambda>c. c\<lparr>kn_detail := (kn_detail c)\<lparr>knd_last_key_written_date_and_time :=
     Field_init False (116444736000000000 + 25)\<rparr>\<rparr>) CellKeyNode_default"

lemma half_key_date: "last_key_written_date_and_time half_key = 2500"
  by (simp add: last_key_written_date_and_time_def half_key_def kn_update_def get_date_time_from_filetime_def UNIX_EPOCH_NANOS_def)

theorem written_date_rounded_witness:
  "\<exists>dt. date_to_pyobject env_py_ref (last_key_written_date_and_time half_key) = Ok dt \<and> py_microsecond dt = 2"
proof -
  from written_date_rounded [OF ref_python.chrono_spec_axioms, of half_key] obtain r where
    "date_to_pyobject env_py_ref 2500 =
      (case py_datetime_new env_py_ref (datetime_of env_py_ref r) of None \<Rightarrow> Ok (datetime_of env_py_ref r) | Some e \<Rightarrow> Err e)"
    and m: "py_microsecond (datetime_of env_py_ref r) = word_of_int (r div 1000 mod 1000000)"
    and r: "1000 dvd r" "half_even 2500 r"
    by (auto simp: half_key_date)
  then have "date_to_pyobject env_py_ref 2500 = Ok (datetime_of env_py_ref r)" by (simp add: py_ref_defs)
  moreover from r have "r = 2000" by (auto simp: half_even_def elim!: dvdE)
  ultimately show ?thesis using m by (simp add: half_key_date)
qed

theorem python_iterates_all_keys_witness:
  "\<forall>bb. \<exists>depth fuel root r k it. PyNotatinParser_reg_keys env_py_ref \<lparr>pn_inner = Some (two_parser bb root)\<rparr> = (Ok it, \<lparr>pn_inner = None\<rparr>) \<and>
     py_list (keys_py_next env_py_ref depth) fuel it = Ok [PyKey (key_object env_py_ref r), PyKey (key_object env_py_ref k)] \<and>
     kn_path (kn r) = bs_path [''r''] \<and> kn_path (kn k) = bs_path [''r'', ''a'']"
proof
  fix bb
  obtain d root r k where two: "plain_hive env_py_ref d (two_parser bb root) (KTree r [KTree k []])"
    and p: "kn_path (kn r) = bs_path [''r'']" "kn_path (kn k) = bs_path [''r'', ''a'']"
    using two_hive [OF ref_py_nom.nom_list_spec_axioms] by blast
  have "iter_all env_py_ref (Suc d) 3 (ParserIterator_new (two_parser bb root)) = Ok [r, k]"
    using plain_hive_walk [OF two, of "Suc d" 3] by (simp add: new_iter_def)
  with python_iterates_all_keys [OF ref_python.python_spec_axioms, of "two_parser bb root" "Suc d" 3 "[]"] p
  show "\<exists>depth fuel root r k it. PyNotatinParser_reg_keys env_py_ref \<lparr>pn_inner = Some (two_parser bb root)\<rparr> = (Ok it, \<lparr>pn_inner = None\<rparr>) \<and>
     py_list (keys_py_next env_py_ref depth) fuel it = Ok [PyKey (key_object env_py_ref r), PyKey (key_object env_py_ref k)] \<and>
     kn_path (kn r) = bs_path [''r''] \<and> kn_path (kn k) = bs_path [''r'', ''a'']"
    by (intro exI [of _ "Suc d"] exI [of _ 3] exI [of _ root] exI [of _ r] exI [of _ k]) auto
qed

theorem python_opens_keys_witness:
  "\<forall>bb. \<exists>depth root k q. PyNotatinParser_open env_py_ref depth ''a'' \<lparr>pn_inner = Some (two_parser bb root)\<rparr> =
     Ok (Some (key_object env_py_ref k), \<lparr>pn_inner = Some q\<rparr>) \<and> kn_path (kn k) = bs_path [''r'', ''a'']"
proof
  fix bb
  obtain d root r k where two: "plain_hive env_py_ref d (two_parser bb root) (KTree r [KTree k []])"
    and p: "kn_path (kn k) = bs_path [''r'', ''a'']" "kn_key_name (kn k) = ''a''"
    using two_hive [OF ref_py_nom.nom_list_spec_axioms] by blast
  have l: "lookup [''a''] (KTree r [KTree k []]) = Some k" by (simp add: same_name_def p(2))
  have "\<exists>o' q. PyNotatinParser_open env_py_ref (Suc (Suc d)) (join_strings [backslash] [''a'']) \<lparr>pn_inner = Some (two_parser bb root)\<rparr> =
      Ok (o', \<lparr>pn_inner = Some q\<rparr>) \<and>
    rel_option (\<lambda>k key. \<exists>k'. found_as k k' \<and> key = key_object env_py_ref k') (lookup [''a''] (KTree r [KTree k []])) o' \<and>
    same_but_root (p_state (two_parser bb root)) (p_state q) \<and> q = (two_parser bb root)\<lparr>p_state := p_state q\<rparr>"
    by (rule python_opens_keys [OF ref_python.python_spec_axioms ref_py_nom.nom_spec_axioms two]) (simp_all add: plain_def backslash_def)
  then obtain k' q where "PyNotatinParser_open env_py_ref (Suc (Suc d)) ''a'' \<lparr>pn_inner = Some (two_parser bb root)\<rparr> =
      Ok (Some (key_object env_py_ref k'), \<lparr>pn_inner = Some q\<rparr>)" "found_as k k'"
    unfolding l by (auto simp: option_rel_Some1)
  then show "\<exists>depth root k q. PyNotatinParser_open env_py_ref depth ''a'' \<lparr>pn_inner = Some (two_parser bb root)\<rparr> =
     Ok (Some (key_object env_py_ref k), \<lparr>pn_inner = Some q\<rparr>) \<and> kn_path (kn k) = bs_path [''r'', ''a'']"
    using p(1) by (intro exI [of _ "Suc (Suc d)"] exI [of _ root] exI [of _ k'] exI [of _ q]) (simp add: found_as_def same_key_def)
qed

end
