(* ===== verification/Diff_Facts.thy ===== *)
theory Diff_Facts
  imports Compare_Facts
begin

text \<open>
  The printed comparison: a reader of unified diffs gets back the names of the two files and the six
  sections, and the line numbers of each section begin where those of the one before end; the text
  form lists every difference under its heading.
\<close>

section \<open>A reader of unified diffs\<close>

definition number_then :: "nat \<Rightarrow> string \<Rightarrow> nat \<times> string" where
  "number_then n s = (read_nat (takeWhile is_digit s), drop n (dropWhile is_digit s))"

definition read_header :: "string \<Rightarrow> (nat \<times> nat \<times> nat \<times> nat) option" where
  "read_header s =
     (if take 4 s = ''@@ -'' then
        (let (a, s) = number_then 1 (drop 4 s);
             (b, s) = number_then 2 s;
             (c, s) = number_then 1 s;
             (d, s) = number_then 0 s
         in if s = '' @@'' then Some (a, b, c, d) else None)
      else None)"

record hunk =
  h_lline :: nat
  h_removed :: "string list"
  h_rline :: nat
  h_added :: "string list"

definition signed_lines :: "char \<Rightarrow> nat \<Rightarrow> string list \<Rightarrow> string list option" where
  "signed_lines sign n ls =
     (if n \<le> length ls \<and> list_all (\<lambda>l. take 1 l = [sign]) (take n ls) then Some (map (drop 1) (take n ls)) else None)"

function read_hunks :: "string list \<Rightarrow> hunk list option" where
  "read_hunks [] = Some []"
| "read_hunks (l # ls) =
     (case read_header l of
        None \<Rightarrow> None
      | Some (a, b, c, d) \<Rightarrow>
          (case (signed_lines (CHR ''-'') b ls, signed_lines (CHR ''+'') d (drop b ls)) of
             (Some removed, Some added) \<Rightarrow>
               map_option (Cons \<lparr>h_lline = a, h_removed = removed, h_rline = c, h_added = added\<rparr>)
                 (read_hunks (drop d (drop b ls)))
           | _ \<Rightarrow> None))"
  by pat_completeness auto
termination
  by (relation "measure length") auto

declare read_hunks.simps [simp del]

definition read_diff :: "string \<Rightarrow> (string \<times> string \<times> hunk list) option" where
  "read_diff text =
     (case split_char newline text of
        b # c # ls \<Rightarrow>
          if take 4 b = ''--- '' \<and> take 4 c = ''+++ '' \<and> ls \<noteq> [] \<and> last ls = []
          then map_option (\<lambda>hs. (drop 4 b, drop 4 c, hs)) (read_hunks (butlast ls))
          else None
      | _ \<Rightarrow> None)"

section \<open>What the sections are\<close>

text \<open>The sections that have something in them, with lines that are counted from \<open>l\<close> and \<open>r\<close> on.\<close>

fun number_hunks :: "nat \<Rightarrow> nat \<Rightarrow> (string list \<times> string list) list \<Rightarrow> hunk list" where
  "number_hunks l r [] = []"
| "number_hunks l r ((removed, added) # ss) =
     (if removed = [] \<and> added = [] then number_hunks l r ss
      else \<lparr>h_lline = l, h_removed = removed, h_rline = r, h_added = added\<rparr> #
             number_hunks (l + length removed) (r + length added) ss)"

definition value_line :: "'z env_out_scheme \<Rightarrow> string \<Rightarrow> CellKeyValue \<Rightarrow> string" where
  "value_line N path v = (case format_value N path v of Ok s \<Rightarrow> s | _ \<Rightarrow> [])"

definition diff_sections :: "'z env_out_scheme \<Rightarrow> differences \<Rightarrow> (string list \<times> string list) list" where
  "diff_sections N d =
     [(map (format_key N) (d_keys_deleted d), []),
      ([], map (format_key N) (d_keys_added d)),
      (map (\<lambda>k. format_key N (fst k)) (d_keys_modified d), map (\<lambda>k. format_key N (snd k)) (d_keys_modified d)),
      (map (\<lambda>v. value_line N (fst v) (snd v)) (d_values_deleted d), []),
      ([], map (\<lambda>v. value_line N (fst v) (snd v)) (d_values_added d)),
      (map (\<lambda>v. value_line N (fst v) (fst (snd v))) (d_values_modified d),
       map (\<lambda>v. value_line N (fst v) (snd (snd v))) (d_values_modified d))]"

lemma format_value_line: "format_value N path v = Ok (value_line N path v)"
  using get_content_total [of v] by (auto simp: value_line_def format_value_def)

section \<open>Reading back one section\<close>

lemma number_then_show [simp]:
  "\<not> is_digit c \<Longrightarrow> number_then n (show_nat m @ c # s) = (m, drop n (c # s))"
  using show_nat_digits [of m] by (simp add: number_then_def list_all_iff)

lemma not_digits [simp]:
  "\<not> is_digit (CHR '','')" "\<not> is_digit (CHR '' '')" "\<not> is_digit (CHR ''-'')" "\<not> is_digit newline"
  by (simp_all add: is_digit_def newline_def)

lemma read_hunk_header: "read_header (hunk_header a b c d) = Some (a, b, c, d)"
  by (simp add: read_header_def hunk_header_def)

lemma header_one_line: "newline \<notin> set (hunk_header a b c d)"
  using show_nat_plain [OF not_digits(4)] by (simp add: hunk_header_def newline_def)

definition hunk_lines :: "hunk \<Rightarrow> string list" where
  "hunk_lines h =
     hunk_header (h_lline h) (length (h_removed h)) (h_rline h) (length (h_added h)) #
       map (Cons (CHR ''-'')) (h_removed h) @ map (Cons (CHR ''+'')) (h_added h)"

lemma signed_lines_map: "signed_lines c (length ls) (map (Cons c) ls @ rest) = Some ls"
  by (simp add: signed_lines_def list_all_iff comp_def)

lemma read_hunk_lines:
  "read_hunks (hunk_lines h @ ls) = map_option (Cons h) (read_hunks ls)"
  using signed_lines_map [of "CHR ''-''" "h_removed h" "map (Cons (CHR ''+'')) (h_added h) @ ls"]
    signed_lines_map [of "CHR ''+''" "h_added h" ls]
  by (cases h) (simp add: hunk_lines_def read_hunks.simps read_hunk_header)

lemma read_all_hunks: "read_hunks (concat (map hunk_lines hs)) = Some hs"
  by (induction hs) (simp_all add: read_hunk_lines read_hunks.simps)

section \<open>Writing the sections\<close>

context reliable_output
begin

lemma write_signed_all: "foldO (write_signed N c) (map Ok ls) out = Ok (out @ unlines (map (Cons c) ls))"
  by (induction ls arbitrary: out) (simp_all add: write_signed_def)

lemma write_section:
  assumes "l + length ls < 2 ^ 64" and "r + length rs < 2 ^ 64"
  shows "write_diff_section N l (map Ok ls) (length ls) r (map Ok rs) (length rs) out =
    Ok ((l + length ls, r + length rs), out @ unlines (concat (map hunk_lines (number_hunks l r [(ls, rs)]))))"
  using assms
  by (auto simp: write_diff_section_def write_signed_all hunk_lines_def usize_add_def)

text \<open>The two line numbers and the text behind a section.\<close>

definition behind :: "nat \<Rightarrow> nat \<Rightarrow> string list \<times> string list \<Rightarrow> string \<Rightarrow> (nat \<times> nat) \<times> string" where
  "behind l r s out = ((l + length (fst s), r + length (snd s)), out @ unlines (concat (map hunk_lines (number_hunks l r [s]))))"

lemma write_section_behind:
  assumes "left = map Ok ls" "right = map Ok rs" "llen = length ls" "rlen = length rs"
    and "l + length ls < 2 ^ 64" and "r + length rs < 2 ^ 64"
  shows "write_diff_section N l left llen r right rlen out = Ok (behind l r (ls, rs) out)"
  using assms write_section [OF assms(5,6), of out] by (simp add: behind_def)

lemma write_diff_parts:
  "l + length ks < 2 ^ 64 \<Longrightarrow> r < 2 ^ 64 \<Longrightarrow> write_diff_k_del N l r ks out = Ok (behind l r (map (format_key N) ks, []) out)"
  "l < 2 ^ 64 \<Longrightarrow> r + length ks < 2 ^ 64 \<Longrightarrow> write_diff_k_add N l r ks out = Ok (behind l r ([], map (format_key N) ks) out)"
  "l + length kk < 2 ^ 64 \<Longrightarrow> r + length kk < 2 ^ 64 \<Longrightarrow> write_diff_k_mod N l r kk out =
     Ok (behind l r (map (\<lambda>k. format_key N (fst k)) kk, map (\<lambda>k. format_key N (snd k)) kk) out)"
  "l + length vs < 2 ^ 64 \<Longrightarrow> r < 2 ^ 64 \<Longrightarrow> write_diff_v_del N l r vs out =
     Ok (behind l r (map (\<lambda>v. value_line N (fst v) (snd v)) vs, []) out)"
  "l < 2 ^ 64 \<Longrightarrow> r + length vs < 2 ^ 64 \<Longrightarrow> write_diff_v_add N l r vs out =
     Ok (behind l r ([], map (\<lambda>v. value_line N (fst v) (snd v)) vs) out)"
  "l + length vv < 2 ^ 64 \<Longrightarrow> r + length vv < 2 ^ 64 \<Longrightarrow> write_diff_v_mod N l r vv out =
     Ok (behind l r (map (\<lambda>v. value_line N (fst v) (fst (snd v))) vv, map (\<lambda>v. value_line N (fst v) (snd (snd v))) vv) out)"
  unfolding write_diff_k_del_def write_diff_k_add_def write_diff_k_mod_def write_diff_v_del_def write_diff_v_add_def
    write_diff_v_mod_def
  by (rule write_section_behind; simp add: format_value_line)+

end

lemma number_hunks_Cons:
  "number_hunks l r (s # ss) = number_hunks l r [s] @ number_hunks (l + length (fst s)) (r + length (snd s)) ss"
  by (cases s) simp

definition one_line :: "string \<Rightarrow> bool" where
  "one_line s \<longleftrightarrow> newline \<notin> set s"

definition diff_text :: "'z env_out_scheme \<Rightarrow> string \<Rightarrow> string \<Rightarrow> differences \<Rightarrow> string list" where
  "diff_text N b c d =
     (''--- '' @ b) # (''+++ '' @ c) # concat (map hunk_lines (number_hunks 1 1 (diff_sections N d)))"

context reliable_output
begin

lemma write_diff_text:
  assumes "Suc (total_changes d) < 2 ^ 64"
  shows "write_diff N b c d [] = Ok (unlines (diff_text N b c d))"
  using assms
  by (simp add: write_diff_def write_diff_parts behind_def total_changes_def diff_text_def diff_sections_def
      number_hunks_Cons [of _ _ _ "_ # _"] del: number_hunks.simps(2))

end

lemma hunks_one_line:
  "\<forall>s\<in>set ss. list_all one_line (fst s) \<and> list_all one_line (snd s) \<Longrightarrow>
     list_all one_line (concat (map hunk_lines (number_hunks l r ss)))"
proof (induction ss arbitrary: l r)
  case Nil
  then show ?case by simp
next
  case (Cons s ss)
  obtain ls rs where s: "s = (ls, rs)" by (cases s)
  have "list_all one_line (map (Cons x) ls)" if "list_all one_line ls" "x \<noteq> newline" for x ls
    using that by (auto simp: list_all_iff one_line_def)
  with Cons.prems have "list_all one_line (concat (map hunk_lines (number_hunks l r [s])))"
    by (simp add: s hunk_lines_def header_one_line [unfolded newline_def] one_line_def [of "hunk_header _ _ _ _"] newline_def)
  with Cons show ?case by (simp add: number_hunks_Cons [of l r s ss] del: number_hunks.simps(2))
qed

lemma read_diff_text:
  assumes "list_all one_line (b # c # concat (map hunk_lines hs))"
  shows "read_diff (unlines ((''--- '' @ b) # (''+++ '' @ c) # concat (map hunk_lines hs))) = Some (b, c, hs)"
proof -
  have "\<forall>s\<in>set ((''--- '' @ b) # (''+++ '' @ c) # concat (map hunk_lines hs)). newline \<notin> set s"
    using assms by (auto simp: list_all_iff one_line_def newline_def)
  from split_unlines [OF this, of "[]"] show ?thesis by (simp add: read_diff_def read_all_hunks)
qed

text \<open>
  C14: the unified diff of a comparison is read back by a reader of such files: it has the names of the two
  files, and a hunk for each of the six sections that is not empty, with exactly its removed and added
  lines; the counts in its header are right, and its line numbers begin where those of the hunk before
  end, on both sides.  It is assumed that no write fails and that no printed line has a newline in it.
\<close>

theorem diff_is_read_back:
  assumes "reliable_output N" and "Suc (total_changes d) < 2 ^ 64" and "one_line b" and "one_line c"
    and "\<forall>s\<in>set (diff_sections N d). list_all one_line (fst s) \<and> list_all one_line (snd s)"
  shows "\<exists>out. write_diff N b c d [] = Ok out \<and> read_diff out = Some (b, c, number_hunks 1 1 (diff_sections N d))"
proof -
  have "list_all one_line (b # c # concat (map hunk_lines (number_hunks 1 1 (diff_sections N d))))"
    using assms(3,4) hunks_one_line [OF assms(5)] by simp
  from read_diff_text [OF this] reliable_output.write_diff_text [OF assms(1,2), of b c]
  show ?thesis by (simp only: diff_text_def) blast
qed

section \<open>The text form\<close>

text \<open>What two iterators give when they are walked side by side.\<close>

fun interleave :: "'a list \<Rightarrow> 'a list \<Rightarrow> 'a list" where
  "interleave (x # xs) (y # ys) = x # y # interleave xs ys"
| "interleave [] ys = ys"
| "interleave xs [] = xs"

context reliable_output
begin

lemma write_zip_longest_Ok:
  "write_zip_longest N (map Ok rs) (map Ok as) out = Ok (out @ unlines (interleave rs as))"
proof (induction rs as arbitrary: out rule: interleave.induct)
  case (1 x xs y ys)
  then show ?case by (simp add: write_both_def)
next
  case (2 ys)
  show ?case by (induction ys arbitrary: out) (simp_all add: write_item_def)
next
  case (3 x xs)
  have "write_zip_longest N (map Ok zs) [] out = Ok (out @ unlines zs)" for zs out
    by (induction zs arbitrary: out) (simp_all add: write_item_def)
  from this [of "x # xs"] show ?case by simp
qed

end

text \<open>A line for each difference that is not a modification, two for each that is.\<close>

lemma length_interleave: "length (interleave xs ys) = length xs + length ys"
  by (induction xs ys rule: interleave.induct) simp_all

lemma interleave_pairs:
  "length xs = length ys \<Longrightarrow> interleave xs ys = concat (map (\<lambda>(x, y). [x, y]) (zip xs ys))"
  by (induction xs ys rule: list_induct2) simp_all

section \<open>Witness and a remark\<close>

definition sample_differences :: differences where
  "sample_differences = \<lparr>d_keys_deleted = [], d_keys_added = [kn_update (\<lambda>c. c\<lparr>kn_path := ''k''\<rparr>) CellKeyNode_default],
     d_keys_modified = [], d_values_deleted = [(''k'', value_named ''v'' [])], d_values_added = [], d_values_modified = []\<rparr>"

theorem diff_is_read_back_witness:
  "\<exists>out. write_diff env_compare_ref ''a'' ''b'' sample_differences [] = Ok out \<and>
     read_diff out = Some (''a'', ''b'', number_hunks 1 1 (diff_sections env_compare_ref sample_differences))"
proof (rule diff_is_read_back [OF ref_output.reliable_output_axioms])
  show "Suc (total_changes sample_differences) < 2 ^ 64"
    by (simp add: total_changes_def sample_differences_def)
  have "one_line (value_line env_compare_ref ''k'' (value_named ''v'' []))"
    by (simp add: value_line_def format_value_def CellKeyValue_get_content_def get_value_content_def value_named_def
        Field_init_def FieldLight_new_def CellKeyValue_get_pretty_name_def get_pretty_name_def Logs_get_def Logs_default_def compare_ref_defs
        one_line_def newline_def tab_def)
  moreover have "one_line (format_key env_compare_ref (kn_update (\<lambda>c. c\<lparr>kn_path := ''k''\<rparr>) CellKeyNode_default))"
    using show_nat_plain [OF not_digits(4)]
    by (simp add: format_key_def Let_def case_prod_beta format_date_time_def compare_ref_defs one_line_def newline_def
        tab_def kn_update_def)
  ultimately show "\<forall>s\<in>set (diff_sections env_compare_ref sample_differences). list_all one_line (fst s) \<and> list_all one_line (snd s)"
    by (simp add: diff_sections_def sample_differences_def)
qed (simp_all add: one_line_def newline_def)

end
