(* ===== verification/Xlsx_Writer.thy ===== *)
theory Xlsx_Writer
  imports Reg_Compare
begin

text \<open>
  The spreadsheet of the program that dumps a hive (\<open>src/bin/reg_dump/xlsx_writer.rs\<close>).  A worksheet of
  the crate \<open>xlsxwriter\<close> is the list of the calls that were made on it, each of which may fail; a text that
  is too long for a cell goes in pieces to a row of the sheet \<open>Overflow\<close> and the cell links there.  The
  numbers that are passed on as \<open>f64\<close> are integers.  The progress on the console is not part of the model.
\<close>

section \<open>The calls on a worksheet\<close>

record xlsx_format =
  f_bg_color :: "u32 option"
  f_border_top :: bool
  f_border_bottom :: bool
  f_font_color :: "u32 option"
  f_bold :: bool
  f_underline :: bool

definition Format_new :: xlsx_format where
  "Format_new = \<lparr>f_bg_color = None, f_border_top = False, f_border_bottom = False, f_font_color = None, f_bold = False,
     f_underline = False\<rparr>"

datatype sheet_op =
    SetColumn u16 u16 nat
  | SetRow u32 nat xlsx_format
  | WriteString u32 u16 string "xlsx_format option"
  | WriteNumber u32 u16 nat
  | WriteUrl u32 u16 string xlsx_format
  | FreezePanes u32 u16

record env_xlsx = env_compare +
  xlsx_error :: "sheet_op list \<Rightarrow> sheet_op \<Rightarrow> string option"
  xlsx_add_worksheet_error :: "string \<Rightarrow> string option"

definition Error_from_xlsx :: "string \<Rightarrow> Error" where
  "Error_from_xlsx msg = XlsxWriter (debug_str msg)"

record WorksheetState =
  ws_sheet :: "sheet_op list"
  ws_row :: u32
  ws_shaded :: bool
  ws_upper_border :: bool
  ws_key_path :: string
  ws_value_name :: "string option"

definition WorksheetState_new :: WorksheetState where
  "WorksheetState_new = \<lparr>ws_sheet = [], ws_row = 0, ws_shaded = False, ws_upper_border = False, ws_key_path = [],
     ws_value_name = None\<rparr>"

definition sheet_do :: "'z env_xlsx_scheme \<Rightarrow> sheet_op \<Rightarrow> WorksheetState \<Rightarrow> WorksheetState result" where
  "sheet_do N call ws =
     (case xlsx_error N (ws_sheet ws) call of
        None \<Rightarrow> Ok (ws\<lparr>ws_sheet := ws_sheet ws @ [call]\<rparr>)
      | Some msg \<Rightarrow> Err (Error_from_xlsx msg))"

definition ws_write_string :: "'z env_xlsx_scheme \<Rightarrow> u16 \<Rightarrow> string \<Rightarrow> WorksheetState \<Rightarrow> WorksheetState result" where
  "ws_write_string N col text ws = sheet_do N (WriteString (ws_row ws) col text None) ws"

definition ws_write_number :: "'z env_xlsx_scheme \<Rightarrow> u16 \<Rightarrow> nat \<Rightarrow> WorksheetState \<Rightarrow> WorksheetState result" where
  "ws_write_number N col num ws = sheet_do N (WriteNumber (ws_row ws) col num) ws"

definition ws_next_row :: "'z env_xlsx_scheme \<Rightarrow> WorksheetState \<Rightarrow> WorksheetState result" where
  "ws_next_row N ws = bindO (add_w (overflow_checks N) (ws_row ws) 1) (\<lambda>row. Ok (ws\<lparr>ws_row := row\<rparr>))"

definition set_shading :: "string \<Rightarrow> string option \<Rightarrow> CellState \<Rightarrow> WorksheetState \<Rightarrow> WorksheetState" where
  "set_shading key_path value_name cell_state ws =
     (if key_path \<noteq> ws_key_path ws \<or> value_name \<noteq> ws_value_name ws
      then ws\<lparr>ws_shaded := \<not> ws_shaded ws, ws_key_path := key_path, ws_value_name := value_name, ws_upper_border := True\<rparr>
      else if is_deleted_primary_file cell_state
      then ws\<lparr>ws_upper_border := True, ws_shaded := \<not> ws_shaded ws\<rparr>
      else ws\<lparr>ws_upper_border := False\<rparr>)"

section \<open>Texts\<close>

definition is_legal_xml_1_0 :: "nat \<Rightarrow> bool" where
  "is_legal_xml_1_0 c \<longleftrightarrow>
     c = 0x9 \<or> c = 0xA \<or> c = 0xD \<or> (0x20 \<le> c \<and> c \<le> 0xD7FF) \<or> (0xE000 \<le> c \<and> c \<le> 0xFFFD) \<or> (0x10000 \<le> c \<and> c \<le> 0x10FFFF)"

definition first_illegal :: "string list \<Rightarrow> nat option" where
  "first_illegal cs =
     (let i = length (takeWhile (\<lambda>c. is_legal_xml_1_0 (code_point c)) cs) in if i < length cs then Some i else None)"

definition sanitize_for_xml_1_0 :: "string \<Rightarrow> string" where
  "sanitize_for_xml_1_0 s =
     (case first_illegal (str_chars s) of
        None \<Rightarrow> s
      | Some i \<Rightarrow>
          concat (take i (str_chars s) @
            map (\<lambda>c. if is_legal_xml_1_0 (code_point c) then c else utf8_char 0xFFFD) (drop i (str_chars s))))"

fun sanitize_cell :: "'z env_out_scheme \<Rightarrow> CellValue \<Rightarrow> string" where
  "sanitize_cell N (CV_String v) = sanitize_for_xml_1_0 v"
| "sanitize_cell N v = CellValue_display N v"

definition safe_split_at :: "string \<Rightarrow> usize \<Rightarrow> string \<times> string" where
  "safe_split_at val max_split =
     (let offset = min max_split (length val) in
      (concat (take offset (str_chars val)), concat (drop offset (str_chars val))))"

definition safe_truncate :: "string \<Rightarrow> usize \<Rightarrow> string" where
  "safe_truncate val max_split = (let offset = min max_split (length val) in concat (take offset (str_chars val)))"

section \<open>Cells\<close>

definition ROW_HEIGHT :: nat where "ROW_HEIGHT = 16"
definition COL_WIDTH_WIDE :: nat where "COL_WIDTH_WIDE = 50"
definition COL_WIDTH_NARROW :: nat where "COL_WIDTH_NARROW = 23"
definition COL_WIDTH_TINY :: nat where "COL_WIDTH_TINY = 6"
definition COL_INDEX :: u16 where "COL_INDEX = 0"
definition COL_KEY_PATH :: u16 where "COL_KEY_PATH = 1"
definition COL_SUBKEY_COUNT :: u16 where "COL_SUBKEY_COUNT = 2"
definition COL_VALUE_NAME :: u16 where "COL_VALUE_NAME = 3"
definition COL_VALUE_DATA :: u16 where "COL_VALUE_DATA = 4"
definition COL_TIMESTAMP :: u16 where "COL_TIMESTAMP = 5"
definition COL_STATUS :: u16 where "COL_STATUS = 6"
definition COL_PREV_SEQ_NUM :: u16 where "COL_PREV_SEQ_NUM = 7"
definition COL_MOD_SEQ_NUM :: u16 where "COL_MOD_SEQ_NUM = 8"
definition COL_FLAGS :: u16 where "COL_FLAGS = 9"
definition COL_ACCESS_FLAGS :: u16 where "COL_ACCESS_FLAGS = 10"
definition COL_VALUE_TYPE :: u16 where "COL_VALUE_TYPE = 11"
definition COL_LOGS :: u16 where "COL_LOGS = 12"
definition MAX_EXCEL_CELL_LEN :: usize where "MAX_EXCEL_CELL_LEN = 32767"
definition MAX_TRUNCATED_CHARS :: usize where "MAX_TRUNCATED_CHARS = 250"
definition COLOR_LIGHT_GREY :: u32 where "COLOR_LIGHT_GREY = 0xF4F4F4"
definition COLOR_DARK_GREY :: u32 where "COLOR_DARK_GREY = 0x808080"
definition COLOR_DARK_RED :: u32 where "COLOR_DARK_RED = 0xA51B1B"

lemma split_parts [simp]: "fst (safe_split_at val n) @ snd (safe_split_at val n) = val"
  by (simp add: safe_split_at_def Let_def concat_append [symmetric] del: concat_append)

lemma split_shorter: "val \<noteq> [] \<Longrightarrow> 0 < n \<Longrightarrow> length (snd (safe_split_at val n)) < length val"
proof -
  assume a: "val \<noteq> []" "0 < n"
  then obtain c s where "val = c # s" by (cases val) auto
  with a have "fst (safe_split_at val n) \<noteq> []" by (cases n) (auto simp: safe_split_at_def Let_def min_def)
  moreover have "length (fst (safe_split_at val n)) + length (snd (safe_split_at val n)) = length val"
    by (metis length_append split_parts)
  ultimately show ?thesis by (metis add_less_same_cancel2 length_greater_0_conv less_add_same_cancel2)
qed

function full_val_chunks :: "string \<Rightarrow> string list" where
  "full_val_chunks val =
     (if val = [] then []
      else let (chunk, rest) = safe_split_at val MAX_EXCEL_CELL_LEN in chunk # full_val_chunks rest)"
  by pat_completeness auto
termination
proof (relation "measure length")
  fix val :: string and x chunk rest
  assume "val \<noteq> []" and "x = safe_split_at val MAX_EXCEL_CELL_LEN" and "(chunk, rest) = x"
  then have "rest = snd (safe_split_at val MAX_EXCEL_CELL_LEN)" by (metis snd_conv)
  with \<open>val \<noteq> []\<close> show "(rest, val) \<in> measure length"
    by (simp add: split_shorter MAX_EXCEL_CELL_LEN_def)
qed simp

declare full_val_chunks.simps [simp del]

primrec write_chunks :: "'z env_xlsx_scheme \<Rightarrow> nat \<Rightarrow> string list \<Rightarrow> WorksheetState \<Rightarrow> WorksheetState result" where
  "write_chunks N col [] ws = Ok ws"
| "write_chunks N col (chunk # chunks) ws =
     (if col + 1 < 2 ^ 16 then bindO (ws_write_string N (of_nat (col + 1)) chunk ws) (write_chunks N (col + 1) chunks)
      else Err (Error_from_try_from_int ''out of range integral type conversion attempted''))"

definition write_string_handle_overflow ::
  "'z env_xlsx_scheme \<Rightarrow> u16 \<Rightarrow> string \<Rightarrow> xlsx_format \<Rightarrow> WorksheetState \<times> WorksheetState \<Rightarrow>
     (WorksheetState \<times> WorksheetState) result" where
  "write_string_handle_overflow N col val link_format = (\<lambda>(primary, overflow).
     if length val > MAX_EXCEL_CELL_LEN then
       bindO (add_w (overflow_checks N) (ws_row overflow) 1) (\<lambda>label_row.
       let truncated_label = '' [truncated; row: '' @ show_nat (unat label_row) @ '']'' in
       bindO (ws_write_string N 0 truncated_label overflow) (\<lambda>overflow.
       bindO (write_chunks N 0 (full_val_chunks val) overflow) (\<lambda>overflow.
       bindO (ws_next_row N overflow) (\<lambda>overflow.
       bindO (sheet_do N (WriteUrl (ws_row primary) col
                (''internal:Overflow!A'' @ show_nat (unat (ws_row overflow))) link_format) primary) (\<lambda>primary.
       bindO (sheet_do N (WriteString (ws_row primary) col
                (safe_truncate val MAX_TRUNCATED_CHARS @ truncated_label) (Some link_format)) primary) (\<lambda>primary.
       Ok (primary, overflow)))))))
     else bindO (ws_write_string N col val primary) (\<lambda>primary. Ok (primary, overflow)))"

definition check_write_string ::
  "'z env_xlsx_scheme \<Rightarrow> u16 \<Rightarrow> string \<Rightarrow> xlsx_format \<Rightarrow> WorksheetState \<times> WorksheetState \<Rightarrow>
     (WorksheetState \<times> WorksheetState) result" where
  "check_write_string N col val link_format sheets =
     (if val \<noteq> [] then write_string_handle_overflow N col val link_format sheets else Ok sheets)"

definition get_formatters :: "CellState \<Rightarrow> bool \<Rightarrow> bool \<Rightarrow> xlsx_format \<times> xlsx_format" where
  "get_formatters cell_state shaded upper_line =
     (let f = Format_new;
          f = (if shaded then f\<lparr>f_bg_color := Some COLOR_LIGHT_GREY\<rparr> else f);
          f = (if upper_line then f\<lparr>f_border_top := True\<rparr> else f);
          f = (if is_deleted cell_state then f\<lparr>f_font_color := Some COLOR_DARK_RED\<rparr>
               else if cell_state = ModifiedTransactionLog then f\<lparr>f_font_color := Some COLOR_DARK_GREY\<rparr> else f)
      in (f, f\<lparr>f_underline := True\<rparr>))"

section \<open>Rows\<close>

text \<open>A call that concerns the first sheet only.\<close>

definition on_primary ::
  "(WorksheetState \<Rightarrow> WorksheetState result) \<Rightarrow> WorksheetState \<times> WorksheetState \<Rightarrow> (WorksheetState \<times> WorksheetState) result" where
  "on_primary f = (\<lambda>(primary, overflow). bindO (f primary) (\<lambda>primary. Ok (primary, overflow)))"

definition write_sequence_num :: "'z env_xlsx_scheme \<Rightarrow> u16 \<Rightarrow> u32 option \<Rightarrow> WorksheetState \<Rightarrow> WorksheetState result" where
  "write_sequence_num N col sequence_num ws =
     (case sequence_num of Some n \<Rightarrow> ws_write_number N col (unat n) ws | None \<Rightarrow> Ok ws)"

text \<open>The next row with its shading and formats; the number of the row is its first cell.\<close>

definition begin_row ::
  "'z env_xlsx_scheme \<Rightarrow> string \<Rightarrow> string option \<Rightarrow> CellState \<Rightarrow> WorksheetState \<Rightarrow> (xlsx_format \<times> WorksheetState) result" where
  "begin_row N key_path value_name cell_state ws =
     bindO (ws_next_row N ws) (\<lambda>ws.
     let ws = set_shading key_path value_name cell_state ws;
         (row_format, link_format) = get_formatters cell_state (ws_shaded ws) (ws_upper_border ws) in
     bindO (sheet_do N (SetRow (ws_row ws) ROW_HEIGHT row_format) ws) (\<lambda>ws.
     bindO (ws_write_number N COL_INDEX (unat (ws_row ws)) ws) (\<lambda>ws.
     Ok (link_format, ws))))"

text \<open>The other cells of the row of a value and of a key.\<close>

definition xlsx_value_cells ::
  "'z env_xlsx_scheme \<Rightarrow> CellKeyNode \<Rightarrow> CellKeyValue \<Rightarrow> xlsx_format \<Rightarrow> WorksheetState \<times> WorksheetState \<Rightarrow>
     (WorksheetState \<times> WorksheetState) result" where
  "xlsx_value_cells N key v link_format s =
     bindO (check_write_string N COL_KEY_PATH (sanitize_for_xml_1_0 (kn_path (kn key))) link_format s) (\<lambda>s.
     bindO (check_write_string N COL_VALUE_NAME (sanitize_for_xml_1_0 (CellKeyValue_get_pretty_name v)) link_format s) (\<lambda>s.
     bindO (CellKeyValue_get_content v) (\<lambda>(content, _).
     bindO (check_write_string N COL_VALUE_DATA (sanitize_cell N content) link_format s) (\<lambda>s.
     bindO (on_primary (ws_write_string N COL_STATUS (CellState_debug (kv_cell_state (kv v)))) s) (\<lambda>s.
     bindO (on_primary (write_sequence_num N COL_PREV_SEQ_NUM (kv_sequence_num (kv v))) s) (\<lambda>s.
     bindO (on_primary (write_sequence_num N COL_MOD_SEQ_NUM (kv_updated_by_sequence_num (kv v))) s) (\<lambda>s.
     bindO (check_write_string N COL_VALUE_TYPE (CellValue_get_type content) link_format s) (\<lambda>s.
     check_write_string N COL_LOGS (sanitize_for_xml_1_0 (Logs_get_string (kv_logs (kv v)))) link_format s))))))))"

definition xlsx_write_value ::
  "'z env_xlsx_scheme \<Rightarrow> bool \<Rightarrow> CellKeyNode \<Rightarrow> CellKeyValue \<Rightarrow> WorksheetState \<times> WorksheetState \<Rightarrow>
     (WorksheetState \<times> WorksheetState) result" where
  "xlsx_write_value N recovered_only key v =
     (if recovered_only \<and> \<not> kv_has_or_is_recovered v then Ok
      else (\<lambda>(reg_items, overflow).
        bindO (begin_row N (kn_path (kn key)) (Some (value_name_of v)) (kv_cell_state (kv v)) reg_items)
          (\<lambda>(link_format, reg_items). xlsx_value_cells N key v link_format (reg_items, overflow))))"

definition xlsx_key_cells ::
  "'z env_xlsx_scheme \<Rightarrow> CellKeyNode \<Rightarrow> xlsx_format \<Rightarrow> WorksheetState \<times> WorksheetState \<Rightarrow>
     (WorksheetState \<times> WorksheetState) result" where
  "xlsx_key_cells N k link_format s =
     (let (flags, logs) = key_node_flags k (kn_logs (kn k)); (acc, _) = access_flags k logs in
      bindO (check_write_string N COL_KEY_PATH (sanitize_for_xml_1_0 (kn_path (kn k))) link_format s) (\<lambda>s.
      bindO (on_primary (ws_write_number N COL_SUBKEY_COUNT (length (cell_sub_key_offsets_absolute (kn k)))) s) (\<lambda>s.
      bindO (on_primary (ws_write_string N COL_TIMESTAMP (format_date_time N (last_key_written_date_and_time k))) s) (\<lambda>s.
      bindO (on_primary (ws_write_string N COL_STATUS (CellState_debug (kn_cell_state (kn k)))) s) (\<lambda>s.
      bindO (on_primary (write_sequence_num N COL_PREV_SEQ_NUM (kn_sequence_num (kn k))) s) (\<lambda>s.
      bindO (on_primary (write_sequence_num N COL_MOD_SEQ_NUM (kn_updated_by_sequence_num (kn k))) s) (\<lambda>s.
      bindO (on_primary (ws_write_string N COL_FLAGS (fmt_key_node_flags N flags)) s) (\<lambda>s.
      bindO (on_primary (ws_write_string N COL_ACCESS_FLAGS (fmt_access_flags N acc)) s) (\<lambda>s.
      check_write_string N COL_LOGS (sanitize_for_xml_1_0 (Logs_get_string (kn_logs (kn k)))) link_format s)))))))))"

definition xlsx_write_key_row ::
  "'z env_xlsx_scheme \<Rightarrow> CellKeyNode \<Rightarrow> WorksheetState \<times> WorksheetState \<Rightarrow> (WorksheetState \<times> WorksheetState) result" where
  "xlsx_write_key_row N k = (\<lambda>(reg_items, overflow).
     bindO (begin_row N (kn_path (kn k)) None (kn_cell_state (kn k)) reg_items) (\<lambda>(link_format, reg_items).
       xlsx_key_cells N k link_format (reg_items, overflow)))"

function xlsx_write_key ::
  "'z env_xlsx_scheme \<Rightarrow> bool \<Rightarrow> CellKeyNode \<Rightarrow> bool \<Rightarrow> WorksheetState \<times> WorksheetState \<Rightarrow>
     (WorksheetState \<times> WorksheetState) result" where
  "xlsx_write_key N recovered_only k is_key_version s =
     bindO (if \<not> recovered_only \<or> kn_has_or_is_recovered k then
              bindO (xlsx_write_key_row N k s) (\<lambda>s.
              foldO (\<lambda>sub_key. xlsx_write_key N recovered_only sub_key True) (kn_versions k) s)
            else Ok s) (\<lambda>s.
     if \<not> is_key_version then
       foldO (\<lambda>v s. bindO (xlsx_write_value N recovered_only k v s)
                (foldO (xlsx_write_value N recovered_only k) (kv_versions v)))
         (value_iter_from k 0) s
     else Ok s)"
  by pat_completeness auto
termination
  by (relation "measure (\<lambda>(N, b, k, m, s). size k)") (auto simp: size_version)

declare xlsx_write_key.simps [simp del]

section \<open>The workbook\<close>

record xlsx_workbook =
  wb_reg_items :: WorksheetState
  wb_logs :: WorksheetState
  wb_overflow :: WorksheetState

definition add_worksheet :: "'z env_xlsx_scheme \<Rightarrow> string \<Rightarrow> WorksheetState result" where
  "add_worksheet N name =
     (case xlsx_add_worksheet_error N name of None \<Rightarrow> Ok WorksheetState_new | Some msg \<Rightarrow> Err (Error_from_xlsx msg))"

definition header_cells :: "(u16 \<times> string) list" where
  "header_cells =
     [(COL_INDEX, ''Index''), (COL_KEY_PATH, ''Key Path''), (COL_SUBKEY_COUNT, ''Subkey Count''),
      (COL_VALUE_NAME, ''Value Name''), (COL_VALUE_DATA, ''Value Data''), (COL_TIMESTAMP, ''Timestamp''),
      (COL_STATUS, ''Status''), (COL_PREV_SEQ_NUM, ''Previous Seq Num''), (COL_MOD_SEQ_NUM, ''Modifying Seq Num''),
      (COL_FLAGS, ''Flags''), (COL_ACCESS_FLAGS, ''Access Flags''), (COL_VALUE_TYPE, ''Value Type''), (COL_LOGS, ''Logs'')]"

definition write_sheet_header :: "'z env_xlsx_scheme \<Rightarrow> WorksheetState \<Rightarrow> WorksheetState result" where
  "write_sheet_header N ws =
     bindO (sheet_do N (SetColumn COL_INDEX COL_INDEX COL_WIDTH_TINY) ws) (\<lambda>ws.
     bindO (sheet_do N (SetColumn COL_KEY_PATH COL_VALUE_DATA COL_WIDTH_WIDE) ws) (\<lambda>ws.
     bindO (sheet_do N (SetColumn COL_TIMESTAMP COL_LOGS COL_WIDTH_NARROW) ws) (\<lambda>ws.
     bindO (sheet_do N (SetRow 0 ROW_HEIGHT (Format_new\<lparr>f_bold := True, f_border_bottom := True\<rparr>)) ws) (\<lambda>ws.
     bindO (foldO (\<lambda>(col, text). ws_write_string N col text) header_cells ws) (\<lambda>ws.
     Ok (ws\<lparr>ws_sheet := ws_sheet ws @ [FreezePanes 1 0]\<rparr>))))))"

definition write_log_row ::
  "'z env_xlsx_scheme \<Rightarrow> Log \<Rightarrow> WorksheetState \<times> WorksheetState \<Rightarrow> (WorksheetState \<times> WorksheetState) result" where
  "write_log_row N log s =
     bindO (on_primary (ws_write_string N 0 (LogCode_debug (log_code log))) s) (\<lambda>s.
     bindO (check_write_string N 1 (log_text log) (Format_new\<lparr>f_underline := True\<rparr>) s) (\<lambda>s.
     on_primary (ws_next_row N) s))"

definition WriteXlsx_write ::
  "'z env_xlsx_scheme \<Rightarrow> nat \<Rightarrow> nat \<Rightarrow> bool \<Rightarrow> Parser \<Rightarrow> Filter option \<Rightarrow> xlsx_workbook result" where
  "WriteXlsx_write N depth fuel recovered_only p flt =
     bindO (add_worksheet N ''Registry Items'') (\<lambda>reg_items.
     bindO (add_worksheet N ''Logs'') (\<lambda>logs_sheet.
     bindO (add_worksheet N ''Overflow'') (\<lambda>overflow.
     bindO (write_sheet_header N reg_items) (\<lambda>reg_items.
     bindO (for_keys N depth fuel (new_iter p flt) (\<lambda>key. xlsx_write_key N recovered_only key False) (reg_items, overflow))
       (\<lambda>(reg_items, overflow).
     bindO (case Logs_get (info (p_state p)) of
              Some logs \<Rightarrow> foldO (write_log_row N) logs (logs_sheet, overflow)
            | None \<Rightarrow> Ok (logs_sheet, overflow)) (\<lambda>(logs_sheet, overflow).
     Ok \<lparr>wb_reg_items = reg_items, wb_logs = logs_sheet, wb_overflow = overflow\<rparr>))))))"

end
