(* ===== verification/Dump_Writers.thy ===== *)
theory Dump_Writers
  imports Output
begin

text \<open>
  Two of the writers of the program that dumps a hive (\<open>src/bin/reg_dump\<close>): the table of
  \<open>tsv_writer.rs\<close> and the common export format of \<open>common_writer.rs\<close>.  The progress on the console is
  not part of the model; a writer is the text it has written.
\<close>

section \<open>The table\<close>

record WriteTsv =
  wt_index :: usize
  wt_recovered_only :: bool
  wt_writer :: string

definition WriteTsv_new :: "bool \<Rightarrow> WriteTsv" where
  "WriteTsv_new recovered_only = \<lparr>wt_index = 0, wt_recovered_only = recovered_only, wt_writer = []\<rparr>"

definition get_sequence_num_string :: "u32 option \<Rightarrow> string" where
  "get_sequence_num_string seq_num = (case seq_num of Some n \<Rightarrow> show_nat (unat n) | None \<Rightarrow> [])"

definition wt_writeln :: "'z env_out_scheme \<Rightarrow> string \<Rightarrow> WriteTsv \<Rightarrow> WriteTsv result" where
  "wt_writeln N s w = bindO (writeln N s (wt_writer w)) (\<lambda>out. Ok (w\<lparr>wt_writer := out\<rparr>))"

definition write_value_tsv ::
  "'z env_out_scheme \<Rightarrow> CellKeyNode \<Rightarrow> CellKeyValue \<Rightarrow> WriteTsv \<Rightarrow> WriteTsv result" where
  "write_value_tsv N key v w =
     (if \<not> wt_recovered_only w \<or> kv_has_or_is_recovered v then
        bindO (usize_add (overflow_checks N) (wt_index w) 1) (\<lambda>index.
        let w = w\<lparr>wt_index := index\<rparr> in
        bindO (CellKeyValue_get_content v) (\<lambda>(content, _).
        wt_writeln N
          (show_nat index @ tab # escape_string (kn_path (kn key)) @ tab # tab #
           escape_string (CellKeyValue_get_pretty_name v) @ tab #
           escape_string (CellValue_display N content) @ tab # tab #
           CellState_debug (kv_cell_state (kv v)) @ tab #
           get_sequence_num_string (kv_sequence_num (kv v)) @ tab #
           get_sequence_num_string (kv_updated_by_sequence_num (kv v)) @ tab # tab # tab #
           CellValue_get_type content @ tab # escape_string (Logs_get_string (kv_logs (kv v)))) w))
      else Ok w)"

definition write_key_line_tsv :: "'z env_out_scheme \<Rightarrow> CellKeyNode \<Rightarrow> WriteTsv \<Rightarrow> WriteTsv result" where
  "write_key_line_tsv N k w =
     bindO (usize_add (overflow_checks N) (wt_index w) 1) (\<lambda>index.
     let w = w\<lparr>wt_index := index\<rparr>;
         (flags, logs) = key_node_flags k (kn_logs (kn k));
         (acc, _) = access_flags k logs in
     wt_writeln N
       (show_nat index @ tab # escape_string (kn_path (kn k)) @ tab #
        show_nat (length (cell_sub_key_offsets_absolute (kn k))) @ tab # tab # tab #
        format_date_time N (last_key_written_date_and_time k) @ tab #
        CellState_debug (kn_cell_state (kn k)) @ tab #
        get_sequence_num_string (kn_sequence_num (kn k)) @ tab #
        get_sequence_num_string (kn_updated_by_sequence_num (kn k)) @ tab #
        fmt_key_node_flags N flags @ tab # fmt_access_flags N acc @ tab # tab #
        escape_string (Logs_get_string (kn_logs (kn k)))) w)"

function write_key_tsv :: "'z env_out_scheme \<Rightarrow> CellKeyNode \<Rightarrow> bool \<Rightarrow> WriteTsv \<Rightarrow> WriteTsv result" where
  "write_key_tsv N k key_modified w =
     bindO (if \<not> wt_recovered_only w \<or> kn_has_or_is_recovered k then
              bindO (write_key_line_tsv N k w) (\<lambda>w.
              foldO (\<lambda>sub_key. write_key_tsv N sub_key True) (kn_versions k) w)
            else Ok w) (\<lambda>w.
     if \<not> key_modified then
       foldO (\<lambda>v w. bindO (write_value_tsv N k v w) (foldO (write_value_tsv N k) (kv_versions v)))
         (value_iter_from k 0) w
     else Ok w)"
  by pat_completeness auto
termination
  by (relation "measure (\<lambda>(N, k, b, w). size k)") (auto simp: size_version)

declare write_key_tsv.simps [simp del]

definition tsv_header :: string where
  "tsv_header =
     ''Index'' @ tab # ''Key Path'' @ tab # ''Subkey Count'' @ tab # ''Value Name'' @ tab # ''Value Data'' @ tab #
     ''Timestamp'' @ tab # ''Status'' @ tab # ''Previous Seq Num'' @ tab # ''Modifying Seq Num'' @ tab # ''Flags'' @ tab #
     ''Access Flags'' @ tab # ''Value Type'' @ tab # ''Logs''"

definition WriteTsv_write ::
  "'z env_out_scheme \<Rightarrow> nat \<Rightarrow> nat \<Rightarrow> Parser \<Rightarrow> Filter option \<Rightarrow> WriteTsv \<Rightarrow> WriteTsv result" where
  "WriteTsv_write N depth fuel p flt w =
     bindO (wt_writeln N tsv_header w) (\<lambda>w.
     bindO (for_keys N depth fuel (new_iter p flt) (\<lambda>key. write_key_tsv N key False) w) (\<lambda>w.
     bindO (wt_writeln N (newline # ''Logs'' @ newline # replicate 11 (CHR ''-'')) w) (\<lambda>w.
     bindO (writelns N (Logs_write (info (p_state p))) (wt_writer w)) (\<lambda>out.
     Ok (w\<lparr>wt_writer := out\<rparr>)))))"

section \<open>The common export format\<close>

record WriteCommon =
  wc_writer :: string
  total_keys :: u32
  total_values :: u32
  unused_keys :: u32
  unused_values :: u32
  tx_log_deleted_keys :: u32
  tx_log_deleted_values :: u32
  tx_log_modified_keys :: u32
  tx_log_modified_values :: u32

definition get_alloc_char :: "CellState \<Rightarrow> string" where
  "get_alloc_char state =
     (case state of
        DeletedPrimaryFile \<Rightarrow> ''U''
      | DeletedPrimaryFileSlack \<Rightarrow> ''U''
      | DeletedTransactionLog \<Rightarrow> ''D''
      | ModifiedTransactionLog \<Rightarrow> ''M''
      | Allocated \<Rightarrow> ''A'')"

definition data_type_u32 :: "CellKeyValueDataTypes \<Rightarrow> u32" where
  "data_type_u32 ty = (case find (\<lambda>e. snd e = ty) DataTypes_table of Some e \<Rightarrow> fst e | None \<Rightarrow> 0)"

definition inc :: "'z env_scheme \<Rightarrow> u32 \<Rightarrow> u32 result" where
  "inc N n = add_w (overflow_checks N) n 1"

definition write_key :: "'z env_out_scheme \<Rightarrow> CellKeyNode \<Rightarrow> WriteCommon \<Rightarrow> WriteCommon result" where
  "write_key N k w =
     bindO
       (case kn_cell_state (kn k) of
          DeletedPrimaryFile \<Rightarrow> bindO (inc N (unused_keys w)) (\<lambda>n. Ok (kn_key_name (kn k), w\<lparr>unused_keys := n\<rparr>))
        | DeletedPrimaryFileSlack \<Rightarrow> bindO (inc N (unused_keys w)) (\<lambda>n. Ok (kn_key_name (kn k), w\<lparr>unused_keys := n\<rparr>))
        | Allocated \<Rightarrow>
            bindO (inc N (total_keys w)) (\<lambda>n. bindO (str_from (kn_path (kn k)) 1) (\<lambda>s. Ok (s, w\<lparr>total_keys := n\<rparr>)))
        | DeletedTransactionLog \<Rightarrow>
            bindO (inc N (tx_log_deleted_keys w)) (\<lambda>n.
            bindO (str_from (kn_path (kn k)) 1) (\<lambda>s. Ok (s, w\<lparr>tx_log_deleted_keys := n\<rparr>)))
        | ModifiedTransactionLog \<Rightarrow>
            bindO (inc N (tx_log_modified_keys w)) (\<lambda>n.
            bindO (str_from (kn_path (kn k)) 1) (\<lambda>s. Ok (s, w\<lparr>tx_log_modified_keys := n\<rparr>))))
       (\<lambda>(key_path, w).
     bindO (writeln N
       (''key,'' @ get_alloc_char (kn_cell_state (kn k)) @ '','' @ show_nat (kn_file_offset_absolute (kn k)) @ '','' @
        escape_string key_path @ '',,,,'' @ format_date_time N (last_key_written_date_and_time k)) (wc_writer w)) (\<lambda>out.
     Ok (w\<lparr>wc_writer := out\<rparr>)))"

definition write_value :: "'z env_out_scheme \<Rightarrow> CellKeyNode \<Rightarrow> CellKeyValue \<Rightarrow> WriteCommon \<Rightarrow> WriteCommon result" where
  "write_value N key v w =
     bindO
       (case kv_cell_state (kv v) of
          DeletedPrimaryFile \<Rightarrow> bindO (inc N (unused_values w)) (\<lambda>n. Ok ([], w\<lparr>unused_values := n\<rparr>))
        | DeletedPrimaryFileSlack \<Rightarrow> bindO (inc N (unused_values w)) (\<lambda>n. Ok ([], w\<lparr>unused_values := n\<rparr>))
        | Allocated \<Rightarrow> bindO (inc N (total_values w)) (\<lambda>n. Ok (kn_key_name (kn key), w\<lparr>total_values := n\<rparr>))
        | DeletedTransactionLog \<Rightarrow>
            bindO (inc N (tx_log_deleted_values w)) (\<lambda>n. Ok (kn_key_name (kn key), w\<lparr>tx_log_deleted_values := n\<rparr>))
        | ModifiedTransactionLog \<Rightarrow>
            bindO (inc N (tx_log_modified_values w)) (\<lambda>n. Ok (kn_key_name (kn key), w\<lparr>tx_log_modified_values := n\<rparr>)))
       (\<lambda>(key_name, w).
     bindO (writeln N
       (''value,'' @ get_alloc_char (kv_cell_state (kv v)) @ '','' @ show_nat (kv_file_offset_absolute (kv v)) @ '','' @
        escape_string key_name @ '','' @ escape_string (CellKeyValue_get_pretty_name v) @ '','' @
        show_nat (unat (data_type_u32 (kv_data_type (kv v)))) @ '','' @
        to_hex_string (vec_or_default (field_value (kvd_value_bytes (kv_detail (kv v))))) @ '','') (wc_writer w)) (\<lambda>out.
     Ok (w\<lparr>wc_writer := out\<rparr>)))"

definition common_header :: "string list" where
  \<open>common_header =
     [''## Registry common export format'',
      ''## Key format'',
      ''## key,Is Free,Absolute offset in decimal,KeyPath,,,,LastWriteTime in UTC'',
      ''## Value format'',
      ''## value,Is Free,Absolute offset in decimal,KeyPath,Value name,Data type (as decimal integer),Value data as bytes separated by a singe space,'',
      ''## "Is Free" interpretation: A for in use, U for unused from the primary file, D for deleted from the transaction log, M for modified from the transaction log'',
      ''##'',
      ''## Comparison of unused keys/values is done to compare recovery of vk and nk records, not the algorithm used to associate unused keys to other keys and their values.'',
      ''## When including unused keys, only the recovered key name should be included, not the full path to the unused key.'',
      ''## When including unused values, do not include the parent key information.'',
      ''##'',
      ''## The following totals should also be included'',
      ''##'',
      ''## total_keys: total in use key count'',
      ''## total_values: total in use value count'',
      ''## total_unused_keys: total free key count (recovered from primary file)'',
      ''## total_unused_values: total free value count (recovered from primary file)'',
      ''## total_deleted_from_transaction_log_keys: total deleted key count (recovered from transaction logs)'',
      ''## total_deleted_from_transaction_log_values: total deleted value count (recovered from transaction logs)'',
      ''## total_modified_from_transaction_log_keys: total modified key count (recovered from transaction logs)'',
      ''## total_modified_from_transaction_log_values: total modified value count (recovered from transaction logs)'',
      ''##'',
      ''## Before comparison with other common export implementations, the files should be sorted'',
      ''##'']\<close>

text \<open>The items of a key: its versions follow it, and the versions of a value follow the value.\<close>

definition common_write_items :: "'z env_out_scheme \<Rightarrow> CellKeyNode \<Rightarrow> WriteCommon \<Rightarrow> WriteCommon result" where
  "common_write_items N key w =
     bindO (write_key N key w) (\<lambda>w.
     bindO (foldO (write_key N) (kn_versions key) w) (\<lambda>w.
     foldO (\<lambda>v w. bindO (write_value N key v w) (foldO (write_value N key) (kv_versions v))) (value_iter_from key 0) w))"

definition common_totals :: "WriteCommon \<Rightarrow> string list" where
  "common_totals w =
     [''## total_keys: '' @ show_nat (unat (total_keys w)),
      ''## total_values: '' @ show_nat (unat (total_values w)),
      ''## total_unused_keys: '' @ show_nat (unat (unused_keys w)),
      ''## total_unused_values: '' @ show_nat (unat (unused_values w)),
      ''## total_deleted_from_transaction_log_keys: '' @ show_nat (unat (tx_log_deleted_keys w)),
      ''## total_deleted_from_transaction_log_values: '' @ show_nat (unat (tx_log_deleted_values w)),
      ''## total_modified_from_transaction_log_keys: '' @ show_nat (unat (tx_log_modified_keys w)),
      ''## total_modified_from_transaction_log_values: '' @ show_nat (unat (tx_log_modified_values w))]"

definition WriteCommon_write ::
  "'z env_out_scheme \<Rightarrow> nat \<Rightarrow> nat \<Rightarrow> Parser \<Rightarrow> Filter option \<Rightarrow> string result" where
  "WriteCommon_write N depth fuel p flt =
     bindO (writeln N (join_strings [newline] common_header) []) (\<lambda>out.
     bindO (for_keys N depth fuel (new_iter p flt) (common_write_items N)
       \<lparr>wc_writer = out, total_keys = 0, total_values = 0, unused_keys = 0, unused_values = 0, tx_log_deleted_keys = 0,
        tx_log_deleted_values = 0, tx_log_modified_keys = 0, tx_log_modified_values = 0\<rparr>) (\<lambda>w.
     writelns N (common_totals w) (wc_writer w)))"

end
