(* ===== verification/Dump_Facts.thy ===== *)
theory Dump_Facts
  imports Dump_Writers Compare_Facts
begin

text \<open>
  What the written tables say: a reader that respects quotes gets back every row of the table with its
  number and its cells, and the totals of the common export format are the numbers of its lines.
\<close>

section \<open>A reader that respects quotes\<close>

text \<open>A separator inside quotes does not separate; the flag says whether a quote is open.\<close>

definition quote :: char where "quote = CHR 0x22"

fun split_q :: "char \<Rightarrow> bool \<Rightarrow> string \<Rightarrow> string list" where
  "split_q c q [] = [[]]"
| "split_q c q (x # xs) =
     (if x = c \<and> \<not> q then [] # split_q c q xs
      else (case split_q c (if x = quote then \<not> q else q) xs of [] \<Rightarrow> [[x]] | s # ss \<Rightarrow> (x # s) # ss))"

primrec open_after :: "bool \<Rightarrow> string \<Rightarrow> bool" where
  "open_after q [] = q"
| "open_after q (x # xs) = open_after (if x = quote then \<not> q else q) xs"

primrec covered :: "char set \<Rightarrow> bool \<Rightarrow> string \<Rightarrow> bool" where
  "covered S q [] = True"
| "covered S q (x # xs) = ((x \<in> S \<longrightarrow> q) \<and> covered S (if x = quote then \<not> q else q) xs)"

definition balanced :: "char set \<Rightarrow> string \<Rightarrow> bool" where
  "balanced S s \<longleftrightarrow> covered S False s \<and> \<not> open_after False s"

lemma open_after_append [simp]: "open_after q (s @ t) = open_after (open_after q s) t"
  by (induction s arbitrary: q) simp_all

lemma covered_append [simp]: "covered S q (s @ t) \<longleftrightarrow> covered S q s \<and> covered S (open_after q s) t"
  by (induction s arbitrary: q) auto

lemma split_q_piece:
  "covered {c} q s \<Longrightarrow> \<not> open_after q s \<Longrightarrow> split_q c q (s @ c # t) = s # split_q c False t"
  by (induction s arbitrary: q) (auto split: list.splits)

lemma split_q_last: "covered {c} q s \<Longrightarrow> split_q c q s = [s]"
  by (induction s arbitrary: q) (auto split: list.splits)

lemma covered_mono: "covered S q s \<Longrightarrow> T \<subseteq> S \<Longrightarrow> covered T q s"
  by (induction s arbitrary: q) auto

lemma balanced_mono: "balanced S s \<Longrightarrow> T \<subseteq> S \<Longrightarrow> balanced T s"
  by (auto simp: balanced_def dest: covered_mono)

lemma balanced_append: "balanced S s \<Longrightarrow> balanced S t \<Longrightarrow> balanced S (s @ t)"
  by (simp add: balanced_def)

lemma balanced_Nil [simp]: "balanced S []"
  by (simp add: balanced_def)

lemma balanced_Cons: "c \<notin> S \<Longrightarrow> c \<noteq> quote \<Longrightarrow> balanced S (c # s) = balanced S s"
  by (simp add: balanced_def)

lemma balanced_plain: "set s \<inter> insert quote S = {} \<Longrightarrow> balanced S s"
  by (induction s) (auto simp: balanced_def)

lemma split_q_unlines:
  "list_all (balanced {newline}) ls \<Longrightarrow> split_q newline False (unlines ls @ t) = ls @ split_q newline False t"
  by (induction ls) (simp_all add: balanced_def split_q_piece)

text \<open>An escaped string keeps its separators between quotes.\<close>

definition separators :: "char set" where "separators = {CHR 9, CHR 10, CHR 0x2C}"

lemma doubled_quotes:
  "quote \<notin> S \<Longrightarrow> covered S True (concat (map (\<lambda>c. if c = CHR 0x22 then [CHR 0x22, CHR 0x22] else [c]) s)) \<and>
     open_after True (concat (map (\<lambda>c. if c = CHR 0x22 then [CHR 0x22, CHR 0x22] else [c]) s))"
  by (induction s) (auto simp: quote_def)

lemma balanced_escape: "balanced separators (escape_string s)"
proof (cases "list_ex (\<lambda>c. c \<in> {CHR 9, CHR 13, CHR 10, CHR 0x2C, CHR 0x22}) s")
  case True
  have q: "quote \<notin> separators" by (simp add: separators_def quote_def)
  have "escape_string s = quote # concat (map (\<lambda>c. if c = CHR 0x22 then [CHR 0x22, CHR 0x22] else [c]) s) @ [quote]"
    using True by (simp add: escape_string_def quote_def)
  with doubled_quotes [OF q, of s] q show ?thesis by (simp add: balanced_def)
next
  case False
  then have "escape_string s = s" by (simp add: escape_string_def)
  moreover have "set s \<inter> insert quote separators = {}"
    using False by (auto simp: list_ex_iff separators_def quote_def)
  ultimately show ?thesis by (simp add: balanced_plain)
qed

text \<open>Cells that are joined by a separator.\<close>

lemma split_q_join:
  "fs \<noteq> [] \<Longrightarrow> list_all (balanced {c}) fs \<Longrightarrow> split_q c False (join_strings [c] fs) = fs"
proof (induction fs)
  case Nil
  then show ?case by simp
next
  case (Cons f fs)
  then show ?case by (cases "fs = []") (simp_all add: balanced_def split_q_last split_q_piece)
qed

lemma balanced_join:
  "c \<notin> S \<Longrightarrow> c \<noteq> quote \<Longrightarrow> list_all (balanced S) fs \<Longrightarrow> balanced S (join_strings [c] fs)"
  by (induction fs) (auto simp: balanced_append balanced_Cons)

lemma csv_unescape_plain: "quote \<notin> set s \<Longrightarrow> csv_unescape s = s"
  by (cases s) (auto simp: csv_unescape_def quote_def)

section \<open>The rows of the table\<close>

datatype dump_row = KeyRow CellKeyNode | ValueRow CellKeyNode CellKeyValue

function version_rows :: "bool \<Rightarrow> CellKeyNode \<Rightarrow> dump_row list" where
  "version_rows recovered_only k =
     (if \<not> recovered_only \<or> kn_has_or_is_recovered k
      then KeyRow k # concat (map (version_rows recovered_only) (kn_versions k)) else [])"
  by pat_completeness auto
termination
  by (relation "measure (\<lambda>(b, k). size k)") (auto simp: size_version)

declare version_rows.simps [simp del]

definition value_row :: "bool \<Rightarrow> CellKeyNode \<Rightarrow> CellKeyValue \<Rightarrow> dump_row list" where
  "value_row recovered_only k v = (if \<not> recovered_only \<or> kv_has_or_is_recovered v then [ValueRow k v] else [])"

definition tsv_rows :: "bool \<Rightarrow> CellKeyNode \<Rightarrow> dump_row list" where
  "tsv_rows recovered_only k =
     version_rows recovered_only k @
     concat (map (\<lambda>v. value_row recovered_only k v @ concat (map (value_row recovered_only k) (kv_versions v)))
       (kn_sub_values (kn k)))"

definition content_of :: "CellKeyValue \<Rightarrow> CellValue" where
  "content_of v = (case CellKeyValue_get_content v of Ok (content, _) \<Rightarrow> content | _ \<Rightarrow> CV_None)"

lemma get_content_of: "\<exists>l. CellKeyValue_get_content v = Ok (content_of v, l)"
  using get_content_total [of v] by (auto simp: content_of_def)

text \<open>The cells of a row behind its number, as they are meant and as they are written.\<close>

fun tsv_cells :: "'z env_out_scheme \<Rightarrow> (string \<Rightarrow> string) \<Rightarrow> dump_row \<Rightarrow> string list" where
  "tsv_cells N esc (KeyRow k) =
     (let (flags, logs) = key_node_flags k (kn_logs (kn k)); (acc, _) = access_flags k logs in
      [esc (kn_path (kn k)), show_nat (length (cell_sub_key_offsets_absolute (kn k))), [], [],
       format_date_time N (last_key_written_date_and_time k), CellState_debug (kn_cell_state (kn k)),
       get_sequence_num_string (kn_sequence_num (kn k)), get_sequence_num_string (kn_updated_by_sequence_num (kn k)),
       fmt_key_node_flags N flags, fmt_access_flags N acc, [], esc (Logs_get_string (kn_logs (kn k)))])"
| "tsv_cells N esc (ValueRow k v) =
     [esc (kn_path (kn k)), [], esc (CellKeyValue_get_pretty_name v), esc (CellValue_display N (content_of v)), [],
      CellState_debug (kv_cell_state (kv v)), get_sequence_num_string (kv_sequence_num (kv v)),
      get_sequence_num_string (kv_updated_by_sequence_num (kv v)), [], [], CellValue_get_type (content_of v),
      esc (Logs_get_string (kv_logs (kv v)))]"

definition tsv_line :: "'z env_out_scheme \<Rightarrow> nat \<Rightarrow> dump_row \<Rightarrow> string" where
  "tsv_line N i r = join_strings [tab] (show_nat i # tsv_cells N escape_string r)"

primrec tsv_lines :: "'z env_out_scheme \<Rightarrow> nat \<Rightarrow> dump_row list \<Rightarrow> string list" where
  "tsv_lines N i [] = []"
| "tsv_lines N i (r # rs) = tsv_line N (Suc i) r # tsv_lines N (Suc i) rs"

lemma tsv_lines_append: "tsv_lines N i (rs @ ss) = tsv_lines N i rs @ tsv_lines N (i + length rs) ss"
  by (induction rs arbitrary: i) simp_all

lemma length_tsv_lines [simp]: "length (tsv_lines N i rs) = length rs"
  by (induction rs arbitrary: i) simp_all

section \<open>Writing the rows\<close>

definition after_rows :: "'z env_out_scheme \<Rightarrow> dump_row list \<Rightarrow> WriteTsv \<Rightarrow> WriteTsv" where
  "after_rows N rs w = w\<lparr>wt_index := wt_index w + length rs, wt_writer := wt_writer w @ unlines (tsv_lines N (wt_index w) rs)\<rparr>"

definition emits :: "'z env_out_scheme \<Rightarrow> bool \<Rightarrow> dump_row list \<Rightarrow> (WriteTsv \<Rightarrow> WriteTsv result) \<Rightarrow> bool" where
  "emits N recovered_only rs f \<longleftrightarrow>
     (\<forall>w. wt_recovered_only w = recovered_only \<longrightarrow> wt_index w + length rs < 2 ^ 64 \<longrightarrow> f w = Ok (after_rows N rs w))"

lemma after_rows_simps [simp]:
  "wt_recovered_only (after_rows N rs w) = wt_recovered_only w" "wt_index (after_rows N rs w) = wt_index w + length rs"
  "after_rows N [] w = w" "after_rows N ss (after_rows N rs w) = after_rows N (rs @ ss) w"
  by (simp_all add: after_rows_def tsv_lines_append)

lemma emits_Nil: "emits N b [] Ok"
  by (simp add: emits_def)

lemma emits_bind: "emits N b rs f \<Longrightarrow> emits N b ss g \<Longrightarrow> emits N b (rs @ ss) (\<lambda>w. bindO (f w) g)"
  by (simp add: emits_def)

lemma emits_fold: "(\<And>x. x \<in> set xs \<Longrightarrow> emits N b (g x) (f x)) \<Longrightarrow> emits N b (concat (map g xs)) (foldO f xs)"
proof (induction xs)
  case Nil
  then show ?case by (simp add: emits_def)
next
  case (Cons x xs)
  have "emits N b (g x @ concat (map g xs)) (\<lambda>w. bindO (f x w) (foldO f xs))"
    by (rule emits_bind) (use Cons in auto)
  then show ?case by simp
qed

context reliable_output
begin

lemma wt_writeln_Ok [simp]: "wt_writeln N s w = Ok (w\<lparr>wt_writer := wt_writer w @ s @ [newline]\<rparr>)"
  by (simp add: wt_writeln_def)

lemma emits_value: "emits N b (value_row b k v) (write_value_tsv N k v)"
  using get_content_of [of v]
  by (auto simp: emits_def value_row_def write_value_tsv_def after_rows_def tsv_line_def Let_def)

lemma emits_key_line: "emits N b [KeyRow k] (write_key_line_tsv N k)"
  by (auto simp: emits_def write_key_line_tsv_def after_rows_def tsv_line_def Let_def case_prod_beta)

lemma emits_values:
  "emits N b (concat (map (\<lambda>v. value_row b k v @ concat (map (value_row b k) (kv_versions v))) (kn_sub_values (kn k))))
     (foldO (\<lambda>v w. bindO (write_value_tsv N k v w) (foldO (write_value_tsv N k) (kv_versions v))) (value_iter_from k 0))"
  unfolding value_iter by (intro emits_fold emits_bind emits_value)

lemma emits_key_tsv:
  "emits N b (version_rows b k @ (if modified then [] else
       concat (map (\<lambda>v. value_row b k v @ concat (map (value_row b k) (kv_versions v))) (kn_sub_values (kn k)))))
     (write_key_tsv N k modified)"
proof (induction "size k" arbitrary: k modified rule: less_induct)
  case less
  have sub: "emits N b (version_rows b v) (write_key_tsv N v True)" if "v \<in> set (kn_versions k)" for v
    using less [OF size_version [OF that], of True] by simp
  have keys: "emits N b (version_rows b k) (\<lambda>w. if \<not> wt_recovered_only w \<or> kn_has_or_is_recovered k then
              bindO (write_key_line_tsv N k w) (\<lambda>w. foldO (\<lambda>sub_key. write_key_tsv N sub_key True) (kn_versions k) w)
            else Ok w)"
  proof (cases "\<not> b \<or> kn_has_or_is_recovered k")
    case True
    have "emits N b ([KeyRow k] @ concat (map (version_rows b) (kn_versions k)))
        (\<lambda>w. bindO (write_key_line_tsv N k w) (foldO (\<lambda>sub_key. write_key_tsv N sub_key True) (kn_versions k)))"
      by (intro emits_bind emits_key_line emits_fold sub)
    with True show ?thesis by (auto simp: emits_def version_rows.simps [of b k])
  next
    case False
    then have "version_rows b k = []" by (subst version_rows.simps) simp
    with False show ?thesis by (simp add: emits_def)
  qed
  have "emits N b (version_rows b k @ (if modified then [] else
       concat (map (\<lambda>v. value_row b k v @ concat (map (value_row b k) (kv_versions v))) (kn_sub_values (kn k)))))
     (\<lambda>w. bindO (if \<not> wt_recovered_only w \<or> kn_has_or_is_recovered k then
              bindO (write_key_line_tsv N k w) (\<lambda>w. foldO (\<lambda>sub_key. write_key_tsv N sub_key True) (kn_versions k) w)
            else Ok w) (\<lambda>w. if \<not> modified then
       foldO (\<lambda>v w. bindO (write_value_tsv N k v w) (foldO (write_value_tsv N k) (kv_versions v))) (value_iter_from k 0) w
     else Ok w))"
  proof (rule emits_bind [OF keys])
    show "emits N b (if modified then [] else
       concat (map (\<lambda>v. value_row b k v @ concat (map (value_row b k) (kv_versions v))) (kn_sub_values (kn k))))
       (\<lambda>w. if \<not> modified then
       foldO (\<lambda>v w. bindO (write_value_tsv N k v w) (foldO (write_value_tsv N k) (kv_versions v))) (value_iter_from k 0) w
     else Ok w)"
      using emits_values [of b k] by (cases modified) (simp_all add: emits_def del: value_iter)
  qed
  then show ?case by (simp add: emits_def write_key_tsv.simps [of N k modified])
qed

lemma emits_keys: "emits N b (concat (map (tsv_rows b) ks)) (foldO (\<lambda>key. write_key_tsv N key False) ks)"
  unfolding tsv_rows_def using emits_key_tsv [of b _ False] by (intro emits_fold) simp

text \<open>Every cell that is written without quotes has no separator in it.\<close>

lemma written_cells:
  "list_all (balanced separators) (show_nat i # tsv_cells N escape_string r) \<and>
   map csv_unescape (show_nat i # tsv_cells N escape_string r) = show_nat i # tsv_cells N (\<lambda>s. s) r"
proof -
  have plain: "balanced separators s \<and> csv_unescape s = s" if "set s \<inter> {CHR 9, CHR 10, CHR 0x22, CHR 0x2C} = {}" for s
    using that by (auto intro!: balanced_plain csv_unescape_plain simp: separators_def quote_def)
  have st: "balanced separators (CellState_debug x) \<and> csv_unescape (CellState_debug x) = CellState_debug x" for x
    by (rule plain) (cases x; simp)
  have ty: "balanced separators (CellValue_get_type x) \<and> csv_unescape (CellValue_get_type x) = CellValue_get_type x" for x
    by (rule plain) (cases x; simp)
  have sn: "balanced separators (get_sequence_num_string x) \<and> csv_unescape (get_sequence_num_string x) = get_sequence_num_string x" for x
    by (rule plain) (use show_nat_separators in \<open>auto simp: get_sequence_num_string_def split: option.splits\<close>)
  have nil: "csv_unescape [] = []" by (simp add: csv_unescape_def)
  note facts = plain [OF show_nat_separators] plain [OF date_plain] plain [OF key_flags_plain] plain [OF access_flags_plain]
    st ty sn nil balanced_escape csv_unescape_escape
  show ?thesis by (cases r) (simp_all add: facts Let_def case_prod_beta)
qed

lemma tsv_line_reads_back:
  "map csv_unescape (split_q tab False (tsv_line N i r)) = show_nat i # tsv_cells N (\<lambda>s. s) r"
  "balanced {newline} (tsv_line N i r)"
proof -
  let ?fs = "show_nat i # tsv_cells N escape_string r"
  have b: "list_all (balanced {tab}) ?fs" "list_all (balanced {newline}) ?fs"
    using written_cells [of i r] balanced_mono [of separators] by (auto simp: list_all_iff separators_def tab_def newline_def)
  from split_q_join [OF _ b(1)] written_cells [of i r] show "map csv_unescape (split_q tab False (tsv_line N i r)) = show_nat i # tsv_cells N (\<lambda>s. s) r"
    by (simp add: tsv_line_def)
  show "balanced {newline} (tsv_line N i r)"
    unfolding tsv_line_def by (rule balanced_join [OF _ _ b(2)]) (simp_all add: tab_def newline_def quote_def)
qed

lemma tsv_lines_read_back:
  "list_all (balanced {newline}) (tsv_lines N i rs)"
  "map (\<lambda>l. map csv_unescape (split_q tab False l)) (tsv_lines N i rs) =
     map (\<lambda>(j, r). show_nat j # tsv_cells N (\<lambda>s. s) r) (enumerate (Suc i) rs)"
  by (induction rs arbitrary: i) (simp_all add: tsv_line_reads_back)

end

text \<open>
  C15: the table that the dump of a hive writes is read back: for every key that the iteration returns there
  is a row for the key, for its versions, and for each value with its versions (only those that are or
  have something recovered, when that is asked for); the rows are numbered from one in the order of
  the iteration, and a reader that respects quotes finds the thirteen cells of each row as they were
  meant, whatever tabs, quotes and newlines names and contents have.
\<close>

theorem tsv_table_read_back:
  assumes "reliable_output N" and "iter_all N depth fuel (new_iter p flt) = Ok ks"
    and "length (concat (map (tsv_rows recovered_only) ks)) < 2 ^ 64"
  shows "\<exists>w. WriteTsv_write N depth fuel p flt (WriteTsv_new recovered_only) = Ok w \<and>
    (let rows = concat (map (tsv_rows recovered_only) ks); records = split_q newline False (wt_writer w) in
     hd records = tsv_header \<and>
     map (\<lambda>l. map csv_unescape (split_q tab False l)) (take (length rows) (tl records)) =
       map (\<lambda>(i, r). show_nat i # tsv_cells N (\<lambda>s. s) r) (enumerate 1 rows))"
proof -
  let ?rows = "concat (map (tsv_rows recovered_only) ks)"
  let ?w = "\<lparr>wt_index = 0, wt_recovered_only = recovered_only, wt_writer = tsv_header @ [newline]\<rparr>"
  have e: "foldO (\<lambda>key. write_key_tsv N key False) ks ?w = Ok (after_rows N ?rows ?w)"
    using reliable_output.emits_keys [OF assms(1), of recovered_only ks] assms(3) by (simp add: emits_def)
  obtain t where t: "WriteTsv_write N depth fuel p flt (WriteTsv_new recovered_only) =
      Ok ((after_rows N ?rows ?w)\<lparr>wt_writer := unlines (tsv_header # tsv_lines N 0 ?rows) @ t\<rparr>)"
    using e by (simp add: WriteTsv_write_def WriteTsv_new_def reliable_output.wt_writeln_Ok [OF assms(1)]
        reliable_output.writelns_Ok [OF assms(1)] for_keys_fold [OF assms(2)] after_rows_def)
  have h: "balanced {newline} tsv_header"
    by (rule balanced_plain) (simp add: tsv_header_def quote_def newline_def tab_def)
  have s: "split_q newline False (unlines (tsv_header # tsv_lines N 0 ?rows) @ t) =
      (tsv_header # tsv_lines N 0 ?rows) @ split_q newline False t"
    by (rule split_q_unlines) (simp add: h reliable_output.tsv_lines_read_back(1) [OF assms(1)])
  show ?thesis
    unfolding t Let_def using s reliable_output.tsv_lines_read_back(2) [OF assms(1), of 0 ?rows] by simp
qed

section \<open>The common export format\<close>

definition common_rows :: "CellKeyNode \<Rightarrow> dump_row list" where
  "common_rows k = KeyRow k # map KeyRow (kn_versions k) @
     concat (map (\<lambda>v. ValueRow k v # map (ValueRow k) (kv_versions v)) (kn_sub_values (kn k)))"

fun write_row :: "'z env_out_scheme \<Rightarrow> dump_row \<Rightarrow> WriteCommon \<Rightarrow> WriteCommon result" where
  "write_row N (KeyRow k) = write_key N k"
| "write_row N (ValueRow k v) = write_value N k v"

lemma common_write_items_rows: "common_write_items N k w = foldO (write_row N) (common_rows k) w"
proof -
  have "foldO (\<lambda>v w. bindO (write_value N k v w) (foldO (write_value N k) (kv_versions v))) vs w =
      foldO (write_row N) (concat (map (\<lambda>v. ValueRow k v # map (ValueRow k) (kv_versions v)) vs)) w" for vs w
    by (induction vs arbitrary: w) (auto simp: foldO_append foldO_map bindO_assoc intro!: bindO_cong)
  then show ?thesis
    by (auto simp: common_write_items_def common_rows_def foldO_append foldO_map intro!: bindO_cong)
qed

text \<open>The rows of a kind and a state, and the line of a row.\<close>

fun row_state :: "dump_row \<Rightarrow> CellState" where
  "row_state (KeyRow k) = kn_cell_state (kn k)"
| "row_state (ValueRow k v) = kv_cell_state (kv v)"

fun is_key_row :: "dump_row \<Rightarrow> bool" where
  "is_key_row (KeyRow k) = True"
| "is_key_row (ValueRow k v) = False"

definition rows_of :: "bool \<Rightarrow> string \<Rightarrow> dump_row list \<Rightarrow> nat" where
  "rows_of key c rs = length (filter (\<lambda>r. is_key_row r = key \<and> get_alloc_char (row_state r) = c) rs)"

fun row_rest :: "'z env_out_scheme \<Rightarrow> dump_row \<Rightarrow> string" where
  "row_rest N (KeyRow k) =
     show_nat (kn_file_offset_absolute (kn k)) @ '','' @
     escape_string (if is_deleted_primary_file (kn_cell_state (kn k)) then kn_key_name (kn k) else drop 1 (kn_path (kn k))) @
     '',,,,'' @ format_date_time N (last_key_written_date_and_time k)"
| "row_rest N (ValueRow k v) =
     show_nat (kv_file_offset_absolute (kv v)) @ '','' @
     escape_string (if is_deleted_primary_file (kv_cell_state (kv v)) then [] else kn_key_name (kn k)) @ '','' @
     escape_string (CellKeyValue_get_pretty_name v) @ '','' @
     show_nat (unat (data_type_u32 (kv_data_type (kv v)))) @ '','' @
     to_hex_string (vec_or_default (field_value (kvd_value_bytes (kv_detail (kv v))))) @ '',''"

definition row_prefix :: "bool \<Rightarrow> string \<Rightarrow> string" where
  "row_prefix key c = (if key then ''key,'' else ''value,'') @ c @ '',''"

definition row_line :: "'z env_out_scheme \<Rightarrow> dump_row \<Rightarrow> string" where
  "row_line N r = row_prefix (is_key_row r) (get_alloc_char (row_state r)) @ row_rest N r"

fun path_sliced :: "dump_row \<Rightarrow> bool" where
  "path_sliced (KeyRow k) = (is_deleted_primary_file (kn_cell_state (kn k)) \<or> is_char_boundary (kn_path (kn k)) 1)"
| "path_sliced (ValueRow k v) = True"

text \<open>The writer behind rows, from a text it has already written.\<close>

definition common_state :: "'z env_out_scheme \<Rightarrow> string \<Rightarrow> dump_row list \<Rightarrow> WriteCommon" where
  "common_state N out rs =
     \<lparr>wc_writer = out @ unlines (map (row_line N) rs),
      total_keys = of_nat (rows_of True ''A'' rs), total_values = of_nat (rows_of False ''A'' rs),
      unused_keys = of_nat (rows_of True ''U'' rs), unused_values = of_nat (rows_of False ''U'' rs),
      tx_log_deleted_keys = of_nat (rows_of True ''D'' rs), tx_log_deleted_values = of_nat (rows_of False ''D'' rs),
      tx_log_modified_keys = of_nat (rows_of True ''M'' rs), tx_log_modified_values = of_nat (rows_of False ''M'' rs)\<rparr>"

lemma rows_of_le: "rows_of key c rs \<le> length rs"
  by (simp add: rows_of_def)

lemma rows_of_snoc: "rows_of key c (rs @ [r]) = rows_of key c rs + (if is_key_row r = key \<and> get_alloc_char (row_state r) = c then 1 else 0)"
  by (simp add: rows_of_def)

lemma inc_rows:
  assumes "Suc (length rs) < 2 ^ 32"
  shows "inc N (of_nat (rows_of key c rs)) = Ok (of_nat (Suc (rows_of key c rs)))"
proof -
  have "Suc (rows_of key c rs) < 2 ^ 32" using rows_of_le [of key c rs] assms by linarith
  then have "unat (of_nat (rows_of key c rs) :: u32) = rows_of key c rs" "Suc (rows_of key c rs) < 2 ^ 32"
    by (simp_all add: unat_of_nat_less)
  then show ?thesis by (simp add: inc_def add_w_def)
qed

context reliable_output
begin

lemma write_row_state:
  assumes "path_sliced r" and "Suc (length rs) < 2 ^ 32"
  shows "write_row N r (common_state N out rs) = Ok (common_state N out (rs @ [r]))"
proof (cases r)
  case (KeyRow k)
  then show ?thesis using assms
    by (cases "kn_cell_state (kn k)")
      (simp_all add: write_key_def common_state_def inc_rows rows_of_snoc get_alloc_char_def row_line_def row_prefix_def
        is_deleted_primary_file_def str_from_def)
next
  case (ValueRow k v)
  then show ?thesis using assms
    by (cases "kv_cell_state (kv v)")
      (simp_all add: write_value_def common_state_def inc_rows rows_of_snoc get_alloc_char_def row_line_def row_prefix_def
        is_deleted_primary_file_def)
qed

lemma write_rows_state:
  assumes "list_all path_sliced rs" and "length (rs0 @ rs) < 2 ^ 32"
  shows "foldO (write_row N) rs (common_state N out rs0) = Ok (common_state N out (rs0 @ rs))"
  using assms
proof (induction rs arbitrary: rs0)
  case Nil
  then show ?case by simp
next
  case (Cons r rs)
  then show ?case using Cons.IH [of "rs0 @ [r]"] by (simp add: write_row_state)
qed

lemma hex_plain: "set (to_hex_string bs) \<inter> {CHR 9, CHR 10, CHR 0x22, CHR 0x2C} = {}"
proof -
  have d: "set (hex_byte b) \<inter> {CHR 9, CHR 10, CHR 0x22, CHR 0x2C} = {}" for b
  proof -
    have "unat b div 16 < 16" "unat b mod 16 < 16" using unat_u8_less [of b] by simp_all
    moreover have "hex_digit True n \<notin> {CHR 9, CHR 10, CHR 0x22, CHR 0x2C}" if "n < 16" for n
    proof -
      have "(of_char (hex_digit True n) :: nat) \<ge> 48" using that by (simp add: hex_digit_def)
      then show ?thesis by auto
    qed
    ultimately show ?thesis by (simp add: hex_byte_eq)
  qed
  have "set (join_with '' '' (map hex_byte bs)) \<inter> {CHR 9, CHR 10, CHR 0x22, CHR 0x2C} = {}"
    by (induction bs rule: induct_list012) (use d in \<open>simp_all add: Int_Un_distrib2\<close>)
  then show ?thesis by (simp add: to_hex_string_eq)
qed

lemma row_line_balanced: "balanced {newline} (row_line N r)"
proof -
  have plain: "balanced {newline} s" if "set s \<inter> {CHR 9, CHR 10, CHR 0x22, CHR 0x2C} = {}" for s
    using that by (auto intro!: balanced_plain simp: newline_def quote_def)
  have esc: "balanced {newline} (escape_string s)" for s
    by (rule balanced_mono [OF balanced_escape]) (simp add: separators_def newline_def)
  have pre: "balanced {newline} (row_prefix key (get_alloc_char st))" for key st
    by (rule balanced_plain) (cases st; simp add: row_prefix_def get_alloc_char_def quote_def newline_def)
  have comma: "balanced {newline} (CHR '','' # s) = balanced {newline} s" for s
    by (rule balanced_Cons) (simp_all add: newline_def quote_def)
  note b = plain [OF show_nat_separators] plain [OF date_plain] plain [OF hex_plain] esc pre comma
  show ?thesis
    by (cases r) (simp_all add: row_line_def b balanced_append)
qed

end

lemma join_unlines: "ls \<noteq> [] \<Longrightarrow> join_strings [newline] ls @ [newline] = unlines ls"
  by (induction ls) auto

lemma common_header_lines:
  "list_all (\<lambda>l. take 1 l = ''#'' \<and> balanced {newline} l) common_header" "common_header \<noteq> []"
  by code_simp+

definition total_labels :: "string list" where
  "total_labels =
     [''## total_keys: '', ''## total_values: '', ''## total_unused_keys: '', ''## total_unused_values: '',
      ''## total_deleted_from_transaction_log_keys: '', ''## total_deleted_from_transaction_log_values: '',
      ''## total_modified_from_transaction_log_keys: '', ''## total_modified_from_transaction_log_values: '']"

lemma common_totals_labels:
  "common_totals w = map (\<lambda>(label, n). label @ show_nat (unat n)) (zip total_labels
     [total_keys w, total_values w, unused_keys w, unused_values w, tx_log_deleted_keys w, tx_log_deleted_values w,
      tx_log_modified_keys w, tx_log_modified_values w])"
  by (simp add: common_totals_def total_labels_def)

lemma total_labels_lines: "list_all (\<lambda>l. take 1 l = ''#'' \<and> balanced {newline} l) total_labels"
  by code_simp

lemma common_totals_lines: "list_all (\<lambda>l. take 1 l = ''#'' \<and> balanced {newline} l) (common_totals w)"
proof -
  have n: "balanced {newline} (show_nat n)" for n
    using show_nat_separators [of n] by (auto intro!: balanced_plain simp: newline_def quote_def)
  have "take 1 (l @ show_nat m) = ''#'' \<and> balanced {newline} (l @ show_nat m)" if "l \<in> set total_labels" for l m
  proof -
    have l: "take 1 l = ''#''" "balanced {newline} l" using total_labels_lines that by (auto simp: list_all_iff)
    then show ?thesis using balanced_append [OF l(2) n] by (cases l) auto
  qed
  then show ?thesis
    by (auto simp: common_totals_labels list_all_iff dest!: set_zip_leftD)
qed

definition starts_with :: "string \<Rightarrow> string \<Rightarrow> bool" where
  "starts_with p s \<longleftrightarrow> take (length p) s = p"

lemma starts_with_row:
  "starts_with (row_prefix key [c]) (row_line N r) \<longleftrightarrow> is_key_row r = key \<and> get_alloc_char (row_state r) = [c]"
proof -
  obtain x where "get_alloc_char (row_state r) = [x]"
    by (cases "row_state r") (simp_all add: get_alloc_char_def)
  then show ?thesis
    by (cases key; cases "is_key_row r") (auto simp: starts_with_def row_line_def row_prefix_def)
qed

lemma not_starts_with: "take 1 l = ''#'' \<Longrightarrow> \<not> starts_with (row_prefix key c) l" "\<not> starts_with (row_prefix key c) []"
  by (cases l; simp add: starts_with_def row_prefix_def)+

text \<open>The lines of a kind in a text are the rows of that kind.\<close>

lemma count_starts_with:
  assumes "list_all (\<lambda>l. take 1 l = ''#'') hs" and "list_all (\<lambda>l. take 1 l = ''#'') ts"
  shows "length (filter (starts_with (row_prefix key [c])) (hs @ map (row_line N) rs @ ts @ [[]])) = rows_of key [c] rs"
proof -
  have "filter (starts_with (row_prefix key [c])) ls = []" if "list_all (\<lambda>l. take 1 l = ''#'') ls" for ls
    using that not_starts_with(1) by (auto simp: list_all_iff filter_empty_conv)
  with assms show ?thesis
    by (simp add: filter_map comp_def starts_with_row rows_of_def not_starts_with(2))
qed

text \<open>
  C20: the common export of a hive ends with eight totals, and each total is the number of lines of its
  kind above it (a line is read with regard to quotes): keys and values that are in use, unused,
  deleted by a transaction log or modified by one.  There is one line for each key, each of its
  versions, each of its values and each of their versions.
\<close>

theorem common_totals_count_lines:
  assumes "reliable_output N" and "iter_all N depth fuel (new_iter p flt) = Ok ks"
    and "list_all path_sliced (concat (map common_rows ks))" and "length (concat (map common_rows ks)) < 2 ^ 32"
  shows "\<exists>out. WriteCommon_write N depth fuel p flt = Ok out \<and>
    (let records = split_q newline False out;
         n = (\<lambda>prefix. show_nat (length (filter (starts_with prefix) records)))
     in length records = length common_header + length (concat (map common_rows ks)) + 9 \<and>
        drop (length records - 9) records =
          [''## total_keys: '' @ n ''key,A,'', ''## total_values: '' @ n ''value,A,'',
           ''## total_unused_keys: '' @ n ''key,U,'', ''## total_unused_values: '' @ n ''value,U,'',
           ''## total_deleted_from_transaction_log_keys: '' @ n ''key,D,'',
           ''## total_deleted_from_transaction_log_values: '' @ n ''value,D,'',
           ''## total_modified_from_transaction_log_keys: '' @ n ''key,M,'',
           ''## total_modified_from_transaction_log_values: '' @ n ''value,M,'', []])"
proof -
  let ?rows = "concat (map common_rows ks)" and ?h = "unlines common_header"
  let ?w = "common_state N ?h ?rows"
  have "foldO (common_write_items N) ks (common_state N ?h []) = Ok ?w"
    using reliable_output.write_rows_state [OF assms(1,3), of "[]" ?h] assms(4)
    by (simp add: common_write_items_rows [abs_def] foldO_concat)
  moreover have "common_state N ?h [] =
       \<lparr>wc_writer = ?h, total_keys = 0, total_values = 0, unused_keys = 0, unused_values = 0, tx_log_deleted_keys = 0,
        tx_log_deleted_values = 0, tx_log_modified_keys = 0, tx_log_modified_values = 0\<rparr>"
    by (simp add: common_state_def rows_of_def)
  ultimately have w: "WriteCommon_write N depth fuel p flt = Ok (unlines (common_header @ map (row_line N) ?rows @ common_totals ?w))"
    by (simp add: WriteCommon_write_def reliable_output.writeln_Ok [OF assms(1)] reliable_output.writelns_Ok [OF assms(1)]
        for_keys_fold [OF assms(2)] join_unlines common_header_lines(2) common_state_def)
  define R where "R = common_header @ map (row_line N) ?rows @ common_totals ?w @ [[]]"
  have "list_all (balanced {newline}) (common_header @ map (row_line N) ?rows @ common_totals ?w)"
    using common_header_lines(1) common_totals_lines [of ?w] reliable_output.row_line_balanced [OF assms(1)]
    by (auto simp: list_all_iff)
  from split_q_unlines [OF this, of "[]"]
  have r: "split_q newline False (unlines (common_header @ map (row_line N) ?rows @ common_totals ?w)) = R"
    by (simp add: R_def)
  have c: "unat (of_nat (rows_of key c ?rows) :: u32) = rows_of key c ?rows" for key c
    using rows_of_le [of key c ?rows] assms(4) by (intro unat_of_nat_less) simp
  have f: "length (filter (starts_with (row_prefix key [c])) R) = rows_of key [c] ?rows" for key c
    unfolding R_def using common_header_lines(1) common_totals_lines [of ?w]
    by (intro count_starts_with) (auto simp: list_all_iff)
  have n: "length (filter (starts_with (''key,'' @ [c] @ '','')) R) = rows_of True [c] ?rows"
    "length (filter (starts_with (''value,'' @ [c] @ '','')) R) = rows_of False [c] ?rows" for c
    using f [of True c] f [of False c] by (simp_all only: row_prefix_def if_True if_False)
  have "length (common_totals ?w) = 8" by (simp add: common_totals_def)
  then have "length R = length common_header + length ?rows + 9" "drop (length R - 9) R = common_totals ?w @ [[]]"
    by (simp_all add: R_def)
  with w r n [of "CHR ''A''"] n [of "CHR ''U''"] n [of "CHR ''D''"] n [of "CHR ''M''"] show ?thesis
    by (simp add: Let_def common_totals_def common_state_def c)
qed

section \<open>Witnesses and a parser without a root key\<close>

definition dumped_key :: CellKeyNode where
  "dumped_key = kn_update (\<lambda>c. c\<lparr>kn_path := backslash # ''a''\<rparr>) CellKeyNode_default"

lemma dumped_key_walk: "iter_all N d 2 (new_iter (base_parser bb dumped_key) None) = Ok [dumped_key]"
  by (rule base_parser_walk)
    (simp_all add: dumped_key_def kn_update_def CellKeyNode_default_def CellKeyNodeDetail_default_def Field_init_def FieldLight_new_def)

lemma dumped_key_rows: "tsv_rows False dumped_key = [KeyRow dumped_key]" "common_rows dumped_key = [KeyRow dumped_key]"
  "path_sliced (KeyRow dumped_key)"
  by (simp_all add: tsv_rows_def version_rows.simps common_rows_def dumped_key_def kn_update_def CellKeyNode_default_def
      is_char_boundary_def)

theorem tsv_table_read_back_witness:
  "\<forall>bb. \<exists>w. WriteTsv_write env_compare_ref 1 2 (base_parser bb dumped_key) None (WriteTsv_new False) = Ok w \<and>
     map (\<lambda>l. map csv_unescape (split_q tab False l)) (take 1 (tl (split_q newline False (wt_writer w)))) =
       [show_nat 1 # tsv_cells env_compare_ref (\<lambda>s. s) (KeyRow dumped_key)]"
proof
  fix bb :: BaseBlock
  have "length (concat (map (tsv_rows False) [dumped_key])) < 2 ^ 64" by (simp add: dumped_key_rows)
  from tsv_table_read_back [OF ref_output.reliable_output_axioms dumped_key_walk [of env_compare_ref 1 bb] this]
  show "\<exists>w. WriteTsv_write env_compare_ref 1 2 (base_parser bb dumped_key) None (WriteTsv_new False) = Ok w \<and>
     map (\<lambda>l. map csv_unescape (split_q tab False l)) (take 1 (tl (split_q newline False (wt_writer w)))) =
       [show_nat 1 # tsv_cells env_compare_ref (\<lambda>s. s) (KeyRow dumped_key)]"
    by (auto simp: dumped_key_rows Let_def)
qed

theorem common_totals_count_lines_witness:
  "\<forall>bb. \<exists>out. WriteCommon_write env_compare_ref 1 2 (base_parser bb dumped_key) None = Ok out \<and>
     length (split_q newline False out) = length common_header + 10"
proof
  fix bb :: BaseBlock
  have "list_all path_sliced (concat (map common_rows [dumped_key]))" "length (concat (map common_rows [dumped_key])) < 2 ^ 32"
    using dumped_key_rows by simp_all
  from common_totals_count_lines [OF ref_output.reliable_output_axioms dumped_key_walk [of env_compare_ref 1 bb] this]
  show "\<exists>out. WriteCommon_write env_compare_ref 1 2 (base_parser bb dumped_key) None = Ok out \<and>
     length (split_q newline False out) = length common_header + 10"
    unfolding dumped_key_rows Let_def by (auto simp: dumped_key_rows)
qed

text \<open>
  A file of a type that is not supported gives a parser without a root key.  The iteration over it returns
  a default key, whose path is empty, and the common export slices the path behind its first byte.
\<close>

lemma unsupported_file_has_no_root:
  "init_base_block N p = Ok ((False, bad), q) \<Longrightarrow> p_cell_key_node_root p = None \<Longrightarrow>
     Parser_init N depth fuel recover logs p = Ok q \<and> p_cell_key_node_root q = None"
  by (auto simp: Parser_init_def init_base_block_def check_base_block_def bindO_eq_Ok Let_def p_add_info_def split: if_splits)

lemma common_dump_without_root_panics:
  assumes "reliable_output N" and "p_cell_key_node_root p = None"
  shows "WriteCommon_write N depth 2 p None = Panic"
proof -
  have m: "mark_deleted CellKeyNode_default = CellKeyNode_default"
    by (simp add: mark_deleted_def CellKeyNode_default_def)
  have k: "field_value (knd_number_of_sub_keys (kn_detail (kn CellKeyNode_default))) = 0" "kn_deleted_keys CellKeyNode_default = []"
    by (simp_all add: CellKeyNode_default_def CellKeyNodeDetail_default_def Field_init_def FieldLight_new_def)
  have "\<not> Filter_is_valid Filter_new" by (simp add: Filter_new_def Filter_is_valid_def)
  then have "iter_all N depth 2 (new_iter p None) = Ok [CellKeyNode_default]"
    using assms(2) k m
    by (simp add: numeral_2_eq_2 iter_all_def new_iter_def ParserIterator_new_def ParserIterator_next_def Let_def
        ParserIteratorContext_from_parser_def pop_stack_to_traverse_def expand_node_def push_deleted_def)
  then show ?thesis
    by (simp add: WriteCommon_write_def reliable_output.writeln_Ok [OF assms(1)] for_keys_fold common_write_items_def write_key_def
        CellKeyNode_default_def inc_def str_from_def is_char_boundary_def)
qed

end
