(* ===== verification/Xlsx_Facts.thy ===== *)
theory Xlsx_Facts
  imports Xlsx_Writer Dump_Facts
begin

text \<open>
  The spreadsheet has the cells of the table, in the same rows and columns, when the library accepts the calls
  within its documented limits (the locale \<open>limited_sheet\<close>; \<open>reliable_sheet\<close> is the one in which no call fails); a
  text that is too long for a cell is found complete in the row of the overflow sheet that its cell links to;
  and no sanitized text has a character that XML does not allow.
\<close>

locale reliable_sheet =
  fixes N :: "'z env_xlsx_scheme"
  assumes no_xlsx_error: "xlsx_error N calls call = None"
    and no_add_error: "xlsx_add_worksheet_error N name = None"
begin

lemma sheet_do_Ok [simp]: "sheet_do N call ws = Ok (ws\<lparr>ws_sheet := ws_sheet ws @ [call]\<rparr>)"
  by (simp add: sheet_do_def no_xlsx_error)

lemma add_worksheet_Ok [simp]: "add_worksheet N name = Ok WorksheetState_new"
  by (simp add: add_worksheet_def no_add_error)

lemma ws_write_Ok [simp]:
  "ws_write_string N col text ws = Ok (ws\<lparr>ws_sheet := ws_sheet ws @ [WriteString (ws_row ws) col text None]\<rparr>)"
  "ws_write_number N col num ws = Ok (ws\<lparr>ws_sheet := ws_sheet ws @ [WriteNumber (ws_row ws) col num]\<rparr>)"
  by (simp_all add: ws_write_string_def ws_write_number_def)

end

section \<open>Characters\<close>

definition wf_chars :: "string list \<Rightarrow> bool" where
  "wf_chars gs \<longleftrightarrow> list_all (\<lambda>g. g \<noteq> [] \<and> list_all is_continuation (tl g)) gs \<and>
     list_all (\<lambda>g. \<not> is_continuation (hd g)) (tl gs)"

lemma takeWhile_next: "list_all P xs \<Longrightarrow> ys = [] \<or> \<not> P (hd ys) \<Longrightarrow> takeWhile P (xs @ ys) = xs \<and> dropWhile P (xs @ ys) = ys"
  by (cases ys) (auto simp: list_all_iff takeWhile_append dropWhile_append)

lemma str_chars_concat: "wf_chars gs \<Longrightarrow> str_chars (concat gs) = gs"
proof (induction gs)
  case Nil
  then show ?case by simp
next
  case (Cons g gs)
  from Cons.prems obtain c t where g: "g = c # t" "list_all is_continuation t" by (cases g) (auto simp: wf_chars_def)
  have wf: "wf_chars gs" using Cons.prems by (cases gs) (auto simp: wf_chars_def)
  have "concat gs = [] \<or> \<not> is_continuation (hd (concat gs))"
    using Cons.prems by (cases gs) (auto simp: wf_chars_def)
  from takeWhile_next [OF g(2) this] Cons.IH [OF wf] show ?case by (simp add: g(1))
qed

lemma wf_str_chars: "wf_chars (str_chars s)"
proof (induction s rule: str_chars.induct)
  case 1
  then show ?case by (simp add: wf_chars_def)
next
  case (2 c s)
  have "dropWhile is_continuation s = [] \<or> \<not> is_continuation (hd (dropWhile is_continuation s))"
    using hd_dropWhile by blast
  then have "list_all (\<lambda>g. \<not> is_continuation (hd g)) (str_chars (dropWhile is_continuation s))"
    using 2 by (cases "dropWhile is_continuation s") (simp_all add: wf_chars_def del: dropWhile_eq_Nil_conv)
  moreover have "list_all is_continuation (takeWhile is_continuation s)"
    by (auto simp: list_all_iff dest: set_takeWhileD)
  ultimately show ?case using 2 by (simp add: wf_chars_def)
qed

lemma wf_chars_take: "wf_chars gs \<Longrightarrow> wf_chars (take n gs)"
  by (cases gs; cases n) (auto simp: wf_chars_def list_all_iff dest: in_set_takeD)

lemma str_chars_take: "str_chars (concat (take n (str_chars s))) = take n (str_chars s)"
  by (rule str_chars_concat [OF wf_chars_take [OF wf_str_chars]])

lemma length_str_chars: "length (str_chars s) \<le> length s"
proof (induction s rule: str_chars.induct)
  case (2 c s)
  have "length (dropWhile is_continuation s) \<le> length s" by (rule length_dropWhile_le)
  with 2 show ?case by simp
qed simp

section \<open>Pieces of a long text\<close>

lemma concat_chunks: "concat (full_val_chunks val) = val"
proof (induction val rule: full_val_chunks.induct)
  case (1 val)
  show ?case
  proof (cases "val = []")
    case False
    obtain a b where ab: "safe_split_at val MAX_EXCEL_CELL_LEN = (a, b)" by (cases "safe_split_at val MAX_EXCEL_CELL_LEN")
    then have "a @ b = val" using split_parts [of val MAX_EXCEL_CELL_LEN] by simp
    with 1 [OF False refl ab [symmetric]] show ?thesis using False by (simp add: full_val_chunks.simps [of val] ab)
  qed (simp add: full_val_chunks.simps)
qed

lemma split_chars: "length (str_chars (fst (safe_split_at val n))) \<le> n"
  by (simp add: safe_split_at_def Let_def str_chars_take)

lemma chunk_sizes: "c \<in> set (full_val_chunks val) \<Longrightarrow> length (str_chars c) \<le> MAX_EXCEL_CELL_LEN"
proof (induction val rule: full_val_chunks.induct)
  case (1 val)
  show ?case
  proof (cases "val = []")
    case True
    then show ?thesis using "1.prems" by (simp add: full_val_chunks.simps [of "[]"])
  next
    case False
    obtain a b where ab: "safe_split_at val MAX_EXCEL_CELL_LEN = (a, b)" by (cases "safe_split_at val MAX_EXCEL_CELL_LEN")
    have "length (str_chars a) \<le> MAX_EXCEL_CELL_LEN" using split_chars [of val MAX_EXCEL_CELL_LEN] by (simp add: ab)
    with "1.IH" [OF False refl ab [symmetric]] "1.prems" show ?thesis
      using False by (auto simp: full_val_chunks.simps [of val] ab)
  qed
qed

lemma length_concat_ge: "list_all (\<lambda>g. g \<noteq> []) gs \<Longrightarrow> length gs \<le> length (concat gs)"
proof (induction gs)
  case (Cons g gs)
  then have "1 \<le> length g" "length gs \<le> length (concat gs)" by (simp_all add: Suc_le_eq)
  then have "1 + length gs \<le> length g + length (concat gs)" by (rule add_mono)
  then show ?case by simp
qed simp

lemma split_full:
  assumes "snd (safe_split_at val n) \<noteq> []"
  shows "n + length (snd (safe_split_at val n)) \<le> length val"
proof -
  let ?o = "min n (length val)"
  have ne: "list_all (\<lambda>g. g \<noteq> []) (str_chars val)" using wf_str_chars [of val] by (auto simp: wf_chars_def list_all_iff)
  have "drop ?o (str_chars val) \<noteq> []" using assms by (auto simp: safe_split_at_def Let_def)
  then have "?o < length (str_chars val)" by (meson drop_all not_le)
  then have o: "?o = n" "length (take ?o (str_chars val)) = n" using length_str_chars [of val] by auto
  have "list_all (\<lambda>g. g \<noteq> []) (take ?o (str_chars val))" using ne by (auto simp: list_all_iff dest: in_set_takeD)
  from length_concat_ge [OF this] o have "n \<le> length (fst (safe_split_at val n))" by (simp add: safe_split_at_def Let_def)
  moreover have "length (fst (safe_split_at val n)) + length (snd (safe_split_at val n)) = length val"
    by (metis length_append split_parts)
  ultimately show ?thesis by linarith
qed

lemma chunk_count: "length (full_val_chunks val) * MAX_EXCEL_CELL_LEN < length val + MAX_EXCEL_CELL_LEN"
proof (induction val rule: full_val_chunks.induct)
  case (1 val)
  show ?case
  proof (cases "val = []")
    case True
    then show ?thesis by (simp add: full_val_chunks.simps MAX_EXCEL_CELL_LEN_def)
  next
    case False
    obtain a b where ab: "safe_split_at val MAX_EXCEL_CELL_LEN = (a, b)" by (cases "safe_split_at val MAX_EXCEL_CELL_LEN")
    have n: "length (full_val_chunks val) = Suc (length (full_val_chunks b))"
      using False by (simp add: full_val_chunks.simps [of val] ab)
    show ?thesis
    proof (cases "b = []")
      case True
      with n False show ?thesis by (simp add: full_val_chunks.simps [of "[]"])
    next
      case False
      then have "MAX_EXCEL_CELL_LEN + length b \<le> length val" using split_full [of val MAX_EXCEL_CELL_LEN] by (simp add: ab)
      with n 1 [OF \<open>val \<noteq> []\<close> refl ab [symmetric]] show ?thesis by simp
    qed
  qed
qed

section \<open>The overflow sheet\<close>

text \<open>The text of a row behind its label, as the calls on a sheet have written it.\<close>

fun op_text :: "u32 \<Rightarrow> sheet_op \<Rightarrow> string" where
  "op_text r (WriteString row col text _) = (if row = r \<and> col \<noteq> 0 then text else [])"
| "op_text r _ = []"

definition row_text :: "u32 \<Rightarrow> sheet_op list \<Rightarrow> string" where
  "row_text r calls = concat (map (op_text r) calls)"

fun op_chars :: "sheet_op \<Rightarrow> nat" where
  "op_chars (WriteString row col text _) = length (str_chars text)"
| "op_chars _ = 0"

definition chunk_ops :: "u32 \<Rightarrow> nat \<Rightarrow> string list \<Rightarrow> sheet_op list" where
  "chunk_ops row col chunks = map (\<lambda>(i, c). WriteString row (of_nat i) c None) (enumerate (Suc col) chunks)"

lemma row_text_chunks: "col + length chunks < 2 ^ 16 \<Longrightarrow> row_text row (chunk_ops row col chunks) = concat chunks"
proof (induction chunks arbitrary: col)
  case Nil
  then show ?case by (simp add: row_text_def chunk_ops_def)
next
  case (Cons c chunks)
  have "unat (of_nat (Suc col) :: u16) = Suc col" using Cons.prems by (intro unat_of_nat_less) simp
  then have "(of_nat (Suc col) :: u16) \<noteq> 0" by (metis nat.distinct(1) unat_0)
  moreover have "row_text row (chunk_ops row (Suc col) chunks) = concat chunks" using Cons by simp
  ultimately show ?case by (simp add: row_text_def chunk_ops_def)
qed

lemma chunk_op_chars: "call \<in> set (chunk_ops row col (full_val_chunks val)) \<Longrightarrow> op_chars call \<le> MAX_EXCEL_CELL_LEN"
  by (auto simp: chunk_ops_def in_set_enumerate_eq intro!: chunk_sizes [of _ val] nth_mem)

lemma few_chunks: "length val \<le> 65534 * MAX_EXCEL_CELL_LEN \<Longrightarrow> length (full_val_chunks val) < 65535"
  using chunk_count [of val] by (simp add: MAX_EXCEL_CELL_LEN_def)

lemma ws_next_row_Ok: "unat (ws_row ws) + 1 < 2 ^ 32 \<Longrightarrow> ws_next_row N ws = Ok (ws\<lparr>ws_row := ws_row ws + 1\<rparr>)"
  by (simp add: ws_next_row_def)

lemma unat_next: "unat (w :: u32) + 1 < 2 ^ 32 \<Longrightarrow> unat (w + 1) = unat w + 1"
  by (simp add: unat_word_ariths)

context reliable_sheet
begin

lemma write_chunks_Ok:
  "col + length chunks < 2 ^ 16 \<Longrightarrow>
     write_chunks N col chunks ws = Ok (ws\<lparr>ws_sheet := ws_sheet ws @ chunk_ops (ws_row ws) col chunks\<rparr>)"
  by (induction chunks arbitrary: col ws) (simp_all add: chunk_ops_def)

lemma handle_overflow_Ok:
  assumes "MAX_EXCEL_CELL_LEN < length val" and "length val \<le> 65534 * MAX_EXCEL_CELL_LEN" and "unat (ws_row ov) + 1 < 2 ^ 32"
  shows "write_string_handle_overflow N col val fmt (ws, ov) =
    (let label = '' [truncated; row: '' @ show_nat (unat (ws_row ov) + 1) @ '']'' in
     Ok (ws\<lparr>ws_sheet := ws_sheet ws @
              [WriteUrl (ws_row ws) col (''internal:Overflow!A'' @ show_nat (unat (ws_row ov) + 1)) fmt,
               WriteString (ws_row ws) col (safe_truncate val MAX_TRUNCATED_CHARS @ label) (Some fmt)]\<rparr>,
         ov\<lparr>ws_sheet := ws_sheet ov @ WriteString (ws_row ov) 0 label None # chunk_ops (ws_row ov) 0 (full_val_chunks val),
            ws_row := ws_row ov + 1\<rparr>))"
proof -
  show ?thesis
    using few_chunks [OF assms(2)] assms(1,3) unat_next [OF assms(3)]
    by (simp add: write_string_handle_overflow_def Let_def write_chunks_Ok ws_next_row_Ok)
qed

end

text \<open>
  C17: a text that is too long for a cell is not lost: the row of the overflow sheet has the whole text, in
  pieces of at most 32767 characters, the cell shows the beginning of the text with the number of that
  row and links to it, and the next long text gets the next row.
\<close>

theorem long_texts_complete_in_overflow:
  assumes "reliable_sheet N" and "MAX_EXCEL_CELL_LEN < length val" and "length val \<le> 65534 * MAX_EXCEL_CELL_LEN"
    and "unat (ws_row ov) + 1 < 2 ^ 32"
  shows "\<exists>ws' ov' calls label. check_write_string N col val fmt (ws, ov) = Ok (ws', ov') \<and>
    ws_sheet ov' = ws_sheet ov @ calls \<and> row_text (ws_row ov) calls = val \<and>
    (\<forall>call\<in>set (tl calls). op_chars call \<le> MAX_EXCEL_CELL_LEN) \<and>
    label = '' [truncated; row: '' @ show_nat (unat (ws_row ov')) @ '']'' \<and>
    hd calls = WriteString (ws_row ov) 0 label None \<and> unat (ws_row ov') = unat (ws_row ov) + 1 \<and>
    ws_row ws' = ws_row ws \<and>
    ws_sheet ws' = ws_sheet ws @
      [WriteUrl (ws_row ws) col (''internal:Overflow!A'' @ show_nat (unat (ws_row ov'))) fmt,
       WriteString (ws_row ws) col (concat (take MAX_TRUNCATED_CHARS (str_chars val)) @ label) (Some fmt)]"
proof -
  let ?c = "chunk_ops (ws_row ov) 0 (full_val_chunks val)"
  have "row_text (ws_row ov) ?c = val" using few_chunks [OF assms(3)] by (simp add: row_text_chunks concat_chunks)
  moreover have "safe_truncate val MAX_TRUNCATED_CHARS = concat (take MAX_TRUNCATED_CHARS (str_chars val))"
    using assms(2) by (simp add: safe_truncate_def MAX_TRUNCATED_CHARS_def MAX_EXCEL_CELL_LEN_def)
  moreover have "val \<noteq> []" using assms(2) by auto
  moreover have "unat (ws_row ov + 1) = unat (ws_row ov) + 1" by (rule unat_next [OF assms(4)])
  ultimately show ?thesis
    using chunk_op_chars [of _ "ws_row ov" 0 val]
    by (simp add: check_write_string_def reliable_sheet.handle_overflow_Ok [OF assms] Let_def row_text_def)
qed

section \<open>What the library accepts\<close>

text \<open>
  The documented limits of a worksheet: 1048576 rows, 16384 columns, 32767 characters in a cell, 2079 in a
  link and 65530 links on a sheet; a name of a sheet has 1 to 31 characters and none of a few special ones.
\<close>

definition urls :: "sheet_op list \<Rightarrow> nat" where
  "urls calls = length (filter (\<lambda>call. case call of WriteUrl _ _ _ _ \<Rightarrow> True | _ \<Rightarrow> False) calls)"

fun within_limits :: "sheet_op list \<Rightarrow> sheet_op \<Rightarrow> bool" where
  "within_limits calls (SetColumn a b _) \<longleftrightarrow> unat a < 16384 \<and> unat b < 16384"
| "within_limits calls (SetRow row _ _) \<longleftrightarrow> unat row < 1048576"
| "within_limits calls (WriteString row col text _) \<longleftrightarrow> unat row < 1048576 \<and> unat col < 16384 \<and> length (str_chars text) \<le> 32767"
| "within_limits calls (WriteNumber row col _) \<longleftrightarrow> unat row < 1048576 \<and> unat col < 16384"
| "within_limits calls (WriteUrl row col url _) \<longleftrightarrow> unat row < 1048576 \<and> unat col < 16384 \<and> length url \<le> 2079 \<and> urls calls < 65530"
| "within_limits calls (FreezePanes _ _) \<longleftrightarrow> True"

definition sheet_name_ok :: "string \<Rightarrow> bool" where
  "sheet_name_ok name \<longleftrightarrow> name \<noteq> [] \<and> length name \<le> 31 \<and> list_all (\<lambda>c. c \<notin> set ''[]:*?/'' \<and> c \<noteq> CHR 0x5C \<and> c \<noteq> CHR 0x27) name"

locale limited_sheet =
  fixes N :: "'z env_xlsx_scheme"
  assumes accepts: "within_limits calls call \<Longrightarrow> xlsx_error N calls call = None"
    and accepts_name: "sheet_name_ok name \<Longrightarrow> xlsx_add_worksheet_error N name = None"
begin

lemma sheet_do_within: "within_limits (ws_sheet ws) call \<Longrightarrow> sheet_do N call ws = Ok (ws\<lparr>ws_sheet := ws_sheet ws @ [call]\<rparr>)"
  by (simp add: sheet_do_def accepts)

lemma write_chunks_within:
  "col + length chunks < 16384 \<Longrightarrow> list_all (\<lambda>c. length (str_chars c) \<le> 32767) chunks \<Longrightarrow> unat (ws_row ws) < 1048576 \<Longrightarrow>
     write_chunks N col chunks ws = Ok (ws\<lparr>ws_sheet := ws_sheet ws @ chunk_ops (ws_row ws) col chunks\<rparr>)"
proof (induction chunks arbitrary: col ws)
  case (Cons c chunks)
  have "unat (of_nat (Suc col) :: u16) = Suc col" using Cons.prems(1) by (intro unat_of_nat_less) simp
  then show ?case using Cons by (simp add: chunk_ops_def ws_write_string_def sheet_do_within del: of_nat_Suc)
qed (simp add: chunk_ops_def)

end

sublocale reliable_sheet \<subseteq> limited_sheet
  by unfold_locales (simp_all add: no_xlsx_error no_add_error)

section \<open>Lengths of the texts\<close>

lemma length_show_nat: "n < 10 ^ Suc d \<Longrightarrow> length (show_nat n) \<le> Suc d"
proof (induction d arbitrary: n)
  case (Suc d)
  have "n div 10 < 10 ^ Suc d" using Suc.prems by (simp add: less_mult_imp_div_less mult.commute)
  from Suc.IH [OF this] show ?case by (simp add: show_nat.simps [of n])
qed (simp add: show_nat.simps)

lemma length_str_chars_eq:
  "length (str_chars s) = (case s of [] \<Rightarrow> 0 | c # t \<Rightarrow> Suc (length (filter (\<lambda>c. \<not> is_continuation c) t)))"
proof (induction s rule: str_chars.induct)
  case (2 c s)
  have f: "filter (\<lambda>c. \<not> is_continuation c) (dropWhile is_continuation s) = filter (\<lambda>c. \<not> is_continuation c) s"
    by (induction s) simp_all
  show ?case
  proof (cases "dropWhile is_continuation s")
    case Nil
    with 2 f show ?thesis by simp
  next
    case (Cons d t)
    then have "\<not> is_continuation d" by (metis hd_dropWhile list.distinct(1) list.sel(1))
    with 2 f Cons show ?thesis by (simp flip: f)
  qed
qed simp

lemma length_str_chars_append: "length (str_chars (s @ t)) \<le> length (str_chars s) + length t"
  unfolding length_str_chars_eq by (cases s; cases t) (simp_all add: le_SucI)

section \<open>The cells of a sheet\<close>

text \<open>
  A reader of a sheet: the cells that are not empty with their row, column and text, in the order in which they
  were written.  Formats, links and widths are not cells.
\<close>

type_synonym cell = "nat \<times> nat \<times> string"

definition cell :: "nat \<Rightarrow> nat \<Rightarrow> string \<Rightarrow> cell list" where
  "cell row col text = (if text = [] then [] else [(row, col, text)])"

fun op_cells :: "sheet_op \<Rightarrow> cell list" where
  "op_cells (WriteString row col text _) = cell (unat row) (unat col) text"
| "op_cells (WriteNumber row col num) = cell (unat row) (unat col) (show_nat num)"
| "op_cells _ = []"

definition written :: "sheet_op list \<Rightarrow> cell list" where
  "written calls = concat (map op_cells calls)"

text \<open>
  A cell shows a text when it has the text, or when the text is longer than 32767 bytes and the cell has its first 250
  characters and the number of the row of the overflow sheet that has all of it.
\<close>

definition shows_cell :: "WorksheetState \<Rightarrow> cell \<Rightarrow> cell \<Rightarrow> bool" where
  "shows_cell overflow = (\<lambda>(row, col, text) (row', col', val). row = row' \<and> col = col' \<and>
     (text = val \<or> 32767 < length val \<and> (\<exists>r. r < ws_row overflow \<and> row_text r (ws_sheet overflow) = val \<and>
        text = concat (take 250 (str_chars val)) @ '' [truncated; row: '' @ show_nat (unat r + 1) @ '']'')))"

text \<open>The cells of a row of texts, and the texts of the row of an item: those of the table, made legal for XML.\<close>

primrec row_cells :: "nat \<Rightarrow> nat \<Rightarrow> string list \<Rightarrow> cell list" where
  "row_cells row col [] = []"
| "row_cells row col (t # ts) = cell row col t @ row_cells row (Suc col) ts"

fun sheet_texts :: "'z env_out_scheme \<Rightarrow> dump_row \<Rightarrow> string list" where
  "sheet_texts N (KeyRow k) = tsv_cells N sanitize_for_xml_1_0 (KeyRow k)"
| "sheet_texts N (ValueRow k v) = (tsv_cells N sanitize_for_xml_1_0 (ValueRow k v))
     [3 := (case content_of v of CV_String s \<Rightarrow> sanitize_for_xml_1_0 s | c \<Rightarrow> CellValue_display N c)]"

primrec table_cells :: "'z env_out_scheme \<Rightarrow> nat \<Rightarrow> dump_row list \<Rightarrow> cell list" where
  "table_cells N i [] = []"
| "table_cells N i (r # rs) = row_cells (Suc i) 0 (show_nat (Suc i) # sheet_texts N r) @ table_cells N (Suc i) rs"

definition sheet_titles :: "string list" where
  "sheet_titles = [''Index'', ''Key Path'', ''Subkey Count'', ''Value Name'', ''Value Data'', ''Timestamp'', ''Status'',
     ''Previous Seq Num'', ''Modifying Seq Num'', ''Flags'', ''Access Flags'', ''Value Type'', ''Logs'']"

primrec log_cells :: "nat \<Rightarrow> Log list \<Rightarrow> cell list" where
  "log_cells i [] = []"
| "log_cells i (l # ls) = row_cells i 0 [LogCode_debug (log_code l), log_text l] @ log_cells (Suc i) ls"

text \<open>The texts that need the overflow sheet, and what has to fit: long texts into the columns of a row of the
  overflow sheet, and the date and the flags of a key into a cell.\<close>

definition long :: "string \<Rightarrow> bool" where "long val \<longleftrightarrow> 32767 < length val"

definition fits :: "string \<Rightarrow> bool" where "fits val \<longleftrightarrow> length val \<le> 16383 * 32767"

definition long_texts :: "'z env_out_scheme \<Rightarrow> dump_row list \<Rightarrow> nat" where
  "long_texts N rs = length (filter long (concat (map (sheet_texts N) rs)))"

fun row_fits :: "'z env_out_scheme \<Rightarrow> dump_row \<Rightarrow> bool" where
  "row_fits N (KeyRow k) \<longleftrightarrow> list_all fits (sheet_texts N (KeyRow k)) \<and>
     length (format_date_time N (last_key_written_date_and_time k)) \<le> 32767 \<and>
     length (fmt_key_node_flags N (fst (key_node_flags k (kn_logs (kn k))))) \<le> 32767 \<and>
     length (fmt_access_flags N (fst (access_flags k (snd (key_node_flags k (kn_logs (kn k))))))) \<le> 32767"
| "row_fits N (ValueRow k v) \<longleftrightarrow> list_all fits (sheet_texts N (ValueRow k v))"

lemma written_append [simp]: "written (xs @ ys) = written xs @ written ys" "written [] = []" "written (x # xs) = op_cells x @ written xs"
  by (simp_all add: written_def)

lemma urls_append [simp]: "urls (xs @ ys) = urls xs + urls ys" "urls [] = 0"
  "urls (x # xs) = (case x of WriteUrl _ _ _ _ \<Rightarrow> 1 | _ \<Rightarrow> 0) + urls xs"
  by (simp_all add: urls_def split: sheet_op.split)

lemma row_text_append [simp]: "row_text r (xs @ ys) = row_text r xs @ row_text r ys" "row_text r [] = []"
  "row_text r (x # xs) = op_text r x @ row_text r xs"
  by (simp_all add: row_text_def)

lemma table_cells_append: "table_cells N i (rs @ ss) = table_cells N i rs @ table_cells N (i + length rs) ss"
  by (induction rs arbitrary: i) simp_all

lemma long_texts_append [simp]: "long_texts N (rs @ ss) = long_texts N rs + long_texts N ss" "long_texts N [] = 0"
  by (simp_all add: long_texts_def)

lemmas col_defs = COL_INDEX_def COL_KEY_PATH_def COL_SUBKEY_COUNT_def COL_VALUE_NAME_def COL_VALUE_DATA_def
  COL_TIMESTAMP_def COL_STATUS_def COL_PREV_SEQ_NUM_def COL_MOD_SEQ_NUM_def COL_FLAGS_def COL_ACCESS_FLAGS_def
  COL_VALUE_TYPE_def COL_LOGS_def

section \<open>Steps on the two sheets\<close>

text \<open>No row of the overflow sheet from the next one on has a text, and a step keeps the rows above.\<close>

definition unused :: "WorksheetState \<Rightarrow> bool" where
  "unused ov \<longleftrightarrow> (\<forall>r. ws_row ov \<le> r \<longrightarrow> row_text r (ws_sheet ov) = [])"

definition keeps :: "WorksheetState \<Rightarrow> WorksheetState \<Rightarrow> bool" where
  "keeps ov ov' \<longleftrightarrow> ws_row ov \<le> ws_row ov' \<and> (\<forall>r. r < ws_row ov \<longrightarrow> row_text r (ws_sheet ov') = row_text r (ws_sheet ov))"

lemma keeps_trans: "keeps a b \<Longrightarrow> keeps b c \<Longrightarrow> keeps a c"
  unfolding keeps_def using order_less_le_trans [of _ "ws_row a" "ws_row b"] by (auto intro: order_trans)

lemma keeps_refl [simp]: "keeps a a"
  by (simp add: keeps_def)

lemma shows_later: "shows_cell ov x y \<Longrightarrow> keeps ov ov' \<Longrightarrow> shows_cell ov' x y"
  unfolding shows_cell_def keeps_def by (fastforce intro: order_less_le_trans)

text \<open>
  The room for a step that moves down \<open>n\<close> rows and has at most \<open>k\<close> long texts, and what it has done: the cells it
  wrote show \<open>cs\<close>.
\<close>

definition room :: "nat \<Rightarrow> nat \<Rightarrow> WorksheetState \<times> WorksheetState \<Rightarrow> bool" where
  "room n k = (\<lambda>(ws, ov). unat (ws_row ws) + n < 1048576 \<and> unat (ws_row ov) + k \<le> 1048576 \<and>
     urls (ws_sheet ws) + k \<le> 65530 \<and> unused ov)"

definition wrote :: "nat \<Rightarrow> nat \<Rightarrow> cell list \<Rightarrow> WorksheetState \<times> WorksheetState \<Rightarrow> WorksheetState \<times> WorksheetState \<Rightarrow> bool" where
  "wrote n k cs = (\<lambda>(ws, ov) (ws', ov'). unat (ws_row ws') = unat (ws_row ws) + n \<and> unat (ws_row ov') \<le> unat (ws_row ov) + k \<and>
     urls (ws_sheet ws') \<le> urls (ws_sheet ws) + k \<and> unused ov' \<and> keeps ov ov' \<and>
     (\<exists>out. written (ws_sheet ws') = written (ws_sheet ws) @ out \<and> list_all2 (shows_cell ov') out cs))"

definition xstep ::
  "nat \<Rightarrow> nat \<Rightarrow> (nat \<Rightarrow> cell list) \<Rightarrow> (WorksheetState \<times> WorksheetState \<Rightarrow> (WorksheetState \<times> WorksheetState) result) \<Rightarrow> bool" where
  "xstep n k cs f \<longleftrightarrow> (\<forall>s. room n k s \<longrightarrow> (\<exists>s'. f s = Ok s' \<and> wrote n k (cs (unat (ws_row (fst s)))) s s'))"

lemma wrote_trans:
  assumes "wrote n k cs a b" and "wrote n' k' cs' b c"
  shows "wrote (n + n') (k + k') (cs @ cs') a c"
proof -
  obtain ws ov ws1 ov1 ws2 ov2 where s: "a = (ws, ov)" "b = (ws1, ov1)" "c = (ws2, ov2)" by (cases a; cases b; cases c)
  from assms obtain x y where x: "written (ws_sheet ws1) = written (ws_sheet ws) @ x" "list_all2 (shows_cell ov1) x cs"
    and y: "written (ws_sheet ws2) = written (ws_sheet ws1) @ y" "list_all2 (shows_cell ov2) y cs'" and k: "keeps ov1 ov2"
    by (auto simp: wrote_def s)
  have "list_all2 (shows_cell ov2) x cs" using x(2) by (rule list_all2_mono) (rule shows_later [OF _ k])
  then have "list_all2 (shows_cell ov2) (x @ y) (cs @ cs')" by (rule list_all2_appendI) (rule y(2))
  with x(1) y(1) assms show ?thesis by (auto simp: wrote_def s intro: keeps_trans intro!: exI [of _ "x @ y"])
qed

lemma xstep_bind:
  assumes "xstep n k cs f" and "xstep n' k' cs' g"
  shows "xstep (n + n') (k + k') (\<lambda>i. cs i @ cs' (i + n)) (\<lambda>s. bindO (f s) g)"
  unfolding xstep_def
proof (intro allI impI)
  fix s
  assume b: "room (n + n') (k + k') s"
  then have "room n k s" by (auto simp: room_def)
  then obtain s1 where 1: "f s = Ok s1" "wrote n k (cs (unat (ws_row (fst s)))) s s1"
    using assms(1) unfolding xstep_def by blast
  then have "room n' k' s1" "unat (ws_row (fst s1)) = unat (ws_row (fst s)) + n" using b by (auto simp: room_def wrote_def)
  then obtain s2 where "g s1 = Ok s2" "wrote n' k' (cs' (unat (ws_row (fst s)) + n)) s1 s2"
    using assms(2) unfolding xstep_def by metis
  with 1 wrote_trans show "\<exists>s'. bindO (f s) g = Ok s' \<and>
      wrote (n + n') (k + k') (cs (unat (ws_row (fst s))) @ cs' (unat (ws_row (fst s)) + n)) s s'" by auto
qed

lemmas xstep_then = xstep_bind [where n = 0 and n' = 0, simplified]

lemma xstep_weaken:
  assumes "xstep n k cs f" and "k \<le> k'" and "\<And>i. cs i = cs' i"
  shows "xstep n k' cs' f"
proof -
  have "room n k' s \<Longrightarrow> room n k s" for s using assms(2) by (auto simp: room_def)
  moreover have "wrote n k c s s' \<Longrightarrow> wrote n k' c s s'" for c s s' using assms(2) by (auto simp: wrote_def)
  ultimately show ?thesis using assms(1) unfolding xstep_def assms(3) by blast
qed

lemma xstep_Ok: "xstep 0 0 (\<lambda>_. []) Ok"
  by (auto simp: xstep_def room_def wrote_def)

text \<open>A call on the first sheet that is not a link.\<close>

lemma wrote_call:
  "unused ov \<Longrightarrow> urls [call] = 0 \<Longrightarrow> op_cells call = cs \<Longrightarrow> wrote 0 0 cs (ws, ov) (ws\<lparr>ws_sheet := ws_sheet ws @ [call]\<rparr>, ov)"
  by (auto simp: wrote_def shows_cell_def list_all2_same intro!: exI [of _ cs] split: prod.split)

lemma set_shading_simps [simp]: "ws_row (set_shading a b c ws) = ws_row ws" "ws_sheet (set_shading a b c ws) = ws_sheet ws"
  by (simp_all add: set_shading_def)

lemma fits_chunks: "fits val \<Longrightarrow> length (full_val_chunks val) < 16384"
  using chunk_count [of val] by (simp add: fits_def MAX_EXCEL_CELL_LEN_def)

lemma chunk_ops_other: "r \<noteq> row \<Longrightarrow> row_text r (chunk_ops row col chunks) = []"
  by (auto simp: row_text_def chunk_ops_def)

text \<open>A long text fills the next row of the overflow sheet and leaves the others alone.\<close>

lemma overflow_row:
  assumes "unused ov" and "fits val" and "unat (ws_row ov) + 1 < 2 ^ 32"
    and "ov' = ov\<lparr>ws_sheet := ws_sheet ov @ WriteString (ws_row ov) 0 label None # chunk_ops (ws_row ov) 0 (full_val_chunks val),
          ws_row := ws_row ov + 1\<rparr>"
  shows "unused ov'" and "keeps ov ov'" and "ws_row ov < ws_row ov'" and "row_text (ws_row ov) (ws_sheet ov') = val"
proof -
  have n: "unat (ws_row ov + 1) = unat (ws_row ov) + 1" by (rule unat_next [OF assms(3)])
  then show l: "ws_row ov < ws_row ov'" by (simp add: assms(4) word_less_nat_alt)
  have other: "row_text r (ws_sheet ov') = row_text r (ws_sheet ov)" if "r \<noteq> ws_row ov" for r
    using that by (simp add: assms(4) chunk_ops_other)
  show "keeps ov ov'" using l other by (auto simp: keeps_def)
  show "unused ov'"
    unfolding unused_def
  proof (intro allI impI)
    fix r
    assume r: "ws_row ov' \<le> r"
    with l have "r \<noteq> ws_row ov" "ws_row ov \<le> r" by auto
    with other assms(1) show "row_text r (ws_sheet ov') = []" by (simp add: unused_def)
  qed
  show "row_text (ws_row ov) (ws_sheet ov') = val"
    using assms(1) fits_chunks [OF assms(2)] by (simp add: assms(4) unused_def row_text_chunks concat_chunks)
qed

context limited_sheet
begin

lemma xstep_string:
  assumes "unat col < 16384" and "length val \<le> 32767"
  shows "xstep 0 0 (\<lambda>i. cell i (unat col) val) (on_primary (ws_write_string N col val))"
proof -
  have "length (str_chars val) \<le> 32767" using length_str_chars [of val] assms(2) by linarith
  then show ?thesis
    using assms by (auto simp: xstep_def room_def on_primary_def ws_write_string_def sheet_do_within intro!: wrote_call)
qed

lemma xstep_number:
  assumes "unat col < 16384"
  shows "xstep 0 0 (\<lambda>i. cell i (unat col) (show_nat num)) (on_primary (ws_write_number N col num))"
  using assms by (auto simp: xstep_def room_def on_primary_def ws_write_number_def sheet_do_within intro!: wrote_call)

lemma xstep_sequence_num:
  assumes "unat col < 16384"
  shows "xstep 0 0 (\<lambda>i. cell i (unat col) (get_sequence_num_string num)) (on_primary (write_sequence_num N col num))"
proof (cases num)
  case None
  then show ?thesis
    by (auto simp: xstep_def room_def wrote_def on_primary_def write_sequence_num_def get_sequence_num_string_def cell_def)
next
  case (Some n)
  with xstep_number [OF assms] show ?thesis by (simp add: write_sequence_num_def [abs_def] get_sequence_num_string_def)
qed

lemma label_length: "n \<le> 1048576 \<Longrightarrow> length ('' [truncated; row: '' @ show_nat n @ '']'') \<le> 30"
  using length_show_nat [of n 6] by simp

lemma handle_overflow_within:
  assumes "room 0 1 (ws, ov)" and "unat col < 16384" and "long val" and "fits val"
  defines "label \<equiv> '' [truncated; row: '' @ show_nat (unat (ws_row ov) + 1) @ '']''"
  shows "write_string_handle_overflow N col val fmt (ws, ov) =
     Ok (ws\<lparr>ws_sheet := ws_sheet ws @
              [WriteUrl (ws_row ws) col (''internal:Overflow!A'' @ show_nat (unat (ws_row ov) + 1)) fmt,
               WriteString (ws_row ws) col (safe_truncate val MAX_TRUNCATED_CHARS @ label) (Some fmt)]\<rparr>,
         ov\<lparr>ws_sheet := ws_sheet ov @ WriteString (ws_row ov) 0 label None # chunk_ops (ws_row ov) 0 (full_val_chunks val),
            ws_row := ws_row ov + 1\<rparr>)"
proof -
  have b: "unat (ws_row ws) < 1048576" "unat (ws_row ov) < 1048576" "urls (ws_sheet ws) < 65530" "unat (ws_row ov) + 1 < 2 ^ 32"
    using assms(1) by (simp_all add: room_def)
  have r: "unat (ws_row ov + 1) = unat (ws_row ov) + 1" by (rule unat_next [OF b(4)])
  have lab: "length label \<le> 30" unfolding label_def using b(2) by (intro label_length) simp
  have lc: "length (str_chars label) \<le> 32767" using length_str_chars [of label] lab by linarith
  have "length (str_chars (safe_truncate val MAX_TRUNCATED_CHARS)) \<le> 250"
    by (simp add: safe_truncate_def str_chars_take MAX_TRUNCATED_CHARS_def)
  then have tr: "length (str_chars (safe_truncate val MAX_TRUNCATED_CHARS @ label)) \<le> 32767"
    using length_str_chars_append [of "safe_truncate val MAX_TRUNCATED_CHARS" label] lab by linarith
  have url: "length (''internal:Overflow!A'' @ show_nat (unat (ws_row ov) + 1)) \<le> 2079"
    using length_show_nat [of "unat (ws_row ov) + 1" 6] b(2) by simp
  have ch: "list_all (\<lambda>c. length (str_chars c) \<le> 32767) (full_val_chunks val)"
    using chunk_sizes by (auto simp: list_all_iff MAX_EXCEL_CELL_LEN_def)
  have big: "MAX_EXCEL_CELL_LEN < length val" using assms(3) by (simp add: long_def MAX_EXCEL_CELL_LEN_def)
  have add: "add_w (overflow_checks N) (ws_row ov) 1 = Ok (ws_row ov + 1)" using b(4) by simp
  show ?thesis
    using big lc tr url b assms(2) ch fits_chunks [OF assms(4)]
    unfolding write_string_handle_overflow_def case_prod_conv if_P [OF big] add bindO.simps r Let_def label_def [symmetric]
    by (simp add: ws_write_string_def sheet_do_within write_chunks_within ws_next_row_Ok r)
qed

lemma xstep_check_write:
  assumes "unat col < 16384" and "fits val"
  shows "xstep 0 (if long val then 1 else 0) (\<lambda>i. cell i (unat col) val) (check_write_string N col val fmt)"
proof (cases "long val")
  case False
  then have s: "length val \<le> 32767" by (simp add: long_def)
  then have "check_write_string N col val fmt = (if val = [] then Ok else on_primary (ws_write_string N col val))"
    by (auto simp: fun_eq_iff check_write_string_def write_string_handle_overflow_def on_primary_def MAX_EXCEL_CELL_LEN_def)
  with xstep_string [OF assms(1) s] xstep_Ok False show ?thesis by (auto simp: cell_def)
next
  case True
  then have ne: "val \<noteq> []" by (auto simp: long_def)
  have tr: "safe_truncate val MAX_TRUNCATED_CHARS = concat (take 250 (str_chars val))"
    using True by (simp add: safe_truncate_def MAX_TRUNCATED_CHARS_def long_def)
  have "\<exists>s'. check_write_string N col val fmt s = Ok s' \<and> wrote 0 1 (cell (unat (ws_row (fst s))) (unat col) val) s s'"
    if "room 0 1 s" for s
  proof -
    obtain ws ov where s: "s = (ws, ov)" by (cases s)
    have b: "unused ov" "unat (ws_row ov) + 1 < 2 ^ 32" using that by (auto simp: s room_def)
    note ovr = overflow_row [OF b(1) assms(2) b(2) refl, where label = "'' [truncated; row: '' @ show_nat (unat (ws_row ov) + 1) @ '']''"]
    note h = handle_overflow_within [OF that [unfolded s] assms(1) True assms(2), of fmt]
    show ?thesis
      unfolding s check_write_string_def if_P [OF ne] h tr wrote_def
      using ovr True unat_next [OF b(2)] ne by (auto simp: cell_def shows_cell_def long_def intro!: exI [of _ "ws_row ov"])
  qed
  with True show ?thesis by (simp add: xstep_def)
qed

lemma xstep_begin_row:
  assumes "\<And>fmt. xstep 0 k cs (f fmt)"
  shows "xstep 1 k (\<lambda>i. cell (Suc i) 0 (show_nat (Suc i)) @ cs (Suc i))
    (\<lambda>(reg_items, overflow). bindO (begin_row N path name st reg_items) (\<lambda>(fmt, reg_items). f fmt (reg_items, overflow)))"
  unfolding xstep_def
proof (intro allI impI)
  fix s :: "WorksheetState \<times> WorksheetState"
  assume "room 1 k s"
  moreover obtain ws ov where s: "s = (ws, ov)" by (cases s)
  ultimately have b: "unat (ws_row ws) + 1 < 2 ^ 32" "unat (ws_row ws) + 1 < 1048576" "unat (ws_row ov) + k \<le> 1048576"
    "urls (ws_sheet ws) + k \<le> 65530" "unused ov" by (auto simp: room_def)
  have n: "unat (ws_row ws + 1) = unat (ws_row ws) + 1" by (rule unat_next [OF b(1)])
  obtain fmt ws1 where 1: "begin_row N path name st ws = Ok (fmt, ws1)" "ws_row ws1 = ws_row ws + 1"
    "urls (ws_sheet ws1) = urls (ws_sheet ws)"
    "written (ws_sheet ws1) = written (ws_sheet ws) @ cell (Suc (unat (ws_row ws))) 0 (show_nat (Suc (unat (ws_row ws))))"
    using b(2) by (auto simp: begin_row_def ws_next_row_Ok [OF b(1)] Let_def case_prod_beta sheet_do_within ws_write_number_def
        COL_INDEX_def n)
  have w: "wrote 1 0 (cell (Suc (unat (ws_row ws))) 0 (show_nat (Suc (unat (ws_row ws))))) (ws, ov) (ws1, ov)"
    using 1 n b(5) by (auto simp: wrote_def cell_def shows_cell_def)
  have "room 0 k (ws1, ov)" using b n 1 by (simp add: room_def)
  with assms [of fmt] obtain s' where "f fmt (ws1, ov) = Ok s'" "wrote 0 k (cs (unat (ws_row ws1))) (ws1, ov) s'"
    unfolding xstep_def by fastforce
  with wrote_trans [OF w this(2)] 1 n show "\<exists>s'. (case s of (reg_items, overflow) \<Rightarrow>
        bindO (begin_row N path name st reg_items) (\<lambda>(fmt, reg_items). f fmt (reg_items, overflow))) = Ok s' \<and>
      wrote 1 k (cell (Suc (unat (ws_row (fst s)))) 0 (show_nat (Suc (unat (ws_row (fst s))))) @ cs (Suc (unat (ws_row (fst s))))) s s'"
    by (simp add: s)
qed

end

section \<open>The rows\<close>

definition xrows ::
  "'z env_xlsx_scheme \<Rightarrow> dump_row list \<Rightarrow> (WorksheetState \<times> WorksheetState \<Rightarrow> (WorksheetState \<times> WorksheetState) result) \<Rightarrow> bool" where
  "xrows N rs f \<longleftrightarrow> xstep (length rs) (long_texts N rs) (\<lambda>i. table_cells N i rs) f"

lemma xrows_bind: "xrows N rs f \<Longrightarrow> xrows N ss g \<Longrightarrow> xrows N (rs @ ss) (\<lambda>s. bindO (f s) g)"
  unfolding xrows_def table_cells_append length_append long_texts_append by (drule (1) xstep_bind) simp

lemma xrows_Nil: "xrows N [] Ok"
  using xstep_Ok by (simp add: xrows_def)

lemma xrows_fold: "(\<And>x. x \<in> set xs \<Longrightarrow> xrows N (g x) (f x)) \<Longrightarrow> xrows N (concat (map g xs)) (foldO f xs)"
proof (induction xs)
  case Nil
  then show ?case using xrows_Nil by simp
next
  case (Cons x xs)
  have "xrows N (g x @ concat (map g xs)) (\<lambda>s. bindO (f x s) (foldO f xs))"
    by (rule xrows_bind) (use Cons in auto)
  then show ?case by simp
qed

lemma sanitize_cell_eq:
  "sanitize_cell N c = (case c of CV_String s \<Rightarrow> sanitize_for_xml_1_0 s | c \<Rightarrow> CellValue_display N c)"
  by (cases c) simp_all

lemma type_short: "\<not> long (CellValue_get_type x)" "fits (CellValue_get_type x)"
  by (cases x; simp add: long_def fits_def)+

lemma state_short: "length (CellState_debug x) \<le> 32767"
  by (cases x) simp_all

context limited_sheet
begin

lemma xrows_key_row:
  assumes "row_fits N (KeyRow k)"
  shows "xrows N [KeyRow k] (xlsx_write_key_row N k)"
proof -
  let ?fl = "key_node_flags k (kn_logs (kn k))"
  let ?path = "sanitize_for_xml_1_0 (kn_path (kn k))" and ?logs = "sanitize_for_xml_1_0 (Logs_get_string (kn_logs (kn k)))"
  have t: "fits ?path" "fits ?logs" "length (format_date_time N (last_key_written_date_and_time k)) \<le> 32767"
    "length (fmt_key_node_flags N (fst ?fl)) \<le> 32767" "length (fmt_access_flags N (fst (access_flags k (snd ?fl)))) \<le> 32767"
    using assms by (simp_all add: Let_def case_prod_beta)
  have c: "unat COL_KEY_PATH < 16384" "unat COL_SUBKEY_COUNT < 16384" "unat COL_TIMESTAMP < 16384" "unat COL_STATUS < 16384"
    "unat COL_PREV_SEQ_NUM < 16384" "unat COL_MOD_SEQ_NUM < 16384" "unat COL_FLAGS < 16384" "unat COL_ACCESS_FLAGS < 16384"
    "unat COL_LOGS < 16384" by (simp_all add: col_defs)
  have k: "(if long ?path then 1 else 0) + (if long ?logs then 1 else 0) \<le> long_texts N [KeyRow k]"
    by (simp add: long_texts_def Let_def case_prod_beta)
  have "xstep 0 (long_texts N [KeyRow k]) (\<lambda>i. row_cells i 1 (sheet_texts N (KeyRow k))) (xlsx_key_cells N k fmt)" for fmt
    unfolding xlsx_key_cells_def Let_def case_prod_beta
    by (rule xstep_weaken, rule xstep_then [OF xstep_check_write [OF c(1) t(1)]
     xstep_then [OF xstep_number [OF c(2), of "length (cell_sub_key_offsets_absolute (kn k))"]
     xstep_then [OF xstep_string [OF c(3) t(3)]
     xstep_then [OF xstep_string [OF c(4) state_short, of "kn_cell_state (kn k)"]
     xstep_then [OF xstep_sequence_num [OF c(5), of "kn_sequence_num (kn k)"]
     xstep_then [OF xstep_sequence_num [OF c(6), of "kn_updated_by_sequence_num (kn k)"]
     xstep_then [OF xstep_string [OF c(7) t(4)]
     xstep_then [OF xstep_string [OF c(8) t(5)]
       xstep_check_write [OF c(9) t(2)]]]]]]]]])
      (use k in simp, simp add: Let_def case_prod_beta col_defs cell_def)
  from xstep_begin_row [OF this, of "kn_path (kn k)" None "kn_cell_state (kn k)"]
  show ?thesis by (simp add: xrows_def xlsx_write_key_row_def)
qed

lemma xrows_value:
  assumes "\<forall>r\<in>set (value_row b k v). row_fits N r"
  shows "xrows N (value_row b k v) (xlsx_write_value N b k v)"
proof (cases "b \<and> \<not> kv_has_or_is_recovered v")
  case True
  then have "xlsx_write_value N b k v = Ok" by (simp add: xlsx_write_value_def)
  with True show ?thesis by (simp add: value_row_def xrows_Nil)
next
  case False
  let ?path = "sanitize_for_xml_1_0 (kn_path (kn k))" and ?name = "sanitize_for_xml_1_0 (CellKeyValue_get_pretty_name v)"
  let ?data = "sanitize_cell N (content_of v)" and ?logs = "sanitize_for_xml_1_0 (Logs_get_string (kv_logs (kv v)))"
  have row: "value_row b k v = [ValueRow k v]" using False by (auto simp: value_row_def)
  then have t: "fits ?path" "fits ?name" "fits ?data" "fits ?logs"
    using assms by (simp_all add: sanitize_cell_eq)
  have c: "unat COL_KEY_PATH < 16384" "unat COL_VALUE_NAME < 16384" "unat COL_VALUE_DATA < 16384" "unat COL_STATUS < 16384"
    "unat COL_PREV_SEQ_NUM < 16384" "unat COL_MOD_SEQ_NUM < 16384" "unat COL_VALUE_TYPE < 16384" "unat COL_LOGS < 16384"
    by (simp_all add: col_defs)
  have k: "(if long ?path then 1 else 0) + ((if long ?name then 1 else 0) + ((if long ?data then 1 else 0) + (if long ?logs then 1 else 0)))
      \<le> long_texts N [ValueRow k v]"
    by (simp add: long_texts_def sanitize_cell_eq)
  obtain l where l: "CellKeyValue_get_content v = Ok (content_of v, l)" using get_content_of [of v] by blast
  have "xstep 0 (long_texts N [ValueRow k v]) (\<lambda>i. row_cells i 1 (sheet_texts N (ValueRow k v))) (xlsx_value_cells N k v fmt)" for fmt
    unfolding xlsx_value_cells_def l bindO.simps case_prod_conv
    by (rule xstep_weaken, rule xstep_then [OF xstep_check_write [OF c(1) t(1)]
     xstep_then [OF xstep_check_write [OF c(2) t(2)]
     xstep_then [OF xstep_check_write [OF c(3) t(3)]
     xstep_then [OF xstep_string [OF c(4) state_short, of "kv_cell_state (kv v)"]
     xstep_then [OF xstep_sequence_num [OF c(5), of "kv_sequence_num (kv v)"]
     xstep_then [OF xstep_sequence_num [OF c(6), of "kv_updated_by_sequence_num (kv v)"]
     xstep_then [OF xstep_check_write [OF c(7) type_short(2), of "content_of v"]
       xstep_check_write [OF c(8) t(4)]]]]]]]])
      (use k in \<open>simp add: type_short\<close>, simp add: sanitize_cell_eq col_defs cell_def)
  from xstep_begin_row [OF this, of "kn_path (kn k)" "Some (value_name_of v)" "kv_cell_state (kv v)"]
  have "xstep 1 (long_texts N [ValueRow k v]) (\<lambda>i. table_cells N i [ValueRow k v]) (xlsx_write_value N b k v)"
    by (simp add: xlsx_write_value_def if_not_P [OF False] del: sheet_texts.simps)
  then show ?thesis by (simp add: xrows_def row del: table_cells.simps)
qed

end

context limited_sheet
begin

lemma xrows_values:
  assumes "\<forall>r\<in>set (concat (map (\<lambda>v. value_row b k v @ concat (map (value_row b k) (kv_versions v))) (kn_sub_values (kn k)))). row_fits N r"
  shows "xrows N (concat (map (\<lambda>v. value_row b k v @ concat (map (value_row b k) (kv_versions v))) (kn_sub_values (kn k))))
     (foldO (\<lambda>v s. bindO (xlsx_write_value N b k v s) (foldO (xlsx_write_value N b k) (kv_versions v))) (value_iter_from k 0))"
  unfolding value_iter using assms by (intro xrows_fold xrows_bind xrows_value) auto

lemma xrows_key:
  "\<forall>r\<in>set (version_rows b k @ (if modified then [] else
       concat (map (\<lambda>v. value_row b k v @ concat (map (value_row b k) (kv_versions v))) (kn_sub_values (kn k))))). row_fits N r \<Longrightarrow>
   xrows N (version_rows b k @ (if modified then [] else
       concat (map (\<lambda>v. value_row b k v @ concat (map (value_row b k) (kv_versions v))) (kn_sub_values (kn k)))))
     (xlsx_write_key N b k modified)"
proof (induction "size k" arbitrary: k modified rule: less_induct)
  case less
  have keys: "xrows N (version_rows b k) (\<lambda>s. if \<not> b \<or> kn_has_or_is_recovered k then
              bindO (xlsx_write_key_row N k s) (\<lambda>s. foldO (\<lambda>sub_key. xlsx_write_key N b sub_key True) (kn_versions k) s)
            else Ok s)"
  proof (cases "\<not> b \<or> kn_has_or_is_recovered k")
    case True
    then have v: "version_rows b k = [KeyRow k] @ concat (map (version_rows b) (kn_versions k))"
      by (subst version_rows.simps) simp
    have sub: "xrows N (version_rows b x) (xlsx_write_key N b x True)" if "x \<in> set (kn_versions k)" for x
      using less.hyps [OF size_version [OF that], of True] less.prems that by (auto simp: v)
    have "xrows N ([KeyRow k] @ concat (map (version_rows b) (kn_versions k)))
        (\<lambda>s. bindO (xlsx_write_key_row N k s) (foldO (\<lambda>sub_key. xlsx_write_key N b sub_key True) (kn_versions k)))"
      using less.prems by (intro xrows_bind xrows_key_row xrows_fold sub) (auto simp: v)
    with True show ?thesis by (simp add: v if_P [OF True])
  next
    case False
    then have v: "version_rows b k = []" by (subst version_rows.simps) simp
    show ?thesis unfolding v if_not_P [OF False] by (rule xrows_Nil)
  qed
  have "xrows N (if modified then [] else
       concat (map (\<lambda>v. value_row b k v @ concat (map (value_row b k) (kv_versions v))) (kn_sub_values (kn k))))
       (\<lambda>s. if \<not> modified then foldO (\<lambda>v s. bindO (xlsx_write_value N b k v s)
                (foldO (xlsx_write_value N b k) (kv_versions v))) (value_iter_from k 0) s else Ok s)"
    using xrows_values [of b k] xrows_Nil less.prems by (cases modified) (simp_all del: value_iter)
  from xrows_bind [OF keys this] show ?case by (simp add: xlsx_write_key.simps [abs_def])
qed

lemma xrows_keys:
  "\<forall>r\<in>set (concat (map (tsv_rows b) ks)). row_fits N r \<Longrightarrow>
     xrows N (concat (map (tsv_rows b) ks)) (foldO (\<lambda>key. xlsx_write_key N b key False) ks)"
  using xrows_key [of b _ False] by (intro xrows_fold) (auto simp: tsv_rows_def)

lemma sheet_header:
  "\<exists>ws. write_sheet_header N WorksheetState_new = Ok ws \<and> ws_row ws = 0 \<and> urls (ws_sheet ws) = 0 \<and>
     written (ws_sheet ws) = row_cells 0 0 sheet_titles"
  by (simp add: write_sheet_header_def header_cells_def WorksheetState_new_def col_defs sheet_do_within ws_write_string_def
      sheet_titles_def cell_def length_str_chars_eq is_continuation_def)

lemma log_code_short: "length (LogCode_debug c) \<le> 32767"
  by (cases c) simp_all

lemma xstep_log_row:
  assumes "fits (log_text log)"
  shows "xstep 1 (if long (log_text log) then 1 else 0) (\<lambda>i. row_cells i 0 [LogCode_debug (log_code log), log_text log])
    (write_log_row N log)"
proof -
  have "xstep 1 0 (\<lambda>_. []) (on_primary (ws_next_row N))"
    unfolding xstep_def
  proof (intro allI impI)
    fix s :: "WorksheetState \<times> WorksheetState"
    assume r: "room 1 0 s"
    obtain ws ov where s: "s = (ws, ov)" by (cases s)
    have b: "unat (ws_row ws) + 1 < 2 ^ 32" using r by (simp add: room_def s)
    from r unat_next [OF b] show "\<exists>s'. on_primary (ws_next_row N) s = Ok s' \<and> wrote 1 0 [] s s'"
      by (simp add: s on_primary_def ws_next_row_Ok [OF b] wrote_def room_def)
  qed
  from xstep_bind [OF xstep_string [of 0 "LogCode_debug (log_code log)"]
      xstep_bind [OF xstep_check_write [OF _ assms, of 1 "Format_new\<lparr>f_underline := True\<rparr>"] this]]
  show ?thesis using log_code_short by (simp add: write_log_row_def [abs_def])
qed

lemma xstep_log_rows:
  "\<forall>log\<in>set logs. fits (log_text log) \<Longrightarrow>
     xstep (length logs) (length (filter long (map log_text logs))) (\<lambda>i. log_cells i logs) (foldO (write_log_row N) logs)"
proof (induction logs)
  case Nil
  then show ?case using xstep_Ok by simp
next
  case (Cons log logs)
  have "xstep (1 + length logs) ((if long (log_text log) then 1 else 0) + length (filter long (map log_text logs)))
      (\<lambda>i. row_cells i 0 [LogCode_debug (log_code log), log_text log] @ log_cells (i + 1) logs)
      (\<lambda>s. bindO (write_log_row N log s) (foldO (write_log_row N) logs))"
    by (rule xstep_bind [OF xstep_log_row]) (use Cons in auto)
  then show ?case by (auto split: if_splits intro: xstep_weaken)
qed

lemma worksheets: "add_worksheet N ''Registry Items'' = Ok WorksheetState_new" "add_worksheet N ''Logs'' = Ok WorksheetState_new"
  "add_worksheet N ''Overflow'' = Ok WorksheetState_new"
  by (simp_all add: add_worksheet_def accepts_name sheet_name_ok_def)

end

text \<open>
  C16: the spreadsheet has the table.  Its cells that are not empty are, row by row, the titles of the thirteen
  columns and then for the \<open>i\<close>th item in row \<open>i\<close> the number \<open>i\<close> and the twelve cells the item has in the table, each in its
  column, made legal for XML, and no other; the sheet of the logs has the code and the text of every log
  entry.  A text of more than 32767 bytes is shown by its beginning and the number of the row of the overflow sheet
  that has all of it, also after everything else is written.  Writing ends without an error for a library that
  accepts every call within its documented limits, when the table and the logs have fewer than 1048576 rows, at
  most 65530 texts of each are that long, and the texts fit.
\<close>

theorem spreadsheet_has_rows_of_table:
  assumes "limited_sheet N" and "iter_all N depth fuel (new_iter p flt) = Ok ks"
    and "rows = concat (map (tsv_rows recovered_only) ks)" and "logs = log_entries (info (p_state p))"
    and "length rows < 1048576" and "length logs < 1048576"
    and "\<forall>r\<in>set rows. row_fits N r" and "\<forall>log\<in>set logs. fits (log_text log)"
    and "long_texts N rows \<le> 65530" and "length (filter long (map log_text logs)) \<le> 65530"
  shows "\<exists>wb. WriteXlsx_write N depth fuel recovered_only p flt = Ok wb \<and>
    list_all2 (shows_cell (wb_overflow wb)) (written (ws_sheet (wb_reg_items wb)))
      (row_cells 0 0 sheet_titles @ table_cells N 0 rows) \<and>
    list_all2 (shows_cell (wb_overflow wb)) (written (ws_sheet (wb_logs wb))) (log_cells 0 logs)"
proof -
  have new: "ws_row WorksheetState_new = 0" "ws_sheet WorksheetState_new = []" "unused WorksheetState_new"
    by (simp_all add: WorksheetState_new_def unused_def)
  obtain ws where ws: "write_sheet_header N WorksheetState_new = Ok ws" "ws_row ws = 0" "urls (ws_sheet ws) = 0"
    "written (ws_sheet ws) = row_cells 0 0 sheet_titles"
    using limited_sheet.sheet_header [OF assms(1)] by blast
  have "room (length rows) (long_texts N rows) (ws, WorksheetState_new)" using assms(5,9) ws(2,3) new by (simp add: room_def)
  then obtain ws1 ov1 where 1: "foldO (\<lambda>key. xlsx_write_key N recovered_only key False) ks (ws, WorksheetState_new) = Ok (ws1, ov1)"
    "wrote (length rows) (long_texts N rows) (table_cells N 0 rows) (ws, WorksheetState_new) (ws1, ov1)"
    using limited_sheet.xrows_keys [OF assms(1), of recovered_only ks] assms(3,7) ws(2) by (fastforce simp: xrows_def xstep_def)
  have "room (length logs) (length (filter long (map log_text logs))) (WorksheetState_new, ov1)"
    using 1(2) assms(6,9,10) new by (auto simp: room_def wrote_def)
  then obtain ws2 ov2 where 2: "foldO (write_log_row N) logs (WorksheetState_new, ov1) = Ok (ws2, ov2)"
    "wrote (length logs) (length (filter long (map log_text logs))) (log_cells 0 logs) (WorksheetState_new, ov1) (ws2, ov2)"
    using limited_sheet.xstep_log_rows [OF assms(1,8)] new by (fastforce simp: xstep_def)
  have kept: "keeps ov1 ov2" using 2(2) by (simp add: wrote_def)
  have titles: "list_all2 (shows_cell ov2) cs cs" for cs by (rule list_all2_refl) (auto simp: shows_cell_def)
  obtain out where out: "written (ws_sheet ws1) = row_cells 0 0 sheet_titles @ out" "list_all2 (shows_cell ov1) out (table_cells N 0 rows)"
    using 1(2) ws(4) by (auto simp: wrote_def)
  then have "list_all2 (shows_cell ov2) (written (ws_sheet ws1)) (row_cells 0 0 sheet_titles @ table_cells N 0 rows)"
    using list_all2_mono [OF out(2) shows_later [OF _ kept]] by (auto intro: list_all2_appendI titles)
  moreover have "(case Logs_get (info (p_state p)) of Some logs \<Rightarrow> foldO (write_log_row N) logs (WorksheetState_new, ov1)
            | None \<Rightarrow> Ok (WorksheetState_new, ov1)) = Ok (ws2, ov2)"
    using 2(1) by (auto simp: assms(4) log_entries_def vec_or_default_def Logs_get_def split: option.splits)
  ultimately show ?thesis
    using 1(1) 2(2) ws(1) new
    by (simp add: WriteXlsx_write_def limited_sheet.worksheets [OF assms(1)] for_keys_fold [OF assms(2)] wrote_def)
qed

section \<open>Characters that XML allows\<close>

text \<open>
  The characters of XML 1.0: every Unicode scalar value but the control characters other than tab, line feed and
  carriage return, and the two code points that are no characters.
\<close>

definition xml_char :: "nat \<Rightarrow> bool" where
  "xml_char c \<longleftrightarrow> is_scalar c \<and> (c < 0x20 \<longrightarrow> c \<in> {9, 10, 13}) \<and> c \<notin> {0xFFFE, 0xFFFF}"

definition legal :: "string \<Rightarrow> bool" where
  "legal s \<longleftrightarrow> list_all (\<lambda>c. xml_char (code_point c)) (str_chars s)"

lemma is_legal_iff: "is_legal_xml_1_0 c \<longleftrightarrow> xml_char c"
  by (auto simp: is_legal_xml_1_0_def xml_char_def is_scalar_def)

definition legal_or_replaced :: "string \<Rightarrow> string" where
  "legal_or_replaced c = (if is_legal_xml_1_0 (code_point c) then c else utf8_char 0xFFFD)"

lemma replace_after_legal:
  "take (length (takeWhile P cs)) cs @ map f (drop (length (takeWhile P cs)) cs) = map f cs" if "\<And>c. P c \<Longrightarrow> f c = c"
  by (induction cs) (simp_all add: that)

lemma sanitize_all: "sanitize_for_xml_1_0 s = concat (map legal_or_replaced (str_chars s))"
proof -
  let ?P = "\<lambda>c. is_legal_xml_1_0 (code_point c)"
  have m: "take (length (takeWhile ?P cs)) cs @ map legal_or_replaced (drop (length (takeWhile ?P cs)) cs) = map legal_or_replaced cs" for cs
    by (rule replace_after_legal) (simp add: legal_or_replaced_def)
  have "map legal_or_replaced cs = cs" if "length cs \<le> length (takeWhile ?P cs)" for cs
    using m [of cs] that by simp
  with m [of "str_chars s"] show ?thesis
    by (auto simp: sanitize_for_xml_1_0_def first_illegal_def Let_def legal_or_replaced_def [abs_def] not_less
        concat_append [symmetric] simp del: concat_append)
qed

lemma replacement_char:
  "utf8_char 0xFFFD \<noteq> []" "list_all is_continuation (tl (utf8_char 0xFFFD))" "\<not> is_continuation (hd (utf8_char 0xFFFD))"
  "is_legal_xml_1_0 (code_point (utf8_char 0xFFFD))"
  by (simp_all add: utf8_char_def is_continuation_def is_legal_xml_1_0_def)

lemma sanitized_chars: "str_chars (sanitize_for_xml_1_0 s) = map legal_or_replaced (str_chars s)"
  unfolding sanitize_all
proof (rule str_chars_concat)
  have "wf_chars gs \<Longrightarrow> wf_chars (map legal_or_replaced gs)" for gs
    using replacement_char by (cases gs) (auto simp: wf_chars_def list_all_iff legal_or_replaced_def)
  then show "wf_chars (map legal_or_replaced (str_chars s))"
    using wf_str_chars by blast
qed

text \<open>
  C38: the texts that go into the spreadsheet have only characters that XML 1.0 allows, as many as the
  original, and exactly the texts that already have only such characters are not changed.
\<close>

theorem sanitized_texts_legal:
  "legal (sanitize_for_xml_1_0 s) \<and> length (str_chars (sanitize_for_xml_1_0 s)) = length (str_chars s) \<and>
   (sanitize_for_xml_1_0 s = s \<longleftrightarrow> legal s)"
proof -
  have l: "legal (sanitize_for_xml_1_0 s)"
    using replacement_char(4) by (auto simp: legal_def sanitized_chars list_all_iff legal_or_replaced_def is_legal_iff)
  have "sanitize_for_xml_1_0 s = s" if "legal s"
  proof -
    have "map legal_or_replaced (str_chars s) = str_chars s"
      using that by (intro map_idI) (simp add: legal_def list_all_iff legal_or_replaced_def is_legal_iff)
    then show ?thesis by (simp add: sanitize_all)
  qed
  with l show ?thesis by (auto simp: sanitized_chars)
qed

section \<open>Witnesses\<close>

definition env_xlsx_ref :: env_xlsx where
  "env_xlsx_ref = env_compare.extend env_compare_ref \<lparr>xlsx_error = (\<lambda>_ _. None), xlsx_add_worksheet_error = (\<lambda>_. None)\<rparr>"

interpretation ref_sheet: reliable_sheet env_xlsx_ref
  by unfold_locales (simp_all add: env_xlsx_ref_def compare_ref_defs env_compare.defs)

theorem long_texts_complete_in_overflow_witness:
  "\<exists>ws ov. check_write_string env_xlsx_ref 4 (replicate 40000 (CHR ''x'')) Format_new (WorksheetState_new, WorksheetState_new) =
     Ok (ws, ov) \<and> row_text 0 (ws_sheet ov) = replicate 40000 (CHR ''x'')"
proof -
  have "MAX_EXCEL_CELL_LEN < length (replicate 40000 (CHR ''x''))"
    "length (replicate 40000 (CHR ''x'')) \<le> 65534 * MAX_EXCEL_CELL_LEN" "unat (ws_row WorksheetState_new) + 1 < 2 ^ 32"
    by (simp_all add: MAX_EXCEL_CELL_LEN_def WorksheetState_new_def)
  from long_texts_complete_in_overflow [OF ref_sheet.reliable_sheet_axioms this, of 4 Format_new WorksheetState_new]
  show ?thesis by (auto simp: WorksheetState_new_def)
qed

text \<open>A library that refuses every call outside its limits.\<close>

definition env_xlsx_limits :: env_xlsx where
  "env_xlsx_limits = env_compare.extend env_compare_ref
     \<lparr>xlsx_error = (\<lambda>calls call. if within_limits calls call then None else Some ''limit''),
      xlsx_add_worksheet_error = (\<lambda>name. if sheet_name_ok name then None else Some ''name'')\<rparr>"

interpretation limits_sheet: limited_sheet env_xlsx_limits
  by unfold_locales (simp_all add: env_xlsx_limits_def compare_ref_defs env_compare.defs)

lemma sanitized_path: "sanitize_for_xml_1_0 (backslash # ''a'') = backslash # ''a''" "sanitize_for_xml_1_0 [] = []"
  by (simp_all add: sanitize_all legal_or_replaced_def is_legal_xml_1_0_def utf8_char_def is_continuation_def backslash_def)

lemma dumped_texts_short: "list_all (\<lambda>t. length t \<le> 10) (sheet_texts env_xlsx_limits (KeyRow dumped_key))"
proof -
  have w: "length (show_nat (unat f)) \<le> 10" for f :: u16
    by (rule length_show_nat [of _ 9, simplified]) (rule order_less_trans [OF unsigned_less], simp)
  have d: "length (show_nat (unat f)) \<le> 10" for f :: u32
    by (rule length_show_nat [of _ 9, simplified]) (rule order_less_trans [OF unsigned_less], simp)
  show ?thesis
    using w d sanitized_path length_show_nat [of 0 0]
    by (simp add: Let_def case_prod_beta dumped_key_def kn_update_def CellKeyNode_default_def Logs_get_string_def Logs_default_def
        format_date_time_def env_xlsx_limits_def compare_ref_defs env_compare.defs get_sequence_num_string_def)
qed

theorem spreadsheet_has_rows_of_table_witness:
  "\<forall>bb. \<exists>wb. WriteXlsx_write env_xlsx_limits 1 2 False (base_parser bb dumped_key) None = Ok wb \<and>
     (1, 1, backslash # ''a'') \<in> set (written (ws_sheet (wb_reg_items wb)))"
proof
  fix bb :: BaseBlock
  let ?p = "base_parser bb dumped_key" and ?rows = "[KeyRow dumped_key]"
  have sh: "length t \<le> 10" if "t \<in> set (sheet_texts env_xlsx_limits (KeyRow dumped_key))" for t
    using dumped_texts_short that by (auto simp: list_all_iff)
  have fits: "list_all fits (sheet_texts env_xlsx_limits (KeyRow dumped_key))"
    using sh by (force simp: list_all_iff fits_def simp del: sheet_texts.simps)
  have "row_fits env_xlsx_limits (KeyRow dumped_key)"
    using fits dumped_texts_short unfolding row_fits.simps by (auto simp: Let_def case_prod_beta)
  then have rf: "\<forall>r\<in>set ?rows. row_fits env_xlsx_limits r" by simp
  have lt: "long_texts env_xlsx_limits ?rows \<le> 65530"
  proof -
    have "filter long (sheet_texts env_xlsx_limits (KeyRow dumped_key)) = []"
      using sh by (force simp: filter_empty_conv long_def simp del: sheet_texts.simps)
    then show ?thesis by (simp add: long_texts_def del: sheet_texts.simps)
  qed
  have l: "[] = log_entries (info (p_state ?p))"
    by (simp add: base_parser_def State_default_def log_entries_def vec_or_default_def Logs_default_def)
  have r: "?rows = concat (map (tsv_rows False) [dumped_key])" by (simp add: dumped_key_rows)
  obtain wb where wb: "WriteXlsx_write env_xlsx_limits 1 2 False ?p None = Ok wb"
    "list_all2 (shows_cell (wb_overflow wb)) (written (ws_sheet (wb_reg_items wb)))
      (row_cells 0 0 sheet_titles @ table_cells env_xlsx_limits 0 ?rows)"
    using spreadsheet_has_rows_of_table [OF limits_sheet.limited_sheet_axioms dumped_key_walk r l _ _ rf _ lt] by auto
  have path: "kn_path (kn dumped_key) = backslash # ''a''" by (simp add: dumped_key_def kn_update_def)
  have "(1, 1, backslash # ''a'') \<in> set (table_cells env_xlsx_limits 0 ?rows)"
    using path by (simp add: Let_def case_prod_beta cell_def sanitized_path)
  with wb(2) obtain x where "x \<in> set (written (ws_sheet (wb_reg_items wb)))"
    "shows_cell (wb_overflow wb) x (1, 1, backslash # ''a'')"
    unfolding list_all2_conv_all_nth by (metis (no_types) in_set_conv_nth set_append UnCI)
  then show "\<exists>wb. WriteXlsx_write env_xlsx_limits 1 2 False ?p None = Ok wb \<and>
     (1, 1, backslash # ''a'') \<in> set (written (ws_sheet (wb_reg_items wb)))"
    using wb(1) by (intro exI [of _ wb]) (auto simp: shows_cell_def)
qed

end
