(* ===== verification/Cli_Tools.thy ===== *)
theory Cli_Tools
  imports Dump_Writers Xlsx_Writer
begin

text \<open>
  The command line tools around the parser: the helpers of \<open>src/src/cli_util.rs\<close>, the dispatch to the
  writers in \<open>src/bin/reg_dump/main.rs\<close> with the line format of \<open>json_writer.rs\<close>, and the processing of files
  and folders in both programs.  The command line is given by the values that the crate \<open>clap\<close> reads from
  it; what a walk through a folder finds (the crate \<open>walkdir\<close>) and the file system are parameters.  A path is its text,
  with the separator of Unix.
\<close>

section \<open>Strings\<close>

definition str_trim :: "string \<Rightarrow> string" where
  "str_trim s =
     (let ws = (\<lambda>c. is_whitespace (code_point c)) in
      concat (rev (dropWhile ws (rev (dropWhile ws (str_chars s))))))"

definition trim_matches :: "char \<Rightarrow> string \<Rightarrow> string" where
  "trim_matches c s = trim_end_char c (trim_start_char c s)"

definition ends_with :: "string \<Rightarrow> string \<Rightarrow> bool" where
  "ends_with s suf \<longleftrightarrow> length suf \<le> length s \<and> drop (length s - length suf) s = suf"

definition parse_paths_step :: "string \<Rightarrow> string \<times> string list \<Rightarrow> string \<times> string list" where
  "parse_paths_step component = (\<lambda>(primary, logs).
     let lower = to_ascii_lowercase (trim_matches (CHR 0x27) (str_trim component)) in
     if ends_with lower ''.log1'' \<or> ends_with lower ''.log2''
     then (primary, logs @ [trim_matches (CHR 0x27) (str_trim component)])
     else (trim_matches (CHR 0x27) (str_trim component), logs))"

definition parse_paths :: "string \<Rightarrow> string \<times> string list option" where
  "parse_paths paths =
     (let (primary, logs) = fold parse_paths_step (split_char (CHR '','') paths) ([], []) in
      if logs = [] then (primary, None) else (primary, Some logs))"

section \<open>Paths\<close>

definition slash :: char where "slash = CHR 0x2F"

definition path_join :: "string \<Rightarrow> string \<Rightarrow> string" where
  "path_join base_folder name =
     (if name \<noteq> [] \<and> hd name = slash then name
      else if base_folder = [] \<or> last base_folder = slash then base_folder @ name
      else base_folder @ slash # name)"

text \<open>The components of a path: empty ones and, behind the first, those that are a dot do not count.\<close>

definition is_absolute :: "string \<Rightarrow> bool" where
  "is_absolute p \<longleftrightarrow> p \<noteq> [] \<and> hd p = slash"

definition path_components :: "string \<Rightarrow> string list" where
  "path_components p =
     (case split_char slash p of
        [] \<Rightarrow> []
      | c # cs \<Rightarrow> (if c = [] then [] else [c]) @ filter (\<lambda>x. x \<noteq> [] \<and> x \<noteq> ''.'') cs)"

definition path_of_components :: "bool \<Rightarrow> string list \<Rightarrow> string" where
  "path_of_components root cs = (if root then [slash] else []) @ join_strings [slash] cs"

text \<open>A path without the separators, and dots behind separators, at its end; it ends with its last component.\<close>

fun strip_rev :: "string \<Rightarrow> string" where
  "strip_rev (x # y # xs) =
     (if x = slash then strip_rev (y # xs) else if x = CHR ''.'' \<and> y = slash then strip_rev (y # xs) else x # y # xs)"
| "strip_rev [x] = (if x = slash then [] else [x])"
| "strip_rev [] = []"

definition strip_end :: "string \<Rightarrow> string" where
  "strip_end p = rev (strip_rev (rev p))"

definition path_parent :: "string \<Rightarrow> string option" where
  "path_parent p =
     (if path_components p = [] then None
      else
        let q = strip_end p;
            r = strip_end (take (length q - length (last (path_components p))) q)
        in Some (if r = [] \<and> is_absolute p then [slash] else r))"

definition path_file_name :: "string \<Rightarrow> string option" where
  "path_file_name p =
     (let cs = path_components p in if cs = [] \<or> last cs \<in> {''.'', ''..''} then None else Some (last cs))"

text \<open>What is behind a folder; a walk joins its entries to the folder with single separators.\<close>

definition strip_prefix :: "string \<Rightarrow> string \<Rightarrow> string option" where
  "strip_prefix p base_folder =
     (let cs = path_components p; bs = path_components base_folder in
      if is_absolute p = is_absolute base_folder \<and> take (length bs) cs = bs
      then Some (path_of_components False (drop (length bs) cs)) else None)"

text \<open>The part of a file name before its last dot, which a leading dot is not.\<close>

definition file_stem :: "string \<Rightarrow> string" where
  "file_stem name = (case rfind_char (CHR ''.'') name of Some i \<Rightarrow> if i = 0 then name else take i name | None \<Rightarrow> name)"

definition set_extension :: "string \<Rightarrow> string \<Rightarrow> string" where
  "set_extension p extension =
     (case path_file_name p of
        None \<Rightarrow> p
      | Some name \<Rightarrow> (let q = strip_end p in take (length q - length name) q @ file_stem name @ ''.'' @ extension))"

section \<open>The files of a hive\<close>

record walk_entry =
  we_path :: string
  we_is_dir :: bool
  we_file_name :: "string option"

record env_cli = env_xlsx +
  fs_is_file :: "string \<Rightarrow> bool"
  fs_metadata_len :: "string \<Rightarrow> string + nat"
  walk_dir :: "string \<Rightarrow> walk_entry list"
  serde_json_key :: "CellKeyNode \<Rightarrow> string option"
  xlsx_workbook_error :: "string \<Rightarrow> string option"

definition get_log_name :: "string \<Rightarrow> string \<Rightarrow> string \<Rightarrow> string" where
  "get_log_name base_folder primary_name extension =
     (let log_name =
        (if primary_name = ''NTUSER.DAT'' then ''ntuser.dat''
         else if primary_name = ''UsrClass.DAT'' then ''UsrClass.dat''
         else primary_name)
      in path_join base_folder log_name @ ''.'' @ extension)"

definition check_add_log :: "'z env_cli_scheme \<Rightarrow> string \<Rightarrow> string \<Rightarrow> string \<Rightarrow> string list \<Rightarrow> string list" where
  "check_add_log N base_folder primary_name extension logs =
     (let log = get_log_name base_folder primary_name extension in if fs_is_file N log then logs @ [log] else logs)"

definition get_log_files :: "'z env_cli_scheme \<Rightarrow> bool \<Rightarrow> string \<Rightarrow> string \<Rightarrow> string list option" where
  "get_log_files N skip_logs f path =
     (if skip_logs then None
      else Some (case path_parent path of
                   Some folder \<Rightarrow> check_add_log N folder f ''LOG2'' (check_add_log N folder f ''LOG1'' [])
                 | None \<Rightarrow> []))"

definition file_has_size :: "'z env_cli_scheme \<Rightarrow> string \<Rightarrow> bool" where
  "file_has_size N path = (case fs_metadata_len N path of Inr len \<Rightarrow> len \<noteq> 0 | Inl _ \<Rightarrow> False)"

definition reg_files :: "string list" where
  "reg_files = [''sam'', ''security'', ''software'', ''system'', ''default'', ''amcache'', ''ntuser.dat'', ''usrclass.dat'']"

text \<open>
  The files a walk is made for.  No letter that is not ASCII becomes one of the letters of the names
  when it is put into lower case, so that the lower case of ASCII decides alike.
\<close>

definition hive_entries :: "'z env_cli_scheme \<Rightarrow> string \<Rightarrow> (string \<times> string) list" where
  "hive_entries N base_folder =
     concat (map (\<lambda>e.
       case we_file_name e of
         None \<Rightarrow> []
       | Some f \<Rightarrow>
           if \<not> we_is_dir e \<and> to_ascii_lowercase f \<in> set reg_files \<and> file_has_size N (we_path e) then [(f, we_path e)] else [])
       (walk_dir N base_folder))"

definition replace_char :: "char \<Rightarrow> char \<Rightarrow> string \<Rightarrow> string" where
  "replace_char a b s = map (\<lambda>c. if c = a then b else c) s"

section \<open>Comparing files and folders\<close>

definition compare_outpath :: "string \<Rightarrow> string \<Rightarrow> bool \<Rightarrow> string" where
  "compare_outpath primary_path_from_base outfolder use_diff_folder =
     set_extension (path_join outfolder (replace_char slash (CHR ''_'') primary_path_from_base))
       (if use_diff_folder then ''diff'' else ''txt'')"

definition process_files ::
  "'z env_cli_scheme \<Rightarrow> nat \<Rightarrow> nat \<Rightarrow> string \<Rightarrow> string \<Rightarrow> string \<Rightarrow> Filter option \<Rightarrow> bool \<Rightarrow> bool \<Rightarrow> string result" where
  "process_files N depth fuel outpath base_file comparison flt use_diff_format skip_logs =
     (case (path_file_name base_file, path_file_name comparison) of
        (Some base_name, Some comparison_name) \<Rightarrow>
          reg_compare N depth fuel outpath base_file (get_log_files N skip_logs base_name base_file)
            comparison (get_log_files N skip_logs comparison_name comparison) flt use_diff_format
      | _ \<Rightarrow> Panic)"

text \<open>
  The comparisons that are made, in order, each with the file it writes and what it returns.  An error is
  shown and the next file is taken; a panic, or a run without end, is the last of the list.
\<close>

primrec until_abort :: "(string \<times> 'a result) list \<Rightarrow> (string \<times> 'a result) list" where
  "until_abort [] = []"
| "until_abort (r # rs) = r # (case snd r of Ok _ \<Rightarrow> until_abort rs | Err _ \<Rightarrow> until_abort rs | Panic \<Rightarrow> [] | Diverge \<Rightarrow> [])"

primrec compare_entries ::
  "'z env_cli_scheme \<Rightarrow> nat \<Rightarrow> nat \<Rightarrow> string \<Rightarrow> string \<Rightarrow> string \<Rightarrow> Filter option \<Rightarrow> bool \<Rightarrow> bool \<Rightarrow>
     (string \<times> string) list \<Rightarrow> (string \<times> string result) list" where
  "compare_entries N depth fuel outfolder base_folder comparison flt use_diff_format skip_logs [] = []"
| "compare_entries N depth fuel outfolder base_folder comparison flt use_diff_format skip_logs (e # es) =
     (case strip_prefix (snd e) base_folder of
        None \<Rightarrow> []
      | Some rel \<Rightarrow>
          let other = path_join comparison rel in
          if fs_is_file N other \<and> file_has_size N other then
            let outpath = compare_outpath rel outfolder use_diff_format in
            [(outpath, reg_compare N depth fuel outpath (snd e) (get_log_files N skip_logs (fst e) (snd e))
                other (get_log_files N skip_logs (fst e) other) flt use_diff_format)]
          else []) @
     compare_entries N depth fuel outfolder base_folder comparison flt use_diff_format skip_logs es"

definition process_folders ::
  "'z env_cli_scheme \<Rightarrow> nat \<Rightarrow> nat \<Rightarrow> string \<Rightarrow> string \<Rightarrow> string \<Rightarrow> Filter option \<Rightarrow> bool \<Rightarrow> bool \<Rightarrow>
     (string \<times> string result) list" where
  "process_folders N depth fuel outfolder base_folder comparison flt use_diff_format skip_logs =
     until_abort (compare_entries N depth fuel outfolder base_folder comparison flt use_diff_format skip_logs
       (hive_entries N base_folder))"

section \<open>Dumping files and folders\<close>

datatype OutputType = Jsonl | Common | Tsv | Xlsx

datatype dump_file = TextFile string | Workbook xlsx_workbook

definition WriteJson_write :: "'z env_cli_scheme \<Rightarrow> nat \<Rightarrow> nat \<Rightarrow> Parser \<Rightarrow> Filter option \<Rightarrow> string result" where
  "WriteJson_write N depth fuel p flt =
     for_keys N depth fuel (new_iter p flt)
       (\<lambda>key out. case serde_json_key N key of Some line \<Rightarrow> writeln N line out | None \<Rightarrow> Panic) []"

definition dump_builder :: "'z env_cli_scheme \<Rightarrow> string \<Rightarrow> string list option \<Rightarrow> bool \<Rightarrow> bool \<Rightarrow> ParserBuilderFromPath" where
  "dump_builder N input logs recover full =
     fold (\<lambda>log. pp_with_transaction_log (fs_open N log)) (vec_or_default logs)
       (pp_get_full_field_info full (pp_recover_deleted recover (pp_update_console True
         (ParserBuilder_from_path (fs_open N input)))))"

definition create_file :: "'z env_cli_scheme \<Rightarrow> string \<Rightarrow> unit result" where
  "create_file N output = (case fs_create_error N output of Some e \<Rightarrow> Err (Error_from_io e) | None \<Rightarrow> Ok ())"

definition create_workbook :: "'z env_cli_scheme \<Rightarrow> string \<Rightarrow> unit result" where
  "create_workbook N output =
     (case xlsx_workbook_error N output of Some e \<Rightarrow> Err (Error_from_xlsx e) | None \<Rightarrow> Ok ())"

definition reg_dump ::
  "'z env_cli_scheme \<Rightarrow> nat \<Rightarrow> nat \<Rightarrow> string \<Rightarrow> string \<Rightarrow> string list option \<Rightarrow> Filter option \<Rightarrow> bool \<Rightarrow> bool \<Rightarrow> bool \<Rightarrow>
     OutputType \<Rightarrow> dump_file result" where
  "reg_dump N depth fuel input output logs flt recover recovered_only full output_type =
     bindO (ParserBuilderFromPath_build N depth fuel (dump_builder N input logs recover full)) (\<lambda>p.
     case output_type of
       Xlsx \<Rightarrow>
         bindO (create_workbook N output) (\<lambda>_.
         bindO (WriteXlsx_write N depth fuel recovered_only p flt) (\<lambda>wb. Ok (Workbook wb)))
     | Tsv \<Rightarrow>
         bindO (create_file N output) (\<lambda>_.
         bindO (WriteTsv_write N depth fuel p flt (WriteTsv_new recovered_only)) (\<lambda>w. Ok (TextFile (wt_writer w))))
     | Common \<Rightarrow>
         bindO (create_file N output) (\<lambda>_.
         bindO (WriteCommon_write N depth fuel p flt) (\<lambda>out. Ok (TextFile out)))
     | Jsonl \<Rightarrow>
         bindO (create_file N output) (\<lambda>_.
         bindO (WriteJson_write N depth fuel p flt) (\<lambda>out. Ok (TextFile out))))"

definition dump_outpath :: "string \<Rightarrow> string \<Rightarrow> OutputType \<Rightarrow> string" where
  "dump_outpath primary_path_from_base outfolder output_type =
     set_extension (path_join outfolder (replace_char slash (CHR ''_'') primary_path_from_base))
       (case output_type of Xlsx \<Rightarrow> ''xlsx'' | Tsv \<Rightarrow> ''tsv'' | Common \<Rightarrow> ''txt'' | Jsonl \<Rightarrow> ''jsonl'')"

definition process_file ::
  "'z env_cli_scheme \<Rightarrow> nat \<Rightarrow> nat \<Rightarrow> string \<Rightarrow> string \<Rightarrow> Filter option \<Rightarrow> bool \<Rightarrow> bool \<Rightarrow> bool \<Rightarrow> bool \<Rightarrow>
     OutputType \<Rightarrow> dump_file result" where
  "process_file N depth fuel outpath input flt recover recovered_only full skip_logs output_type =
     (case path_file_name input of
        Some name \<Rightarrow>
          reg_dump N depth fuel input outpath (get_log_files N skip_logs name input) flt recover recovered_only full output_type
      | None \<Rightarrow> Panic)"

primrec dump_entries ::
  "'z env_cli_scheme \<Rightarrow> nat \<Rightarrow> nat \<Rightarrow> string \<Rightarrow> string \<Rightarrow> Filter option \<Rightarrow> bool \<Rightarrow> bool \<Rightarrow> bool \<Rightarrow> bool \<Rightarrow> OutputType \<Rightarrow>
     (string \<times> string) list \<Rightarrow> (string \<times> dump_file result) list" where
  "dump_entries N depth fuel outfolder base_folder flt recover recovered_only full skip_logs output_type [] = []"
| "dump_entries N depth fuel outfolder base_folder flt recover recovered_only full skip_logs output_type (e # es) =
     (case strip_prefix (snd e) base_folder of
        None \<Rightarrow> []
      | Some rel \<Rightarrow>
          let outpath = dump_outpath rel outfolder output_type in
          [(outpath, reg_dump N depth fuel (snd e) outpath (get_log_files N skip_logs (fst e) (snd e)) flt recover
              recovered_only full output_type)]) @
     dump_entries N depth fuel outfolder base_folder flt recover recovered_only full skip_logs output_type es"

definition process_folder ::
  "'z env_cli_scheme \<Rightarrow> nat \<Rightarrow> nat \<Rightarrow> string \<Rightarrow> string \<Rightarrow> Filter option \<Rightarrow> bool \<Rightarrow> bool \<Rightarrow> bool \<Rightarrow> bool \<Rightarrow> OutputType \<Rightarrow>
     (string \<times> dump_file result) list" where
  "process_folder N depth fuel outfolder base_folder flt recover recovered_only full skip_logs output_type =
     until_abort (dump_entries N depth fuel outfolder base_folder flt recover recovered_only full skip_logs output_type
       (hive_entries N base_folder))"

section \<open>The programs\<close>

text \<open>What the two programs do with the values of their command lines.  The result of a run over a folder is \<open>Ok\<close>.\<close>

definition command_line_filter :: "string option \<Rightarrow> Filter option result" where
  "command_line_filter arg =
     (case arg of
        Some f \<Rightarrow> bindO (FilterBuilder_build (return_child_keys (add_key_path FilterBuilder_new f) True)) (\<lambda>flt. Ok (Some flt))
      | None \<Rightarrow> Ok None)"

record compare_args =
  ca_base :: string
  ca_compare :: string
  ca_output :: string
  ca_diff :: bool
  ca_recurse :: bool
  ca_skip_logs :: bool
  ca_filter :: "string option"

definition compare_main :: "'z env_cli_scheme \<Rightarrow> nat \<Rightarrow> nat \<Rightarrow> compare_args \<Rightarrow> (string \<times> string result) list result" where
  "compare_main N depth fuel args =
     bindO (command_line_filter (ca_filter args)) (\<lambda>flt.
     Ok (if ca_recurse args
         then process_folders N depth fuel (ca_output args) (ca_base args) (ca_compare args) flt (ca_diff args) (ca_skip_logs args)
         else [(ca_output args, process_files N depth fuel (ca_output args) (ca_base args) (ca_compare args) flt
                  (ca_diff args) (ca_skip_logs args))]))"

record dump_args =
  da_input :: string
  da_output :: string
  da_recurse :: bool
  da_recover :: bool
  da_skip_logs :: bool
  da_recovered_only :: bool
  da_full_field_info :: bool
  da_output_type :: OutputType
  da_filter :: "string option"

definition dump_main :: "'z env_cli_scheme \<Rightarrow> nat \<Rightarrow> nat \<Rightarrow> dump_args \<Rightarrow> (string \<times> dump_file result) list result" where
  "dump_main N depth fuel args =
     bindO (command_line_filter (da_filter args)) (\<lambda>flt.
     Ok (if da_recurse args
         then process_folder N depth fuel (da_output args) (da_input args) flt (da_recover args) (da_recovered_only args)
           (da_full_field_info args) (da_skip_logs args) (da_output_type args)
         else [(da_output args, process_file N depth fuel (da_output args) (da_input args) flt (da_recover args)
                  (da_recovered_only args) (da_full_field_info args) (da_skip_logs args) (da_output_type args))]))"

section \<open>Properties\<close>

text \<open>The components of the argument, cleaned; those that name a log and the others.\<close>

definition clean :: "string \<Rightarrow> string" where
  "clean c = trim_matches (CHR 0x27) (str_trim c)"

definition names_log :: "string \<Rightarrow> bool" where
  "names_log c \<longleftrightarrow> ends_with (to_ascii_lowercase c) ''.log1'' \<or> ends_with (to_ascii_lowercase c) ''.log2''"

lemma parse_paths_fold:
  "fold parse_paths_step cs (primary, logs) =
     (if filter (\<lambda>c. \<not> names_log (clean c)) cs = [] then primary else clean (last (filter (\<lambda>c. \<not> names_log (clean c)) cs)),
      logs @ filter names_log (map clean cs))"
  by (induction cs arbitrary: primary logs)
    (auto simp: parse_paths_step_def Let_def names_log_def clean_def)

lemma parse_paths_selects:
  "parse_paths s =
     (let cs = map clean (split_char (CHR '','') s); logs = filter names_log cs; others = filter (\<lambda>c. \<not> names_log c) cs
      in (if others = [] then [] else last others, if logs = [] then None else Some logs))"
  by (simp add: parse_paths_def parse_paths_fold Let_def filter_map comp_def last_map)

text \<open>
  Different files of a folder can be given the same output file, of which only the last dump remains: a
  separator and an underscore are not told apart.
\<close>

lemma outpaths_collide:
  "dump_outpath ''a/b/SAM'' ''out'' Tsv = dump_outpath ''a_b/SAM'' ''out'' Tsv \<and>
   compare_outpath ''a/b/SAM'' ''out'' True = compare_outpath ''a_b/SAM'' ''out'' True"
  by code_simp

text \<open>Folders and file names.\<close>

lemma path_examples:
  "path_parent ''/mnt/d/SYSTEM'' = Some ''/mnt/d''" "path_parent ''/SAM'' = Some ''/''" "path_parent ''SAM'' = Some []"
  "path_parent ''a/./b/'' = Some ''a''" "path_parent ''/'' = None" "path_file_name ''a/SAM/.'' = Some ''SAM''"
  "path_file_name ''a/..'' = None" "set_extension ''out/x_NTUSER.DAT'' ''tsv'' = ''out/x_NTUSER.tsv''"
  "strip_prefix ''/x/a/SAM'' ''/x/'' = Some ''a/SAM''"
  by code_simp+

text \<open>The file names of the logs of the two user hives, and the files that are looked for.\<close>

lemma log_names:
  "get_log_name ''/mnt/d/tmp'' ''NTUSER.DAT'' ''LOG1'' = ''/mnt/d/tmp/ntuser.dat.LOG1''"
  "get_log_name ''/mnt/d/tmp'' ''UsrClass.DAT'' ''LOG2'' = ''/mnt/d/tmp/UsrClass.dat.LOG2''"
  "get_log_name ''/mnt/d/tmp'' ''SYSTEM'' ''LOG2'' = ''/mnt/d/tmp/SYSTEM.LOG2''"
  by code_simp+

lemma log_files_exist:
  "get_log_files N False f path = Some logs \<Longrightarrow> path_parent path = Some folder \<Longrightarrow>
     logs = filter (fs_is_file N) [get_log_name folder f ''LOG1'', get_log_name folder f ''LOG2'']"
  by (auto simp: get_log_files_def check_add_log_def Let_def)

text \<open>A run over a folder writes one file for each hive of the walk, in order, as long as none aborts.\<close>

definition aborts :: "'a result \<Rightarrow> bool" where
  "aborts r \<longleftrightarrow> r = Panic \<or> r = Diverge"

lemma until_abort_all: "list_all (\<lambda>r. \<not> aborts (snd r)) rs \<Longrightarrow> until_abort rs = rs"
  by (induction rs) (auto simp: aborts_def split: outcome.splits)

lemma until_abort_prefix: "\<exists>us. rs = until_abort rs @ us \<and> (us \<noteq> [] \<longrightarrow> until_abort rs \<noteq> [] \<and> aborts (snd (last (until_abort rs))))"
proof (induction rs)
  case (Cons r rs)
  then obtain us where "rs = until_abort rs @ us" "us \<noteq> [] \<longrightarrow> until_abort rs \<noteq> [] \<and> aborts (snd (last (until_abort rs)))"
    by blast
  then show ?case by (cases "snd r") (auto simp: aborts_def)
qed simp

lemma dump_entries_files:
  "list_all (\<lambda>e. strip_prefix (snd e) base_folder \<noteq> None) es \<Longrightarrow>
     map fst (dump_entries N depth fuel outfolder base_folder flt recover recovered_only full skip_logs output_type es) =
     map (\<lambda>e. dump_outpath (the (strip_prefix (snd e) base_folder)) outfolder output_type) es"
  by (induction es) (auto simp: Let_def)

text \<open>The filter of a command line needs no regular expression and is always made.\<close>

lemma command_line_filter_total: "\<exists>flt. command_line_filter arg = Ok flt \<and> (flt = None \<longleftrightarrow> arg = None)"
  by (cases arg)
    (auto simp: command_line_filter_def FilterBuilder_build_def return_child_keys_def add_key_path_def FilterBuilder_new_def)

end
