(* ===== verification/Field_Serializers.thy ===== *)
theory Field_Serializers
  imports Output
begin

text \<open>
  The serializers of single fields (\<open>src/src/field_serializers.rs\<close>) and the form in which a value is
  serialized (the end of \<open>src/src/cell_key_value.rs\<close>).  A serializer of the crate \<open>serde\<close> is given a struct with
  its name and the number of its fields first, and then field by field; the model is what it is given.
\<close>

section \<open>Structs as a serializer is given them\<close>

datatype ser_value = SNum nat | SStr string

record ser_struct =
  ss_name :: string
  ss_len :: usize
  ss_fields :: "(string \<times> ser_value) list"

definition field_data_as_hex :: "bytes \<Rightarrow> ser_value" where
  "field_data_as_hex x = SStr (to_hex_string x)"

fun get_field_full :: "'a Field \<Rightarrow> 'a FieldFull option" where
  "get_field_full (Full f) = FieldFull_get_field_full f"
| "get_field_full (Light f) = FieldLight_get_field_full f"

definition get_field_count :: "'a Field \<Rightarrow> usize" where
  "get_field_count x = (case get_field_full x of Some _ \<Rightarrow> 4 | None \<Rightarrow> 2)"

definition get_field_count_with_logs :: "'a Field \<Rightarrow> Logs \<Rightarrow> usize" where
  "get_field_count_with_logs x logs = get_field_count x + (if Logs_has_logs logs then 1 else 0)"

definition serialize_base_field :: "('a \<Rightarrow> ser_value) \<Rightarrow> 'a Field \<Rightarrow> (string \<times> ser_value) list" where
  "serialize_base_field ser x =
     (case get_field_full x of
        Some full \<Rightarrow>
          [(''value'', ser (ff_value full)), (''offset'', SNum (ff_offset full)), (''len'', SNum (unat (ff_len full)))]
      | None \<Rightarrow> [(''value'', ser (field_value x))])"

definition field_last_key_written_date_and_time_interpreted :: "'z env_out_scheme \<Rightarrow> u64 Field \<Rightarrow> ser_struct" where
  "field_last_key_written_date_and_time_interpreted N x =
     \<lparr>ss_name = ''last_key_written_date_and_time'', ss_len = get_field_count x,
      ss_fields = serialize_base_field (\<lambda>v. SNum (unat v)) x @
        [(''interpreted'', SStr (format_date_time N (get_date_time_from_filetime (field_value x))))]\<rparr>"

definition field_key_node_flag_bits_interpreted :: "'z env_out_scheme \<Rightarrow> u16 Field \<Rightarrow> ser_struct" where
  "field_key_node_flag_bits_interpreted N x =
     (let (flags, logs) = KeyNodeFlags_from_bits_checked (field_value x) Logs_default in
      \<lparr>ss_name = ''key_node_flag_bits'', ss_len = get_field_count_with_logs x logs,
       ss_fields = serialize_base_field (\<lambda>v. SNum (unat v)) x @
         (''interpreted'', SStr (fmt_key_node_flags N flags)) #
         (if Logs_has_logs logs then [(''logs'', SStr (Logs_get_string logs))] else [])\<rparr>)"

definition field_acccess_flag_bits_interpreted :: "'z env_out_scheme \<Rightarrow> u32 Field \<Rightarrow> ser_struct" where
  "field_acccess_flag_bits_interpreted N x =
     (let (flags, logs) = AccessFlags_from_bits_checked (field_value x) Logs_default in
      \<lparr>ss_name = ''access_flag_bits'', ss_len = get_field_count_with_logs x logs,
       ss_fields = serialize_base_field (\<lambda>v. SNum (unat v)) x @
         (''interpreted'', SStr (fmt_access_flags N flags)) #
         (if Logs_has_logs logs then [(''logs'', SStr (Logs_get_string logs))] else [])\<rparr>)"

definition field_value_name_interpreted :: "string Field \<Rightarrow> ser_struct" where
  "field_value_name_interpreted x =
     \<lparr>ss_name = ''value_name'', ss_len = get_field_count x,
      ss_fields = serialize_base_field SStr x @ [(''interpreted'', SStr (get_pretty_name (field_value x)))]\<rparr>"

section \<open>Values\<close>

record CellKeyValueForSerialization =
  kvs_file_offset_absolute :: usize
  kvs_detail :: CellKeyValueDetail
  kvs_data_type :: CellKeyValueDataTypes
  kvs_flags :: u16
  kvs_value_name :: string
  kvs_cell_parse_warnings :: Logs
  kvs_sequence_num :: "u32 option"
  kvs_updated_by_sequence_num :: "u32 option"
  kvs_data_offsets_absolute :: "usize list"
  kvs_state :: CellState
  kvs_value :: CellValue
  kvs_value_parse_warnings :: "Logs option"
  kvs_versions :: "CellKeyValue list"

definition CellKeyValueForSerialization_from :: "CellKeyValue \<Rightarrow> CellKeyValueForSerialization result" where
  "CellKeyValueForSerialization_from other =
     bindO (CellKeyValue_get_content other) (\<lambda>(value, value_parse_warnings).
     Ok \<lparr>kvs_file_offset_absolute = kv_file_offset_absolute (kv other), kvs_detail = kv_detail (kv other),
         kvs_data_type = kv_data_type (kv other), kvs_flags = kv_flags (kv other),
         kvs_value_name = CellKeyValue_get_pretty_name other, kvs_cell_parse_warnings = kv_logs (kv other),
         kvs_sequence_num = kv_sequence_num (kv other), kvs_updated_by_sequence_num = kv_updated_by_sequence_num (kv other),
         kvs_data_offsets_absolute = kv_data_offsets_absolute (kv other), kvs_state = kv_cell_state (kv other),
         kvs_value = value, kvs_value_parse_warnings = value_parse_warnings, kvs_versions = kv_versions other\<rparr>)"

section \<open>Properties\<close>

text \<open>A struct is announced with the number of the fields that follow, no two of them with one name.\<close>

definition announced :: "ser_struct \<Rightarrow> bool" where
  "announced s \<longleftrightarrow> ss_len s = length (ss_fields s) \<and> distinct (map fst (ss_fields s))"

lemma base_field_count: "length (serialize_base_field ser x) + 1 = get_field_count x"
  by (simp add: serialize_base_field_def get_field_count_def split: option.splits)

lemma base_field_names: "set (map fst (serialize_base_field ser x)) \<subseteq> {''value'', ''offset'', ''len''}"
  "distinct (map fst (serialize_base_field ser x))"
  by (auto simp: serialize_base_field_def split: option.splits)

lemma announced_with:
  assumes "ss_fields s = serialize_base_field ser x @ rest" and "ss_len s + 1 = get_field_count x + length rest"
    and "distinct (map fst rest)" and "set (map fst rest) \<inter> {''value'', ''offset'', ''len''} = {}"
  shows "announced s"
proof -
  have "set (map fst (serialize_base_field ser x)) \<inter> set (map fst rest) = {}"
    using base_field_names(1) [of ser x] assms(4) by blast
  then show ?thesis
    using assms base_field_count [of ser x] base_field_names(2) [of ser x] by (simp add: announced_def)
qed

lemmas serializer_defs =
  field_last_key_written_date_and_time_interpreted_def field_value_name_interpreted_def
  field_key_node_flag_bits_interpreted_def field_acccess_flag_bits_interpreted_def
  get_field_count_with_logs_def case_prod_beta Let_def

lemma date_is_announced: "announced (field_last_key_written_date_and_time_interpreted N t)"
  by (rule announced_with [where ser = "\<lambda>v. SNum (unat v)" and x = t], simp add: serializer_defs)
    (auto simp: serializer_defs)

lemma name_is_announced: "announced (field_value_name_interpreted n)"
  by (rule announced_with [where ser = SStr and x = n], simp add: serializer_defs) (auto simp: serializer_defs)

lemma key_flags_are_announced: "announced (field_key_node_flag_bits_interpreted N f)"
  by (rule announced_with [where ser = "\<lambda>v. SNum (unat v)" and x = f], simp add: serializer_defs)
    (auto simp: serializer_defs)

lemma access_flags_are_announced: "announced (field_acccess_flag_bits_interpreted N a)"
  by (rule announced_with [where ser = "\<lambda>v. SNum (unat v)" and x = a], simp add: serializer_defs)
    (auto simp: serializer_defs)

lemma serialization_total: "\<exists>s. CellKeyValueForSerialization_from v = Ok s \<and> kvs_versions s = kv_versions v"
  using get_content_total [of v] by (auto simp: CellKeyValueForSerialization_from_def)

end
