(* ===== verification/Progress.thy ===== *)
theory Progress
  imports Diagnostics
begin

text \<open>
  The progress on the console (\<open>src/src/progress.rs\<close>).  The standard output is the list of what was done to
  it, each of which may fail.  The other theories leave out the calls of this component: they have no
  influence on what is read or written, except that a console that fails ends the run with its error.
\<close>

section \<open>The console\<close>

datatype console_op = Write_all string | SavePosition | RestorePosition | Flush

record UpdateConsole =
  need_final_newline :: bool
  stdout :: "console_op list"

datatype UpdateProgress = Console UpdateConsole | UpdateNull

type_synonym stdout_error = "console_op list \<Rightarrow> console_op \<Rightarrow> string option"

definition progress_new :: "bool \<Rightarrow> console_op list \<Rightarrow> UpdateProgress" where
  "progress_new update_console out =
     (if update_console then Console \<lparr>need_final_newline = False, stdout = out\<rparr> else UpdateNull)"

text \<open>The commands in order, up to the first that fails; what was done before it is done.\<close>

primrec console_do :: "stdout_error \<Rightarrow> console_op list \<Rightarrow> UpdateConsole \<Rightarrow> unit result \<times> UpdateConsole" where
  "console_do E [] c = (Ok (), c)"
| "console_do E (cmd # cmds) c =
     (case E (stdout c) cmd of
        Some e \<Rightarrow> (Err (Error_from_io e), c)
      | None \<Rightarrow> console_do E cmds (c\<lparr>stdout := stdout c @ [cmd]\<rparr>))"

fun update_progress :: "stdout_error \<Rightarrow> nat \<Rightarrow> UpdateProgress \<Rightarrow> unit result \<times> UpdateProgress" where
  "update_progress E index (Console c) =
     (if index mod 1000 = 0
      then let (r, c) = console_do E [Write_all ''.'', Flush] c in (r, Console c)
      else (Ok (), Console c))"
| "update_progress E index UpdateNull = (Ok (), UpdateNull)"

fun progress_update :: "stdout_error \<Rightarrow> string \<Rightarrow> UpdateProgress \<Rightarrow> unit result \<times> UpdateProgress" where
  "progress_update E msg (Console c) =
     (case console_do E [SavePosition, Write_all msg, RestorePosition, Flush] c of
        (Ok _, c) \<Rightarrow> (Ok (), Console (c\<lparr>need_final_newline := True\<rparr>))
      | (r, c) \<Rightarrow> (r, Console c))"
| "progress_update E msg UpdateNull = (Ok (), UpdateNull)"

fun progress_write :: "stdout_error \<Rightarrow> string \<Rightarrow> UpdateProgress \<Rightarrow> unit result \<times> UpdateProgress" where
  "progress_write E msg (Console c) = (let (r, c) = console_do E [Write_all msg, Flush] c in (r, Console c))"
| "progress_write E msg UpdateNull = (Ok (), UpdateNull)"

text \<open>What is on the console after the object is dropped; errors are passed over one by one.\<close>

definition console_try :: "stdout_error \<Rightarrow> console_op \<Rightarrow> UpdateConsole \<Rightarrow> UpdateConsole" where
  "console_try E cmd c = snd (console_do E [cmd] c)"

definition UpdateConsole_drop :: "stdout_error \<Rightarrow> UpdateConsole \<Rightarrow> UpdateConsole" where
  "UpdateConsole_drop E c =
     (if need_final_newline c then console_try E Flush (console_try E (Write_all [CHR 10]) c) else c)"

section \<open>Properties\<close>

lemma console_do_Ok: "(\<And>out cmd. E out cmd = None) \<Longrightarrow> console_do E cmds c = (Ok (), c\<lparr>stdout := stdout c @ cmds\<rparr>)"
  by (induction cmds arbitrary: c) simp_all

text \<open>Nothing that is on the console is taken back, and what is added are the commands up to the first that fails.\<close>

lemma console_keeps:
  "\<exists>don todo. cmds = don @ todo \<and> stdout (snd (console_do E cmds c)) = stdout c @ don \<and>
     (fst (console_do E cmds c) = Ok () \<longleftrightarrow> todo = [])"
proof (induction cmds arbitrary: c)
  case (Cons cmd cmds)
  show ?case
  proof (cases "E (stdout c) cmd")
    case None
    from Cons [of "c\<lparr>stdout := stdout c @ [cmd]\<rparr>"] obtain don todo where
      "cmds = don @ todo" "stdout (snd (console_do E (cmd # cmds) c)) = stdout c @ cmd # don"
      "fst (console_do E (cmd # cmds) c) = Ok () \<longleftrightarrow> todo = []"
      using None by auto
    then show ?thesis by (intro exI [of _ "cmd # don"] exI [of _ todo]) simp
  qed simp
qed simp

text \<open>Every loop over keys prints one dot for a thousand keys begun.\<close>

lemma thousands: "(Suc n + 999) div 1000 = (if n mod 1000 = 0 then Suc ((n + 999) div 1000) else (n + 999) div 1000)"
proof -
  define q r where "q = n div 1000" and "r = n mod 1000"
  then have n: "n = 1000 * q + r" and r: "r < 1000" by simp_all
  have "(n + 999) div 1000 = q + (r + 999) div 1000" by (simp add: n add.assoc)
  also have "(r + 999) div 1000 = (if r = 0 then 0 else 1)"
    using r by (auto intro: div_nat_eqI)
  finally have "(n + 999) div 1000 = q + (if r = 0 then 0 else 1)" .
  moreover have "(Suc n + 999) div 1000 = Suc q" using div_add_self2 [of 1000 n] by (simp add: q_def)
  ultimately show ?thesis by (simp add: r_def)
qed

lemma dots_printed:
  assumes "\<And>out cmd. E out cmd = None"
  shows "fold (\<lambda>i p. snd (update_progress E i p)) [0..<n] (Console c) =
     Console (c\<lparr>stdout := stdout c @ concat (replicate ((n + 999) div 1000) [Write_all ''.'', Flush])\<rparr>)"
proof (induction n)
  case (Suc n)
  have *: "concat (replicate (Suc k) xs) = concat (replicate k xs) @ xs" for k and xs :: "console_op list"
    by (induction k) simp_all
  show ?case unfolding thousands
    by (simp del: replicate.simps add: Suc console_do_Ok [OF assms] *)
qed simp

end
