(* ===== verification/Spec2Isabelle.thy ===== *)
theory Spec2Isabelle
  imports Python_Facts Diff_Facts Xlsx_Facts Cli_Tools Field_Serializers Progress
begin

text \<open>
  A verification of \<^emph>\<open>notatin\<close>, a parser of offline Windows registry hives
  written in Rust (the crate is \<open>src/src\<close>).

  \<^bold>\<open>The program.\<close>  A hive is a base block of 4096 bytes and hive bins that hold cells: keys
  (\<open>nk\<close>), values (\<open>vk\<close>), security descriptors (\<open>sk\<close>), lists of sub keys (\<open>lf\<close>, \<open>lh\<close>, \<open>li\<close>, \<open>ri\<close>) and
  data.  A builder (\<open>parser_builder.rs\<close>) reads the primary file and its transaction logs and makes a
  parser (\<open>parser.rs\<close>).  The parser checks the base block, looks for deleted items in free cells and in
  slack (\<open>parser_recover_deleted.rs\<close>), applies the entries of the logs to the file in memory and compares
  the trees of keys before and after each entry (\<open>transaction_log.rs\<close>), and then gives access to the keys
  by iteration in preorder or postorder, with filters (\<open>filter.rs\<close>), and by path.  Modified and deleted
  items stand in maps of the state (\<open>state.rs\<close>) and are attached to the keys when these are read
  (\<open>cell_key_node.rs\<close>).  Two programs use the crate: \<open>reg_compare\<close> (\<open>src/bin/reg_compare.rs\<close>) compares two hives and
  writes a text or a unified diff; \<open>reg_dump\<close> (\<open>src/bin/reg_dump\<close>) writes the items of a hive as a table, a
  spreadsheet, lines of JSON or in a common export format.  \<open>src/pynotatin\<close> makes the crate a module of Python.

  \<^bold>\<open>Conventions.\<close>  A function that may fail gives an \<open>outcome\<close>: \<open>Ok\<close>, \<open>Err\<close>, \<open>Panic\<close> (an index out of
  range, \<open>unwrap\<close>, \<open>expect\<close>, an overflow in a build with overflow checks) or \<open>Diverge\<close> (the fuel of a loop or
  of a recursion is used up).  A method that changes its object gives the changed object back.  Words
  have the width they have in the code and wrap around; lengths and offsets (\<open>usize\<close>) are natural numbers,
  with the overflow written out where it can occur.  Third-party crates are fields of the
  record \<open>env\<close>, the first argument \<open>N\<close> of the definitions that use them: the parser combinators of nom,
  the hash blake3, regular expressions, GUIDs, security descriptors; so are the unspecified order of a
  \<open>HashMap\<close>, derived \<open>Debug\<close> texts, the formats of dates, spreadsheets and the file system of the programs.  The
  record grows with the components (\<open>env\<close>, \<open>env_cell\<close>, \<open>env_list\<close>, \<open>env_log\<close>, \<open>env_apply\<close>, \<open>env_out\<close>, \<open>env_compare\<close>,
  \<open>env_xlsx\<close>, \<open>env_cli\<close>).  What is documented of them is assumed in the locales
  \<open>nom_spec\<close>, \<open>nom_cell_spec\<close>, \<open>nom_list_spec\<close>, \<open>nom_log_spec\<close> and \<open>nom_apply_spec\<close>, each extending the one
  before, and each is interpreted on a reference environment; \<open>reliable_output\<close>, \<open>hash_map_order\<close>,
  \<open>limited_sheet\<close> (calls within the documented limits of a worksheet succeed) and \<open>reliable_sheet\<close> (no call fails) do
  the same for output, for the order of a \<open>HashMap\<close> and for worksheets.  Files are given by the bytes that reading
  them gives, or the message of the error.

  \<^bold>\<open>The theories.\<close>
  \<^item> \<open>Rust_Prelude\<close>: outcomes with the predicates \<open>safe\<close> (no panic, ends) and \<open>ensures\<close> (a postcondition
    of \<open>Ok\<close>), slices, words and their bytes, strings.
  \<^item> \<open>Externals\<close>: the environment and the documented behaviour of nom.
  \<^item> \<open>Diagnostics\<close> (\<open>err.rs\<close>, \<open>log.rs\<close>): errors and lists of warnings.
  \<^item> \<open>Util\<close> (\<open>util.rs\<close>): UTF-16, LZNT1, dates, escaping; decoders read back what encoders write, LZNT1 copies
    only bytes already written.
  \<^item> \<open>Marvin32\<close> (\<open>marvin32.rs\<close>): the indexed hash equals a reference that absorbs words.
  \<^item> \<open>Hive_File\<close>, \<open>Base_Block\<close> (\<open>file_info.rs\<close>, \<open>hive_bin_header.rs\<close>, \<open>cell.rs\<close>, \<open>base_block.rs\<close>, \<open>macros.rs\<close>):
    headers, signatures and the checksum.
  \<^item> \<open>Sub_Key_Lists\<close> (\<open>hive_bin_cell.rs\<close>, \<open>sub_key_list_*.rs\<close>): the lists as a locale with four
    interpretations; reading a list refines the inductive relation \<open>sub_keys\<close>.
  \<^item> \<open>Cell_Fields\<close>, \<open>Cell_Values\<close>, \<open>Key_Values\<close>, \<open>Key_Security\<close> (\<open>field_offset_len.rs\<close>, \<open>cell_value.rs\<close>,
    \<open>cell_key_value.rs\<close>, \<open>cell_big_data.rs\<close>, \<open>cell_key_security.rs\<close>): value cells and big data are read back with
    every field; the ring of security cells is the one the forward links in the bytes make (\<open>sk_path\<close>).
  \<^item> \<open>Reg_Filter\<close> (\<open>filter.rs\<close>): a filter matches the paths of its segments and cuts off no ancestor of them.
  \<^item> \<open>Parser_State\<close> (\<open>state.rs\<close>, \<open>reg_item_map.rs\<close>): key data and the maps of the state, with the contract of
    a multimap.
  \<^item> \<open>Key_Nodes\<close>, \<open>Key_Node_Facts\<close> (\<open>cell_key_node.rs\<close>): reading keys; a key cell is read back with
    every field, and reading does not panic on any bytes.
  \<^item> \<open>Log_Entries\<close> (first half of \<open>transaction_log.rs\<close>): the format and the hashes of log entries, the order
    of the logs.
  \<^item> \<open>Parser_Core\<close>, \<open>Header_Facts\<close>, \<open>Key_Walk\<close>, \<open>Key_Order\<close> (\<open>parser.rs\<close>): the base block is checked and repaired
    correctly; every iteration ends, whatever cycles the file has; no allocated key is returned twice; on
    a tree of keys the iterations return its preorder and postorder (\<open>key_tree\<close>, \<open>preorder_of\<close>, \<open>postorder_of\<close>).
  \<^item> \<open>Recover_Deleted\<close>, \<open>Recovery_Facts\<close> (\<open>parser_recover_deleted.rs\<close>): the recovery ends without a panic on every
    file, finds every free key and value the cell sizes lead to, and only adds items marked as deleted and
    warnings.
  \<^item> \<open>Apply_Logs\<close>, \<open>Log_Facts\<close> (second half of \<open>transaction_log.rs\<close>, \<open>parser.rs\<close>, \<open>parser_builder.rs\<close>): which bytes the
    dirty pages change, which entries are applied (the specification is \<open>applicable\<close> with \<open>apply_entries\<close>),
    how the items of the new tree are sorted, what becomes of values that are gone.
  \<^item> \<open>Build_Facts\<close>: what holds of every parser that a builder has made, and a small hive for the witnesses.
  \<^item> \<open>Key_Lookup\<close> (\<open>parser.rs\<close>, \<open>cell_key_node.rs\<close>): finding a key by its path refines the lookup of the names in the
    tree of keys (\<open>lookup\<close>).
  \<^item> \<open>Output\<close>: lines, printed dates and contents (\<open>format_date_time\<close> of \<open>util.rs\<close>, \<open>Display\<close> of \<open>cell_value.rs\<close>) and loops
    over the keys of a parser.
  \<^item> \<open>Reg_Compare\<close>, \<open>Compare_Facts\<close>, \<open>Compare_Trees\<close>, \<open>Diff_Facts\<close> (\<open>reg_compare.rs\<close>): the comparison divides the items
    of two hives that are trees into added, modified, deleted and equal ones (\<open>plain_hive\<close> says which hives these
    are); a reader of unified diffs gets the differences back.
  \<^item> \<open>Dump_Writers\<close>, \<open>Dump_Facts\<close> (\<open>tsv_writer.rs\<close>, \<open>common_writer.rs\<close>): the table is read back cell by cell; the totals of
    the common format count its lines.
  \<^item> \<open>Xlsx_Writer\<close>, \<open>Xlsx_Facts\<close> (\<open>xlsx_writer.rs\<close>): the spreadsheet has all cells of the table (\<open>table_cells\<close>) within
    the limits of the library, no long text is cut without its whole being in the overflow sheet, and sanitized
    texts are legal in XML.
  \<^item> \<open>Cli_Tools\<close> (\<open>cli_util.rs\<close>, \<open>reg_dump/main.rs\<close>, \<open>json_writer.rs\<close>, the rest of \<open>reg_compare.rs\<close>): the two programs behind
    their command lines, for files and for folders.
  \<^item> \<open>Field_Serializers\<close> (\<open>field_serializers.rs\<close>): what serializers are given for single fields.
  \<^item> \<open>Progress\<close> (\<open>progress.rs\<close>): the progress on the console.
  \<^item> \<open>Python_Bindings\<close>, \<open>Python_Facts\<close> (\<open>src/pynotatin/src\<close>): the classes of the Python module.  Contents have the type that
    the data type asks for, dates are rounded to microseconds, loops and lookups give what the crate gives.

  \<^bold>\<open>Fuel.\<close>  Loops and recursions that follow references of the file take fuel.  \<open>every_iteration_ends\<close> and
  \<open>recovery_ends\<close> show that enough fuel exists (for the recovery: more than the lengths of the file and of
  the hive bins); \<open>self_referential_ri_never_returns\<close> and \<open>security_loop_off_ring_never_returns\<close> show where
  none is enough, because the code itself does not end.

  \<^bold>\<open>Not modelled.\<close>  The calls of \<open>progress.rs\<close> inside the other components (a failing console ends a run with
  an error; nothing else depends on them), the parsing of command lines by \<open>clap\<close>, the internals of
  the crates that write JSON and spreadsheets and walk through folders, the Python interpreter behind the
  bindings (a parameter: which objects can be made, which files it opens) and the benchmarks.
\<close>

end
